(* ===== verification/PyText.thy ===== *)
theory PyText
  imports Prelude "HOL-Library.Char_ord" "HOL-Library.List_Lexorder" "HOL-Library.Product_Lexorder"
begin

text \<open>
  The string operations of Python's standard library that the modelled code uses, on ASCII
  text: \<open>strip\<close>, \<open>lower\<close>, \<open>upper\<close>, \<open>split\<close>, \<open>join\<close>, \<open>isalpha\<close>, \<open>in\<close>, \<open>endswith\<close>,
  \<open>rsplit\<close>, and the decimal rendering of an integer.  Strings are ordered lexicographically
  by character code, as Python orders them (\<open>List_Lexorder\<close>, \<open>Char_ord\<close>), and tuples
  lexicographically (\<open>Product_Lexorder\<close>), so the code's sort keys are HOL tuples.
\<close>

section \<open>Case and white space\<close>

definition upper_letters :: string where
  "upper_letters = ''ABCDEFGHIJKLMNOPQRSTUVWXYZ''"

definition lower_letters :: string where
  "lower_letters = ''abcdefghijklmnopqrstuvwxyz''"

definition lower_char :: "char \<Rightarrow> char" where
  "lower_char c = (case map_of (zip upper_letters lower_letters) c of Some d \<Rightarrow> d | None \<Rightarrow> c)"

definition upper_char :: "char \<Rightarrow> char" where
  "upper_char c = (case map_of (zip lower_letters upper_letters) c of Some d \<Rightarrow> d | None \<Rightarrow> c)"

definition lower :: "string \<Rightarrow> string" where "lower = map lower_char"
definition upper :: "string \<Rightarrow> string" where "upper = map upper_char"

definition is_letter :: "char \<Rightarrow> bool" where
  "is_letter c \<longleftrightarrow> c \<in> set upper_letters \<or> c \<in> set lower_letters"

text \<open>\<open>s.isalpha()\<close>: false on the empty string.\<close>

definition isalpha :: "string \<Rightarrow> bool" where
  "isalpha s \<longleftrightarrow> s \<noteq> [] \<and> list_all is_letter s"

definition py_space :: "char \<Rightarrow> bool" where
  "py_space c \<longleftrightarrow> c \<in> set [CHR 0x09, CHR 0x0A, CHR 0x0B, CHR 0x0C, CHR 0x0D,
     CHR 0x1C, CHR 0x1D, CHR 0x1E, CHR 0x1F, CHR 0x20]"

definition strip :: "string \<Rightarrow> string" where
  "strip s = rev (dropWhile py_space (rev (dropWhile py_space s)))"

lemma letters_disjoint: "set upper_letters \<inter> set lower_letters = {}"
  by (simp add: upper_letters_def lower_letters_def)

lemma letters_length: "length upper_letters = 26" "length lower_letters = 26"
  by (simp_all add: upper_letters_def lower_letters_def)

lemma lower_char_idem [simp]: "lower_char (lower_char c) = lower_char c"
proof (cases "map_of (zip upper_letters lower_letters) c")
  case (Some d)
  then have "d \<in> set lower_letters" by (auto dest: map_of_SomeD set_zip_rightD)
  then have "map_of (zip upper_letters lower_letters) d = None"
    using letters_disjoint by (auto simp: letters_length map_of_zip_is_None)
  with Some show ?thesis by (simp add: lower_char_def)
qed (simp add: lower_char_def)

lemma upper_char_idem [simp]: "upper_char (upper_char c) = upper_char c"
proof (cases "map_of (zip lower_letters upper_letters) c")
  case (Some d)
  then have "d \<in> set upper_letters" by (auto dest: map_of_SomeD set_zip_rightD)
  then have "map_of (zip lower_letters upper_letters) d = None"
    using letters_disjoint by (auto simp: letters_length map_of_zip_is_None)
  with Some show ?thesis by (simp add: upper_char_def)
qed (simp add: upper_char_def)

lemma lower_idem [simp]: "lower (lower s) = lower s"
  by (simp add: lower_def)

lemma upper_idem [simp]: "upper (upper s) = upper s"
  by (simp add: upper_def)

lemma length_upper [simp]: "length (upper s) = length s"
  by (simp add: upper_def)

lemma length_lower [simp]: "length (lower s) = length s"
  by (simp add: lower_def)

lemma dropWhile_idle: "xs = [] \<or> \<not> P (hd xs) \<Longrightarrow> dropWhile P xs = xs"
  by (cases xs) auto

lemma hd_dropWhile_not: "dropWhile P xs \<noteq> [] \<Longrightarrow> \<not> P (hd (dropWhile P xs))"
  by (rule hd_dropWhile)

lemma strip_trim: "strip s = [] \<or> (\<not> py_space (hd (strip s)) \<and> \<not> py_space (last (strip s)))"
proof (cases "strip s = []")
  case False
  let ?t = "dropWhile py_space s"
  let ?u = "dropWhile py_space (rev ?t)"
  have u: "strip s = rev ?u" by (simp add: strip_def)
  from False u have "?u \<noteq> []" by simp
  then have "\<not> py_space (hd ?u)" by (rule hd_dropWhile)
  then have last: "\<not> py_space (last (strip s))"
    using u \<open>?u \<noteq> []\<close> by (simp add: last_rev)
  obtain p where p: "rev ?t = p @ ?u"
    by (metis takeWhile_dropWhile_id)
  then have t: "?t = rev ?u @ rev p" by (metis rev_append rev_rev_ident)
  with \<open>?u \<noteq> []\<close> have "?t \<noteq> []" by (metis Nil_is_append_conv Nil_is_rev_conv)
  then have "\<not> py_space (hd ?t)" by (rule hd_dropWhile)
  then have "\<not> py_space (hd (strip s))"
    using t u \<open>?u \<noteq> []\<close> by (metis Nil_is_rev_conv hd_append)
  with last show ?thesis by simp
qed simp

lemma strip_idem [simp]: "strip (strip s) = strip s"
proof -
  let ?r = "strip s"
  from strip_trim [of s] have 1: "dropWhile py_space ?r = ?r"
    by (intro dropWhile_idle) blast
  from strip_trim [of s] have "rev ?r = [] \<or> \<not> py_space (hd (rev ?r))"
    by (auto simp: hd_rev)
  then have "dropWhile py_space (rev ?r) = rev ?r" by (rule dropWhile_idle)
  with 1 show ?thesis by (metis rev_rev_ident strip_def)
qed

section \<open>Searching\<close>

definition startswith :: "string \<Rightarrow> string \<Rightarrow> bool" where
  "startswith p s \<longleftrightarrow> take (length p) s = p"

definition endswith :: "string \<Rightarrow> string \<Rightarrow> bool" where
  "endswith p s \<longleftrightarrow> startswith (rev p) (rev s)"

text \<open>\<open>p in s\<close>.\<close>

fun contains :: "string \<Rightarrow> string \<Rightarrow> bool" where
  "contains p [] \<longleftrightarrow> p = []"
| "contains p (c # s) \<longleftrightarrow> startswith p (c # s) \<or> contains p s"

lemma startswith_iff: "startswith p s \<longleftrightarrow> (\<exists>t. s = p @ t)"
  unfolding startswith_def by (metis append_eq_conv_conj append_take_drop_id)

lemma contains_iff: "contains p s \<longleftrightarrow> (\<exists>a b. s = a @ p @ b)"
proof (induction s)
  case (Cons c s)
  show ?case
  proof
    assume "contains p (c # s)"
    then consider "startswith p (c # s)" | "contains p s" by auto
    then show "\<exists>a b. c # s = a @ p @ b"
    proof cases
      case 1
      then show ?thesis by (metis append_Nil startswith_iff)
    next
      case 2
      then show ?thesis using Cons.IH by (metis append_Cons)
    qed
  next
    assume "\<exists>a b. c # s = a @ p @ b"
    then obtain a b where ab: "c # s = a @ p @ b" by blast
    show "contains p (c # s)"
    proof (cases a)
      case Nil
      with ab have "startswith p (c # s)" by (auto simp: startswith_iff)
      then show ?thesis by simp
    next
      case (Cons d a')
      with ab have "s = a' @ p @ b" by simp
      with Cons.IH show ?thesis by auto
    qed
  qed
qed simp

text \<open>\<open>s.split(".", 1)\<close>-style searches: the part before and after the first occurrence.\<close>

fun partition_at :: "char \<Rightarrow> string \<Rightarrow> (string \<times> string) option" where
  "partition_at c [] = None"
| "partition_at c (x # xs) =
     (if x = c then Some ([], xs)
      else map_option (\<lambda>(a, b). (x # a, b)) (partition_at c xs))"

text \<open>The last occurrence: \<open>s.rpartition(c)\<close> and \<open>s.rsplit(c, 1)\<close>.\<close>

definition rpartition_at :: "char \<Rightarrow> string \<Rightarrow> (string \<times> string) option" where
  "rpartition_at c s = map_option (\<lambda>(a, b). (rev b, rev a)) (partition_at c (rev s))"

lemma partition_at_Some:
  "partition_at c s = Some (a, b) \<longleftrightarrow> s = a @ c # b \<and> c \<notin> set a"
proof (induction s arbitrary: a)
  case (Cons x s)
  then show ?case by (cases a) auto
qed simp

lemma rpartition_at_Some:
  "rpartition_at c s = Some (a, b) \<longleftrightarrow> s = a @ c # b \<and> c \<notin> set b"
proof -
  have "rpartition_at c s = Some (a, b) \<longleftrightarrow> partition_at c (rev s) = Some (rev b, rev a)"
    by (cases "partition_at c (rev s)") (auto simp: rpartition_at_def)
  also have "\<dots> \<longleftrightarrow> rev s = rev b @ c # rev a \<and> c \<notin> set b"
    by (simp add: partition_at_Some)
  also have "rev s = rev b @ c # rev a \<longleftrightarrow> s = a @ c # b"
  proof -
    have "rev b @ c # rev a = rev (a @ c # b)" by simp
    then show ?thesis by (simp only: rev_is_rev_conv)
  qed
  finally show ?thesis .
qed

section \<open>Words\<close>

text \<open>\<open>s.split()\<close>: the maximal runs of non-space characters.\<close>

fun split_words :: "string \<Rightarrow> string \<Rightarrow> string list" where
  "split_words w [] = (if w = [] then [] else [rev w])"
| "split_words w (c # s) =
     (if py_space c then (if w = [] then split_words [] s else rev w # split_words [] s)
      else split_words (c # w) s)"

text \<open>\<open>sep.join(ws)\<close>.\<close>

fun join :: "string \<Rightarrow> string list \<Rightarrow> string" where
  "join sep [] = []"
| "join sep [w] = w"
| "join sep (w # ws) = w @ sep @ join sep ws"

text \<open>\<open>" ".join(s.split())\<close>.\<close>

definition squeeze :: "string \<Rightarrow> string" where
  "squeeze s = join '' '' (split_words [] s)"

definition replace_char :: "char \<Rightarrow> char \<Rightarrow> string \<Rightarrow> string" where
  "replace_char a b = map (\<lambda>c. if c = a then b else c)"

section \<open>Numbers\<close>

fun digit_char :: "nat \<Rightarrow> char" where
  "digit_char n = ''0123456789'' ! (n mod 10)"

fun show_nat :: "nat \<Rightarrow> string" where
  "show_nat n = (if n < 10 then [digit_char n] else show_nat (n div 10) @ [digit_char n])"

declare show_nat.simps [simp del]

definition show_int :: "int \<Rightarrow> string" where
  "show_int i = (if i < 0 then ''-'' @ show_nat (nat (- i)) else show_nat (nat i))"

text \<open>\<open>f"{n:0wd}"\<close>: at least \<open>w\<close> digits.\<close>

definition pad :: "nat \<Rightarrow> nat \<Rightarrow> string" where
  "pad w n = replicate (w - length (show_nat n)) CHR ''0'' @ show_nat n"

text \<open>\<open>x or y\<close> on optional text: \<open>None\<close> and \<open>""\<close> are both falsy.\<close>

definition truthy :: "string option \<Rightarrow> bool" where
  "truthy x \<longleftrightarrow> x \<noteq> None \<and> x \<noteq> Some []"

definition or_text :: "string option \<Rightarrow> string \<Rightarrow> string" where
  "or_text x d = (case x of None \<Rightarrow> d | Some t \<Rightarrow> if t = [] then d else t)"

lemma or_text_simps [simp]:
  "or_text None d = d" "or_text (Some []) d = d" "t \<noteq> [] \<Longrightarrow> or_text (Some t) d = t"
  by (simp_all add: or_text_def)

lemma truthy_simps [simp]:
  "truthy None = False" "truthy (Some t) = (t \<noteq> [])"
  by (simp_all add: truthy_def)

end
