(* ===== verification/PyTime.thy ===== *)
theory PyTime
  imports PyText Complex_Main
begin

text \<open>
  Python's \<open>datetime\<close>, \<open>timedelta\<close> and \<open>Decimal\<close> as the program uses them.  A
  \<open>datetime\<close> is naive (a wall clock reading) or aware (a wall clock reading and its UTC
  offset); both count microseconds, the resolution of the type, from 1970-01-01.  A
  \<open>timedelta\<close> is a number of microseconds.  A \<open>Decimal\<close> is a rational; division is
  rounded to the 28 significant digits of the default context.
\<close>

section \<open>Datetimes\<close>

datatype datetime = Naive int | Aware int int

abbreviation second :: int where "second \<equiv> 1000000"
abbreviation hour :: int where "hour \<equiv> 3600000000"
abbreviation day :: int where "day \<equiv> 86400000000"

definition timedelta_days :: "int \<Rightarrow> int" where "timedelta_days n = n * day"
definition timedelta_hours :: "int \<Rightarrow> int" where "timedelta_hours n = n * hour"

text \<open>
  The normalisation every service repeats (\<open>_utc\<close>, \<open>_normalized_utc\<close>): a naive value is
  taken to be UTC, an aware one is converted to UTC.
\<close>

fun utc :: "datetime \<Rightarrow> datetime" where
  "utc (Naive w) = Aware w 0"
| "utc (Aware w off) = Aware (w - off) 0"

text \<open>The variant \<open>_aware\<close>, which leaves an aware value as it is.\<close>

fun aware :: "datetime \<Rightarrow> datetime" where
  "aware (Naive w) = Aware w 0"
| "aware (Aware w off) = Aware w off"

text \<open>
  The point in time a value denotes.  Comparing aware values compares their instants, and
  so does the database on \<open>timestamptz\<close> columns.
\<close>

fun instant :: "datetime \<Rightarrow> int" where
  "instant (Naive w) = w"
| "instant (Aware w off) = w - off"

definition earlier :: "datetime \<Rightarrow> datetime \<Rightarrow> bool" where
  "earlier a b \<longleftrightarrow> instant a < instant b"

definition no_later :: "datetime \<Rightarrow> datetime \<Rightarrow> bool" where
  "no_later a b \<longleftrightarrow> instant a \<le> instant b"

fun plus_delta :: "datetime \<Rightarrow> int \<Rightarrow> datetime" where
  "plus_delta (Naive w) d = Naive (w + d)"
| "plus_delta (Aware w off) d = Aware (w + d) off"

lemma instant_utc [simp]: "instant (utc t) = instant t"
  by (cases t) simp_all

lemma instant_aware [simp]: "instant (aware t) = instant t"
  by (cases t) simp_all

lemma utc_idem [simp]: "utc (utc t) = utc t"
  by (cases t) simp_all

lemma utc_aware [simp]: "utc (aware t) = utc t"
  by (cases t) simp_all

lemma aware_idem [simp]: "aware (aware t) = aware t"
  by (cases t) simp_all

lemma utc_eq_iff: "utc s = utc t \<longleftrightarrow> instant s = instant t"
  by (cases s; cases t) auto

lemma instant_plus_delta [simp]: "instant (plus_delta t d) = instant t + d"
  by (cases t) simp_all

lemma no_later_refl [simp]: "no_later t t"
  by (simp add: no_later_def)

lemma not_earlier_iff: "\<not> earlier s t \<longleftrightarrow> no_later t s"
  by (auto simp: earlier_def no_later_def)

lemma earlier_irrefl [simp]: "\<not> earlier t t"
  by (simp add: earlier_def)

section \<open>Calendar dates\<close>

text \<open>
  The proleptic Gregorian calendar of \<open>datetime.date\<close>, on day numbers counted from
  1970-01-01: eras of 400 years, years that begin in March.
\<close>

definition civil_from_days :: "int \<Rightarrow> int \<times> int \<times> int" where
  "civil_from_days n =
     (let z = n + 719468;
          era = z div 146097;
          doe = z - era * 146097;
          yoe = (doe - doe div 1460 + doe div 36524 - doe div 146096) div 365;
          doy = doe - (365 * yoe + yoe div 4 - yoe div 100);
          mp = (5 * doy + 2) div 153;
          d = doy - (153 * mp + 2) div 5 + 1;
          m = (if mp < 10 then mp + 3 else mp - 9);
          y = yoe + era * 400 + (if m \<le> 2 then 1 else 0)
      in (y, m, d))"

definition days_from_civil :: "int \<Rightarrow> int \<Rightarrow> int \<Rightarrow> int" where
  "days_from_civil y m d =
     (let y' = (if m \<le> 2 then y - 1 else y);
          era = y' div 400;
          yoe = y' - era * 400;
          mp = (if m > 2 then m - 3 else m + 9);
          doy = (153 * mp + 2) div 5 + d - 1;
          doe = yoe * 365 + yoe div 4 - yoe div 100 + doy
      in era * 146097 + doe - 719468)"

definition date_of :: "datetime \<Rightarrow> int" where
  "date_of t = (case t of Naive w \<Rightarrow> w div day | Aware w off \<Rightarrow> w div day)"

text \<open>\<open>t.isoformat()\<close>; offsets are rendered to the minute, as all offsets in use are.\<close>

definition iso_wall :: "int \<Rightarrow> string" where
  "iso_wall w =
     (let (y, m, d) = civil_from_days (w div day);
          r = w mod day;
          us = r mod second;
          secs = r div second
      in pad 4 (nat y) @ ''-'' @ pad 2 (nat m) @ ''-'' @ pad 2 (nat d) @ ''T''
         @ pad 2 (nat (secs div 3600)) @ '':'' @ pad 2 (nat (secs div 60 mod 60)) @ '':''
         @ pad 2 (nat (secs mod 60))
         @ (if us = 0 then [] else ''.'' @ pad 6 (nat us)))"

definition iso_offset :: "int \<Rightarrow> string" where
  "iso_offset off =
     (let m = \<bar>off\<bar> div (60 * second)
      in (if off < 0 then ''-'' else ''+'')
         @ pad 2 (nat (m div 60)) @ '':'' @ pad 2 (nat (m mod 60)))"

fun isoformat :: "datetime \<Rightarrow> string" where
  "isoformat (Naive w) = iso_wall w"
| "isoformat (Aware w off) = iso_wall w @ iso_offset off"

section \<open>Decimals\<close>

type_synonym decimal = rat

text \<open>Round half to even, the rounding mode of the default context.\<close>

definition round_half_even :: "rat \<Rightarrow> int" where
  "round_half_even x =
     (let f = \<lfloor>x\<rfloor>; r = x - of_int f
      in if r < 1 / 2 then f else if r > 1 / 2 then f + 1
         else if even f then f else f + 1)"

fun digits_fuel :: "nat \<Rightarrow> int \<Rightarrow> nat" where
  "digits_fuel 0 n = 0"
| "digits_fuel (Suc k) n = (if n \<le> 0 then 0 else Suc (digits_fuel k (n div 10)))"

text \<open>The number of decimal digits of a natural number (\<open>n\<close> itself is fuel enough).\<close>

definition num_digits :: "int \<Rightarrow> nat" where
  "num_digits n = digits_fuel (nat n) n"

text \<open>
  The power of ten that brings the leading digit of \<open>x\<close> to position 28, and the value
  rounded there.
\<close>

definition dec_scale :: "rat \<Rightarrow> rat" where
  "dec_scale x =
     (if 1 \<le> \<bar>x\<bar> then 10 ^ 28 / 10 ^ num_digits \<lfloor>\<bar>x\<bar>\<rfloor>
      else 10 ^ 27 * 10 ^ num_digits (\<lceil>1 / \<bar>x\<bar>\<rceil> - 1))"

definition dec_fix :: "rat \<Rightarrow> decimal" where
  "dec_fix x = (if x = 0 then 0 else of_int (round_half_even (x * dec_scale x)) / dec_scale x)"

definition dec_div :: "decimal \<Rightarrow> decimal \<Rightarrow> decimal" where
  "dec_div a b = dec_fix (a / b)"

definition dec_mul :: "decimal \<Rightarrow> decimal \<Rightarrow> decimal" where
  "dec_mul a b = dec_fix (a * b)"

lemma dec_scale_pos: "0 < dec_scale x"
  by (simp add: dec_scale_def)

lemma round_half_even_nonneg: "0 \<le> x \<Longrightarrow> 0 \<le> round_half_even x"
  by (auto simp: round_half_even_def Let_def)

lemma dec_fix_nonneg: "0 \<le> x \<Longrightarrow> 0 \<le> dec_fix x"
  using dec_scale_pos [of x]
  by (simp add: dec_fix_def round_half_even_nonneg)

lemma dec_fix_0 [simp]: "dec_fix 0 = 0"
  by (simp add: dec_fix_def)

text \<open>A value that 28 digits can hold is not changed.\<close>

lemma round_half_even_of_int [simp]: "round_half_even (of_int n) = n"
  by (simp add: round_half_even_def)

lemma dec_fix_exact:
  assumes "x * dec_scale x = of_int n"
  shows "dec_fix x = x"
proof (cases "x = 0")
  case False
  have "dec_fix x = of_int n / dec_scale x"
    using False by (simp add: dec_fix_def assms)
  also have "\<dots> = x * dec_scale x / dec_scale x" by (simp only: assms)
  also have "\<dots> = x" using dec_scale_pos [of x] by simp
  finally show ?thesis .
qed simp

end
