(* ===== verification/Store.thy ===== *)
theory Store
  imports PyTime
begin

text \<open>
  The data model: the rows the services read and write (backend/app/models), JSON values,
  and the database state that every operation takes and returns.  A table is the list of its
  rows in insertion order.  The state also carries what the code takes from its environment:
  the readings of the clock (\<open>utcnow\<close>), the identifiers \<open>uuid.uuid4\<close> hands out, and the
  SHA-256 digest.
\<close>

section \<open>JSON\<close>

datatype json =
    JNull
  | JBool bool
  | JInt int
  | JStr string
  | JTime datetime
  | JList "json list"
  | JObj "(string \<times> json) list"

text \<open>\<open>d.get(key)\<close>: a missing key reads as \<open>None\<close>.\<close>

fun jget :: "string \<Rightarrow> json \<Rightarrow> json" where
  "jget k (JObj fs) = (case map_of fs k of Some v \<Rightarrow> v | None \<Rightarrow> JNull)"
| "jget k _ = JNull"

definition jopt :: "string option \<Rightarrow> json" where
  "jopt x = (case x of None \<Rightarrow> JNull | Some s \<Rightarrow> JStr s)"

section \<open>Findings and their histories\<close>

text \<open>
  The human decision on a finding.  The column is free text; \<open>OtherStatus\<close> is a value none of
  the modelled services writes.
\<close>

datatype opp_status = Open | Treated | Rejected | OtherStatus string

fun status_text :: "opp_status \<Rightarrow> string" where
  "status_text Open = ''open''"
| "status_text Treated = ''treated''"
| "status_text Rejected = ''rejected''"
| "status_text (OtherStatus s) = s"

datatype presence = Active | Missing | ResolvedExternally

fun presence_text :: "presence \<Rightarrow> string" where
  "presence_text Active = ''active''"
| "presence_text Missing = ''missing''"
| "presence_text ResolvedExternally = ''resolved_externally''"

datatype archive_action = ARCHIVE | UNARCHIVE

datatype archive_reason = MANUAL | RETENTION_POLICY | REAPPEARED

fun archive_reason_text :: "archive_reason \<Rightarrow> string" where
  "archive_reason_text MANUAL = ''MANUAL''"
| "archive_reason_text RETENTION_POLICY = ''RETENTION_POLICY''"
| "archive_reason_text REAPPEARED = ''REAPPEARED''"

record finding =
  f_id :: string
  f_fingerprint :: string
  f_scan_id :: "string option"
  f_first_seen_collection_run_id :: "string option"
  f_last_seen_collection_run_id :: "string option"
  f_provider :: string
  f_account_id :: string
  f_rule_key :: string
  f_service :: string
  f_region :: "string option"
  f_resource_id :: string
  f_resource_name :: "string option"
  f_resource_type :: "string option"
  f_provider_metadata :: json
  f_title :: string
  f_description :: string
  f_evidence :: json
  f_current_monthly_cost :: decimal
  f_estimated_monthly_savings :: "decimal option"
  f_currency :: string
  f_confidence :: string
  f_severity :: string
  f_status :: opp_status
  f_presence_status :: presence
  f_missing_count :: int
  f_missing_since_at :: "datetime option"
  f_resolved_externally_at :: "datetime option"
  f_presence_reconciled_run_id :: "string option"
  f_presence_reconciled_at :: "datetime option"
  f_total_occurrence_count :: int
  f_first_seen_at :: datetime
  f_last_seen_at :: datetime
  f_treated_at :: "datetime option"
  f_treated_by :: "string option"
  f_treatment_note :: "string option"
  f_rejected_at :: "datetime option"
  f_rejected_by :: "string option"
  f_rejection_reason :: "string option"
  f_rejection_note :: "string option"
  f_needs_review :: bool
  f_archived_at :: "datetime option"
  f_archived_by :: "string option"
  f_archive_reason :: "archive_reason option"

record status_event =
  se_id :: string
  se_opportunity_id :: string
  se_from_status :: opp_status
  se_to_status :: opp_status
  se_action :: string
  se_reason :: "string option"
  se_note :: "string option"
  se_changed_by :: "string option"
  se_changed_at :: datetime

record archive_event =
  ae_opportunity_id :: string
  ae_action :: archive_action
  ae_reason :: archive_reason
  ae_changed_by :: "string option"
  ae_collection_run_id :: "string option"
  ae_occurred_at :: datetime
  ae_context :: json

datatype presence_reason =
  NOT_OBSERVED_IN_SUCCESSFUL_SCOPE | MISSING_THRESHOLD_REACHED | OBSERVED_AGAIN

record presence_event =
  pe_id :: string
  pe_opportunity_id :: string
  pe_collection_run_id :: "string option"
  pe_collection_scope_execution_id :: "string option"
  pe_from_status :: presence
  pe_to_status :: presence
  pe_reason :: presence_reason
  pe_missing_count :: int
  pe_missing_threshold :: "int option"
  pe_occurred_at :: datetime
  pe_context :: json

record observation =
  o_id :: string
  o_opportunity_id :: string
  o_collection_run_id :: string
  o_observed_at :: datetime
  o_severity :: string
  o_current_monthly_cost :: decimal
  o_estimated_monthly_savings :: "decimal option"
  o_currency :: string
  o_confidence :: string
  o_provider_metadata :: json
  o_evidence :: json

section \<open>Collections\<close>

datatype run_status = RUNNING | SUCCESS | FAILED

fun run_status_text :: "run_status \<Rightarrow> string" where
  "run_status_text RUNNING = ''RUNNING''"
| "run_status_text SUCCESS = ''SUCCESS''"
| "run_status_text FAILED = ''FAILED''"

record collection_run =
  cr_id :: string
  cr_scan_id :: "string option"
  cr_provider :: string
  cr_account_id :: string
  cr_scope :: json
  cr_started_at :: datetime
  cr_finished_at :: "datetime option"
  cr_status :: run_status
  cr_resources_analyzed :: int
  cr_opportunities_found :: int
  cr_detailed_observations_available :: bool
  cr_analyzer_version :: "string option"
  cr_error_detail :: "string option"

datatype scope_status = ScopeSuccess | ScopeFailed | ScopeSkipped

fun scope_status_text :: "scope_status \<Rightarrow> string" where
  "scope_status_text ScopeSuccess = ''SUCCESS''"
| "scope_status_text ScopeFailed = ''FAILED''"
| "scope_status_text ScopeSkipped = ''SKIPPED''"

record scope_execution =
  sx_id :: string
  sx_collection_run_id :: string
  sx_provider :: string
  sx_account_id :: string
  sx_region :: string
  sx_service :: "string option"
  sx_rule_key :: string
  sx_status :: scope_status
  sx_started_at :: datetime
  sx_finished_at :: datetime
  sx_resources_examined :: "int option"
  sx_error_detail :: "string option"

record cloud_account =
  ca_id :: int
  ca_provider :: string
  ca_native_account_id :: string
  ca_name :: string
  ca_enabled :: bool
  ca_connection_status :: string
  ca_last_error :: "string option"
  ca_schedule_enabled :: bool
  ca_scan_interval_hours :: int
  ca_next_scan_at :: "datetime option"
  ca_aws_configuration :: "int option"

text \<open>What the providers' executors read of an account's configuration.\<close>

record aws_account =
  aa_id :: int
  aa_cloud_account_id :: int
  aa_aws_account_id :: string
  aa_regions :: "string list"

record oci_configuration =
  oc_cloud_account_id :: int
  oc_region :: string
  oc_scope_regions :: "string list"
  oc_compartment_ocids :: "string list"
  oc_include_root_compartment :: bool
  oc_include_subcompartments :: bool

record account_audit =
  aw_account_id :: "int option"
  aw_provider :: string
  aw_native_account_id :: string
  aw_actor_id :: "string option"
  aw_action :: string
  aw_result :: string
  aw_detail :: string

text \<open>A requested or scheduled collection and where it is in its life.\<close>

datatype scan_status =
  ScanPending | ScanRunning | ScanCompleted | ScanCompletedWithWarnings | ScanFailed

record scan =
  sc_id :: string
  sc_account_id :: "int option"
  sc_cloud_account_id :: int
  sc_status :: scan_status
  sc_trigger :: string
  sc_created_at :: datetime
  sc_started_at :: "datetime option"
  sc_completed_at :: "datetime option"
  sc_findings_count :: int
  sc_error :: "string option"

section \<open>History cycles and the management policy\<close>

datatype cycle_status = CycleOpen | CycleClosed

record history_cycle =
  hc_id :: string
  hc_label :: string
  hc_period_start :: datetime
  hc_period_end :: datetime
  hc_status :: cycle_status
  hc_timezone :: string
  hc_policy_version :: "int option"
  hc_closed_at :: "datetime option"
  hc_closed_by :: "string option"
  hc_close_reason :: "string option"
  hc_metadata :: json

record history_snapshot =
  hs_id :: string
  hs_cycle_id :: string
  hs_opportunity_id :: "string option"
  hs_fingerprint :: string
  hs_provider :: string
  hs_account_id :: string
  hs_account_name :: "string option"
  hs_region :: "string option"
  hs_service :: string
  hs_resource_type :: "string option"
  hs_resource_id :: string
  hs_resource_name :: "string option"
  hs_rule_key :: string
  hs_title :: string
  hs_description :: string
  hs_status :: opp_status
  hs_presence_status :: presence
  hs_needs_review :: bool
  hs_archived :: bool
  hs_archive_reason :: "archive_reason option"
  hs_treated_at :: "datetime option"
  hs_rejected_at :: "datetime option"
  hs_resolved_externally_at :: "datetime option"
  hs_treatment_note :: "string option"
  hs_rejection_reason :: "string option"
  hs_rejection_note :: "string option"
  hs_current_monthly_cost :: decimal
  hs_estimated_monthly_savings :: "decimal option"
  hs_currency :: string
  hs_severity :: string
  hs_confidence :: string
  hs_first_seen_at :: datetime
  hs_last_seen_at :: datetime
  hs_first_observed_in_cycle_at :: datetime
  hs_last_observed_in_cycle_at :: datetime
  hs_occurrence_count_in_cycle :: int
  hs_total_occurrence_count :: int
  hs_first_collection_run_id_in_cycle :: "string option"
  hs_last_collection_run_id_in_cycle :: "string option"
  hs_provider_metadata :: json
  hs_evidence :: json
  hs_captured_at :: datetime
  hs_capture_reason :: string

datatype cycle_mode = CALENDAR_MONTH | FIXED_DAYS

record management_policy =
  mp_id :: string
  mp_cycle_mode :: cycle_mode
  mp_cycle_length_days :: int
  mp_cycle_timezone :: string
  mp_cycle_anchor_date :: "int option"
  mp_automatic_cycle_close_enabled :: bool
  mp_treated_archive_enabled :: bool
  mp_treated_archive_days :: int
  mp_rejected_archive_enabled :: bool
  mp_rejected_archive_days :: int
  mp_resolved_external_archive_enabled :: bool
  mp_resolved_external_archive_days :: int
  mp_open_archive_enabled :: bool
  mp_open_archive_days :: int
  mp_observation_retention_days :: int
  mp_enabled :: bool
  mp_version :: int
  mp_updated_by :: "string option"

text \<open>The checkpoint of a day's retention, and the only row of the maintenance state.\<close>

datatype retention_run_status = RetentionRunning | RetentionSuccess | RetentionFailed

record retention_run =
  ru_period_date :: int
  ru_status :: retention_run_status
  ru_started_at :: datetime
  ru_finished_at :: "datetime option"
  ru_result :: json
  ru_error_detail :: "string option"

record maintenance_state =
  ms_last_retention_run_at :: "datetime option"
  ms_last_cycle_close_check_at :: "datetime option"
  ms_last_observation_cleanup_at :: "datetime option"
  ms_last_retention_result :: json
  ms_last_cycle_close_result :: json
  ms_last_observation_cleanup_result :: json

section \<open>Ledger, dashboard, audit\<close>

datatype entry_type = SAVING | REALLOCATION | ADJUSTMENT
datatype direction = CREDIT | DEBIT
datatype ledger_source = OPPORTUNITY | MANUAL_SOURCE | SYSTEM_SOURCE
datatype periodicity = ONE_TIME | MONTHLY

record ledger_entry =
  le_id :: string
  le_entry_type :: entry_type
  le_direction :: direction
  le_provider :: string
  le_cloud_account_id :: int
  le_account_id :: string
  le_amount :: decimal
  le_currency :: string
  le_effective_at :: datetime
  le_source :: ledger_source
  le_source_reference :: "string option"
  le_opportunity_id :: "string option"
  le_source_event_id :: "string option"
  le_idempotency_key :: "string option"
  le_description :: "string option"
  le_context :: json
  le_periodicity :: periodicity
  le_reference_period_start :: "int option"
  le_reference_period_end :: "int option"
  le_created_by :: "string option"
  le_created_at :: datetime
  le_reversal_of_id :: "string option"

record account_summary =
  as_provider :: string
  as_account_id :: string
  as_collection_run_id :: string
  as_baseline_collection_run_id :: "string option"
  as_open_count :: nat
  as_treated_count :: nat
  as_rejected_count :: nat
  as_severity_counts :: "(string \<times> nat) list"
  as_financial :: "(string \<times> decimal) list"
  as_new_count :: nat
  as_no_longer_detected_count :: nat
  as_has_baseline :: bool
  as_rules_version_changed :: bool
  as_rules_version_unknown :: bool
  as_updated_at :: datetime

record user =
  u_id :: string
  u_name :: string
  u_email :: string

record audit_event =
  au_actor_id :: "string option"
  au_actor_name :: "string option"
  au_actor_email :: "string option"
  au_action :: string
  au_module :: string
  au_entity_type :: string
  au_entity_id :: "string option"
  au_entity_label :: "string option"
  au_source :: string
  au_before :: "json option"
  au_after :: "json option"
  au_changes :: json
  au_metadata :: "json option"
  au_correlation_id :: "string option"

section \<open>The database\<close>

record db =
  findings :: "finding list"
  status_history :: "status_event list"
  archive_history :: "archive_event list"
  presence_history :: "presence_event list"
  observations :: "observation list"
  collection_runs :: "collection_run list"
  scope_executions :: "scope_execution list"
  cloud_accounts :: "cloud_account list"
  aws_accounts :: "aws_account list"
  oci_configurations :: "oci_configuration list"
  account_audits :: "account_audit list"
  scans :: "scan list"
  history_cycles :: "history_cycle list"
  history_snapshots :: "history_snapshot list"
  management_policies :: "management_policy list"
  retention_runs :: "retention_run list"
  maintenance :: "maintenance_state option"
  ledger :: "ledger_entry list"
  summaries :: "account_summary list"
  audit_events :: "audit_event list"
  clock :: "nat \<Rightarrow> int"
  ticks :: nat
  uuid4 :: "nat \<Rightarrow> string"
  uuids :: nat
  sha256 :: "string \<Rightarrow> string"

text \<open>An empty database at the epoch, for examples: identifiers are numbered.\<close>

definition empty_db :: db where
  "empty_db = \<lparr>findings = [], status_history = [], archive_history = [], presence_history = [],
     observations = [], collection_runs = [], scope_executions = [], cloud_accounts = [],
     aws_accounts = [], oci_configurations = [], account_audits = [],
     scans = [], history_cycles = [], history_snapshots = [], management_policies = [],
     retention_runs = [], maintenance = None,
     ledger = [], summaries = [], audit_events = [], clock = (\<lambda>n. int n * second), ticks = 0,
     uuid4 = (\<lambda>n. ''id-'' @ show_nat n), uuids = 0, sha256 = (\<lambda>_. ''0'')\<rparr>"

text \<open>An open finding, for examples.\<close>

definition finding0 :: "string \<Rightarrow> finding" where
  "finding0 i = \<lparr>f_id = i, f_fingerprint = i, f_scan_id = None,
     f_first_seen_collection_run_id = None,
     f_last_seen_collection_run_id = None, f_provider = ''aws'', f_account_id = ''1'',
     f_rule_key = ''ebs_unattached'', f_service = ''ebs'', f_region = Some ''us-east-1'',
     f_resource_id = ''vol-1'', f_resource_name = None, f_resource_type = None,
     f_provider_metadata = JObj [], f_title = ''Volume'', f_description = [], f_evidence = JObj [],
     f_current_monthly_cost = 10, f_estimated_monthly_savings = Some 5, f_currency = ''USD'',
     f_confidence = ''high'', f_severity = ''high'', f_status = Open, f_presence_status = Active,
     f_missing_count = 0, f_missing_since_at = None, f_resolved_externally_at = None,
     f_presence_reconciled_run_id = None, f_presence_reconciled_at = None,
     f_total_occurrence_count = 1, f_first_seen_at = Aware 0 0, f_last_seen_at = Aware 0 0,
     f_treated_at = None, f_treated_by = None, f_treatment_note = None, f_rejected_at = None,
     f_rejected_by = None, f_rejection_reason = None, f_rejection_note = None,
     f_needs_review = False, f_archived_at = None, f_archived_by = None,
     f_archive_reason = None\<rparr>"

text \<open>\<open>utcnow()\<close>: each call is the next reading of the clock, an aware UTC value.\<close>

definition utcnow :: "db \<Rightarrow> datetime \<times> db" where
  "utcnow s = (Aware (clock s (ticks s)) 0, s\<lparr>ticks := Suc (ticks s)\<rparr>)"

text \<open>\<open>str(uuid.uuid4())\<close>: the next identifier.\<close>

definition new_uuid :: "db \<Rightarrow> string \<times> db" where
  "new_uuid s = (uuid4 s (uuids s), s\<lparr>uuids := Suc (uuids s)\<rparr>)"

definition get_finding :: "string \<Rightarrow> db \<Rightarrow> finding option" where
  "get_finding i s = find_row f_id i (findings s)"

definition put_finding :: "finding \<Rightarrow> db \<Rightarrow> db" where
  "put_finding f s = s\<lparr>findings := put_row f_id f (findings s)\<rparr>"

definition put_run :: "collection_run \<Rightarrow> db \<Rightarrow> db" where
  "put_run r s = s\<lparr>collection_runs := put_row cr_id r (collection_runs s)\<rparr>"

definition put_scope_execution :: "scope_execution \<Rightarrow> db \<Rightarrow> db" where
  "put_scope_execution x s = s\<lparr>scope_executions := put_row sx_id x (scope_executions s)\<rparr>"

section \<open>Interfaces\<close>

text \<open>
  A table whose rows are flushed by key: what the services rely on when they load a row,
  change it and go on reading the table.
\<close>

locale row_store =
  fixes rows :: "'s \<Rightarrow> 'r list"
    and key :: "'r \<Rightarrow> 'k"
    and put :: "'r \<Rightarrow> 's \<Rightarrow> 's"
  assumes rows_put: "rows (put r s) = put_row key r (rows s)"
begin

lemma lookup_put_same:
  "find_row key (key r) (rows s) = Some r' \<Longrightarrow> find_row key (key r) (rows (put r s)) = Some r"
  by (simp add: rows_put row_simps)

lemma lookup_put_other:
  "k \<noteq> key r \<Longrightarrow> find_row key k (rows (put r s)) = find_row key k (rows s)"
  by (simp add: rows_put row_simps)

lemma keys_put: "map key (rows (put r s)) = map key (rows s)"
  by (simp add: rows_put row_simps)

lemma distinct_put: "distinct (map key (rows s)) \<Longrightarrow> distinct (map key (rows (put r s)))"
  by (simp add: keys_put)

lemma length_put: "length (rows (put r s)) = length (rows s)"
  by (simp add: rows_put row_simps)

lemma field_put:
  assumes "distinct (map key (rows s))" "r \<in> set (rows s)" "key r' = key r" "g r' = g r"
  shows "map g (rows (put r' s)) = map g (rows s)"
  unfolding rows_put
proof (rule map_put_row)
  fix x assume "x \<in> set (rows s)" "key x = key r'"
  with assms(1-3) have "x = r" by (metis distinct_map inj_on_contraD)
  with assms(4) show "g x = g r'" by simp
qed

end

interpretation finding_rows: row_store findings f_id put_finding
  by unfold_locales (simp add: put_finding_def)

interpretation run_rows: row_store collection_runs cr_id put_run
  by unfold_locales (simp add: put_run_def)

interpretation scope_rows: row_store scope_executions sx_id put_scope_execution
  by unfold_locales (simp add: put_scope_execution_def)

text \<open>
  A log that steps only extend.  What was recorded once is in every later state, at the
  same position.
\<close>

locale append_only =
  fixes log :: "'s \<Rightarrow> 'e list"
    and step :: "'s \<Rightarrow> 's \<Rightarrow> bool"
  assumes step_extends: "step s t \<Longrightarrow> \<exists>es. log t = log s @ es"
begin

lemma steps_extend: "step\<^sup>*\<^sup>* s t \<Longrightarrow> \<exists>es. log t = log s @ es"
proof (induction rule: rtranclp_induct)
  case base
  then show ?case by simp
next
  case (step t u)
  then show ?case by (metis append_assoc step_extends)
qed

lemma entry_persists: "step\<^sup>*\<^sup>* s t \<Longrightarrow> i < length (log s) \<Longrightarrow> log t ! i = log s ! i"
  by (metis nth_append steps_extend)

lemma length_grows: "step\<^sup>*\<^sup>* s t \<Longrightarrow> length (log s) \<le> length (log t)"
  by (metis length_append le_add1 steps_extend)

end

text \<open>A property that holds at the start and that every step keeps holds in every reachable state.\<close>

locale invariant_system =
  fixes inv :: "'s \<Rightarrow> bool"
    and step :: "'s \<Rightarrow> 's \<Rightarrow> bool"
  assumes step_inv: "step s t \<Longrightarrow> inv s \<Longrightarrow> inv t"
begin

lemma steps_inv: "step\<^sup>*\<^sup>* s t \<Longrightarrow> inv s \<Longrightarrow> inv t"
  by (induction rule: rtranclp_induct) (auto intro: step_inv)

end

section \<open>Frame facts\<close>

lemmas env_defs = utcnow_def new_uuid_def

lemma get_put_finding [row_simps]:
  "get_finding i (put_finding f s) =
     (if i = f_id f then map_option (\<lambda>_. f) (get_finding i s) else get_finding i s)"
  by (simp add: get_finding_def put_finding_def row_simps)

lemma get_finding_Some: "get_finding i s = Some f \<Longrightarrow> f_id f = i \<and> f \<in> set (findings s)"
  unfolding get_finding_def by (rule find_row_Some)

end
