(* ===== verification/AuditTrail.thy ===== *)
theory AuditTrail
  imports Store
begin

text \<open>
  The audit trail (backend/app/services/audit.py): payloads are reduced to JSON, stripped of
  secrets, bounded in size, and appended to \<open>audit_events\<close>.  Numbers in payloads are
  integers; text is ASCII, so a character is one byte of the UTF-8 rendering.
\<close>

section \<open>Secrets\<close>

definition secret_keys :: "string list" where
  "secret_keys = [''password'', ''token'', ''passwordhash'', ''secret'', ''secretkey'',
     ''privatekey'', ''accesskey'', ''accesskeyid'', ''secretaccesskey'', ''sessiontoken'',
     ''refreshtoken'', ''bearertoken'', ''jwt'', ''mfasecret'', ''recoverycodes'',
     ''recoverycode'', ''invitationtoken'', ''passwordresettoken'', ''credentials'',
     ''credential'', ''passphrase'', ''smtppassword'', ''ociprivatekey'', ''awssecretkey'',
     ''certificateprivatekey'']"

definition secret_suffixes :: "string list" where
  "secret_suffixes = [''password'', ''passwordhash'', ''privatekey'', ''secret'', ''secretkey'',
     ''accesskey'', ''secretaccesskey'', ''token'', ''sessiontoken'', ''refreshtoken'',
     ''bearertoken'', ''resettoken'', ''invitationtoken'', ''mfasecret'', ''passphrase'',
     ''credentials'']"

definition key_chars :: string where
  "key_chars = lower_letters @ ''0123456789''"

definition normalized_key :: "string \<Rightarrow> string" where
  "normalized_key k = filter (\<lambda>c. c \<in> set key_chars) (lower k)"

definition sensitive_key :: "string \<Rightarrow> bool" where
  "sensitive_key k \<longleftrightarrow>
     (let n = normalized_key k
      in n \<in> set secret_keys \<or> list_ex (\<lambda>suffix. endswith suffix n) secret_suffixes)"

definition pem_chars :: string where
  "pem_chars = upper_letters @ ''0123456789 ''"

text \<open>\<open>re.search(r"-----BEGIN [A-Z0-9 ]*PRIVATE KEY-----", s)\<close>.\<close>

fun private_key_tail :: "string \<Rightarrow> bool" where
  "private_key_tail [] = False"
| "private_key_tail (c # s) \<longleftrightarrow>
     startswith ''PRIVATE KEY-----'' (c # s) \<or> (c \<in> set pem_chars \<and> private_key_tail s)"

fun has_private_key :: "string \<Rightarrow> bool" where
  "has_private_key [] = False"
| "has_private_key (c # s) \<longleftrightarrow>
     (startswith ''-----BEGIN '' (c # s) \<and> private_key_tail (drop 11 (c # s))) \<or>
     has_private_key s"

definition secret_text :: "string \<Rightarrow> bool" where
  "secret_text t \<longleftrightarrow>
     has_private_key (upper t) \<or> startswith ''BEARER '' (upper t) \<or>
     (startswith ''eyJ'' t \<and> count_list t CHR ''.'' = 2 \<and> length t > 40)"

section \<open>Reduction to JSON\<close>

definition large_string_summary :: "(string \<Rightarrow> string) \<Rightarrow> string \<Rightarrow> json" where
  "large_string_summary sha t =
     JObj [(''_length'', JInt (int (length t))),
           (''_omitted'', JStr (if contains ''-----BEGIN CERTIFICATE-----'' t
                                then ''certificate_pem'' else ''large_text'')),
           (''_sha256'', JStr (sha t))]"

text \<open>
  \<open>_json_safe\<close>: \<open>None\<close> is the marker \<open>_OMIT\<close>.  Objects lose their sensitive keys and come
  out sorted by key; lists lose the elements that are omitted.
\<close>

fun json_safe :: "(string \<Rightarrow> string) \<Rightarrow> json \<Rightarrow> json option"
  and safe_items :: "(string \<Rightarrow> string) \<Rightarrow> json list \<Rightarrow> json list"
  and safe_fields :: "(string \<Rightarrow> string) \<Rightarrow> (string \<times> json) list \<Rightarrow> (string \<times> json) list" where
  "json_safe sha JNull = Some JNull"
| "json_safe sha (JBool b) = Some (JBool b)"
| "json_safe sha (JInt i) = Some (JInt i)"
| "json_safe sha (JStr t) =
     (if secret_text t then None
      else if length t > 2048 \<or> contains ''-----BEGIN CERTIFICATE-----'' t
           then Some (large_string_summary sha t)
      else Some (JStr t))"
| "json_safe sha (JTime t) = Some (JStr (isoformat t))"
| "json_safe sha (JList xs) = Some (JList (safe_items sha xs))"
| "json_safe sha (JObj fs) = Some (JObj (sort_key fst (safe_fields sha fs)))"
| "safe_items sha [] = []"
| "safe_items sha (x # xs) =
     (case json_safe sha x of None \<Rightarrow> safe_items sha xs | Some y \<Rightarrow> y # safe_items sha xs)"
| "safe_fields sha [] = []"
| "safe_fields sha ((k, v) # fs) =
     (if sensitive_key k then safe_fields sha fs
      else case json_safe sha v of None \<Rightarrow> safe_fields sha fs
           | Some w \<Rightarrow> (k, w) # safe_fields sha fs)"

text \<open>
  The rendering whose length bounds a payload:
  \<open>json.dumps(value, ensure_ascii=False, sort_keys=True, separators=(",", ":"))\<close> of a value
  whose objects are already sorted.
\<close>

definition escape_char :: "char \<Rightarrow> string" where
  "escape_char c =
     (if c = CHR 0x22 then [CHR 0x5C, CHR 0x22]
      else if c = CHR 0x5C then [CHR 0x5C, CHR 0x5C]
      else if c = CHR 0x0A then [CHR 0x5C, CHR ''n'']
      else if c = CHR 0x0D then [CHR 0x5C, CHR ''r'']
      else if c = CHR 0x09 then [CHR 0x5C, CHR ''t'']
      else if c = CHR 0x08 then [CHR 0x5C, CHR ''b'']
      else if c = CHR 0x0C then [CHR 0x5C, CHR ''f'']
      else if of_char c < (0x20 :: nat)
           then [CHR 0x5C, CHR ''u'', CHR ''0'', CHR ''0'',
                 ''0123456789abcdef'' ! (of_char c div 16),
                 ''0123456789abcdef'' ! (of_char c mod 16)]
      else [c])"

definition quoted :: "string \<Rightarrow> string" where
  "quoted t = CHR 0x22 # concat (map escape_char t) @ [CHR 0x22]"

fun dumps :: "json \<Rightarrow> string" where
  "dumps JNull = ''null''"
| "dumps (JBool b) = (if b then ''true'' else ''false'')"
| "dumps (JInt i) = show_int i"
| "dumps (JStr t) = quoted t"
| "dumps (JTime t) = quoted (isoformat t)"
| "dumps (JList xs) = ''['' @ join '','' (map dumps xs) @ '']''"
| "dumps (JObj fs) =
     ''{'' @ join '','' (map (\<lambda>(k, v). quoted k @ '':'' @ dumps v) fs) @ ''}''"

definition limit_payload :: "(string \<Rightarrow> string) \<Rightarrow> json \<Rightarrow> nat \<Rightarrow> json" where
  "limit_payload sha v max_bytes =
     (if v = JNull then JNull
      else let raw = dumps v
           in if length raw \<le> max_bytes then v
              else JObj [(''_original_bytes'', JInt (int (length raw))),
                         (''_sha256'', JStr (sha raw)),
                         (''_truncated'', JBool True)])"

definition sanitize_audit_payload :: "(string \<Rightarrow> string) \<Rightarrow> json \<Rightarrow> nat \<Rightarrow> json" where
  "sanitize_audit_payload sha payload max_bytes =
     (case json_safe sha payload of None \<Rightarrow> JNull
      | Some safe \<Rightarrow> limit_payload sha safe max_bytes)"

fun is_object :: "json \<Rightarrow> bool" where
  "is_object (JObj fs) = True"
| "is_object _ = False"

definition audit_snapshot :: "db \<Rightarrow> (string \<times> json) list \<Rightarrow> json" where
  "audit_snapshot s payload =
     (let safe = sanitize_audit_payload (sha256 s) (JObj payload) 16384
      in if is_object safe then safe else JObj [])"

section \<open>Changes and events\<close>

fun obj_keys :: "json \<Rightarrow> string list" where
  "obj_keys (JObj fs) = map fst fs"
| "obj_keys _ = []"

definition raw_changes :: "json \<Rightarrow> json \<Rightarrow> (string \<times> json) list" where
  "raw_changes old new =
     map (\<lambda>k. (k, JObj [(''from'', jget k old), (''to'', jget k new)]))
       (filter (\<lambda>k. jget k old \<noteq> jget k new)
         (sort (dedup (obj_keys old @ obj_keys new))))"

definition build_audit_changes :: "(string \<Rightarrow> string) \<Rightarrow> json \<Rightarrow> json \<Rightarrow> json" where
  "build_audit_changes sha before after =
     limit_payload sha (JObj (raw_changes before after)) 16384"

definition audit_text :: "string option \<Rightarrow> nat \<Rightarrow> string option" where
  "audit_text value max_length =
     (case value of None \<Rightarrow> None
      | Some v \<Rightarrow> let t = strip v in if t = [] then None else Some (take max_length t))"

definition required_text :: "string \<Rightarrow> nat \<Rightarrow> string result" where
  "required_text value max_length =
     (let t = strip value
      in if t = [] then Inl (ValueError ''Required audit field is blank'')
         else Inr (take max_length t))"

text \<open>The keyword arguments of \<open>AuditService.record\<close>, with their defaults.\<close>

record audit_call =
  ac_actor :: "user option"
  ac_action :: string
  ac_module :: string
  ac_entity_type :: string
  ac_entity_id :: "string option"
  ac_entity_label :: "string option"
  ac_before :: "json option"
  ac_after :: "json option"
  ac_source :: string
  ac_metadata :: "json option"
  ac_correlation_id :: "string option"

definition audit_call0 :: audit_call where
  "audit_call0 = \<lparr>ac_actor = None, ac_action = [], ac_module = [], ac_entity_type = [],
     ac_entity_id = None, ac_entity_label = None, ac_before = None, ac_after = None,
     ac_source = ''API'', ac_metadata = None, ac_correlation_id = None\<rparr>"

definition json_or_null :: "json option \<Rightarrow> json" where
  "json_or_null x = (case x of None \<Rightarrow> JNull | Some v \<Rightarrow> v)"

definition object_option :: "json \<Rightarrow> json option" where
  "object_option v = (if is_object v then Some v else None)"

text \<open>The event built from the call, its source and its required texts already checked.\<close>

definition build_audit_event ::
  "(string \<Rightarrow> string) \<Rightarrow> audit_call \<Rightarrow> string \<Rightarrow> string \<Rightarrow> string \<Rightarrow> string \<Rightarrow> audit_event" where
  "build_audit_event sha c source action modul entity =
     (let before = sanitize_audit_payload sha (json_or_null (ac_before c)) 16384;
          after = sanitize_audit_payload sha (json_or_null (ac_after c)) 16384;
          metadata = sanitize_audit_payload sha (json_or_null (ac_metadata c)) 8192;
          changes = build_audit_changes sha
            (if is_object before then before else JObj [])
            (if is_object after then after else JObj [])
      in \<lparr>au_actor_id = audit_text (map_option u_id (ac_actor c)) 36,
          au_actor_name = audit_text
            (if ac_actor c = None \<and> source = ''SYSTEM'' then Some ''SYSTEM''
             else map_option u_name (ac_actor c)) 120,
          au_actor_email = audit_text (map_option u_email (ac_actor c)) 254,
          au_action = action, au_module = modul, au_entity_type = entity,
          au_entity_id = audit_text (ac_entity_id c) 255,
          au_entity_label = audit_text (ac_entity_label c) 500,
          au_source = source,
          au_before = object_option before, au_after = object_option after,
          au_changes = (if is_object changes then changes else JObj []),
          au_metadata = object_option metadata,
          au_correlation_id = audit_text (ac_correlation_id c) 36\<rparr>)"

definition record_audit :: "audit_call \<Rightarrow> db \<Rightarrow> db result" where
  "record_audit c s =
     (let source = strip (upper (ac_source c))
      in andThen (guard (source \<in> {''UI'', ''API'', ''SYSTEM''})
                   (ValueError (''Unsupported audit source: '' @ source))) (\<lambda>_.
         andThen (required_text (ac_action c) 120) (\<lambda>action.
         andThen (required_text (ac_module c) 80) (\<lambda>modul.
         andThen (required_text (ac_entity_type c) 120) (\<lambda>entity.
         Inr (s\<lparr>audit_events :=
           audit_events s @ [build_audit_event (sha256 s) c source action modul entity]\<rparr>))))))"


section \<open>Correctness\<close>

text \<open>
  What the trail may show: an object without sensitive keys, a list, a text that does not
  look like a key, a bearer token or a JWT.
\<close>

fun secret_free :: "json \<Rightarrow> bool" where
  "secret_free (JStr t) \<longleftrightarrow> \<not> secret_text t"
| "secret_free (JTime t) \<longleftrightarrow> False"
| "secret_free (JList xs) \<longleftrightarrow> list_all secret_free xs"
| "secret_free (JObj fs) \<longleftrightarrow> list_all (\<lambda>(k, v). \<not> sensitive_key k \<and> secret_free v) fs"
| "secret_free _ \<longleftrightarrow> True"

text \<open>Texts over characters that none of the secret shapes can do without are harmless.\<close>

definition plain_chars :: string where
  "plain_chars = ''0123456789-:.+T''"

definition hex_chars :: string where
  "hex_chars = ''0123456789abcdef''"

lemma startswith_set: "startswith p s \<Longrightarrow> set p \<subseteq> set s"
  by (auto simp: startswith_iff)

lemma has_private_key_chars: "has_private_key s \<Longrightarrow> CHR ''N'' \<in> set s"
proof (induction s)
  case (Cons c s)
  then consider "startswith ''-----BEGIN '' (c # s)" | "has_private_key s" by auto
  then show ?case
  proof cases
    case 1
    then have "set ''-----BEGIN '' \<subseteq> set (c # s)" by (rule startswith_set)
    then show ?thesis by simp
  next
    case 2
    then show ?thesis using Cons.IH by simp
  qed
qed simp

lemma secret_text_chars:
  assumes "secret_text t"
  shows "CHR ''N'' \<in> set (upper t) \<or> CHR ''R'' \<in> set (upper t) \<or> CHR ''y'' \<in> set t"
  using assms has_private_key_chars [of "upper t"]
    startswith_set [of "''BEARER ''" "upper t"] startswith_set [of "''eyJ''" t]
  by (auto simp: secret_text_def)

lemma upper_plain: "list_all (\<lambda>c. upper_char c = c) plain_chars"
  by code_simp

lemma upper_hex: "list_all (\<lambda>c. upper_char c \<in> set ''0123456789ABCDEF'') hex_chars"
  by code_simp

lemma plain_members:
  "CHR ''-'' \<in> set plain_chars" "CHR '':'' \<in> set plain_chars" "CHR ''.'' \<in> set plain_chars"
  "CHR ''+'' \<in> set plain_chars" "CHR ''T'' \<in> set plain_chars"
  "CHR ''N'' \<notin> set plain_chars" "CHR ''R'' \<notin> set plain_chars" "CHR ''y'' \<notin> set plain_chars"
  "set ''0123456789'' \<subseteq> set plain_chars"
  by (simp_all add: plain_chars_def)

lemma plain_not_secret: "set t \<subseteq> set plain_chars \<Longrightarrow> \<not> secret_text t"
proof
  assume t: "set t \<subseteq> set plain_chars" and "secret_text t"
  from t have "upper t = t"
    unfolding upper_def using upper_plain by (intro map_idI) (auto simp: list_all_iff)
  with \<open>secret_text t\<close> have "CHR ''N'' \<in> set t \<or> CHR ''R'' \<in> set t \<or> CHR ''y'' \<in> set t"
    using secret_text_chars [of t] by simp
  with t show False using plain_members by blast
qed

lemma hex_not_secret: "set t \<subseteq> set hex_chars \<Longrightarrow> \<not> secret_text t"
proof
  assume t: "set t \<subseteq> set hex_chars" and "secret_text t"
  from t have "set (upper t) \<subseteq> set ''0123456789ABCDEF''"
    using upper_hex unfolding upper_def list_all_iff set_map by blast
  then have "CHR ''N'' \<notin> set (upper t)" "CHR ''R'' \<notin> set (upper t)"
    by (auto dest: subsetD)
  with \<open>secret_text t\<close> have "CHR ''y'' \<in> set t"
    using secret_text_chars [of t] by blast
  then have "CHR ''y'' \<in> set hex_chars" using t by blast
  then show False by (simp add: hex_chars_def)
qed

lemma digit_char_plain: "digit_char n \<in> set ''0123456789''"
proof -
  have "n mod 10 < length ''0123456789''" by simp
  then show ?thesis unfolding digit_char.simps by (rule nth_mem)
qed

lemma show_nat_plain: "set (show_nat n) \<subseteq> set ''0123456789''"
proof (induction n rule: show_nat.induct)
  case (1 n)
  show ?case
  proof (cases "n < 10")
    case True
    then show ?thesis using digit_char_plain [of n] by (subst show_nat.simps) simp
  next
    case False
    with 1 show ?thesis using digit_char_plain [of n]
      by (subst show_nat.simps) (simp del: digit_char.simps)
  qed
qed

lemma pad_plain: "set (pad w n) \<subseteq> set ''0123456789''"
  using show_nat_plain [of n] by (auto simp: pad_def)

lemma isoformat_plain: "set (isoformat t) \<subseteq> set plain_chars"
proof -
  have p: "set (pad w n) \<subseteq> set plain_chars" for w n
    using pad_plain [of w n] plain_members(9) by blast
  have w: "set (iso_wall w) \<subseteq> set plain_chars" for w
    by (simp add: iso_wall_def Let_def split_beta p plain_members)
  have "set (iso_offset off) \<subseteq> set plain_chars" for off
    by (simp add: iso_offset_def Let_def p plain_members)
  with w show ?thesis by (cases t) simp_all
qed

text \<open>The reduction removes every secret, whatever the payload.\<close>

lemma summary_secret_free:
  "set (sha t) \<subseteq> set hex_chars \<Longrightarrow> secret_free (large_string_summary sha t)"
proof -
  assume "set (sha t) \<subseteq> set hex_chars"
  then have sha: "\<not> secret_text (sha t)" by (rule hex_not_secret)
  have "\<not> sensitive_key ''_length''" "\<not> sensitive_key ''_omitted''" "\<not> sensitive_key ''_sha256''"
    "\<not> secret_text ''certificate_pem''" "\<not> secret_text ''large_text''"
    by code_simp+
  with sha show ?thesis by (simp add: large_string_summary_def)
qed

lemma truncated_secret_free:
  "set (sha t) \<subseteq> set hex_chars \<Longrightarrow>
   secret_free (JObj [(''_original_bytes'', JInt n), (''_sha256'', JStr (sha t)),
                      (''_truncated'', JBool True)])"
proof -
  assume "set (sha t) \<subseteq> set hex_chars"
  then have sha: "\<not> secret_text (sha t)" by (rule hex_not_secret)
  have "\<not> sensitive_key ''_original_bytes''" "\<not> sensitive_key ''_sha256''"
    "\<not> sensitive_key ''_truncated''"
    by code_simp+
  with sha show ?thesis by simp
qed

lemma json_safe_secret_free:
  assumes "\<And>t. set (sha t) \<subseteq> set hex_chars"
  shows "json_safe sha v = Some w \<Longrightarrow> secret_free w"
    and "list_all secret_free (safe_items sha xs)"
    and "list_all (\<lambda>(k, v). \<not> sensitive_key k \<and> secret_free v) (safe_fields sha fs)"
  using assms
proof (induction sha v and sha xs and sha fs arbitrary: w rule: json_safe_safe_items_safe_fields.induct)
  case (4 sha t)
  then show ?case
    using summary_secret_free by (auto split: if_splits)
next
  case (5 sha t)
  then show ?case using plain_not_secret [OF isoformat_plain] by auto
next
  case (7 sha fs)
  then show ?case by (auto simp: list_all_iff)
qed (auto split: option.splits)

lemma limit_secret_free:
  assumes "\<And>t. set (sha t) \<subseteq> set hex_chars" and "secret_free v"
  shows "secret_free (limit_payload sha v n)"
  using assms(2) truncated_secret_free [of sha "dumps v", OF assms(1)]
  by (simp del: secret_free.simps(4) add: limit_payload_def Let_def)

lemma sanitize_secret_free:
  assumes "\<And>t. set (sha t) \<subseteq> set hex_chars"
  shows "secret_free (sanitize_audit_payload sha payload n)"
  using json_safe_secret_free(1) [of sha, OF assms] limit_secret_free [of sha, OF assms]
  by (auto split: option.split simp: sanitize_audit_payload_def)

text \<open>The recorded changes are exactly the keys whose values differ.\<close>

lemma jget_absent: "k \<notin> set (obj_keys v) \<Longrightarrow> jget k v = JNull"
  by (cases v) (auto split: option.split dest: map_of_SomeD simp: rev_image_eqI)

lemma raw_changes_keys:
  "map_of (raw_changes old new) k =
     (if jget k old \<noteq> jget k new
      then Some (JObj [(''from'', jget k old), (''to'', jget k new)]) else None)"
proof -
  have m: "map_of (map (\<lambda>k. (k, g k)) ks) k = (if k \<in> set ks then Some (g k) else None)"
    for g :: "string \<Rightarrow> json" and ks
    by (induction ks) auto
  have "k \<in> set (obj_keys old) \<union> set (obj_keys new)" if "jget k old \<noteq> jget k new"
    using that jget_absent by fastforce
  then show ?thesis by (auto simp: raw_changes_def m)
qed

lemma raw_changes_same: "raw_changes v v = []"
  by (simp add: raw_changes_def)

lemma jget_secret_free: "secret_free v \<Longrightarrow> secret_free (jget k v)"
  by (cases v) (auto split: option.split dest!: map_of_SomeD simp: list_all_iff)

lemma obj_keys_not_sensitive: "secret_free v \<Longrightarrow> k \<in> set (obj_keys v) \<Longrightarrow> \<not> sensitive_key k"
  by (cases v) (auto simp: list_all_iff)

lemma changes_secret_free:
  assumes "\<And>t. set (sha t) \<subseteq> set hex_chars" and "secret_free old" and "secret_free new"
  shows "secret_free (build_audit_changes sha old new)"
proof -
  have "\<not> sensitive_key ''from''" "\<not> sensitive_key ''to''" by code_simp+
  with assms(2,3) have "secret_free (JObj (raw_changes old new))"
    by (auto simp: raw_changes_def list_all_iff jget_secret_free obj_keys_not_sensitive)
  with assms(1) show ?thesis
    unfolding build_audit_changes_def by (rule limit_secret_free)
qed

text \<open>Recording an event appends it and touches nothing else.\<close>

lemma record_audit_built:
  "record_audit c s = Inr t \<Longrightarrow> \<exists>source action modul entity.
     t = s\<lparr>audit_events :=
       audit_events s @ [build_audit_event (sha256 s) c source action modul entity]\<rparr>"
  unfolding record_audit_def Let_def andThen_eq_Inr by blast

lemma record_audit_appends:
  "record_audit c s = Inr t \<Longrightarrow> \<exists>e. t = s\<lparr>audit_events := audit_events s @ [e]\<rparr>"
  using record_audit_built by blast

text \<open>A call of a service, whose source and texts are acceptable, is always recorded.\<close>

lemma record_audit_ok:
  assumes "ac_source c = ''API'' \<or> ac_source c = ''SYSTEM''"
    and "required_text (ac_action c) 120 = Inr action" "required_text (ac_module c) 80 = Inr modul"
    and "required_text (ac_entity_type c) 120 = Inr entity"
  shows "\<exists>e. record_audit c s = Inr (s\<lparr>audit_events := audit_events s @ [e]\<rparr>)"
proof -
  have "strip (upper ''API'') = ''API''" "strip (upper ''SYSTEM'') = ''SYSTEM''" by code_simp+
  with assms(1) have src: "strip (upper (ac_source c)) = ac_source c" by metis
  have mem: "ac_source c \<in> {''UI'', ''API'', ''SYSTEM''}" using assms(1) by blast
  show ?thesis
    unfolding record_audit_def Let_def src assms(2-4) andThen_Inr
    using mem by (simp only: guard_True andThen_Inr) blast
qed

lemma record_audit_frame [simp]:
  assumes "record_audit c s = Inr t"
  shows "findings t = findings s" "status_history t = status_history s"
    "archive_history t = archive_history s" "presence_history t = presence_history s"
    "observations t = observations s" "collection_runs t = collection_runs s"
    "scope_executions t = scope_executions s" "cloud_accounts t = cloud_accounts s"
    "ledger t = ledger s" "summaries t = summaries s" "clock t = clock s" "ticks t = ticks s"
    "uuid4 t = uuid4 s" "uuids t = uuids s" "sha256 t = sha256 s"
  using record_audit_appends [OF assms] by auto

fun payload_free :: "json option \<Rightarrow> bool" where
  "payload_free None = True"
| "payload_free (Some v) = secret_free v"

definition event_secret_free :: "audit_event \<Rightarrow> bool" where
  "event_secret_free e \<longleftrightarrow> secret_free (au_changes e) \<and> payload_free (au_before e) \<and>
     payload_free (au_after e) \<and> payload_free (au_metadata e)"

lemma build_event_secret_free:
  assumes "\<And>t. set (sha t) \<subseteq> set hex_chars"
  shows "event_secret_free (build_audit_event sha c source action modul entity)"
proof -
  note s = sanitize_secret_free [of sha, OF assms]
  have o: "secret_free (if is_object v then v else JObj [])" if "secret_free v" for v
    using that by simp
  have p: "payload_free (object_option v)" if "secret_free v" for v
    using that by (simp add: object_option_def)
  note ch = o [OF changes_secret_free [of sha, OF assms o [OF s] o [OF s]]]
  show ?thesis
    unfolding event_secret_free_def build_audit_event_def Let_def audit_event.select_convs
    by (intro conjI p s ch)
qed

text \<open>
  C29: with SHA-256 digests in hexadecimal, a successful \<open>AuditService.record\<close> appends exactly
  one event, changes no other table, and every payload stored with the event (before, after,
  changes, metadata) is free of secrets: no sensitive key at any depth, no private key, bearer
  token or JWT among its texts.
\<close>

theorem audit_event_secret_free:
  assumes "\<And>t. set (sha256 s t) \<subseteq> set hex_chars"
    and "record_audit c s = Inr t"
  shows "\<exists>e. t = s\<lparr>audit_events := audit_events s @ [e]\<rparr> \<and> event_secret_free e"
proof -
  from assms(2) obtain source action modul entity where
    t: "t = s\<lparr>audit_events :=
          audit_events s @ [build_audit_event (sha256 s) c source action modul entity]\<rparr>"
    using record_audit_built by blast
  have "event_secret_free (build_audit_event (sha256 s) c source action modul entity)"
    by (rule build_event_secret_free [of "sha256 s", OF assms(1)])
  with t show ?thesis by blast
qed

theorem audit_event_secret_free_witness:
  "\<exists>t. record_audit (audit_call0\<lparr>ac_action := ''a'', ac_module := ''m'', ac_entity_type := ''e'',
       ac_metadata := Some (JObj [(''api_token'', JStr ''x''), (''n'', JInt 1)])\<rparr>) empty_db = Inr t
     \<and> map au_metadata (audit_events t) = [Some (JObj [(''n'', JInt 1)])]
     \<and> list_all event_secret_free (audit_events t)"
proof -
  let ?c = "audit_call0\<lparr>ac_action := ''a'', ac_module := ''m'', ac_entity_type := ''e'',
       ac_metadata := Some (JObj [(''api_token'', JStr ''x''), (''n'', JInt 1)])\<rparr>"
  have r: "case record_audit ?c empty_db of Inl _ \<Rightarrow> False
       | Inr t \<Rightarrow> map au_metadata (audit_events t) = [Some (JObj [(''n'', JInt 1)])]"
    by code_simp
  then obtain t where t: "record_audit ?c empty_db = Inr t"
    and m: "map au_metadata (audit_events t) = [Some (JObj [(''n'', JInt 1)])]"
    by (cases "record_audit ?c empty_db") auto
  have "set (sha256 empty_db x) \<subseteq> set hex_chars" for x by (simp add: empty_db_def hex_chars_def)
  from audit_event_secret_free [OF this t] m t show ?thesis by (auto simp: empty_db_def)
qed

text \<open>
  The changes of an audit event are exact: below the size limit, the entry of a key is
  present if and only if its value before and after differ, and it then holds both values.
\<close>

theorem audit_changes_exact:
  assumes "length (dumps (JObj (raw_changes old new))) \<le> 16384"
  shows "jget k (build_audit_changes sha old new) =
    (if jget k old = jget k new then JNull
     else JObj [(''from'', jget k old), (''to'', jget k new)])"
  using assms by (simp add: build_audit_changes_def limit_payload_def Let_def raw_changes_keys)

theorem audit_changes_exact_witness:
  "jget ''status'' (build_audit_changes (\<lambda>_. []) (JObj [(''status'', JStr ''open'')])
      (JObj [(''status'', JStr ''treated''), (''x'', JNull)]))
    = JObj [(''from'', JStr ''open''), (''to'', JStr ''treated'')]"
proof -
  let ?old = "JObj [(''status'', JStr ''open'')]"
  let ?new = "JObj [(''status'', JStr ''treated''), (''x'', JNull)]"
  have "length (dumps (JObj (raw_changes ?old ?new))) \<le> 16384" by code_simp
  from audit_changes_exact [OF this, of "''status''" "\<lambda>_. []"] show ?thesis by simp
qed

end
