(* ===== verification/Baselines.thy ===== *)
theory Baselines
  imports AuditTrail
begin

text \<open>
  Which two collections may be compared (backend/app/services/collection_comparison.py): the
  semantic comparison of scopes, the validation of a pair of runs, and the choice of the
  baseline of a run.
\<close>

section \<open>Semantic comparison of JSON values\<close>

text \<open>\<open>str(t)\<close> of a datetime: the ISO rendering with a blank for the \<open>T\<close>.\<close>

definition str_datetime :: "datetime \<Rightarrow> string" where
  "str_datetime t = replace_char CHR ''T'' CHR '' '' (isoformat t)"

text \<open>
  \<open>json.dumps(item, sort_keys=True)\<close> with the default separators, of a value whose objects are
  sorted and whose numbers are floats; \<open>JInt i\<close> is the float \<open>i\<close>, exact below \<open>2 ^ 53\<close>.
\<close>

definition ascii_quoted :: "string \<Rightarrow> string" where
  "ascii_quoted t =
     CHR 0x22 # concat (map (\<lambda>c. if c = CHR 0x7F then CHR 0x5C # ''u007f'' else escape_char c) t)
       @ [CHR 0x22]"

fun float_dumps :: "json \<Rightarrow> string" where
  "float_dumps JNull = ''null''"
| "float_dumps (JBool b) = (if b then ''true'' else ''false'')"
| "float_dumps (JInt i) = show_int i @ ''.0''"
| "float_dumps (JStr t) = ascii_quoted t"
| "float_dumps (JTime t) = ascii_quoted (str_datetime t)"
| "float_dumps (JList xs) = ''['' @ join '', '' (map float_dumps xs) @ '']''"
| "float_dumps (JObj fs) =
     ''{'' @ join '', '' (map (\<lambda>(k, v). ascii_quoted k @ '': '' @ float_dumps v) fs) @ ''}''"

fun semantic_value :: "json \<Rightarrow> json" where
  "semantic_value JNull = JNull"
| "semantic_value (JBool b) = JBool b"
| "semantic_value (JInt i) = JInt i"
| "semantic_value (JStr t) = JStr t"
| "semantic_value (JTime t) = JStr (str_datetime t)"
| "semantic_value (JList xs) = JList (sort_key float_dumps (map semantic_value xs))"
| "semantic_value (JObj fs) = JObj (sort_key fst (map (\<lambda>(k, v). (k, semantic_value v)) fs))"

text \<open>Python's \<open>==\<close> identifies \<open>True\<close> with \<open>1.0\<close> and \<open>False\<close> with \<open>0.0\<close>.\<close>

fun numeric :: "json \<Rightarrow> json" where
  "numeric (JBool b) = JInt (if b then 1 else 0)"
| "numeric (JList xs) = JList (map numeric xs)"
| "numeric (JObj fs) = JObj (map (\<lambda>(k, v). (k, numeric v)) fs)"
| "numeric v = v"

definition same :: "json \<Rightarrow> json \<Rightarrow> bool" where
  "same left right \<longleftrightarrow> numeric (semantic_value left) = numeric (semantic_value right)"

text \<open>The truth value of a JSON value.\<close>

fun json_truthy :: "json \<Rightarrow> bool" where
  "json_truthy JNull = False"
| "json_truthy (JBool b) = b"
| "json_truthy (JInt i) = (i \<noteq> 0)"
| "json_truthy (JStr t) = (t \<noteq> [])"
| "json_truthy (JTime t) = True"
| "json_truthy (JList xs) = (xs \<noteq> [])"
| "json_truthy (JObj fs) = (fs \<noteq> [])"

section \<open>Comparable runs\<close>

definition validate_run :: "collection_run \<Rightarrow> string \<Rightarrow> unit result" where
  "validate_run run role = guard (cr_status run = SUCCESS)
     (CollectionComparisonError ''COLLECTION_NOT_SUCCESSFUL''
        (''A coleta '' @ role @ '' nao foi concluida com sucesso.''))"

definition validate_comparable_runs :: "collection_run \<Rightarrow> collection_run \<Rightarrow> unit result" where
  "validate_comparable_runs baseline target =
     andThen (validate_run baseline ''baseline'') (\<lambda>_.
     andThen (validate_run target ''target'') (\<lambda>_.
     andThen (guard (cr_id baseline \<noteq> cr_id target)
       (CollectionComparisonError ''SAME_COLLECTION'' ''Selecione duas coletas diferentes.'')) (\<lambda>_.
     andThen (guard (lower (cr_provider baseline) = lower (cr_provider target))
       (CollectionComparisonError ''DIFFERENT_PROVIDER''
          ''As coletas pertencem a providers diferentes.'')) (\<lambda>_.
     andThen (guard (cr_account_id baseline = cr_account_id target)
       (CollectionComparisonError ''DIFFERENT_ACCOUNT''
          ''As coletas pertencem a contas diferentes.'')) (\<lambda>_.
     andThen (guard (\<not> (json_truthy (cr_scope baseline) \<and> json_truthy (cr_scope target)
                        \<and> \<not> same (cr_scope baseline) (cr_scope target)))
       (CollectionComparisonError ''DIFFERENT_SCOPE''
          ''As coletas possuem escopos conhecidos diferentes.'')) (\<lambda>_.
     guard (earlier (cr_started_at baseline) (cr_started_at target))
       (CollectionComparisonError ''BASELINE_NOT_EARLIER''
          ''A baseline precisa ser anterior a coleta atual.'')))))))"

text \<open>
  The order of the candidates, \<open>started_at DESC, id DESC\<close>: the sort is ascending and reversed.
\<close>

definition run_order :: "collection_run \<Rightarrow> int \<times> string" where
  "run_order r = (instant (cr_started_at r), cr_id r)"

definition baseline_candidates :: "db \<Rightarrow> collection_run \<Rightarrow> collection_run list" where
  "baseline_candidates s target =
     rev (sort_key run_order
       (filter (\<lambda>r. cr_id r \<noteq> cr_id target \<and> cr_status r = SUCCESS \<and>
                     cr_provider r = cr_provider target \<and>
                     cr_account_id r = cr_account_id target \<and>
                     earlier (cr_started_at r) (cr_started_at target))
          (collection_runs s)))"

definition scope_compatible :: "collection_run \<Rightarrow> collection_run \<Rightarrow> bool" where
  "scope_compatible candidate target \<longleftrightarrow>
     \<not> (json_truthy (cr_scope target) \<and> json_truthy (cr_scope candidate) \<and>
        \<not> same (cr_scope candidate) (cr_scope target))"

text \<open>
  The loop over the candidates: the accumulator is in reverse, and the limit is tested after
  a candidate was appended, as in the code.
\<close>

fun collect_compatible :: "collection_run \<Rightarrow> nat \<Rightarrow> collection_run list \<Rightarrow> collection_run list
    \<Rightarrow> collection_run list" where
  "collect_compatible target limit acc [] = rev acc"
| "collect_compatible target limit acc (c # cs) =
     (if \<not> scope_compatible c target then collect_compatible target limit acc cs
      else if limit \<le> length (c # acc) then rev (c # acc)
      else collect_compatible target limit (c # acc) cs)"

definition compatible_baselines ::
  "db \<Rightarrow> collection_run \<Rightarrow> nat \<Rightarrow> collection_run list result" where
  "compatible_baselines s target limit =
     andThen (validate_run target ''target'') (\<lambda>_.
     Inr (collect_compatible target limit [] (baseline_candidates s target)))"

definition previous_comparable_run ::
  "db \<Rightarrow> collection_run \<Rightarrow> collection_run option result" where
  "previous_comparable_run s target =
     andThen (compatible_baselines s target 1) (\<lambda>runs.
     Inr (case runs of [] \<Rightarrow> None | r # _ \<Rightarrow> Some r))"

text \<open>\<open>_page_meta\<close>: \<open>ceil(total / page_size) if total else 0\<close>.\<close>

definition total_pages :: "nat \<Rightarrow> nat \<Rightarrow> nat" where
  "total_pages n page_size =
     (if n = 0 then 0 else (n + page_size - 1) div page_size)"

section \<open>Correctness\<close>

lemma same_refl [simp]: "same v v"
  by (simp add: same_def)

lemma same_sym: "same v w = same w v"
  by (auto simp: same_def)

lemma same_trans: "same u v \<Longrightarrow> same v w \<Longrightarrow> same u w"
  by (simp add: same_def)

lemma collect_compatible_take:
  "length acc < limit \<Longrightarrow> collect_compatible target limit acc cs =
     take limit (rev acc @ filter (\<lambda>c. scope_compatible c target) cs)"
proof (induction cs arbitrary: acc)
  case Nil
  then show ?case by simp
next
  case (Cons c cs)
  show ?case
  proof (cases "limit \<le> length (c # acc)")
    case True
    with Cons.prems have "limit = Suc (length acc)" by simp
    then show ?thesis using Cons.IH [OF Cons.prems] by simp
  next
    case False
    then show ?thesis using Cons.IH [of acc] Cons.IH [of "c # acc"] Cons.prems by simp
  qed
qed

lemma compatible_baselines_ok:
  assumes "cr_status target = SUCCESS" "0 < limit"
  shows "compatible_baselines s target limit =
    Inr (take limit (filter (\<lambda>c. scope_compatible c target) (baseline_candidates s target)))"
  using assms
  by (simp add: compatible_baselines_def validate_run_def collect_compatible_take)

lemma previous_comparable_run_ok:
  assumes "cr_status target = SUCCESS"
  shows "previous_comparable_run s target =
    Inr (find (\<lambda>c. scope_compatible c target) (baseline_candidates s target))"
proof -
  have find: "find P xs = (case filter P xs of [] \<Rightarrow> None | x # _ \<Rightarrow> Some x)"
    for P and xs :: "collection_run list"
    by (induction xs) auto
  show ?thesis
    using assms
    by (simp add: previous_comparable_run_def compatible_baselines_ok find split: list.splits)
qed

lemma sorted_rev_find_max:
  assumes "find P (rev (sort_key k xs)) = Some x" "y \<in> set xs" "P y"
  shows "x \<in> set xs \<and> P x \<and> k y \<le> (k x :: 'k :: linorder)"
proof -
  from assms(1) obtain i where i: "i < length xs" "P (rev (sort_key k xs) ! i)"
    "x = rev (sort_key k xs) ! i" "\<forall>j<i. \<not> P (rev (sort_key k xs) ! j)"
    by (auto simp: find_Some_iff)
  have x: "x \<in> set xs" using i(1,3) by (metis length_rev length_sort nth_mem set_rev set_sort)
  from assms(2) obtain j where j: "j < length xs" "y = rev (sort_key k xs) ! j"
    by (metis in_set_conv_nth length_rev length_sort set_rev set_sort)
  with i(4) assms(3) have "i \<le> j" by (metis not_le)
  moreover have "sorted (map k (sort_key k xs))" by simp
  ultimately have "k y \<le> k x"
    using i(1,3) j
    by (simp add: rev_nth sorted_iff_nth_mono)
  with x i(2,3) show ?thesis by simp
qed

lemma found_in_rev_sort:
  "find P (rev (sort_key k xs)) = Some x \<Longrightarrow> x \<in> set xs \<and> P x"
  by (metis (no_types, lifting) find_Some_iff length_rev length_sort nth_mem set_rev set_sort)


definition run_at :: "string \<Rightarrow> int \<Rightarrow> collection_run" where
  "run_at i t = \<lparr>cr_id = i, cr_scan_id = None, cr_provider = ''aws'', cr_account_id = ''1'', cr_scope = JNull,
     cr_started_at = Naive t, cr_finished_at = None, cr_status = SUCCESS,
     cr_resources_analyzed = 0, cr_opportunities_found = 0,
     cr_detailed_observations_available = True, cr_analyzer_version = None,
     cr_error_detail = None\<rparr>"


end
