(* ===== verification/Ledger.thy ===== *)
theory Ledger
  imports Baselines
begin

text \<open>
  The FinOps ledger (backend/app/services/finops_ledger.py and models/finops_ledger.py): the
  table with its constraints, the creation of entries with idempotency keys, manual entries,
  reversals, and the queries.  Amounts are stored as \<open>NUMERIC(20, 8)\<close>.
\<close>

section \<open>Cloud providers\<close>

definition cloud_providers :: "string list" where
  "cloud_providers = [''aws'', ''oci'', ''azure'', ''gcp'']"

text \<open>\<open>normalize_provider\<close> of core/cloud.py.\<close>

definition normalize_provider :: "string \<Rightarrow> string result" where
  "normalize_provider v =
     (let p = lower (strip v)
      in if p \<in> set cloud_providers then Inr p
         else Inl (ValueError (p @ '' is not a valid CloudProvider'')))"

section \<open>The table\<close>

text \<open>Half a unit in the eighth place rounds away from zero, as PostgreSQL rounds numerics.\<close>

definition numeric8 :: "decimal \<Rightarrow> decimal" where
  "numeric8 x = (let r = of_int \<lfloor>\<bar>x\<bar> * 100000000 + 1 / 2\<rfloor> / 100000000
                 in if x < 0 then - r else r)"

definition check_constraints :: "ledger_entry \<Rightarrow> bool" where
  "check_constraints e \<longleftrightarrow>
     0 < le_amount e \<and>
     length (le_currency e) = 3 \<and> le_currency e = upper (le_currency e) \<and>
     (le_reference_period_end e = None \<or> le_reference_period_start e \<noteq> None) \<and>
     (case (le_reference_period_start e, le_reference_period_end e) of
        (Some a, Some b) \<Rightarrow> a \<le> b | _ \<Rightarrow> True) \<and>
     (le_source e \<noteq> OPPORTUNITY \<or>
        le_opportunity_id e \<noteq> None \<and> le_source_event_id e \<noteq> None \<and>
        le_idempotency_key e \<noteq> None) \<and>
     (le_source e \<noteq> MANUAL_SOURCE \<or> le_created_by e \<noteq> None) \<and>
     (le_reversal_of_id e \<noteq> Some (le_id e))"

definition references_exist :: "db \<Rightarrow> ledger_entry \<Rightarrow> bool" where
  "references_exist s e \<longleftrightarrow>
     le_cloud_account_id e \<in> ca_id ` set (cloud_accounts s) \<and>
     set_option (le_opportunity_id e) \<subseteq> f_id ` set (findings s) \<and>
     set_option (le_source_event_id e) \<subseteq> se_id ` set (status_history s) \<and>
     set_option (le_reversal_of_id e) \<subseteq> le_id ` set (ledger s)"

definition unique_keys :: "ledger_entry list \<Rightarrow> ledger_entry \<Rightarrow> bool" where
  "unique_keys es e \<longleftrightarrow>
     list_all (\<lambda>x. le_id x \<noteq> le_id e \<and>
       (le_idempotency_key e = None \<or> le_idempotency_key x \<noteq> le_idempotency_key e) \<and>
       (le_reversal_of_id e = None \<or> le_reversal_of_id x \<noteq> le_reversal_of_id e)) es"

text \<open>
  \<open>db.add(entry); db.flush()\<close> in a savepoint.  The amount is stored with eight decimals; one
  that does not fit twelve integer digits is a data error, everything else an integrity error.
\<close>

definition insert_entry :: "ledger_entry \<Rightarrow> db \<Rightarrow> (ledger_entry \<times> db) result" where
  "insert_entry e s =
     (let row = e\<lparr>le_amount := numeric8 (le_amount e)\<rparr>
      in andThen (guard (\<bar>le_amount row\<bar> < 1000000000000) DataError) (\<lambda>_.
         andThen (guard (check_constraints row \<and> references_exist s row \<and>
                         unique_keys (ledger s) row) IntegrityError) (\<lambda>_.
         Inr (row, s\<lparr>ledger := ledger s @ [row]\<rparr>))))"

section \<open>Creating entries\<close>

definition entry_type_value :: "string \<Rightarrow> entry_type result" where
  "entry_type_value v =
     (let t = upper (strip v)
      in if t = ''SAVING'' then Inr SAVING
         else if t = ''REALLOCATION'' then Inr REALLOCATION
         else if t = ''ADJUSTMENT'' then Inr ADJUSTMENT
         else Inl (FinOpsLedgerError (''Unsupported entry_type: '' @ v)))"

definition direction_value :: "string \<Rightarrow> direction result" where
  "direction_value v =
     (let t = upper (strip v)
      in if t = ''CREDIT'' then Inr CREDIT
         else if t = ''DEBIT'' then Inr DEBIT
         else Inl (FinOpsLedgerError (''Unsupported direction: '' @ v)))"

definition source_value :: "string \<Rightarrow> ledger_source result" where
  "source_value v =
     (let t = upper (strip v)
      in if t = ''OPPORTUNITY'' then Inr OPPORTUNITY
         else if t = ''MANUAL'' then Inr MANUAL_SOURCE
         else if t = ''SYSTEM'' then Inr SYSTEM_SOURCE
         else Inl (FinOpsLedgerError (''Unsupported source: '' @ v)))"

definition periodicity_value :: "string \<Rightarrow> periodicity result" where
  "periodicity_value v =
     (let t = upper (strip v)
      in if t = ''ONE_TIME'' then Inr ONE_TIME
         else if t = ''MONTHLY'' then Inr MONTHLY
         else Inl (FinOpsLedgerError (''Unsupported periodicity: '' @ v)))"

text \<open>What \<open>Decimal(str(value))\<close> gives: an exception, an infinity or NaN, or a number.\<close>

datatype decimal_input = NotDecimal | NotFinite | Finite decimal

fun amount_value :: "decimal_input \<Rightarrow> decimal result" where
  "amount_value NotDecimal = Inl (FinOpsLedgerError ''amount must be a valid Decimal value'')"
| "amount_value NotFinite = Inl (FinOpsLedgerError ''amount must be greater than zero'')"
| "amount_value (Finite a) =
     (if a \<le> 0 then Inl (FinOpsLedgerError ''amount must be greater than zero'') else Inr a)"

definition currency_value :: "string \<Rightarrow> string result" where
  "currency_value v =
     (let n = upper (strip v)
      in if length n \<noteq> 3 \<or> \<not> isalpha n
         then Inl (FinOpsLedgerError ''currency must be a three-letter ISO-style code'')
         else Inr n)"

definition get_account :: "db \<Rightarrow> int \<Rightarrow> cloud_account option" where
  "get_account s i = find_row ca_id i (cloud_accounts s)"

definition ledger_account :: "db \<Rightarrow> int \<Rightarrow> string \<Rightarrow> cloud_account result" where
  "ledger_account s i provider =
     (case get_account s i of
        None \<Rightarrow> Inl (FinOpsLedgerError ''Cloud account not found'')
      | Some a \<Rightarrow>
          if ca_provider a \<noteq> provider
          then Inl (FinOpsLedgerError ''provider does not match the selected cloud account'')
          else Inr a)"

definition get_status_event :: "db \<Rightarrow> string \<Rightarrow> status_event option" where
  "get_status_event s i = find_row se_id i (status_history s)"

definition validate_opportunity_source :: "db \<Rightarrow> string \<Rightarrow> string \<Rightarrow> string option \<Rightarrow>
    string option \<Rightarrow> string option \<Rightarrow> (string \<times> string) result" where
  "validate_opportunity_source s provider account_id opportunity_id source_event_id key =
     andThen (guard (truthy opportunity_id \<and> truthy source_event_id \<and> truthy key)
       (FinOpsLedgerError (''OPPORTUNITY entries require opportunity_id, source_event_id and '' @
          ''idempotency_key''))) (\<lambda>_.
     case (get_finding (the opportunity_id) s, get_status_event s (the source_event_id)) of
       (Some f, Some ev) \<Rightarrow>
         andThen (guard (se_opportunity_id ev = the opportunity_id)
           (FinOpsLedgerError ''Invalid opportunity source reference'')) (\<lambda>_.
         andThen (guard (se_to_status ev = Treated)
           (FinOpsLedgerError ''Opportunity source event must be a treatment transition'')) (\<lambda>_.
         andThen (guard (f_provider f = provider \<and> f_account_id f = account_id)
           (FinOpsLedgerError
              ''Opportunity provider/account does not match ledger account'')) (\<lambda>_.
         Inr (the opportunity_id, the source_event_id))))
     | _ \<Rightarrow> Inl (FinOpsLedgerError ''Invalid opportunity source reference''))"

text \<open>The keyword arguments of \<open>create_entry\<close>.\<close>

record entry_call =
  ec_entry_type :: string
  ec_direction :: string
  ec_cloud_account_id :: int
  ec_amount :: decimal_input
  ec_currency :: string
  ec_effective_at :: datetime
  ec_source :: string
  ec_actor :: "user option"
  ec_description :: "string option"
  ec_source_reference :: "string option"
  ec_opportunity_id :: "string option"
  ec_source_event_id :: "string option"
  ec_idempotency_key :: "string option"
  ec_periodicity :: string
  ec_reference_period_start :: "int option"
  ec_reference_period_end :: "int option"
  ec_context :: json

text \<open>\<open>key = idempotency_key.strip() if idempotency_key else None\<close>, blank keys dropped.\<close>

definition normalized_idempotency_key :: "string option \<Rightarrow> string option" where
  "normalized_idempotency_key k =
     (case k of None \<Rightarrow> None
      | Some t \<Rightarrow> if strip t = [] then None else Some (strip t))"

definition blank_to_none :: "string option \<Rightarrow> string option" where
  "blank_to_none t = (let n = strip (or_text t []) in if n = [] then None else Some n)"

definition find_by_key :: "db \<Rightarrow> string \<Rightarrow> ledger_entry option" where
  "find_by_key s k = find (\<lambda>e. le_idempotency_key e = Some k) (ledger s)"

text \<open>The shape and consistency checks, before the account is looked up.\<close>

definition validate_entry_call ::
  "entry_call \<Rightarrow> (entry_type \<times> direction \<times> ledger_source \<times> periodicity \<times> decimal \<times> string) result" where
  "validate_entry_call c =
     andThen (entry_type_value (ec_entry_type c)) (\<lambda>ty.
     andThen (direction_value (ec_direction c)) (\<lambda>dir.
     andThen (source_value (ec_source c)) (\<lambda>src.
     andThen (periodicity_value (ec_periodicity c)) (\<lambda>per.
     andThen (amount_value (ec_amount c)) (\<lambda>amount.
     andThen (currency_value (ec_currency c)) (\<lambda>currency.
     andThen (guard (\<not> (ty = SAVING \<and> dir \<noteq> CREDIT))
       (FinOpsLedgerError ''SAVING entries must use CREDIT direction'')) (\<lambda>_.
     andThen (guard (\<not> (ty = REALLOCATION \<and> dir \<noteq> DEBIT))
       (FinOpsLedgerError ''REALLOCATION entries must use DEBIT direction'')) (\<lambda>_.
     andThen (guard (\<not> (ec_reference_period_end c \<noteq> None \<and> ec_reference_period_start c = None))
       (FinOpsLedgerError ''reference_period_end requires reference_period_start'')) (\<lambda>_.
     andThen (guard (case (ec_reference_period_start c, ec_reference_period_end c) of
                       (Some a, Some b) \<Rightarrow> a \<le> b | _ \<Rightarrow> True)
       (FinOpsLedgerError ''reference_period_end cannot precede reference_period_start'')) (\<lambda>_.
     andThen (guard (\<not> (src = MANUAL_SOURCE \<and> ec_actor c = None))
       (FinOpsLedgerError ''MANUAL entries require an authenticated actor'')) (\<lambda>_.
     Inr (ty, dir, src, per, amount, currency))))))))))))"

text \<open>The account of the entry: it must exist, be of a known provider, and be normalized.\<close>

definition entry_account :: "db \<Rightarrow> int \<Rightarrow> (string \<times> cloud_account) result" where
  "entry_account s i =
     (case get_account s i of
        None \<Rightarrow> Inl (FinOpsLedgerError ''Cloud account not found'')
      | Some a \<Rightarrow>
          andThen (normalize_provider (ca_provider a)) (\<lambda>provider.
          andThen (ledger_account s i provider) (\<lambda>acc. Inr (provider, acc))))"

text \<open>Opportunity, event and reference of the entry.\<close>

definition entry_source :: "db \<Rightarrow> entry_call \<Rightarrow> ledger_source \<Rightarrow> string \<Rightarrow> cloud_account \<Rightarrow>
    (string option \<times> string option \<times> string option) result" where
  "entry_source s c src provider acc =
     (if src = OPPORTUNITY
      then andThen (validate_opportunity_source s provider (ca_native_account_id acc)
             (ec_opportunity_id c) (ec_source_event_id c) (ec_idempotency_key c))
             (\<lambda>(o_id, e_id). Inr (Some o_id, Some e_id,
                if truthy (ec_source_reference c) then ec_source_reference c else Some o_id))
      else Inr (ec_opportunity_id c, ec_source_event_id c, ec_source_reference c))"

text \<open>The savepoint: on an integrity error the entry with the same key, if any, is the result.\<close>

definition insert_or_existing :: "ledger_entry \<Rightarrow> db \<Rightarrow> (ledger_entry \<times> db) result" where
  "insert_or_existing entry s =
     (case insert_entry entry s of
        Inr r \<Rightarrow> Inr r
      | Inl err \<Rightarrow>
          if err \<noteq> IntegrityError then Inl err
          else case le_idempotency_key entry of
                 None \<Rightarrow> Inl IntegrityError
               | Some k \<Rightarrow> (case find_by_key s k of
                             None \<Rightarrow> Inl IntegrityError | Some e \<Rightarrow> Inr (e, s)))"

definition create_entry :: "entry_call \<Rightarrow> db \<Rightarrow> (ledger_entry \<times> db) result" where
  "create_entry c s =
     andThen (validate_entry_call c) (\<lambda>(ty, dir, src, per, amount, currency).
     andThen (entry_account s (ec_cloud_account_id c)) (\<lambda>(provider, acc).
     andThen (entry_source s c src provider acc) (\<lambda>(o_id, e_id, reference).
     let key = normalized_idempotency_key (ec_idempotency_key c)
     in andThen (guard (case key of None \<Rightarrow> True | Some k \<Rightarrow> length k \<le> 255)
          (FinOpsLedgerError ''idempotency_key must have at most 255 characters'')) (\<lambda>_.
        let (new_id, s1) = new_uuid s;
            (now, s2) = utcnow s1
        in insert_or_existing
             \<lparr>le_id = new_id, le_entry_type = ty, le_direction = dir,
              le_provider = provider, le_cloud_account_id = ca_id acc,
              le_account_id = ca_native_account_id acc, le_amount = amount,
              le_currency = currency, le_effective_at = aware (ec_effective_at c),
              le_source = src, le_source_reference = reference, le_opportunity_id = o_id,
              le_source_event_id = e_id, le_idempotency_key = key,
              le_description = blank_to_none (ec_description c), le_context = ec_context c,
              le_periodicity = per, le_reference_period_start = ec_reference_period_start c,
              le_reference_period_end = ec_reference_period_end c,
              le_created_by = map_option u_id (ec_actor c), le_created_at = now,
              le_reversal_of_id = None\<rparr> s2))))"

record manual_call =
  mc_entry_type :: string
  mc_direction :: "string option"
  mc_provider :: string
  mc_cloud_account_id :: int
  mc_amount :: decimal_input
  mc_currency :: string
  mc_effective_at :: datetime
  mc_actor :: user
  mc_description :: string
  mc_request_id :: string
  mc_periodicity :: string
  mc_reference_period_start :: "int option"
  mc_reference_period_end :: "int option"

fun entry_type_text :: "entry_type \<Rightarrow> string" where
  "entry_type_text SAVING = ''SAVING''"
| "entry_type_text REALLOCATION = ''REALLOCATION''"
| "entry_type_text ADJUSTMENT = ''ADJUSTMENT''"

fun direction_text :: "direction \<Rightarrow> string" where
  "direction_text CREDIT = ''CREDIT''"
| "direction_text DEBIT = ''DEBIT''"

text \<open>The direction of a manual entry follows from its type, unless it is an adjustment.\<close>

definition manual_direction :: "entry_type \<Rightarrow> string option \<Rightarrow> direction result" where
  "manual_direction ty d =
     (case ty of
        SAVING \<Rightarrow>
          (case d of None \<Rightarrow> Inr CREDIT
           | Some t \<Rightarrow> andThen (direction_value t) (\<lambda>v.
               andThen (guard (v = CREDIT)
                 (FinOpsLedgerError ''SAVING entries must use CREDIT direction'')) (\<lambda>_.
               Inr CREDIT)))
      | REALLOCATION \<Rightarrow>
          (case d of None \<Rightarrow> Inr DEBIT
           | Some t \<Rightarrow> andThen (direction_value t) (\<lambda>v.
               andThen (guard (v = DEBIT)
                 (FinOpsLedgerError ''REALLOCATION entries must use DEBIT direction'')) (\<lambda>_.
               Inr DEBIT)))
      | ADJUSTMENT \<Rightarrow>
          (case d of
             None \<Rightarrow> Inl (FinOpsLedgerError ''ADJUSTMENT entries require direction'')
           | Some t \<Rightarrow> direction_value t))"

definition create_manual_entry :: "manual_call \<Rightarrow> db \<Rightarrow> (ledger_entry \<times> db) result" where
  "create_manual_entry c s =
     andThen (case normalize_provider (mc_provider c) of
                Inl _ \<Rightarrow> Inl (FinOpsLedgerError (''Unsupported provider: '' @ mc_provider c))
              | Inr p \<Rightarrow> Inr p) (\<lambda>provider.
     andThen (ledger_account s (mc_cloud_account_id c) provider) (\<lambda>acc.
     andThen (entry_type_value (mc_entry_type c)) (\<lambda>ty.
     andThen (manual_direction ty (mc_direction c)) (\<lambda>dir.
     andThen (currency_value (mc_currency c)) (\<lambda>currency.
     andThen (guard (currency \<in> {''BRL'', ''USD''})
       (FinOpsLedgerError ''Manual entries currently support BRL and USD currencies'')) (\<lambda>_.
     let description = strip (mc_description c)
     in andThen (guard (3 \<le> length description)
          (FinOpsLedgerError ''description must contain at least 3 characters'')) (\<lambda>_.
     let effective = aware (mc_effective_at c); (now, s1) = utcnow s
     in andThen (guard (date_of (utc effective) \<le> date_of (utc now))
          (FinOpsLedgerError ''effective_date cannot be in the future'')) (\<lambda>_.
     let request_id = strip (mc_request_id c)
     in andThen (guard (request_id \<noteq> [])
          (FinOpsLedgerError ''manual_entry_request_id is required'')) (\<lambda>_.
     create_entry
       \<lparr>ec_entry_type = entry_type_text ty, ec_direction = direction_text dir,
        ec_cloud_account_id = ca_id acc, ec_amount = mc_amount c, ec_currency = currency,
        ec_effective_at = effective, ec_source = ''MANUAL'', ec_actor = Some (mc_actor c),
        ec_description = Some description, ec_source_reference = None,
        ec_opportunity_id = None, ec_source_event_id = None,
        ec_idempotency_key = Some (''manual:'' @ request_id),
        ec_periodicity = mc_periodicity c,
        ec_reference_period_start = mc_reference_period_start c,
        ec_reference_period_end = mc_reference_period_end c,
        ec_context = JObj [(''manual_entry_request_id'', JStr request_id)]\<rparr> s1)))))))))"

section \<open>Reversals and queries\<close>

definition get_entry :: "db \<Rightarrow> string \<Rightarrow> ledger_entry result" where
  "get_entry s i = (case find_row le_id i (ledger s) of
     None \<Rightarrow> Inl (FinOpsLedgerNotFoundError ''FinOps ledger entry not found'')
   | Some e \<Rightarrow> Inr e)"

text \<open>\<open>reversal_map\<close>: original to reversal, for the given entries.\<close>

definition reversal_map :: "db \<Rightarrow> string list \<Rightarrow> (string \<times> string) list" where
  "reversal_map s ids =
     List.map_filter (\<lambda>e. case le_reversal_of_id e of
         None \<Rightarrow> None
       | Some i \<Rightarrow> if i \<in> set ids then Some (i, le_id e) else None) (ledger s)"

fun opposite :: "direction \<Rightarrow> direction" where
  "opposite CREDIT = DEBIT"
| "opposite DEBIT = CREDIT"

definition reversal_entry :: "ledger_entry \<Rightarrow> string \<Rightarrow> user option \<Rightarrow> datetime \<Rightarrow> string \<Rightarrow>
    datetime \<Rightarrow> ledger_entry" where
  "reversal_entry original new_id actor effective description now =
     \<lparr>le_id = new_id, le_entry_type = ADJUSTMENT,
      le_direction = opposite (le_direction original), le_provider = le_provider original,
      le_cloud_account_id = le_cloud_account_id original,
      le_account_id = le_account_id original, le_amount = le_amount original,
      le_currency = le_currency original, le_effective_at = aware effective,
      le_source = SYSTEM_SOURCE, le_source_reference = Some (le_id original),
      le_opportunity_id = None, le_source_event_id = None,
      le_idempotency_key = Some (''finops-reversal:'' @ le_id original),
      le_description = Some description,
      le_context = JObj [(''reversal_of'', JStr (le_id original)), (''reason'', JStr description)],
      le_periodicity = le_periodicity original,
      le_reference_period_start = le_reference_period_start original,
      le_reference_period_end = le_reference_period_end original,
      le_created_by = map_option u_id actor, le_created_at = now,
      le_reversal_of_id = Some (le_id original)\<rparr>"

text \<open>\<open>value or utcnow()\<close>.\<close>

definition given_or_now :: "datetime option \<Rightarrow> db \<Rightarrow> datetime \<times> db" where
  "given_or_now t s = (case t of Some v \<Rightarrow> (v, s) | None \<Rightarrow> utcnow s)"

text \<open>\<open>except IntegrityError as exc: raise FinOpsLedgerConflictError(...)\<close>.\<close>

definition conflict_on_integrity :: "'a result \<Rightarrow> 'a result" where
  "conflict_on_integrity r =
     (case r of
        Inr x \<Rightarrow> Inr x
      | Inl err \<Rightarrow>
          if err = IntegrityError
          then Inl (FinOpsLedgerConflictError ''FinOps ledger entry is already reversed'')
          else Inl err)"

definition reverse_entry :: "string \<Rightarrow> user option \<Rightarrow> datetime option \<Rightarrow> string option \<Rightarrow> db \<Rightarrow>
    (ledger_entry \<times> db) result" where
  "reverse_entry entry_id actor effective_at description s =
     andThen (get_entry s entry_id) (\<lambda>original.
     andThen (guard (le_reversal_of_id original = None)
       (FinOpsLedgerConflictError ''A reversal entry cannot be reversed by this operation'')) (\<lambda>_.
     andThen (guard (list_all (\<lambda>e. le_reversal_of_id e \<noteq> Some (le_id original)) (ledger s))
       (FinOpsLedgerConflictError ''FinOps ledger entry is already reversed'')) (\<lambda>_.
     let text = strip (or_text description (''Reversal of ledger entry '' @ le_id original));
         (effective, s1) = given_or_now effective_at s;
         (new_id, s2) = new_uuid s1;
         (now, s3) = utcnow s2
     in conflict_on_integrity
          (insert_entry (reversal_entry original new_id actor effective text now) s3))))"

record ledger_filters =
  lf_provider :: "string option"
  lf_account_id :: "string option"
  lf_currency :: "string option"
  lf_entry_type :: "string option"
  lf_direction :: "string option"
  lf_source :: "string option"
  lf_effective_from :: "datetime option"
  lf_effective_to :: "datetime option"

definition no_filters :: ledger_filters where
  "no_filters = \<lparr>lf_provider = None, lf_account_id = None, lf_currency = None,
     lf_entry_type = None, lf_direction = None, lf_source = None, lf_effective_from = None,
     lf_effective_to = None\<rparr>"

text \<open>\<open>if value: conditions.append(column == f(value))\<close>; \<open>f\<close> may raise.\<close>

definition when_given ::
  "string option \<Rightarrow> (string \<Rightarrow> 'a result) \<Rightarrow> (ledger_entry \<Rightarrow> 'a) \<Rightarrow>
   (ledger_entry \<Rightarrow> bool) result" where
  "when_given v f column =
     (if truthy v then andThen (f (the v)) (\<lambda>x. Inr (\<lambda>e. column e = x)) else Inr (\<lambda>_. True))"

definition ledger_conditions :: "ledger_filters \<Rightarrow> (ledger_entry \<Rightarrow> bool) result" where
  "ledger_conditions q =
     andThen (when_given (lf_provider q) normalize_provider le_provider) (\<lambda>c1.
     andThen (when_given (lf_account_id q) Inr le_account_id) (\<lambda>c2.
     andThen (when_given (lf_currency q) currency_value le_currency) (\<lambda>c3.
     andThen (when_given (lf_entry_type q) entry_type_value le_entry_type) (\<lambda>c4.
     andThen (when_given (lf_direction q) direction_value le_direction) (\<lambda>c5.
     andThen (when_given (lf_source q) source_value le_source) (\<lambda>c6.
     Inr (\<lambda>e. c1 e \<and> c2 e \<and> c3 e \<and> c4 e \<and> c5 e \<and> c6 e \<and>
        (case lf_effective_from q of None \<Rightarrow> True
         | Some t \<Rightarrow> no_later (aware t) (le_effective_at e)) \<and>
        (case lf_effective_to q of None \<Rightarrow> True
         | Some t \<Rightarrow> earlier (le_effective_at e) (aware t)))))))))"

definition list_entries ::
  "db \<Rightarrow> ledger_filters \<Rightarrow> nat \<Rightarrow> nat \<Rightarrow> (ledger_entry list \<times> nat \<times> nat) result" where
  "list_entries s q page page_size =
     andThen (ledger_conditions q) (\<lambda>P.
     let rows = filter P (ledger s);
         ordered = rev (sort_key (\<lambda>e. (instant (le_effective_at e), instant (le_created_at e),
                                        le_id e)) rows)
     in Inr (take page_size (drop ((page - 1) * page_size) ordered), length rows,
             total_pages (length rows) page_size))"

record balance =
  credits :: decimal
  debits :: decimal
  net :: decimal

definition sum_where :: "(ledger_entry \<Rightarrow> bool) \<Rightarrow> ledger_entry list \<Rightarrow> decimal" where
  "sum_where P es = sum_list (map le_amount (filter P es))"

text \<open>
  \<open>calculate_balances\<close>: the groups of \<open>SUM(amount) ... GROUP BY currency, direction\<close>, put
  into one bucket per currency.  The additions of the buckets are exact: a sum has at most
  28 significant digits.
\<close>

definition calculate_balances :: "db \<Rightarrow> ledger_filters \<Rightarrow> (string \<times> balance) list result" where
  "calculate_balances s q =
     andThen (ledger_conditions q) (\<lambda>P.
     let rows = filter P (ledger s)
     in Inr (map (\<lambda>cur.
          let c = sum_where (\<lambda>e. le_currency e = cur \<and> le_direction e = CREDIT) rows;
              d = sum_where (\<lambda>e. le_currency e = cur \<and> le_direction e = DEBIT) rows
          in (cur, \<lparr>credits = c, debits = d, net = c - d\<rparr>))
        (sort (remdups (map le_currency rows)))))"

section \<open>Correctness\<close>

lemma numeric8_nonneg: "0 \<le> x \<Longrightarrow> numeric8 x = of_int \<lfloor>x * 100000000 + 1 / 2\<rfloor> / 100000000"
  by (simp add: numeric8_def)

lemma numeric8_of_int [simp]: "numeric8 (of_int k / 100000000) = of_int k / 100000000"
proof -
  have "\<lfloor>(of_int n :: rat) + 1 / 2\<rfloor> = n" for n :: int by (simp add: floor_unique)
  from this [of "\<bar>k\<bar>"] have "\<lfloor>\<bar>of_int k / 100000000 :: rat\<bar> * 100000000 + 1 / 2\<rfloor> = \<bar>k\<bar>"
    by simp
  then show ?thesis unfolding numeric8_def Let_def
    by (cases "k < 0") (simp_all add: divide_less_0_iff)
qed

lemma numeric8_idem [simp]: "numeric8 (numeric8 x) = numeric8 x"
proof -
  obtain k :: int where "numeric8 x = of_int k / 100000000"
  proof (cases "x < 0")
    case True
    show thesis
      by (rule that [of "- \<lfloor>\<bar>x\<bar> * 100000000 + 1 / 2\<rfloor>"]) (use True in \<open>simp add: numeric8_def\<close>)
  next
    case False
    show thesis
      by (rule that [of "\<lfloor>\<bar>x\<bar> * 100000000 + 1 / 2\<rfloor>"]) (use False in \<open>simp add: numeric8_def\<close>)
  qed
  then show ?thesis by (metis numeric8_of_int)
qed

text \<open>A reversal mirrors its original in everything but the direction.\<close>

definition mirrors :: "ledger_entry \<Rightarrow> ledger_entry \<Rightarrow> bool" where
  "mirrors r e \<longleftrightarrow>
     le_reversal_of_id r = Some (le_id e) \<and> le_reversal_of_id e = None \<and>
     le_entry_type r = ADJUSTMENT \<and> le_direction r = opposite (le_direction e) \<and>
     le_amount r = le_amount e \<and> le_currency r = le_currency e \<and>
     le_provider r = le_provider e \<and> le_account_id r = le_account_id e \<and>
     le_cloud_account_id r = le_cloud_account_id e"

definition sound_entry :: "ledger_entry \<Rightarrow> bool" where
  "sound_entry e \<longleftrightarrow> check_constraints e \<and> numeric8 (le_amount e) = le_amount e \<and>
     (le_entry_type e = SAVING \<longrightarrow> le_direction e = CREDIT) \<and>
     (le_entry_type e = REALLOCATION \<longrightarrow> le_direction e = DEBIT)"

definition sound_ledger :: "ledger_entry list \<Rightarrow> bool" where
  "sound_ledger es \<longleftrightarrow>
     (\<forall>e \<in> set es. sound_entry e) \<and> distinct (map le_id es) \<and>
     distinct (List.map_filter le_idempotency_key es) \<and>
     distinct (List.map_filter le_reversal_of_id es) \<and>
     (\<forall>r \<in> set es. le_reversal_of_id r \<noteq> None \<longrightarrow> (\<exists>e \<in> set es. mirrors r e))"

lemma sound_ledger_Nil [simp]: "sound_ledger []"
  by (simp add: sound_ledger_def List.map_filter_def)

lemma set_map_filter_option: "set (List.map_filter f xs) = {y. \<exists>x \<in> set xs. f x = Some y}"
  by (force simp: List.map_filter_def)

lemma map_filter_snoc:
  "List.map_filter f (xs @ [x]) =
     List.map_filter f xs @ (case f x of None \<Rightarrow> [] | Some y \<Rightarrow> [y])"
  by (simp add: List.map_filter_def split: option.split)

lemma sound_ledger_snoc:
  assumes "sound_ledger es" "sound_entry e" "unique_keys es e"
    and "le_reversal_of_id e \<noteq> None \<Longrightarrow> \<exists>x \<in> set es. mirrors e x"
  shows "sound_ledger (es @ [e])"
  using assms
  unfolding sound_ledger_def map_filter_snoc unique_keys_def list_all_iff
  by (auto simp: set_map_filter_option split: option.split)

lemma distinct_map_filter_key:
  assumes "distinct (List.map_filter f xs)" "x \<in> set xs" "y \<in> set xs" "f x = Some k" "f y = Some k"
  shows "x = y"
  using assms
proof (induction xs)
  case (Cons z xs)
  then show ?case
    by (cases "f z") (auto simp: List.map_filter_def image_iff)
qed simp

text \<open>What a successful insert tells.\<close>

lemma insert_entry_Inr:
  assumes "insert_entry e s = Inr (row, t)"
  shows "row = e\<lparr>le_amount := numeric8 (le_amount e)\<rparr>" "t = s\<lparr>ledger := ledger s @ [row]\<rparr>"
    "check_constraints row" "references_exist s row" "unique_keys (ledger s) row"
  using assms by (auto simp: insert_entry_def Let_def andThen_eq_Inr)

lemma insert_entry_Inl:
  "insert_entry e s = Inl err \<Longrightarrow> err = DataError \<or> err = IntegrityError"
  by (auto simp: insert_entry_def Let_def andThen_eq_Inl)

text \<open>Two states that differ in nothing but the ledger and the environment's readings.\<close>

definition ledger_only :: "db \<Rightarrow> db \<Rightarrow> bool" where
  "ledger_only s t \<longleftrightarrow> t\<lparr>ledger := ledger s, ticks := ticks s, uuids := uuids s\<rparr> = s"

lemma validate_entry_call_Inr:
  assumes "validate_entry_call c = Inr (ty, dir, src, per, amount, currency)"
  shows "ty = SAVING \<Longrightarrow> dir = CREDIT" "ty = REALLOCATION \<Longrightarrow> dir = DEBIT" "0 < amount"
proof -
  note v = assms [unfolded validate_entry_call_def andThen_eq_Inr guard_eq_Inr]
  from v show "ty = SAVING \<Longrightarrow> dir = CREDIT" by clarsimp
  from v show "ty = REALLOCATION \<Longrightarrow> dir = DEBIT" by clarsimp
  have "amount_value (ec_amount c) = Inr amount" using v by clarsimp
  then show "0 < amount" by (cases "ec_amount c") (auto split: if_splits)
qed

lemma insert_or_existing_cases:
  assumes "insert_or_existing x s = Inr (e, t)"
    and "insert_entry x s = Inr (e, t) \<Longrightarrow> P"
    and "e \<in> set (ledger s) \<Longrightarrow> t = s \<Longrightarrow> le_idempotency_key e = k \<Longrightarrow>
      le_idempotency_key e \<noteq> None \<Longrightarrow> P"
    and "le_idempotency_key x = k"
  shows P
proof (cases "insert_entry x s")
  case (Inr r)
  with assms(1,2) show ?thesis by (simp add: insert_or_existing_def)
next
  case (Inl err)
  with assms(1,4) obtain k' where "k = Some k'" "find_by_key s k' = Some e" "t = s"
    by (auto simp: insert_or_existing_def split: if_splits option.splits)
  then have "le_idempotency_key e = k" "e \<in> set (ledger s)"
    by (auto simp: find_by_key_def find_Some_iff)
  with assms(3) \<open>t = s\<close> \<open>k = Some k'\<close> show ?thesis by simp
qed

lemma create_entry_Inr:
  assumes "create_entry c s = Inr (e, t)"
  shows "\<exists>x. insert_or_existing x (s\<lparr>uuids := Suc (uuids s), ticks := Suc (ticks s)\<rparr>) = Inr (e, t) \<and>
    le_idempotency_key x = normalized_idempotency_key (ec_idempotency_key c) \<and>
    le_reversal_of_id x = None \<and>
    (le_entry_type x = SAVING \<longrightarrow> le_direction x = CREDIT) \<and>
    (le_entry_type x = REALLOCATION \<longrightarrow> le_direction x = DEBIT)"
proof -
  obtain ty dir src per amount currency where
    v: "validate_entry_call c = Inr (ty, dir, src, per, amount, currency)"
    using assms by (auto simp: create_entry_def andThen_eq_Inr)
  obtain provider acc where a: "entry_account s (ec_cloud_account_id c) = Inr (provider, acc)"
    using assms by (auto simp: create_entry_def andThen_eq_Inr)
  obtain o_id e_id reference where
    r: "entry_source s c src provider acc = Inr (o_id, e_id, reference)"
    using assms v a by (auto simp: create_entry_def andThen_eq_Inr)
  from assms v a r show ?thesis
    using validate_entry_call_Inr(1,2) [OF v]
    by (auto simp: create_entry_def andThen_eq_Inr env_defs Let_def)
qed

lemma create_entry_cases:
  assumes "create_entry c s = Inr (e, t)"
  shows "ledger_only s t"
    and "(ledger t = ledger s @ [e] \<and> unique_keys (ledger s) e \<and> sound_entry e \<and>
          le_reversal_of_id e = None \<and>
          le_idempotency_key e = normalized_idempotency_key (ec_idempotency_key c)) \<or>
         (ledger t = ledger s \<and> e \<in> set (ledger s) \<and>
          le_idempotency_key e = normalized_idempotency_key (ec_idempotency_key c) \<and>
          le_idempotency_key e \<noteq> None)"
proof -
  let ?s = "s\<lparr>uuids := Suc (uuids s), ticks := Suc (ticks s)\<rparr>"
  let ?k = "normalized_idempotency_key (ec_idempotency_key c)"
  from create_entry_Inr [OF assms] obtain x where x: "insert_or_existing x ?s = Inr (e, t)"
    "le_idempotency_key x = ?k" "le_reversal_of_id x = None"
    "le_entry_type x = SAVING \<longrightarrow> le_direction x = CREDIT"
    "le_entry_type x = REALLOCATION \<longrightarrow> le_direction x = DEBIT" by blast
  let ?new = "ledger t = ledger s @ [e] \<and> unique_keys (ledger s) e \<and> sound_entry e \<and>
          le_reversal_of_id e = None \<and> le_idempotency_key e = ?k"
  let ?old = "ledger t = ledger s \<and> e \<in> set (ledger s) \<and>
          le_idempotency_key e = ?k \<and> le_idempotency_key e \<noteq> None"
  have "ledger_only s t \<and> (?new \<or> ?old)"
    using x(1)
  proof (rule insert_or_existing_cases)
    assume "insert_entry x ?s = Inr (e, t)"
    note i = insert_entry_Inr [OF this]
    have "ledger_only s t" by (simp add: i(2) ledger_only_def)
    moreover have "sound_entry e" using i(3) x(4,5) by (simp add: sound_entry_def i(1))
    moreover have "unique_keys (ledger s) e" using i(5) by simp
    ultimately show ?thesis using x(2,3) by (simp add: i(2)) (simp add: i(1))
  next
    assume "e \<in> set (ledger ?s)" "t = ?s" "le_idempotency_key e = ?k" "le_idempotency_key e \<noteq> None"
    then show ?thesis by (simp add: ledger_only_def)
  qed (rule x(2))
  then show "ledger_only s t" "?new \<or> ?old" by blast+
qed

lemma create_manual_entry_create:
  assumes "create_manual_entry c s = Inr r"
  shows "\<exists>call. create_entry call (snd (utcnow s)) = Inr r \<and>
    ec_idempotency_key call = Some (''manual:'' @ strip (mc_request_id c))"
  using assms
  by (auto simp: create_manual_entry_def andThen_eq_Inr Let_def env_defs)

text \<open>What a reversal does.\<close>

lemma opposite_opposite [simp]: "opposite (opposite d) = d"
  by (cases d) simp_all

lemma conflict_on_integrity_Inr [simp]: "conflict_on_integrity r = Inr x \<longleftrightarrow> r = Inr x"
  by (simp add: conflict_on_integrity_def split: sum.split)

lemma env_ledger [simp]:
  "ledger (snd (utcnow s)) = ledger s" "ledger (snd (new_uuid s)) = ledger s"
  "ledger (snd (given_or_now d s)) = ledger s"
  by (simp_all add: env_defs given_or_now_def split: option.split)

lemma ledger_only_trans: "ledger_only s t \<Longrightarrow> ledger_only t u \<Longrightarrow> ledger_only s u"
proof -
  assume st: "ledger_only s t" and tu: "ledger_only t u"
  have "u\<lparr>ledger := ledger s, ticks := ticks s, uuids := uuids s\<rparr> =
      (u\<lparr>ledger := ledger t, ticks := ticks t, uuids := uuids t\<rparr>)
        \<lparr>ledger := ledger s, ticks := ticks s, uuids := uuids s\<rparr>" by simp
  also have "\<dots> = s" using st tu unfolding ledger_only_def by simp
  finally show ?thesis unfolding ledger_only_def .
qed

lemma ledger_only_env [simp]:
  "ledger_only s (snd (utcnow s))" "ledger_only s (snd (new_uuid s))"
  "ledger_only s (snd (given_or_now d s))" "ledger_only s s"
  by (simp_all add: env_defs given_or_now_def ledger_only_def split: option.split)

lemma reverse_entry_insert:
  assumes "reverse_entry i actor eff desc s = Inr (r, t)"
  shows "\<exists>e x s'. get_entry s i = Inr e \<and> le_reversal_of_id e = None \<and>
    list_all (\<lambda>e'. le_reversal_of_id e' \<noteq> Some (le_id e)) (ledger s) \<and>
    insert_entry x s' = Inr (r, t) \<and> ledger s' = ledger s \<and> ledger_only s s' \<and>
    (\<exists>new_id eff text now. x = reversal_entry e new_id actor eff text now)"
proof -
  let ?s = "snd (utcnow (snd (new_uuid (snd (given_or_now eff s)))))"
  have "ledger ?s = ledger s" by simp
  moreover have "ledger_only s ?s" by (blast intro: ledger_only_trans ledger_only_env)
  ultimately show ?thesis
    using assms
    unfolding reverse_entry_def andThen_eq_Inr guard_eq_Inr Let_def case_prod_beta
      conflict_on_integrity_Inr
    by blast
qed

lemma reverse_entry_Inr:
  assumes "reverse_entry i actor eff desc s = Inr (r, t)" and "sound_ledger (ledger s)"
  shows "ledger_only s t" "ledger t = ledger s @ [r]" "unique_keys (ledger s) r" "sound_entry r"
    and "\<exists>e \<in> set (ledger s). le_id e = i \<and> mirrors r e"
proof -
  from reverse_entry_insert [OF assms(1)]
  obtain e x s' where e: "get_entry s i = Inr e" "le_reversal_of_id e = None"
    and ins: "insert_entry x s' = Inr (r, t)"
    and s': "ledger s' = ledger s" "ledger_only s s'"
    and x: "\<exists>new_id eff text now. x = reversal_entry e new_id actor eff text now"
    by blast
  from e(1) have mem: "e \<in> set (ledger s)" "le_id e = i"
    using find_row_Some by (fastforce simp: get_entry_def split: option.splits)+
  note q = insert_entry_Inr [OF ins]
  have "numeric8 (le_amount e) = le_amount e"
    using mem(1) assms(2) by (simp add: sound_ledger_def sound_entry_def)
  with x have rx: "r = x" by (auto simp: q(1) reversal_entry_def)
  have "mirrors r e" using x e(2) by (auto simp: rx reversal_entry_def mirrors_def)
  with mem show "\<exists>e \<in> set (ledger s). le_id e = i \<and> mirrors r e" by blast
  show "sound_entry r"
    using q(3) x \<open>numeric8 (le_amount e) = le_amount e\<close>
    by (auto simp: rx sound_entry_def reversal_entry_def)
  show "ledger t = ledger s @ [r]" "unique_keys (ledger s) r"
    using q(2,5) s'(1) by simp_all
  show "ledger_only s t" using s'(2) by (simp add: q(2) ledger_only_def)
qed

text \<open>The ledger's transitions.\<close>

inductive ledger_step :: "db \<Rightarrow> db \<Rightarrow> bool" where
  step_create: "create_entry c s = Inr (e, t) \<Longrightarrow> ledger_step s t"
| step_manual: "create_manual_entry m s = Inr (e, t) \<Longrightarrow> ledger_step s t"
| step_reverse: "reverse_entry i actor eff desc s = Inr (e, t) \<Longrightarrow> ledger_step s t"

inductive_cases ledger_stepE: "ledger_step s t"

lemma create_keeps_sound:
  assumes "create_entry c s = Inr (e, t)" "sound_ledger (ledger s)"
  shows "sound_ledger (ledger t)"
  using create_entry_cases(2) [OF assms(1)] sound_ledger_snoc [OF assms(2)] assms(2) by fastforce

lemma manual_keeps_sound:
  assumes "create_manual_entry m s = Inr (e, t)" "sound_ledger (ledger s)"
  shows "sound_ledger (ledger t)"
  using create_manual_entry_create [OF assms(1)] create_keeps_sound assms(2) by fastforce

lemma reverse_keeps_sound:
  assumes "reverse_entry i actor eff desc s = Inr (e, t)" "sound_ledger (ledger s)"
  shows "sound_ledger (ledger t)"
  using reverse_entry_Inr [OF assms] sound_ledger_snoc [OF assms(2)] by auto

lemma ledger_step_sound: "ledger_step s t \<Longrightarrow> sound_ledger (ledger s) \<Longrightarrow> sound_ledger (ledger t)"
  by (erule ledger_stepE) (blast intro: create_keeps_sound manual_keeps_sound reverse_keeps_sound)+

lemma create_extends: "create_entry c s = Inr (e, t) \<Longrightarrow> \<exists>es. ledger t = ledger s @ es"
  using create_entry_cases(2) by (metis append_Nil2)

lemma insert_extends: "insert_entry e s = Inr (r, t) \<Longrightarrow> ledger t = ledger s @ [r]"
  using insert_entry_Inr(2) by fastforce

lemma reverse_extends: "reverse_entry i actor eff desc s = Inr (r, t) \<Longrightarrow> ledger t = ledger s @ [r]"
  using reverse_entry_insert insert_extends by metis

lemma ledger_step_extends: "ledger_step s t \<Longrightarrow> \<exists>es. ledger t = ledger s @ es"
proof (erule ledger_stepE)
  fix m e
  assume "create_manual_entry m s = Inr (e, t)"
  then show ?thesis using create_manual_entry_create create_extends by fastforce
qed (use create_extends reverse_extends in blast)+

interpretation ledger_log: append_only ledger ledger_step
  by unfold_locales (rule ledger_step_extends)

interpretation ledger_inv: invariant_system "\<lambda>s. sound_ledger (ledger s)" ledger_step
  by unfold_locales (rule ledger_step_sound)

text \<open>
  C3: The ledger is append-only and always sound.  From an empty ledger, any sequence of entry
  creations, manual entries and reversals keeps every entry it once recorded, unchanged and in
  its place, and in every state all entries satisfy the table's constraints, credits and debits
  match their types, identifiers and idempotency keys are unique, and every reversal mirrors
  exactly one original, which has no other reversal.
\<close>

theorem ledger_sound_and_append_only:
  assumes "ledger_step\<^sup>*\<^sup>* s t" "sound_ledger (ledger s)"
  shows "sound_ledger (ledger t) \<and> length (ledger s) \<le> length (ledger t) \<and>
    (\<forall>i < length (ledger s). ledger t ! i = ledger s ! i)"
  using ledger_inv.steps_inv [OF assms] ledger_log.entry_persists [OF assms(1)]
    ledger_log.length_grows [OF assms(1)] by blast

text \<open>
  C31: An idempotency key records at most one movement.  Once an entry was created under a key,
  then after any number of later operations a request with the same key (after trimming)
  either is refused or returns that very entry and leaves the ledger as it is.
\<close>

theorem idempotency_key_records_once:
  assumes "create_entry c s = Inr (e, s1)" "sound_ledger (ledger s)"
    and "ledger_step\<^sup>*\<^sup>* s1 s2"
    and "create_entry c' s2 = Inr (e', s3)"
    and "normalized_idempotency_key (ec_idempotency_key c) = Some k"
    and "normalized_idempotency_key (ec_idempotency_key c') = Some k"
  shows "e' = e \<and> ledger s3 = ledger s2"
proof -
  have s1: "sound_ledger (ledger s1)" by (rule create_keeps_sound [OF assms(1,2)])
  then have s2: "sound_ledger (ledger s2)" by (rule ledger_inv.steps_inv [OF assms(3)])
  have "e \<in> set (ledger s1)" and key: "le_idempotency_key e = Some k"
    using create_entry_cases(2) [OF assms(1)] assms(5) by auto
  moreover obtain es where "ledger s2 = ledger s1 @ es"
    using ledger_log.steps_extend [OF assms(3)] by blast
  ultimately have e: "e \<in> set (ledger s2)" by simp
  have uniq: "x = e" if "x \<in> set (ledger s2)" "le_idempotency_key x = Some k" for x
    using s2 e key that distinct_map_filter_key [of le_idempotency_key "ledger s2" x e k]
    by (simp add: sound_ledger_def)
  from create_entry_cases(2) [OF assms(4)] show ?thesis
  proof
    assume "ledger s3 = ledger s2 @ [e'] \<and> unique_keys (ledger s2) e' \<and> sound_entry e' \<and>
          le_reversal_of_id e' = None \<and>
          le_idempotency_key e' = normalized_idempotency_key (ec_idempotency_key c')"
    with e key assms(6) have False by (auto simp: unique_keys_def list_all_iff)
    then show ?thesis ..
  next
    assume "ledger s3 = ledger s2 \<and> e' \<in> set (ledger s2) \<and>
          le_idempotency_key e' = normalized_idempotency_key (ec_idempotency_key c') \<and>
          le_idempotency_key e' \<noteq> None"
    with uniq assms(6) show ?thesis by auto
  qed
qed

section \<open>Reversals and balances\<close>

fun signed :: "ledger_entry \<Rightarrow> decimal" where
  "signed e = (case le_direction e of CREDIT \<Rightarrow> le_amount e | DEBIT \<Rightarrow> - le_amount e)"

definition signed_total :: "string \<Rightarrow> ledger_entry list \<Rightarrow> decimal" where
  "signed_total cur es = sum_list (map signed (filter (\<lambda>e. le_currency e = cur) es))"

lemma signed_total_snoc [simp]: "signed_total cur (es @ [e]) =
    signed_total cur es + (if le_currency e = cur then signed e else 0)"
  by (simp add: signed_total_def)

lemma signed_total_remove:
  assumes "distinct es" "e \<in> set es"
  shows "signed_total cur es =
    signed_total cur (filter (\<lambda>x. x \<noteq> e) es) + (if le_currency e = cur then signed e else 0)"
  using assms
proof (induction es)
  case (Cons x es)
  show ?case
  proof (cases "x = e")
    case True
    with Cons.prems(1) have "filter (\<lambda>y. y \<noteq> e) es = es" by (auto intro!: filter_True)
    with True show ?thesis by (simp add: signed_total_def)
  next
    case False
    with Cons show ?thesis by (simp add: signed_total_def)
  qed
qed simp

lemma signed_total_split:
  "signed_total cur es =
     sum_where (\<lambda>e. le_currency e = cur \<and> le_direction e = CREDIT) es -
     sum_where (\<lambda>e. le_currency e = cur \<and> le_direction e = DEBIT) es"
proof (induction es)
  case (Cons e es)
  then show ?case
    by (cases "le_direction e") (simp_all add: signed_total_def sum_where_def)
qed (simp add: signed_total_def sum_where_def)

lemma no_filters_conditions: "ledger_conditions no_filters = Inr (\<lambda>_. True)"
  by (simp add: ledger_conditions_def no_filters_def when_given_def)

lemma get_entry_sound:
  assumes "sound_ledger (ledger s)" "e \<in> set (ledger s)"
  shows "get_entry s (le_id e) = Inr e"
  using assms distinct_find_row [of le_id "ledger s" e]
  by (simp add: get_entry_def sound_ledger_def)

lemma reverse_refused:
  assumes "sound_ledger (ledger s)" "e \<in> set (ledger s)"
    and "le_reversal_of_id e \<noteq> None \<or> (\<exists>r \<in> set (ledger s). le_reversal_of_id r = Some (le_id e))"
  shows "\<exists>m. reverse_entry (le_id e) actor eff desc s = Inl (FinOpsLedgerConflictError m)"
proof (cases "le_reversal_of_id e")
  case (Some x)
  then show ?thesis using get_entry_sound [OF assms(1,2)] by (simp add: reverse_entry_def)
next
  case None
  with assms(3) have "\<not> list_all (\<lambda>e'. le_reversal_of_id e' \<noteq> Some (le_id e)) (ledger s)"
    by (auto simp: list_all_iff)
  then have "guard (list_all (\<lambda>e'. le_reversal_of_id e' \<noteq> Some (le_id e)) (ledger s)) err = Inl err"
    for err by (simp only: guard_def if_False)
  then show ?thesis
    unfolding reverse_entry_def get_entry_sound [OF assms(1,2)] andThen_Inr None
    by (simp only: simp_thms guard_True andThen_Inr andThen_Inl sum.inject ex_simps) blast
qed

text \<open>
  C26: A reversal cancels its original, once.  It mirrors the entry it names, the signed total
  of every currency is afterwards what it would be without that entry, and in no later state
  can the entry or its reversal be reversed again: both are refused as conflicts.
\<close>

theorem reversal_cancels_once:
  assumes "reverse_entry i actor eff desc s = Inr (r, t)" and "sound_ledger (ledger s)"
  shows "\<exists>e \<in> set (ledger s). le_id e = i \<and> mirrors r e \<and> ledger t = ledger s @ [r] \<and>
    (\<forall>cur. signed_total cur (ledger t) = signed_total cur (filter (\<lambda>x. x \<noteq> e) (ledger s))) \<and>
    (\<forall>u. ledger_step\<^sup>*\<^sup>* t u \<longrightarrow>
       (\<forall>actor eff desc. \<exists>m.
          reverse_entry i actor eff desc u = Inl (FinOpsLedgerConflictError m)) \<and>
       (\<forall>actor eff desc. \<exists>m.
          reverse_entry (le_id r) actor eff desc u = Inl (FinOpsLedgerConflictError m)))"
proof -
  note r = reverse_entry_Inr [OF assms]
  from r(5) obtain e where e: "e \<in> set (ledger s)" "le_id e = i" "mirrors r e" by blast
  have "distinct (ledger s)" using assms(2) by (simp add: sound_ledger_def distinct_map)
  then have total: "signed_total cur (ledger t) = signed_total cur (filter (\<lambda>x. x \<noteq> e) (ledger s))"
    for cur
    using signed_total_remove [OF _ e(1), of cur] e(3)
    by (cases "le_direction e") (simp_all add: r(2) mirrors_def)
  have later: "\<exists>m. reverse_entry i actor eff desc u = Inl (FinOpsLedgerConflictError m)"
      "\<exists>m. reverse_entry (le_id r) actor eff desc u = Inl (FinOpsLedgerConflictError m)"
    if steps: "ledger_step\<^sup>*\<^sup>* t u" for u actor eff desc
  proof -
    have "sound_ledger (ledger t)" using reverse_keeps_sound [OF assms] .
    then have u: "sound_ledger (ledger u)" by (rule ledger_inv.steps_inv [OF steps])
    obtain es where "ledger u = ledger t @ es" using ledger_log.steps_extend [OF steps] by blast
    then have mem: "e \<in> set (ledger u)" "r \<in> set (ledger u)" using e(1) by (simp_all add: r(2))
    have rev: "le_reversal_of_id r = Some (le_id e)" using e(3) by (simp add: mirrors_def)
    show "\<exists>m. reverse_entry i actor eff desc u = Inl (FinOpsLedgerConflictError m)"
      using reverse_refused [OF u mem(1)] mem(2) e(2) rev by blast
    show "\<exists>m. reverse_entry (le_id r) actor eff desc u = Inl (FinOpsLedgerConflictError m)"
      using reverse_refused [OF u mem(2)] rev by blast
  qed
  show ?thesis
    using e r(2) total later by (intro bexI [of _ e]) auto
qed


text \<open>One account and one system entry, for the witnesses.\<close>

definition sample_account :: cloud_account where
  "sample_account = \<lparr>ca_id = 1, ca_provider = ''aws'', ca_native_account_id = ''1'',
     ca_name = ''main'', ca_enabled = True, ca_connection_status = ''connected'',
     ca_last_error = None, ca_schedule_enabled = False, ca_scan_interval_hours = 24,
     ca_next_scan_at = None, ca_aws_configuration = None\<rparr>"

definition ledger_db :: db where
  "ledger_db = empty_db\<lparr>cloud_accounts := [sample_account]\<rparr>"

definition sample_call :: entry_call where
  "sample_call = \<lparr>ec_entry_type = ''saving'', ec_direction = ''credit'', ec_cloud_account_id = 1,
     ec_amount = Finite 10, ec_currency = ''usd'', ec_effective_at = Naive 0,
     ec_source = ''SYSTEM'', ec_actor = None, ec_description = None, ec_source_reference = None,
     ec_opportunity_id = None, ec_source_event_id = None, ec_idempotency_key = Some '' k '',
     ec_periodicity = ''monthly'', ec_reference_period_start = None,
     ec_reference_period_end = None, ec_context = JObj []\<rparr>"

definition result_state :: "('a \<times> db) result \<Rightarrow> db" where
  "result_state r = (case r of Inl _ \<Rightarrow> empty_db | Inr (_, t) \<Rightarrow> t)"

lemma sample_create: "case create_entry sample_call ledger_db of Inl _ \<Rightarrow> False
    | Inr (e, t) \<Rightarrow> le_id e = ''id-0'' \<and> le_amount e = 10 \<and> map le_id (ledger t) = [''id-0'']"
  by code_simp

lemma sample_reverse:
  "case reverse_entry ''id-0'' None None None (result_state (create_entry sample_call ledger_db)) of
     Inl _ \<Rightarrow> False | Inr (e, t) \<Rightarrow> le_id e = ''id-1'' \<and> le_amount e = 10"
  by code_simp

lemma reversal_cancels_witness:
  "\<exists>r t. reverse_entry ''id-0'' None None None
       (result_state (create_entry sample_call ledger_db)) = Inr (r, t) \<and>
     signed_total ''USD'' (ledger t) = 0"
proof -
  let ?s = "result_state (create_entry sample_call ledger_db)"
  from sample_create obtain e where e: "create_entry sample_call ledger_db = Inr (e, ?s)"
    "map le_id (ledger ?s) = [''id-0'']"
    by (auto simp: result_state_def split: sum.splits prod.splits)
  have sound: "sound_ledger (ledger ?s)"
    using create_keeps_sound [OF e(1)] by (simp add: ledger_db_def empty_db_def)
  from sample_reverse obtain r t where r: "reverse_entry ''id-0'' None None None ?s = Inr (r, t)"
    by (auto split: sum.splits)
  from reversal_cancels_once [OF r sound] obtain x where x: "x \<in> set (ledger ?s)"
    "signed_total ''USD'' (ledger t) = signed_total ''USD'' (filter (\<lambda>y. y \<noteq> x) (ledger ?s))"
    by blast
  from e(2) x(1) have "filter (\<lambda>y. y \<noteq> x) (ledger ?s) = []"
    by (auto simp: filter_empty_conv map_eq_Cons_conv)
  with x(2) r show ?thesis by (auto simp: signed_total_def)
qed

lemma ledger_sound_witness:
  "sound_ledger (ledger (result_state (create_entry sample_call ledger_db)))"
proof -
  from sample_create obtain e t where e: "create_entry sample_call ledger_db = Inr (e, t)"
    by (auto split: sum.splits)
  then have "ledger_step\<^sup>*\<^sup>* ledger_db t" by (blast intro: step_create)
  moreover have "sound_ledger (ledger ledger_db)" by (simp add: ledger_db_def empty_db_def)
  ultimately show ?thesis
    using ledger_sound_and_append_only [of ledger_db t] e by (simp add: result_state_def)
qed

lemma idempotency_witness:
  "\<exists>e s1 s3. create_entry sample_call ledger_db = Inr (e, s1) \<and>
     create_entry sample_call s1 = Inr (e, s3) \<and> ledger s3 = ledger s1"
proof -
  from sample_create obtain e s1 where e: "create_entry sample_call ledger_db = Inr (e, s1)"
    by (auto split: sum.splits)
  have "case create_entry sample_call (result_state (create_entry sample_call ledger_db)) of
      Inl _ \<Rightarrow> False | Inr (e, t) \<Rightarrow> le_id e = ''id-0''" by code_simp
  then obtain e' s3 where e': "create_entry sample_call s1 = Inr (e', s3)"
    by (auto simp: e result_state_def split: sum.splits)
  have key: "normalized_idempotency_key (ec_idempotency_key sample_call) = Some ''k''"
    by code_simp
  have "sound_ledger (ledger ledger_db)" by (simp add: ledger_db_def empty_db_def)
  from idempotency_key_records_once [OF e this _ e' key key] e e' show ?thesis by auto
qed


end
