(* ===== verification/Providers.thy ===== *)
theory Providers
  imports Ledger
begin

text \<open>
  What each cloud provider supports (backend/app/services/provider_capabilities.py) and how
  provider keys and native account identifiers are validated (backend/app/core/cloud.py).
\<close>

section \<open>Capabilities\<close>

datatype provider_operation =
  REGISTRATION | EDITING | CONNECTION_TEST | MANUAL_COLLECTION | SCHEDULING | FINOPS_POLICIES

fun operation_text :: "provider_operation \<Rightarrow> string" where
  "operation_text REGISTRATION = ''registration''"
| "operation_text EDITING = ''editing''"
| "operation_text CONNECTION_TEST = ''connection_test''"
| "operation_text MANUAL_COLLECTION = ''manual_collection''"
| "operation_text SCHEDULING = ''scheduling''"
| "operation_text FINOPS_POLICIES = ''finops_policies''"

record provider_capabilities =
  pc_provider :: string
  pc_label :: string
  pc_registration :: bool
  pc_editing :: bool
  pc_connection_test :: bool
  pc_manual_collection :: bool
  pc_scheduling :: bool
  pc_finops_policies :: bool

text \<open>\<open>getattr(capabilities, operation.value)\<close>.\<close>

fun capability :: "provider_capabilities \<Rightarrow> provider_operation \<Rightarrow> bool" where
  "capability c REGISTRATION = pc_registration c"
| "capability c EDITING = pc_editing c"
| "capability c CONNECTION_TEST = pc_connection_test c"
| "capability c MANUAL_COLLECTION = pc_manual_collection c"
| "capability c SCHEDULING = pc_scheduling c"
| "capability c FINOPS_POLICIES = pc_finops_policies c"

definition PROVIDER_LABELS :: "(string \<times> string) list" where
  "PROVIDER_LABELS = [(''aws'', ''AWS''), (''oci'', ''OCI''), (''azure'', ''Azure''), (''gcp'', ''GCP'')]"

definition provider_label :: "string \<Rightarrow> string result" where
  "provider_label v = andThen (normalize_provider v) (\<lambda>p.
     case map_of PROVIDER_LABELS p of None \<Rightarrow> Inl (KeyError p) | Some l \<Rightarrow> Inr l)"

definition CAPABILITIES :: "(string \<times> provider_capabilities) list" where
  "CAPABILITIES =
     [(''aws'', \<lparr>pc_provider = ''aws'', pc_label = ''AWS'', pc_registration = True, pc_editing = True,
        pc_connection_test = True, pc_manual_collection = True, pc_scheduling = True,
        pc_finops_policies = True\<rparr>),
      (''oci'', \<lparr>pc_provider = ''oci'', pc_label = ''OCI'', pc_registration = True, pc_editing = True,
        pc_connection_test = True, pc_manual_collection = True, pc_scheduling = True,
        pc_finops_policies = False\<rparr>),
      (''azure'', \<lparr>pc_provider = ''azure'', pc_label = ''Azure'', pc_registration = False,
        pc_editing = False, pc_connection_test = False, pc_manual_collection = False,
        pc_scheduling = False, pc_finops_policies = False\<rparr>),
      (''gcp'', \<lparr>pc_provider = ''gcp'', pc_label = ''GCP'', pc_registration = False,
        pc_editing = False, pc_connection_test = False, pc_manual_collection = False,
        pc_scheduling = False, pc_finops_policies = False\<rparr>)]"

definition get_provider_capabilities :: "string \<Rightarrow> provider_capabilities result" where
  "get_provider_capabilities v =
     (case normalize_provider v of
        Inl _ \<Rightarrow> Inl (UnsupportedProviderOperation (''Unknown cloud provider: '' @ v))
      | Inr key \<Rightarrow> (case map_of CAPABILITIES key of
          None \<Rightarrow> Inl (UnsupportedProviderOperation (''Unknown cloud provider: '' @ key))
        | Some c \<Rightarrow> Inr c))"

definition list_provider_capabilities :: "provider_capabilities list result" where
  "list_provider_capabilities = map_result
     (\<lambda>p. case map_of CAPABILITIES p of None \<Rightarrow> Inl (KeyError p) | Some c \<Rightarrow> Inr c) cloud_providers"

definition supports_provider_operation :: "string \<Rightarrow> provider_operation \<Rightarrow> bool result" where
  "supports_provider_operation v operation =
     andThen (get_provider_capabilities v) (\<lambda>c. Inr (capability c operation))"

definition require_provider_operation ::
  "string \<Rightarrow> provider_operation \<Rightarrow> provider_capabilities result" where
  "require_provider_operation v operation =
     andThen (get_provider_capabilities v) (\<lambda>c.
     andThen (guard (capability c operation) (UnsupportedProviderOperation
       (''Provider '' @ pc_label c @ '' does not support '' @ operation_text operation))) (\<lambda>_.
     Inr c))"

definition providers_supporting :: "provider_operation \<Rightarrow> string list" where
  "providers_supporting operation =
     map (\<lambda>(_, c). pc_provider c) (filter (\<lambda>(_, c). capability c operation) CAPABILITIES)"

section \<open>Account identifiers\<close>

text \<open>\<open>value.split(sep)\<close> for a one-character separator: always at least one part.\<close>

fun split_at_char :: "char \<Rightarrow> string \<Rightarrow> string list" where
  "split_at_char c [] = [[]]"
| "split_at_char c (x # xs) =
     (if x = c then [] # split_at_char c xs
      else case split_at_char c xs of [] \<Rightarrow> [[x]] | p # ps \<Rightarrow> (x # p) # ps)"

definition digits :: string where
  "digits = ''0123456789''"

definition ocid_char :: "char \<Rightarrow> bool" where
  "ocid_char c \<longleftrightarrow> is_letter c \<or> c \<in> set digits \<or> c = CHR ''_'' \<or> c = CHR ''-''"

definition validate_oci_ocid :: "string \<Rightarrow> string \<Rightarrow> string result" where
  "validate_oci_ocid v resource_type =
     andThen (guard (v = strip v \<and> v \<noteq> []) (ValueError
       (''OCI '' @ resource_type @ '' OCID must not contain surrounding whitespace''))) (\<lambda>_.
     andThen (guard (length v \<le> 255)
       (ValueError (''OCI '' @ resource_type @ '' OCID is too long''))) (\<lambda>_.
     let parts = split_at_char CHR ''.'' v
     in andThen (guard (5 \<le> length parts \<and> parts ! 0 = ''ocid1'' \<and> parts ! 1 = resource_type)
          (ValueError (''Expected an OCI '' @ resource_type @ '' OCID''))) (\<lambda>_.
        andThen (guard (parts ! 2 \<noteq> [] \<and> last parts \<noteq> [])
          (ValueError (''OCI '' @ resource_type @ '' OCID is structurally invalid''))) (\<lambda>_.
        andThen (guard (list_all (list_all ocid_char) (drop 2 parts))
          (ValueError (''OCI '' @ resource_type @ '' OCID contains invalid characters''))) (\<lambda>_.
        Inr v)))))"

definition validate_native_account_id :: "string \<Rightarrow> string \<Rightarrow> string result" where
  "validate_native_account_id provider v =
     andThen (normalize_provider provider) (\<lambda>key.
     andThen (guard (v = strip v) (ValueError
       ''Native account identifier must not contain surrounding whitespace'')) (\<lambda>_.
     andThen (guard (v \<noteq> [] \<and> length v \<le> 255) (ValueError
       ''Native account identifier must contain between 1 and 255 characters'')) (\<lambda>_.
     andThen (guard (\<not> (key = ''aws'' \<and> \<not> (length v = 12 \<and> list_all (\<lambda>c. c \<in> set digits) v)))
       (ValueError ''AWS account identifier must contain exactly 12 digits'')) (\<lambda>_.
     andThen (if key = ''oci'' then validate_oci_ocid v ''tenancy'' else Inr v) (\<lambda>_.
     Inr v)))))"

section \<open>Correctness\<close>

lemma required_operation:
  "(\<exists>c. require_provider_operation p op = Inr c) \<longleftrightarrow>
     normalize_provider p \<in> Inr ` set (providers_supporting op)"
proof -
  have 1: "p \<in> set cloud_providers \<Longrightarrow> \<exists>c. map_of CAPABILITIES p = Some c \<and>
      (capability c op \<longleftrightarrow> p \<in> set (providers_supporting op))" for p
    by (cases op) (auto simp: cloud_providers_def CAPABILITIES_def providers_supporting_def)
  show ?thesis
  proof (cases "normalize_provider p")
    case (Inl e)
    then show ?thesis by (auto simp: require_provider_operation_def get_provider_capabilities_def)
  next
    case (Inr k)
    then have "k \<in> set cloud_providers" by (auto simp: normalize_provider_def Let_def split: if_splits)
    from 1 [OF this] Inr show ?thesis
      by (auto simp: require_provider_operation_def get_provider_capabilities_def guard_def andThen_def)
  qed
qed

lemma required_operation_error:
  "require_provider_operation p op = Inl e \<Longrightarrow> \<exists>m. e = UnsupportedProviderOperation m"
  by (auto simp: require_provider_operation_def get_provider_capabilities_def guard_def andThen_def
      split: sum.splits option.splits if_splits)

lemma native_account_id_kept: "validate_native_account_id p v = Inr w \<Longrightarrow>
    w = v \<and> v \<noteq> [] \<and> length v \<le> 255 \<and> strip v = v"
  by (auto simp: validate_native_account_id_def andThen_eq_Inr)

end
