(* ===== verification/CollectionErrors.thy ===== *)
theory CollectionErrors
  imports PyText
begin

text \<open>
  Public collection errors (backend/app/services/collection_errors.py).  What a provider or a
  library reports is never echoed: a value is mapped to one of a fixed set of messages, and to
  an operational category.  The value is a text or an exception; \<open>str(val)\<close> and
  \<open>type(val).__name__\<close> are what the code reads of it.  Message letters outside ASCII are
  transliterated.
\<close>

section \<open>Messages\<close>

datatype reported = Reported string string

fun type_name :: "reported \<Rightarrow> string" where
  "type_name (Reported t m) = t"

fun str_value :: "reported \<Rightarrow> string" where
  "str_value (Reported t m) = m"

text \<open>A value that is a Python \<open>str\<close>.\<close>

definition text_value :: "string \<Rightarrow> reported" where
  "text_value m = Reported ''str'' m"

definition ERROR_MESSAGES :: "(string \<times> string) list" where
  "ERROR_MESSAGES = [
     (''AccessDenied'',
      ''Acesso negado (AccessDenied). Verifique as permissoes da coleta.''),
     (''UnauthorizedOperation'',
      ''Sem permissao (UnauthorizedOperation). Verifique a funcao de coleta.''),
     (''ExpiredToken'',
      ''Credencial temporaria expirada (ExpiredToken). Verifique a autenticacao.''),
     (''InvalidClientTokenId'',
      ''Credencial invalida (InvalidClientTokenId). Verifique a autenticacao.''),
     (''SignatureDoesNotMatch'',
      ''Assinatura invalida (SignatureDoesNotMatch). Verifique a autenticacao.''),
     (''NotAuthenticated'',
      ''Falha de autenticacao no provider. Verifique as credenciais configuradas.''),
     (''NotAuthorizedOrNotFound'',
      ''Sem permissao para consultar esta fonte no provider.''),
     (''Forbidden'',
      ''Sem permissao para consultar esta fonte no provider.''),
     (''Throttling'',
      ''Limite de requisicoes atingido (Throttling). Tente novamente mais tarde.''),
     (''RequestLimitExceeded'',
      ''Limite atingido (RequestLimitExceeded). Tente novamente.''),
     (''TooManyRequests'',
      ''Limite de requisicoes atingido. Tente novamente mais tarde.''),
     (''EndpointConnectionError'',
      ''Falha de conexao (EndpointConnectionError). Verifique a rede.''),
     (''ConnectTimeoutError'',
      ''Tempo limite de conexao com o provider (ConnectTimeoutError).''),
     (''ReadTimeoutError'',
      ''Tempo limite de resposta do provider (ReadTimeoutError).''),
     (''TimeoutError'',
      ''Tempo limite durante a coleta.''),
     (''AWS account was removed or disabled'',
      ''A conta foi removida ou desabilitada.''),
     (''OCI credential failure'',
      ''Falha de credencial OCI (OCI credential failure). Verifique a autenticacao e a assinatura.''),
     (''OCI authentication failure'',
      ''Falha de autenticacao OCI (OCI authentication failure). Verifique a autenticacao e a assinatura.''),
     (''OCI credential tenancy'',
      ''A credencial OCI nao corresponde ao tenancy configurado (OCI credential tenancy).''),
     (''local_configuration_invalid'',
      ''A configuracao local do provider e invalida ou incompleta.'')]"

definition GENERIC_ERROR :: string where
  "GENERIC_ERROR =
     ''Falha durante a coleta. Verifique a conexao e as permissoes da conta.''"

definition AUTHENTICATION_TOKENS :: "string list" where
  "AUTHENTICATION_TOKENS = [''expiredtoken'', ''invalidclienttokenid'', ''signaturedoesnotmatch'',
     ''notauthenticated'', ''authentication'', ''credential failure'',
     ''invalid credential'', ''invalid credentials'']"

definition AUTHORIZATION_TOKENS :: "string list" where
  "AUTHORIZATION_TOKENS = [''accessdenied'', ''unauthorizedoperation'', ''notauthorizedornotfound'',
     ''forbidden'', ''authorization'', ''permission denied'']"

definition RATE_LIMIT_TOKENS :: "string list" where
  "RATE_LIMIT_TOKENS = [''throttling'', ''requestlimitexceeded'', ''toomanyrequests'', ''rate limit'',
     ''rate_limit'', ''429'']"

definition TIMEOUT_TOKENS :: "string list" where
  "TIMEOUT_TOKENS = [''connecttimeouterror'', ''readtimeouterror'', ''timeouterror'', ''timed out'',
     ''timeout'']"

definition CONFIGURATION_TOKENS :: "string list" where
  "CONFIGURATION_TOKENS = [''local_configuration_invalid'', ''configuration is missing'',
     ''configuration missing'', ''configuration invalid'',
     ''operational configuration is missing'', ''encryption key'']"

definition DATA_COVERAGE_TOKENS :: "string list" where
  "DATA_COVERAGE_TOKENS = [''data coverage'', ''coverage'', ''metric unavailable'', ''metrics unavailable'',
     ''partial data'']"

definition VALIDATION_TOKENS :: "string list" where
  "VALIDATION_TOKENS = [''precondition'', ''disabled'', ''unsupported provider'',
     ''unknown cloud provider'', ''does not match'']"

definition PERSISTENCE_TYPE_TOKENS :: "string list" where
  "PERSISTENCE_TYPE_TOKENS = [''integrityerror'', ''operationalerror'', ''databaseerror'', ''sqlalchemyerror'']"

definition PROVIDER_SERVICE_TOKENS :: "string list" where
  "PROVIDER_SERVICE_TOKENS = [''service unavailable'', ''serviceerror'', ''internalservererror'', ''badgateway'',
     ''gatewaytimeout'', ''service_unavailable'', '' 500'', '' 502'', '' 503'',
     '' 504'']"

section \<open>Sanitizing and classifying\<close>

definition sanitize_collection_error :: "reported option \<Rightarrow> string option" where
  "sanitize_collection_error val =
     (case val of None \<Rightarrow> None
      | Some v \<Rightarrow>
          if v = text_value [] then None
          else let message = str_value v
               in if message \<in> set (map snd ERROR_MESSAGES) \<or> message = GENERIC_ERROR
                  then Some message
                  else case find (\<lambda>(code, _). contains code message \<or> code = type_name v)
                              ERROR_MESSAGES of
                         Some (_, public_message) \<Rightarrow> Some public_message
                       | None \<Rightarrow> Some GENERIC_ERROR)"

record error_info =
  category :: string
  retryable :: "bool option"
  public_message :: string

definition mentions :: "string list \<Rightarrow> string \<Rightarrow> bool" where
  "mentions tokens t \<longleftrightarrow> list_ex (\<lambda>token. contains token t) tokens"

definition error_category :: "string \<Rightarrow> string \<times> bool option" where
  "error_category combined =
     (if mentions CONFIGURATION_TOKENS combined then (''configuration'', Some False)
      else if mentions AUTHENTICATION_TOKENS combined then (''authentication'', Some False)
      else if mentions AUTHORIZATION_TOKENS combined then (''authorization'', Some False)
      else if mentions RATE_LIMIT_TOKENS combined then (''rate_limit'', Some True)
      else if mentions TIMEOUT_TOKENS combined then (''timeout'', Some True)
      else if mentions PERSISTENCE_TYPE_TOKENS combined then (''persistence'', None)
      else if mentions DATA_COVERAGE_TOKENS combined then (''data_coverage'', None)
      else if mentions VALIDATION_TOKENS combined then (''validation'', Some False)
      else if mentions PROVIDER_SERVICE_TOKENS combined then (''provider_service'', Some True)
      else (''internal'', None))"

definition classify_collection_error :: "reported option \<Rightarrow> error_info" where
  "classify_collection_error val =
     (let public = or_text (sanitize_collection_error val) GENERIC_ERROR
      in case val of
           None \<Rightarrow> \<lparr>category = ''internal'', retryable = None, public_message = public\<rparr>
         | Some v \<Rightarrow>
             let (c, r) = error_category (lower (type_name v) @ '' '' @ lower (str_value v))
             in \<lparr>category = c, retryable = r, public_message = public\<rparr>)"

section \<open>Correctness\<close>

definition public_messages :: "string list" where
  "public_messages = map snd ERROR_MESSAGES @ [GENERIC_ERROR]"

lemma sanitized_public:
  assumes "sanitize_collection_error val = Some m"
  shows "m \<in> set public_messages"
proof -
  from assms obtain v where v: "val = Some v"
    by (cases val) (simp_all add: sanitize_collection_error_def)
  show ?thesis
  proof (cases "str_value v \<in> set (map snd ERROR_MESSAGES) \<or> str_value v = GENERIC_ERROR")
    case True
    with assms v show ?thesis
      by (auto simp: sanitize_collection_error_def Let_def public_messages_def split: if_splits)
  next
    case False
    show ?thesis
    proof (cases "find (\<lambda>(code, _). contains code (str_value v) \<or> code = type_name v) ERROR_MESSAGES")
      case None
      with assms v False show ?thesis
        by (simp add: sanitize_collection_error_def Let_def public_messages_def split: if_splits)
    next
      case (Some cm)
      then have "cm \<in> set ERROR_MESSAGES" by (auto simp: find_Some_iff in_set_conv_nth)
      moreover from assms v False Some have "m = snd cm"
        by (cases cm) (simp add: sanitize_collection_error_def Let_def split: if_splits)
      ultimately show ?thesis by (simp add: public_messages_def)
    qed
  qed
qed

lemma sanitized_None:
  "sanitize_collection_error val = None \<longleftrightarrow> val = None \<or> val = Some (text_value [])"
  by (cases val)
     (auto simp: sanitize_collection_error_def Let_def split: option.splits if_splits prod.splits)

lemma public_messages_nonempty: "[] \<notin> set public_messages"
  by code_simp

lemma public_message_fixed:
  assumes "m \<in> set public_messages"
  shows "sanitize_collection_error (Some (text_value m)) = Some m"
proof -
  have "m \<noteq> []" using assms public_messages_nonempty by metis
  moreover have "m \<in> set (map snd ERROR_MESSAGES) \<or> m = GENERIC_ERROR"
    using assms by (auto simp: public_messages_def)
  ultimately show ?thesis
    by (simp add: sanitize_collection_error_def text_value_def Let_def)
qed

lemma classified_message: "public_message (classify_collection_error val) =
    or_text (sanitize_collection_error val) GENERIC_ERROR"
  by (simp add: classify_collection_error_def Let_def split: option.splits prod.splits)

text \<open>
  Whatever a provider, a library or an old row reports, the text that leaves the sanitizer
  and the public message of a classified error are one of the fixed public messages, and
  sanitizing such a message again, as the read paths do, does not change it.
\<close>

theorem public_errors_allowlisted:
  "set_option (sanitize_collection_error val) \<subseteq> set public_messages \<and>
   public_message (classify_collection_error val) \<in> set public_messages \<and>
   sanitize_collection_error (map_option text_value (sanitize_collection_error val)) =
     sanitize_collection_error val"
proof (intro conjI)
  show "set_option (sanitize_collection_error val) \<subseteq> set public_messages"
    by (auto dest: sanitized_public simp: elem_set)
  show "public_message (classify_collection_error val) \<in> set public_messages"
    unfolding classified_message using sanitized_public [of val]
    by (cases "sanitize_collection_error val") (auto simp: or_text_def public_messages_def)
  show "sanitize_collection_error (map_option text_value (sanitize_collection_error val)) =
      sanitize_collection_error val"
  proof (cases "sanitize_collection_error val")
    case None
    then show ?thesis by (simp add: sanitize_collection_error_def)
  next
    case (Some m)
    then show ?thesis using public_message_fixed [OF sanitized_public [OF Some]] by simp
  qed
qed

text \<open>
  The operational category of the errors the collectors see most; a rate limit is retried, an
  access failure is not.
\<close>

lemma classify_examples:
  "category (classify_collection_error (Some (Reported ''ClientError'' ''ThrottlingException''))) =
     ''rate_limit''"
  "retryable (classify_collection_error (Some (Reported ''ClientError'' ''AccessDenied'')))
     = Some False"
  by code_simp+

end
