(* ===== verification/RunComparison.thy ===== *)
theory RunComparison
  imports Baselines CollectionErrors
begin

text \<open>
  What changed between a collection and its baseline
  (backend/app/services/opportunity_run_comparison.py): the context of a comparison, the
  classification of the findings, the summary of a run, the paged list behind it, the
  dashboard's snapshot and the signed token that carries a comparison in a URL.  A WHERE
  condition is a Boolean function of the finding.
\<close>

section \<open>Contexts\<close>

datatype discovery_type =
  Observed | FirstSeen | NewVsPrevious | Reappeared | Continued | NoLongerDetected

record coverage =
  total_scopes :: nat
  successful_scopes :: nat
  failed_scopes :: nat
  skipped_scopes :: nat
  comparable_scopes :: nat

record scope_issue =
  si_provider :: string
  si_account_id :: string
  si_region :: string
  si_service :: "string option"
  si_rule_key :: string
  si_status :: scope_status
  si_error_detail :: "string option"

datatype unavailable_reason =
  TARGET_NOT_SUCCESSFUL | TARGET_OBSERVATIONS_EXPIRED | NO_BASELINE | BASELINE_OBSERVATIONS_EXPIRED

record run_context =
  rc_target :: collection_run
  rc_baseline :: "collection_run option"
  rc_comparable :: bool
  rc_reason :: "unavailable_reason option"
  rc_rules_version_changed :: "bool option"
  rc_partial_coverage :: bool
  rc_coverage :: coverage
  rc_scope_issues :: "scope_issue list"

definition observed_in :: "db \<Rightarrow> string \<Rightarrow> finding \<Rightarrow> bool" where
  "observed_in s run_id f \<longleftrightarrow>
     list_ex (\<lambda>ob. o_opportunity_id ob = f_id f \<and> o_collection_run_id ob = run_id) (observations s)"

definition covered_by_target :: "db \<Rightarrow> collection_run \<Rightarrow> finding \<Rightarrow> bool" where
  "covered_by_target s target f \<longleftrightarrow>
     list_ex (\<lambda>x. sx_collection_run_id x = cr_id target \<and> sx_provider x = f_provider f \<and>
                   sx_account_id x = f_account_id f \<and> sx_rule_key x = f_rule_key f \<and>
                   sx_status x = ScopeSuccess \<and>
                   (f_region f = None \<or> f_region f = Some (sx_region x)))
       (scope_executions s)"

definition run_scopes :: "db \<Rightarrow> collection_run \<Rightarrow> scope_execution list" where
  "run_scopes s target =
     sort_key (\<lambda>x. (sx_provider x, sx_account_id x, sx_region x, sx_rule_key x))
       (filter (\<lambda>x. sx_collection_run_id x = cr_id target) (scope_executions s))"

definition scope_issue_of :: "scope_execution \<Rightarrow> scope_issue" where
  "scope_issue_of x = \<lparr>si_provider = sx_provider x, si_account_id = sx_account_id x,
     si_region = sx_region x, si_service = sx_service x, si_rule_key = sx_rule_key x,
     si_status = sx_status x,
     si_error_detail =
       sanitize_collection_error (map_option text_value (sx_error_detail x))\<rparr>"

definition scope_coverage :: "db \<Rightarrow> collection_run \<Rightarrow> coverage \<times> scope_issue list" where
  "scope_coverage s target =
     (let rows = run_scopes s target;
          counts = (\<lambda>st. count_where (\<lambda>x. sx_status x = st) rows)
      in (\<lparr>total_scopes = length rows, successful_scopes = counts ScopeSuccess,
           failed_scopes = counts ScopeFailed, skipped_scopes = counts ScopeSkipped,
           comparable_scopes = counts ScopeSuccess\<rparr>,
          map scope_issue_of (filter (\<lambda>x. sx_status x \<noteq> ScopeSuccess) rows)))"

definition rules_version_changed :: "collection_run option \<Rightarrow> collection_run \<Rightarrow> bool option" where
  "rules_version_changed baseline target =
     (case baseline of None \<Rightarrow> None
      | Some b \<Rightarrow>
          if cr_analyzer_version b = None \<or> cr_analyzer_version target = None then None
          else Some (cr_analyzer_version b \<noteq> cr_analyzer_version target))"

text \<open>
  The constructor calls of \<open>resolve_run_context\<close> differ in the baseline, the reason and the
  version flag; coverage is computed once and shared.
\<close>

definition make_context :: "db \<Rightarrow> collection_run \<Rightarrow> collection_run option \<Rightarrow>
    unavailable_reason option \<Rightarrow> bool option \<Rightarrow> run_context" where
  "make_context s target baseline reason changed =
     (let (cov, issues) = scope_coverage s target
      in \<lparr>rc_target = target, rc_baseline = baseline, rc_comparable = (reason = None),
          rc_reason = reason, rc_rules_version_changed = changed,
          rc_partial_coverage = (successful_scopes cov < total_scopes cov),
          rc_coverage = cov, rc_scope_issues = issues\<rparr>)"

definition context_with_baseline ::
  "db \<Rightarrow> collection_run \<Rightarrow> collection_run \<Rightarrow> run_context" where
  "context_with_baseline s target baseline =
     make_context s target (Some baseline) None (rules_version_changed (Some baseline) target)"

definition resolve_run_context :: "db \<Rightarrow> collection_run \<Rightarrow> run_context result" where
  "resolve_run_context s target =
     (if cr_status target \<noteq> SUCCESS then
        Inr (make_context s target None (Some TARGET_NOT_SUCCESSFUL) None)
      else if \<not> cr_detailed_observations_available target then
        Inr (make_context s target None (Some TARGET_OBSERVATIONS_EXPIRED) None)
      else
        andThen (previous_comparable_run s target) (\<lambda>baseline.
        case baseline of
          None \<Rightarrow> Inr (make_context s target None (Some NO_BASELINE) None)
        | Some b \<Rightarrow>
            if \<not> cr_detailed_observations_available b then
              Inr (make_context s target (Some b) (Some BASELINE_OBSERVATIONS_EXPIRED)
                     (rules_version_changed (Some b) target))
            else Inr (context_with_baseline s target b)))"

section \<open>Classification\<close>

definition classification_condition ::
  "db \<Rightarrow> run_context \<Rightarrow> discovery_type \<Rightarrow> (finding \<Rightarrow> bool) option" where
  "classification_condition s c d =
     (let target_observed = observed_in s (cr_id (rc_target c))
      in case d of
           Observed \<Rightarrow> Some target_observed
         | FirstSeen \<Rightarrow> Some (\<lambda>f. target_observed f \<and>
             f_first_seen_collection_run_id f = Some (cr_id (rc_target c)))
         | _ \<Rightarrow>
           (case rc_baseline c of
              None \<Rightarrow> None
            | Some b \<Rightarrow>
              if \<not> rc_comparable c then None
              else let baseline_observed = observed_in s (cr_id b)
                   in case d of
                        Continued \<Rightarrow> Some (\<lambda>f. target_observed f \<and> baseline_observed f)
                      | NewVsPrevious \<Rightarrow> Some (\<lambda>f. target_observed f \<and> \<not> baseline_observed f)
                      | Reappeared \<Rightarrow> Some (\<lambda>f. target_observed f \<and> \<not> baseline_observed f \<and>
                          f_first_seen_collection_run_id f \<noteq> None \<and>
                          f_first_seen_collection_run_id f \<noteq> Some (cr_id (rc_target c)))
                      | _ \<Rightarrow> Some (\<lambda>f. baseline_observed f \<and> \<not> target_observed f \<and>
                          covered_by_target s (rc_target c) f)))"

definition comparison_condition ::
  "db \<Rightarrow> run_context list \<Rightarrow> discovery_type \<Rightarrow> (finding \<Rightarrow> bool) option" where
  "comparison_condition s cs d =
     (let conditions = List.map_filter (\<lambda>c. classification_condition s c d) cs
      in if conditions = [] then None
         else Some (\<lambda>f. list_ex (\<lambda>condition. condition f) conditions))"

definition operational :: "finding \<Rightarrow> bool" where
  "operational f \<longleftrightarrow> f_status f \<noteq> Rejected \<and> f_archived_at f = None"

definition count_findings :: "db \<Rightarrow> (finding \<Rightarrow> bool) option \<Rightarrow> bool \<Rightarrow> nat" where
  "count_findings s condition operational_only =
     (case condition of
        None \<Rightarrow> 0
      | Some P \<Rightarrow> count_where (\<lambda>f. P f \<and> (operational_only \<longrightarrow> operational f)) (findings s))"

section \<open>The summary of a run\<close>

record run_reference =
  rr_id :: string
  rr_provider :: string
  rr_account_id :: string
  rr_started_at :: datetime
  rr_finished_at :: "datetime option"
  rr_status :: run_status
  rr_analyzer_version :: "string option"
  rr_detailed_observations_available :: bool

definition run_reference_of :: "collection_run \<Rightarrow> run_reference" where
  "run_reference_of r = \<lparr>rr_id = cr_id r, rr_provider = cr_provider r,
     rr_account_id = cr_account_id r, rr_started_at = cr_started_at r,
     rr_finished_at = cr_finished_at r, rr_status = cr_status r,
     rr_analyzer_version = cr_analyzer_version r,
     rr_detailed_observations_available = cr_detailed_observations_available r\<rparr>"

definition comparison_status :: "run_context \<Rightarrow> string" where
  "comparison_status c =
     (if cr_status (rc_target c) = RUNNING then ''RUNNING''
      else if cr_status (rc_target c) = FAILED then ''FAILED''
      else if rc_reason c \<in> {Some TARGET_OBSERVATIONS_EXPIRED, Some BASELINE_OBSERVATIONS_EXPIRED}
      then ''EXPIRED''
      else if rc_reason c = Some NO_BASELINE then ''NO_BASELINE''
      else if rc_comparable c \<and> rc_partial_coverage c then ''PARTIAL''
      else if rc_comparable c then ''COMPARABLE''
      else ''UNAVAILABLE'')"

record change_summary =
  cs_observed :: int
  cs_first_seen :: nat
  cs_new_vs_previous :: nat
  cs_reappeared :: nat
  cs_continued :: nat
  cs_no_longer_detected :: nat
  cs_operational_new_vs_previous :: nat

record run_changes =
  ch_collection_run_id :: string
  ch_status :: run_status
  ch_comparison_status :: string
  ch_baseline :: "run_reference option"
  ch_comparable :: bool
  ch_reason :: "unavailable_reason option"
  ch_target_details_available :: bool
  ch_rules_version_changed :: "bool option"
  ch_partial_coverage :: bool
  ch_coverage :: coverage
  ch_scope_issues :: "scope_issue list"
  ch_summary :: change_summary
  ch_warnings :: "(string \<times> string) list"

definition change_summary_of :: "db \<Rightarrow> run_context \<Rightarrow> collection_run \<Rightarrow> change_summary" where
  "change_summary_of s c target =
     (let n = (\<lambda>d. count_findings s (classification_condition s c d) False);
          cmp = (\<lambda>m. if rc_comparable c then m else 0)
      in \<lparr>cs_observed = (if cr_detailed_observations_available target then int (n Observed)
                          else cr_opportunities_found target),
          cs_first_seen = (if cr_detailed_observations_available target then n FirstSeen else 0),
          cs_new_vs_previous = cmp (n NewVsPrevious),
          cs_reappeared = cmp (n Reappeared),
          cs_continued = cmp (n Continued),
          cs_no_longer_detected = cmp (n NoLongerDetected),
          cs_operational_new_vs_previous =
            cmp (count_findings s (classification_condition s c NewVsPrevious) True)\<rparr>)"

definition change_warnings :: "run_context \<Rightarrow> (string \<times> string) list" where
  "change_warnings c =
     (if rc_rules_version_changed c = Some True then
        [(''RULES_VERSION_CHANGED'',
          ''Esta comparacao utiliza coletas com versoes de regras diferentes; '' @
          ''parte das diferencas pode ter sido causada por mudancas nos analyzers.'')]
      else if rc_baseline c \<noteq> None \<and> rc_rules_version_changed c = None then
        [(''RULES_VERSION_UNAVAILABLE'',
          ''Nao foi possivel confirmar igualdade da analyzer_version.'')]
      else []) @
     (if rc_partial_coverage c then
        [(''PARTIAL_COVERAGE'',
          show_nat (failed_scopes (rc_coverage c)) @ '' scope(s) falharam e '' @
          show_nat (skipped_scopes (rc_coverage c)) @ '' foram ignorados. '' @
          ''no_longer_detected considera somente scopes com cobertura autoritativa.'')]
      else [])"

definition opportunity_run_changes :: "db \<Rightarrow> collection_run \<Rightarrow> run_changes result" where
  "opportunity_run_changes s target =
     andThen (resolve_run_context s target) (\<lambda>c.
     Inr \<lparr>ch_collection_run_id = cr_id target, ch_status = cr_status target,
          ch_comparison_status = comparison_status c,
          ch_baseline = map_option run_reference_of (rc_baseline c),
          ch_comparable = rc_comparable c, ch_reason = rc_reason c,
          ch_target_details_available = cr_detailed_observations_available target,
          ch_rules_version_changed = rc_rules_version_changed c,
          ch_partial_coverage = rc_partial_coverage c, ch_coverage = rc_coverage c,
          ch_scope_issues = rc_scope_issues c, ch_summary = change_summary_of s c target,
          ch_warnings = change_warnings c\<rparr>)"

section \<open>The paged list\<close>

record opportunity_item =
  oi_id :: string
  oi_fingerprint :: string
  oi_provider :: string
  oi_account_id :: string
  oi_rule_key :: string
  oi_service :: string
  oi_region :: "string option"
  oi_resource_id :: string
  oi_resource_name :: "string option"
  oi_resource_type :: "string option"
  oi_title :: string
  oi_severity :: string
  oi_status :: opp_status
  oi_presence_status :: presence
  oi_first_seen_at :: datetime
  oi_last_seen_at :: datetime
  oi_first_seen_collection_run_id :: "string option"
  oi_last_seen_collection_run_id :: "string option"
  oi_archived_at :: "datetime option"

definition opportunity_item_of :: "finding \<Rightarrow> opportunity_item" where
  "opportunity_item_of f = \<lparr>oi_id = f_id f, oi_fingerprint = f_fingerprint f,
     oi_provider = f_provider f, oi_account_id = f_account_id f, oi_rule_key = f_rule_key f,
     oi_service = f_service f, oi_region = f_region f, oi_resource_id = f_resource_id f,
     oi_resource_name = f_resource_name f, oi_resource_type = f_resource_type f,
     oi_title = f_title f, oi_severity = f_severity f, oi_status = f_status f,
     oi_presence_status = f_presence_status f, oi_first_seen_at = f_first_seen_at f,
     oi_last_seen_at = f_last_seen_at f,
     oi_first_seen_collection_run_id = f_first_seen_collection_run_id f,
     oi_last_seen_collection_run_id = f_last_seen_collection_run_id f,
     oi_archived_at = f_archived_at f\<rparr>"

record run_list =
  rl_collection_run_id :: string
  rl_baseline_run_id :: "string option"
  rl_comparable :: bool
  rl_reason :: "unavailable_reason option"
  rl_discovery_type :: discovery_type
  rl_items :: "opportunity_item list"
  rl_page :: nat
  rl_page_size :: nat
  rl_total :: nat
  rl_total_pages :: nat

text \<open>The status filter compares the text of the column; \<open>None\<close> and \<open>""\<close> do not filter.\<close>

definition run_list_rows :: "db \<Rightarrow> (finding \<Rightarrow> bool) \<Rightarrow> string option \<Rightarrow> bool \<Rightarrow> finding list" where
  "run_list_rows s P status include_archived =
     filter (\<lambda>f. P f \<and> (truthy status \<longrightarrow> Some (status_text (f_status f)) = status) \<and>
                  (include_archived \<or> f_archived_at f = None)) (findings s)"

definition list_run_opportunities :: "db \<Rightarrow> collection_run \<Rightarrow> discovery_type \<Rightarrow> nat \<Rightarrow> nat \<Rightarrow>
    string option \<Rightarrow> bool \<Rightarrow> run_list result" where
  "list_run_opportunities s target d page page_size status include_archived =
     andThen (resolve_run_context s target) (\<lambda>c.
     let condition = (if rc_reason c = Some TARGET_OBSERVATIONS_EXPIRED then None
                      else classification_condition s c d);
         reply = \<lparr>rl_collection_run_id = cr_id target,
           rl_baseline_run_id = map_option cr_id (rc_baseline c),
           rl_comparable = rc_comparable c, rl_reason = rc_reason c, rl_discovery_type = d,
           rl_items = [], rl_page = page, rl_page_size = page_size, rl_total = 0,
           rl_total_pages = 0\<rparr>
     in case condition of
          None \<Rightarrow> Inr reply
        | Some P \<Rightarrow>
            let rows = run_list_rows s P status include_archived;
                ordered = sort_key (\<lambda>f. (- instant (f_last_seen_at f), f_id f)) rows
            in Inr (reply\<lparr>
                 rl_items := map opportunity_item_of
                   (take page_size (drop ((page - 1) * page_size) ordered)),
                 rl_total := length rows,
                 rl_total_pages := total_pages (length rows) page_size\<rparr>))"

section \<open>The dashboard's snapshot\<close>

definition latest_success_targets ::
  "db \<Rightarrow> string option \<Rightarrow> string option \<Rightarrow> collection_run list" where
  "latest_success_targets s provider account_id =
     (let rows = filter (\<lambda>r. cr_status r = SUCCESS \<and>
                   (truthy provider \<longrightarrow> Some (cr_provider r) = map_option lower provider) \<and>
                   (truthy account_id \<longrightarrow> Some (cr_account_id r) = account_id))
                 (collection_runs s);
          first = (\<lambda>r. list_all (\<lambda>q. (cr_provider q, cr_account_id q) = (cr_provider r, cr_account_id r)
                                   \<longrightarrow> run_order q \<le> run_order r) rows)
      in sort_key (\<lambda>r. (cr_provider r, cr_account_id r)) (filter first rows))"

text \<open>
  The token of a comparison.  \<open>pack\<close> stands for \<open>_b64encode(zlib.compress(payload, 9))\<close>,
  \<open>sign\<close> for \<open>_sign_context\<close> (HMAC-SHA-256 under the application's secret key, in base64) and
  \<open>load\<close> for \<open>json.loads(zlib.decompress(_b64decode(body)))\<close>, \<open>None\<close> when one of the listed
  exceptions is raised.  All three are implemented in C or by the runtime.
\<close>

record codec =
  pack :: "string \<Rightarrow> string"
  sign :: "string \<Rightarrow> string"
  load :: "string \<Rightarrow> json option"

abbreviation max_context_length :: nat where "max_context_length \<equiv> 8192"
abbreviation max_context_pairs :: nat where "max_context_pairs \<equiv> 250"

definition context_payload :: "(string \<times> string) list \<Rightarrow> json" where
  "context_payload pairs = JObj
     [(''pairs'', JList (map (\<lambda>(t, b). JObj [(''b'', JStr b), (''t'', JStr t)]) pairs)),
      (''v'', JInt 1)]"

definition context_pairs :: "run_context list \<Rightarrow> (string \<times> string) list" where
  "context_pairs cs = List.map_filter
     (\<lambda>c. map_option (\<lambda>b. (cr_id (rc_target c), cr_id b)) (rc_baseline c)) cs"

definition encode_contexts :: "codec \<Rightarrow> run_context list \<Rightarrow> string option result" where
  "encode_contexts k cs =
     (if cs = [] then Inr None
      else andThen (guard (length cs \<le> max_context_pairs)
             (ComparisonContextError ''CONTEXT_TOO_LARGE''
                (''Ha contas demais para representar esta comparacao em uma URL '' @
                 ''compartilhavel.''))) (\<lambda>_.
           let body = pack k (dumps (context_payload (context_pairs cs)));
               token = body @ ''.'' @ sign k body
           in andThen (guard (length token \<le> max_context_length)
                (ComparisonContextError ''CONTEXT_TOO_LARGE''
                   (''O contexto da comparacao excedeu o limite seguro para uma URL '' @
                    ''compartilhavel.''))) (\<lambda>_.
              Inr (Some token))))"

definition invalid_context :: error where
  "invalid_context =
     ComparisonContextError ''INVALID_CONTEXT'' ''Contexto de comparacao invalido.''"

definition valid_run_id :: "json \<Rightarrow> string option" where
  "valid_run_id v = (case v of JStr t \<Rightarrow> if t \<noteq> [] \<and> length t \<le> 64 then Some t else None
                     | _ \<Rightarrow> None)"

text \<open>The loop over the pairs; \<open>acc\<close> is \<open>normalized\<close>.\<close>

fun normalize_pairs :: "(string \<times> string) list \<Rightarrow> json list \<Rightarrow> (string \<times> string) list result" where
  "normalize_pairs acc [] = Inr acc"
| "normalize_pairs acc (p # ps) =
     (if \<not> is_object p then Inl invalid_context
      else case (valid_run_id (jget ''t'' p), valid_run_id (jget ''b'' p)) of
             (Some t, Some b) \<Rightarrow>
               normalize_pairs (if (t, b) \<in> set acc then acc else acc @ [(t, b)]) ps
           | _ \<Rightarrow> Inl invalid_context)"

definition decode_comparison_context ::
  "codec \<Rightarrow> string \<Rightarrow> (string \<times> string) list result" where
  "decode_comparison_context k token =
     andThen (guard (token \<noteq> [] \<and> length token \<le> max_context_length
                      \<and> count_list token CHR ''.'' = 1) invalid_context) (\<lambda>_.
     case partition_at CHR ''.'' token of
       None \<Rightarrow> Inl invalid_context
     | Some (body, signature) \<Rightarrow>
       andThen (guard (signature = sign k body)
         (ComparisonContextError ''INVALID_CONTEXT''
            ''Assinatura do contexto de comparacao invalida.'')) (\<lambda>_.
       case load k body of
         None \<Rightarrow> Inl invalid_context
       | Some payload \<Rightarrow>
         andThen (guard (is_object payload) (AttributeError ''get'')) (\<lambda>_.
         andThen (guard (numeric (jget ''v'' payload) = JInt 1)
           (ComparisonContextError ''INVALID_CONTEXT_VERSION''
              ''Versao de contexto nao suportada.'')) (\<lambda>_.
         case jget ''pairs'' payload of
           JList pairs \<Rightarrow>
             andThen (guard (pairs \<noteq> [] \<and> length pairs \<le> max_context_pairs) invalid_context)
               (\<lambda>_. normalize_pairs [] pairs)
         | _ \<Rightarrow> Inl invalid_context))))"

definition context_error :: "string \<Rightarrow> string \<Rightarrow> error" where
  "context_error code message = ComparisonContextError code message"

text \<open>One iteration of \<open>resolve_comparison_context\<close>; the runs are known to exist.\<close>

definition resolve_pair :: "db \<Rightarrow> string option \<Rightarrow> string option \<Rightarrow>
    string \<times> string \<Rightarrow> run_context list \<Rightarrow> run_context list result" where
  "resolve_pair s provider account_id pair acc =
     (case (find_row cr_id (fst pair) (collection_runs s),
            find_row cr_id (snd pair) (collection_runs s)) of
        (Some target, Some baseline) \<Rightarrow>
          andThen (guard (cr_status target = SUCCESS \<and> cr_status baseline = SUCCESS)
            (context_error ''CONTEXT_UNAVAILABLE''
               ''O contexto contem uma coleta nao comparavel.'')) (\<lambda>_.
          andThen (guard (cr_provider target = cr_provider baseline
                          \<and> cr_account_id target = cr_account_id baseline)
            (context_error ''INVALID_CONTEXT''
               ''Target e baseline pertencem a escopos diferentes.'')) (\<lambda>_.
          andThen (guard (truthy provider \<longrightarrow>
                          Some (cr_provider target) = map_option lower provider)
            (context_error ''SCOPE_MISMATCH''
               ''O contexto nao pertence ao provider informado.'')) (\<lambda>_.
          andThen (guard (truthy account_id \<longrightarrow> Some (cr_account_id target) = account_id)
            (context_error ''SCOPE_MISMATCH''
               ''O contexto nao pertence a conta informada.'')) (\<lambda>_.
          andThen (guard (cr_detailed_observations_available target
                          \<and> cr_detailed_observations_available baseline)
            (context_error ''CONTEXT_EXPIRED''
               (''Os detalhes desta comparacao nao estao mais disponiveis devido '' @
                ''a politica de retencao.''))) (\<lambda>_.
          Inr (acc @ [context_with_baseline s target baseline]))))))
      | _ \<Rightarrow> Inl (KeyError (fst pair)))"

definition resolve_comparison_context :: "codec \<Rightarrow> db \<Rightarrow> string \<Rightarrow> string option \<Rightarrow>
    string option \<Rightarrow> run_context list result" where
  "resolve_comparison_context k s token provider account_id =
     andThen (decode_comparison_context k token) (\<lambda>pairs.
     let run_ids = concat (map (\<lambda>(t, b). [t, b]) pairs)
     in andThen (guard (list_all (\<lambda>i. find_row cr_id i (collection_runs s) \<noteq> None) run_ids)
          (context_error ''INVALID_CONTEXT''
             ''Uma ou mais coletas do contexto nao existem.'')) (\<lambda>_.
        fold_result (resolve_pair s provider account_id) pairs []))"

record snapshot =
  sn_contexts :: "run_context list"
  sn_comparable_accounts :: nat
  sn_accounts_without_baseline :: nat
  sn_rules_version_changed :: bool
  sn_rules_version_unknown :: bool
  sn_partial_coverage :: bool
  sn_comparison_context :: "string option"

definition dashboard_comparison_snapshot ::
  "codec \<Rightarrow> db \<Rightarrow> string option \<Rightarrow> string option \<Rightarrow> snapshot result" where
  "dashboard_comparison_snapshot k s provider account_id =
     andThen (map_result (resolve_run_context s) (latest_success_targets s provider account_id))
     (\<lambda>all_contexts.
     let contexts = filter (\<lambda>c. rc_comparable c \<and> rc_baseline c \<noteq> None) all_contexts;
         others = filter (\<lambda>c. \<not> (rc_comparable c \<and> rc_baseline c \<noteq> None)) all_contexts
     in andThen (encode_contexts k contexts) (\<lambda>token.
        Inr \<lparr>sn_contexts = contexts,
             sn_comparable_accounts = length contexts,
             sn_accounts_without_baseline =
               count_where (\<lambda>c. rc_reason c = Some NO_BASELINE) others,
             sn_rules_version_changed =
               list_ex (\<lambda>c. rc_rules_version_changed c = Some True) contexts,
             sn_rules_version_unknown =
               list_ex (\<lambda>c. rc_rules_version_changed c = None) contexts,
             sn_partial_coverage = list_ex rc_partial_coverage all_contexts,
             sn_comparison_context = token\<rparr>))"

record new_since_previous =
  ns_count :: nat
  ns_first_seen_count :: nat
  ns_reappeared_count :: nat
  ns_snapshot :: snapshot

definition dashboard_new_since_previous ::
  "codec \<Rightarrow> db \<Rightarrow> string option \<Rightarrow> string option \<Rightarrow> new_since_previous result" where
  "dashboard_new_since_previous k s provider account_id =
     andThen (dashboard_comparison_snapshot k s provider account_id) (\<lambda>sn.
     let n = (\<lambda>d. count_findings s (comparison_condition s (sn_contexts sn) d) True)
     in Inr \<lparr>ns_count = n NewVsPrevious, ns_first_seen_count = n FirstSeen,
             ns_reappeared_count = n Reappeared, ns_snapshot = sn\<rparr>)"

section \<open>Correctness\<close>

lemma make_context_simps [simp]:
  "rc_target (make_context s t b r v) = t" "rc_baseline (make_context s t b r v) = b"
  "rc_comparable (make_context s t b r v) = (r = None)" "rc_reason (make_context s t b r v) = r"
  "rc_rules_version_changed (make_context s t b r v) = v"
  by (simp_all add: make_context_def split: prod.splits)

text \<open>Resolving never raises, and only a context with a baseline is comparable.\<close>

lemma resolve_run_context_total: "\<exists>c. resolve_run_context s target = Inr c"
  by (auto simp: resolve_run_context_def previous_comparable_run_ok split: option.splits)

lemma resolve_run_context_target: "resolve_run_context s target = Inr c \<Longrightarrow> rc_target c = target"
  by (auto simp: resolve_run_context_def andThen_eq_Inr context_with_baseline_def
      split: if_splits option.splits)

lemma resolve_run_context_comparable:
  assumes "resolve_run_context s target = Inr c" "rc_comparable c"
  obtains b where "rc_baseline c = Some b" "cr_status target = SUCCESS"
    "cr_detailed_observations_available target" "cr_detailed_observations_available b"
    "previous_comparable_run s target = Inr (Some b)" "rc_reason c = None"
  using assms
  by (auto simp: resolve_run_context_def andThen_eq_Inr context_with_baseline_def
      split: if_splits option.splits)

lemma opportunity_run_changes_total: "\<exists>c. opportunity_run_changes s target = Inr c"
  using resolve_run_context_total [of s target] by (auto simp: opportunity_run_changes_def)

text \<open>The classes of a comparable context, with its baseline written out.\<close>

lemma comparable_conditions:
  assumes "rc_comparable c" "rc_baseline c = Some b"
  shows "classification_condition s c NewVsPrevious = Some (\<lambda>f.
      observed_in s (cr_id (rc_target c)) f \<and> \<not> observed_in s (cr_id b) f)"
    and "classification_condition s c Continued = Some (\<lambda>f.
      observed_in s (cr_id (rc_target c)) f \<and> observed_in s (cr_id b) f)"
    and "classification_condition s c Reappeared = Some (\<lambda>f.
      observed_in s (cr_id (rc_target c)) f \<and> \<not> observed_in s (cr_id b) f \<and>
      f_first_seen_collection_run_id f \<noteq> None \<and>
      f_first_seen_collection_run_id f \<noteq> Some (cr_id (rc_target c)))"
    and "classification_condition s c NoLongerDetected = Some (\<lambda>f.
      observed_in s (cr_id b) f \<and> \<not> observed_in s (cr_id (rc_target c)) f \<and>
      covered_by_target s (rc_target c) f)"
  using assms by (simp_all add: classification_condition_def)

lemma observed_condition:
  "classification_condition s c Observed = Some (observed_in s (cr_id (rc_target c)))"
  by (simp add: classification_condition_def)

lemmas count_defs = count_findings_def comparable_conditions observed_condition

lemma summary_partition:
  assumes "rc_comparable c" "rc_baseline c = Some b" "rc_target c = target"
    "cr_detailed_observations_available target"
  shows "cs_observed (change_summary_of s c target) =
      int (cs_new_vs_previous (change_summary_of s c target) +
           cs_continued (change_summary_of s c target))"
    and "cs_reappeared (change_summary_of s c target) \<le>
      cs_new_vs_previous (change_summary_of s c target)"
    and "cs_operational_new_vs_previous (change_summary_of s c target) \<le>
      cs_new_vs_previous (change_summary_of s c target)"
    and "cs_continued (change_summary_of s c target) +
      cs_no_longer_detected (change_summary_of s c target) \<le>
      count_where (observed_in s (cr_id b)) (findings s)"
proof -
  let ?T = "observed_in s (cr_id target)" and ?B = "observed_in s (cr_id b)"
  have split: "count_where ?T (findings s) =
      count_where (\<lambda>f. ?T f \<and> \<not> ?B f) (findings s) + count_where (\<lambda>f. ?T f \<and> ?B f) (findings s)"
    by (subst count_where_split [where Q = ?B]) simp
  then show "cs_observed (change_summary_of s c target) =
      int (cs_new_vs_previous (change_summary_of s c target) +
           cs_continued (change_summary_of s c target))"
    using assms by (simp add: change_summary_of_def count_defs)
  show "cs_reappeared (change_summary_of s c target) \<le>
      cs_new_vs_previous (change_summary_of s c target)"
    using assms by (auto simp: change_summary_of_def count_defs intro: count_where_mono)
  show "cs_operational_new_vs_previous (change_summary_of s c target) \<le>
      cs_new_vs_previous (change_summary_of s c target)"
    using assms by (auto simp: change_summary_of_def count_defs intro: count_where_mono)
  have "count_where ?B (findings s) =
      count_where (\<lambda>f. ?B f \<and> ?T f) (findings s) + count_where (\<lambda>f. ?B f \<and> \<not> ?T f) (findings s)"
    by (rule count_where_split)
  moreover have "count_where (\<lambda>f. ?B f \<and> \<not> ?T f \<and> covered_by_target s target f) (findings s) \<le>
      count_where (\<lambda>f. ?B f \<and> \<not> ?T f) (findings s)"
    by (rule count_where_mono) simp
  moreover have "count_where (\<lambda>f. ?T f \<and> ?B f) (findings s) =
      count_where (\<lambda>f. ?B f \<and> ?T f) (findings s)"
    by (rule count_where_cong) auto
  ultimately show "cs_continued (change_summary_of s c target) +
      cs_no_longer_detected (change_summary_of s c target) \<le>
      count_where (observed_in s (cr_id b)) (findings s)"
    using assms by (simp add: change_summary_of_def count_defs)
qed


section \<open>Pages\<close>

lemma concat_pages:
  assumes "0 < n"
  shows "concat (map (\<lambda>p. take n (drop ((p - 1) * n) xs)) [1..<Suc k]) = take (k * n) xs"
proof (induction k)
  case 0
  then show ?case by simp
next
  case (Suc k)
  then show ?case by (simp add: take_add [of "k * n" n, symmetric] add.commute)
qed

lemma total_pages_cover:
  assumes "0 < n"
  shows "m \<le> total_pages m n * n"
proof (cases "m = 0")
  case False
  have "(m + n - 1) div n * n + (m + n - 1) mod n = m + n - 1" by (rule div_mult_mod_eq)
  moreover have "(m + n - 1) mod n < n" using assms by simp
  ultimately have "m \<le> (m + n - 1) div n * n" using False by linarith
  with False show ?thesis by (simp add: total_pages_def)
qed simp

text \<open>The findings a listing is about, in the order of the pages.\<close>

definition listed :: "db \<Rightarrow> collection_run \<Rightarrow> discovery_type \<Rightarrow> string option \<Rightarrow> bool \<Rightarrow> finding list" where
  "listed s target d status include_archived =
     (case resolve_run_context s target of
        Inl _ \<Rightarrow> []
      | Inr c \<Rightarrow>
          (case (if rc_reason c = Some TARGET_OBSERVATIONS_EXPIRED then None
                 else classification_condition s c d) of
             None \<Rightarrow> []
           | Some P \<Rightarrow> sort_key (\<lambda>f. (- instant (f_last_seen_at f), f_id f))
                          (run_list_rows s P status include_archived)))"

lemma list_page:
  "\<exists>l. list_run_opportunities s target d page n status arch = Inr l \<and>
     rl_items l = map opportunity_item_of (take n (drop ((page - 1) * n) (listed s target d status arch))) \<and>
     rl_total l = length (listed s target d status arch) \<and>
     rl_total_pages l = total_pages (length (listed s target d status arch)) n"
proof -
  obtain c where c: "resolve_run_context s target = Inr c"
    using resolve_run_context_total by blast
  show ?thesis
  proof (cases "if rc_reason c = Some TARGET_OBSERVATIONS_EXPIRED then None
                else classification_condition s c d")
    case None
    with c show ?thesis
      by (simp add: list_run_opportunities_def listed_def total_pages_def Let_def)
  next
    case (Some P)
    with c show ?thesis
      by (simp add: list_run_opportunities_def listed_def Let_def)
  qed
qed

definition page_items ::
  "db \<Rightarrow> collection_run \<Rightarrow> discovery_type \<Rightarrow> nat \<Rightarrow> string option \<Rightarrow> bool \<Rightarrow> nat \<Rightarrow> opportunity_item list" where
  "page_items s target d n status arch page =
     (case list_run_opportunities s target d page n status arch of
        Inl _ \<Rightarrow> [] | Inr l \<Rightarrow> rl_items l)"

lemma page_items_listed: "page_items s target d n status arch page =
    take n (drop ((page - 1) * n) (map opportunity_item_of (listed s target d status arch)))"
  using list_page [of s target d page n status arch]
  by (auto simp: page_items_def take_map drop_map)

fun summary_count :: "discovery_type \<Rightarrow> change_summary \<Rightarrow> int" where
  "summary_count Observed m = cs_observed m"
| "summary_count FirstSeen m = int (cs_first_seen m)"
| "summary_count NewVsPrevious m = int (cs_new_vs_previous m)"
| "summary_count Reappeared m = int (cs_reappeared m)"
| "summary_count Continued m = int (cs_continued m)"
| "summary_count NoLongerDetected m = int (cs_no_longer_detected m)"

lemma listed_count:
  assumes "opportunity_run_changes s target = Inr ch" "ch_comparable ch"
  shows "int (length (listed s target d None True)) = summary_count d (ch_summary ch)"
proof -
  obtain c where c: "resolve_run_context s target = Inr c"
    using resolve_run_context_total by blast
  with assms have cmp: "rc_comparable c" and sum: "ch_summary ch = change_summary_of s c target"
    by (auto simp: opportunity_run_changes_def)
  from c cmp obtain b where b: "rc_baseline c = Some b" "rc_reason c = None"
      "cr_detailed_observations_available target"
    by (rule resolve_run_context_comparable)
  have "\<exists>P. classification_condition s c d = Some P"
    using cmp b by (cases d) (simp_all add: classification_condition_def)
  then obtain P where P: "classification_condition s c d = Some P" by blast
  have "length (listed s target d None True) = count_where P (findings s)"
    using c b P by (simp add: listed_def run_list_rows_def count_where_def)
  moreover have "count_findings s (classification_condition s c d) False = count_where P (findings s)"
    using P by (simp add: count_findings_def)
  ultimately show ?thesis
    unfolding sum using b cmp by (cases d) (simp_all add: change_summary_of_def)
qed

text \<open>
  The pages of a listing are complete and agree with the summary of the run.  With a
  positive page size, the pages from the first to the last one the reply announces hold, one
  after the other, every listed finding exactly once, newest first; every reply states the
  same total; and without filters that total is the number the run's summary shows.
\<close>

theorem run_list_pages:
  assumes "0 < n"
  shows "\<exists>l. list_run_opportunities s target d page n status arch = Inr l \<and>
     rl_total l = length (listed s target d status arch) \<and>
     concat (map (page_items s target d n status arch) [1..<Suc (rl_total_pages l)]) =
       map opportunity_item_of (listed s target d status arch) \<and>
     sorted (map (\<lambda>f. (- instant (f_last_seen_at f), f_id f)) (listed s target d status arch)) \<and>
     (\<forall>ch. opportunity_run_changes s target = Inr ch \<longrightarrow> ch_comparable ch \<longrightarrow>
        status = None \<longrightarrow> arch \<longrightarrow> int (rl_total l) = summary_count d (ch_summary ch))"
proof -
  let ?L = "listed s target d status arch"
  from list_page obtain l where l: "list_run_opportunities s target d page n status arch = Inr l"
    "rl_total l = length ?L" "rl_total_pages l = total_pages (length ?L) n" by blast
  have "concat (map (page_items s target d n status arch) [1..<Suc (rl_total_pages l)]) =
      map opportunity_item_of ?L"
    unfolding page_items_listed concat_pages [OF assms] l
    using total_pages_cover [OF assms, of "length ?L"] by simp
  moreover have "sorted (map (\<lambda>f. (- instant (f_last_seen_at f), f_id f)) ?L)"
    by (simp add: listed_def split: sum.splits option.splits)
  moreover have "\<forall>ch. opportunity_run_changes s target = Inr ch \<longrightarrow> ch_comparable ch \<longrightarrow>
      status = None \<longrightarrow> arch \<longrightarrow> int (rl_total l) = summary_count d (ch_summary ch)"
    using l(2) listed_count by simp
  ultimately show ?thesis using l(1,2) by (intro exI [of _ l] conjI)
qed

lemma run_list_pages_witness:
  "\<exists>l. list_run_opportunities (empty_db\<lparr>collection_runs := [run_at ''a'' 1]\<rparr>) (run_at ''b'' 2)
     NewVsPrevious 1 10 None True = Inr l \<and>
     rl_total l = length (listed (empty_db\<lparr>collection_runs := [run_at ''a'' 1]\<rparr>) (run_at ''b'' 2)
       NewVsPrevious None True)"
  using run_list_pages [of 10 "empty_db\<lparr>collection_runs := [run_at ''a'' 1]\<rparr>" "run_at ''b'' 2"
      NewVsPrevious 1 None True]
  by fastforce


section \<open>Tokens\<close>

lemma normalize_pairs_fold:
  assumes "\<forall>(t, b) \<in> set ps. t \<noteq> [] \<and> length t \<le> 64 \<and> b \<noteq> [] \<and> length b \<le> 64"
    and "distinct (acc @ ps)"
  shows "normalize_pairs acc (map (\<lambda>(t, b). JObj [(''b'', JStr b), (''t'', JStr t)]) ps) =
    Inr (acc @ ps)"
  using assms
proof (induction ps arbitrary: acc)
  case (Cons p ps)
  obtain t b where p: "p = (t, b)" by fastforce
  from Cons.prems(1) p have "valid_run_id (JStr t) = Some t" "valid_run_id (JStr b) = Some b"
    by (auto simp: valid_run_id_def)
  moreover from Cons.prems(2) p have "(t, b) \<notin> set acc" "distinct ((acc @ [p]) @ ps)"
    by simp_all
  ultimately show ?case using Cons.IH [of "acc @ [p]"] Cons.prems(1) p by simp
qed simp

lemma normalized_pairs:
  assumes "normalize_pairs acc ps = Inr out"
    and "distinct acc \<and> (\<forall>(t, b) \<in> set acc. t \<noteq> [] \<and> length t \<le> 64 \<and> b \<noteq> [] \<and> length b \<le> 64)"
  shows "distinct out \<and> (\<forall>(t, b) \<in> set out. t \<noteq> [] \<and> length t \<le> 64 \<and> b \<noteq> [] \<and> length b \<le> 64)"
  using assms
proof (induction acc ps rule: normalize_pairs.induct)
  case (2 acc p ps)
  from "2.prems"(1) obtain t b where tb: "valid_run_id (jget ''t'' p) = Some t"
    "valid_run_id (jget ''b'' p) = Some b" "is_object p"
    "normalize_pairs (if (t, b) \<in> set acc then acc else acc @ [(t, b)]) ps = Inr out"
    by (auto split: if_splits option.splits)
  have valid: "v \<noteq> [] \<and> length v \<le> 64" if "valid_run_id j = Some v" for j v
    using that by (auto simp: valid_run_id_def split: json.splits if_splits)
  from "2.prems"(2) valid [OF tb(1)] valid [OF tb(2)]
  have "distinct (if (t, b) \<in> set acc then acc else acc @ [(t, b)]) \<and>
    (\<forall>(t, b) \<in> set (if (t, b) \<in> set acc then acc else acc @ [(t, b)]).
       t \<noteq> [] \<and> length t \<le> 64 \<and> b \<noteq> [] \<and> length b \<le> 64)"
    by auto
  with "2.IH" tb show ?case by simp
qed simp

lemma decoded_pairs:
  assumes "decode_comparison_context k token = Inr pairs"
  obtains body where "token = body @ ''.'' @ sign k body" "CHR ''.'' \<notin> set body"
    "distinct pairs" "\<forall>(t, b) \<in> set pairs. t \<noteq> [] \<and> length t \<le> 64 \<and> b \<noteq> [] \<and> length b \<le> 64"
proof -
  from assms obtain body signature ps where
    part: "partition_at CHR ''.'' token = Some (body, signature)" and "signature = sign k body"
    and rest: "normalize_pairs [] ps = Inr pairs"
    by (auto simp: decode_comparison_context_def andThen_eq_Inr
        split: option.splits json.splits)
  then have "token = body @ ''.'' @ sign k body" "CHR ''.'' \<notin> set body"
    by (auto simp: partition_at_Some)
  with rest that show thesis using normalized_pairs by fastforce
qed

text \<open>Decoding a token that encoding produced.\<close>

lemma decode_encoded:
  assumes enc: "encode_contexts k cs = Inr (Some token)"
    and pairs: "context_pairs cs \<noteq> []" "distinct (context_pairs cs)"
    and ids: "\<forall>(t, b) \<in> set (context_pairs cs). t \<noteq> [] \<and> length t \<le> 64 \<and> b \<noteq> [] \<and> length b \<le> 64"
    and load: "load k (pack k (dumps (context_payload (context_pairs cs)))) =
      Some (context_payload (context_pairs cs))"
    and dots: "CHR ''.'' \<notin> set (pack k (dumps (context_payload (context_pairs cs))))"
      "\<forall>body. CHR ''.'' \<notin> set (sign k body)"
  shows "decode_comparison_context k token = Inr (context_pairs cs)"
proof -
  let ?P = "context_pairs cs"
  let ?body = "pack k (dumps (context_payload ?P))"
  from enc have t: "token = ?body @ ''.'' @ sign k ?body" "length token \<le> max_context_length"
    "length cs \<le> max_context_pairs"
    by (auto simp: encode_contexts_def andThen_eq_Inr Let_def split: if_splits)
  have part: "partition_at CHR ''.'' token = Some (?body, sign k ?body)"
    using dots by (simp add: partition_at_Some t(1))
  have count: "count_list token CHR ''.'' = 1"
    using dots by (simp add: t(1) count_list_0_iff)
  have len: "length ?P \<le> max_context_pairs"
    using t(3) by (simp add: context_pairs_def List.map_filter_def)
      (meson le_trans length_filter_le)
  have "normalize_pairs [] (map (\<lambda>(t, b). JObj [(''b'', JStr b), (''t'', JStr t)]) ?P) = Inr ?P"
    using normalize_pairs_fold [OF ids, of "[]"] pairs(2) by simp
  moreover have "token \<noteq> []" by (simp add: t(1))
  ultimately show ?thesis
    using t(2) part count load len pairs(1)
    by (simp add: decode_comparison_context_def context_payload_def)
qed

section \<open>Resolving a token\<close>

lemma comparable_context:
  assumes "resolve_run_context s target = Inr c" "rc_comparable c"
  obtains b where "c = context_with_baseline s target b"
    "previous_comparable_run s target = Inr (Some b)" "cr_status target = SUCCESS"
    "cr_detailed_observations_available target" "cr_detailed_observations_available b"
  using assms
  by (auto simp: resolve_run_context_def andThen_eq_Inr context_with_baseline_def
      split: if_splits option.splits)

lemma previous_run_facts:
  assumes "previous_comparable_run s target = Inr (Some b)"
  shows "b \<in> set (collection_runs s)" "cr_status b = SUCCESS" "cr_status target = SUCCESS"
    "cr_provider b = cr_provider target" "cr_account_id b = cr_account_id target"
    "cr_id b \<noteq> cr_id target"
proof -
  show st: "cr_status target = SUCCESS"
    using assms
    by (auto simp: previous_comparable_run_def compatible_baselines_def validate_run_def
        andThen_eq_Inr)
  with assms have "b \<in> set (baseline_candidates s target)"
    by (auto simp: previous_comparable_run_ok find_Some_iff)
  then show "b \<in> set (collection_runs s)" "cr_status b = SUCCESS"
    "cr_provider b = cr_provider target" "cr_account_id b = cr_account_id target"
    "cr_id b \<noteq> cr_id target"
    by (simp_all add: baseline_candidates_def)
qed

lemma resolve_pair_ok:
  assumes "find_row cr_id (cr_id t) (collection_runs s) = Some t"
    "find_row cr_id (cr_id b) (collection_runs s) = Some b"
    "previous_comparable_run s t = Inr (Some b)"
    "cr_detailed_observations_available t" "cr_detailed_observations_available b"
    "truthy provider \<longrightarrow> Some (cr_provider t) = map_option lower provider"
    "truthy account_id \<longrightarrow> Some (cr_account_id t) = account_id"
  shows "resolve_pair s provider account_id (cr_id t, cr_id b) acc =
    Inr (acc @ [context_with_baseline s t b])"
  using assms previous_run_facts [OF assms(3)] by (simp add: resolve_pair_def)

text \<open>What a request is allowed to compare.\<close>

definition admissible :: "db \<Rightarrow> string option \<Rightarrow> string option \<Rightarrow> collection_run \<Rightarrow>
    collection_run \<Rightarrow> bool" where
  "admissible s provider account_id t b \<longleftrightarrow>
     t \<in> set (collection_runs s) \<and> b \<in> set (collection_runs s) \<and>
     cr_status t = SUCCESS \<and> cr_status b = SUCCESS \<and>
     cr_provider t = cr_provider b \<and> cr_account_id t = cr_account_id b \<and>
     cr_detailed_observations_available t \<and> cr_detailed_observations_available b \<and>
     (truthy provider \<longrightarrow> Some (cr_provider t) = map_option lower provider) \<and>
     (truthy account_id \<longrightarrow> Some (cr_account_id t) = account_id)"

lemma resolve_pair_Inr:
  assumes "resolve_pair s provider account_id pair acc = Inr out"
  shows "\<exists>t b. out = acc @ [context_with_baseline s t b] \<and> admissible s provider account_id t b"
proof -
  from assms obtain t b where tb: "find_row cr_id (fst pair) (collection_runs s) = Some t"
    "find_row cr_id (snd pair) (collection_runs s) = Some b"
    by (auto simp: resolve_pair_def split: option.splits)
  have "t \<in> set (collection_runs s)" "b \<in> set (collection_runs s)"
    using find_row_Some [OF tb(1)] find_row_Some [OF tb(2)] by auto
  with assms tb have "admissible s provider account_id t b"
    "out = acc @ [context_with_baseline s t b]"
    by (auto simp: resolve_pair_def andThen_eq_Inr admissible_def)
  then show ?thesis by blast
qed

text \<open>
  C32: A comparison token is only as good as its signature and the stored runs.  Whatever token
  is presented, if it resolves, then its signature is the application's own for its body, and
  every comparison it yields is between two stored, successful runs of one account whose
  details are still available, inside the provider and the account the request asked for.
\<close>

theorem resolved_token_safe:
  assumes "resolve_comparison_context k s token provider account_id = Inr cs"
  shows "(\<exists>body. token = body @ ''.'' @ sign k body) \<and>
    (\<forall>c \<in> set cs. \<exists>t b. c = context_with_baseline s t b \<and> admissible s provider account_id t b)"
proof (intro conjI)
  from assms obtain pairs where dec: "decode_comparison_context k token = Inr pairs"
    and fold: "fold_result (resolve_pair s provider account_id) pairs [] = Inr cs"
    unfolding resolve_comparison_context_def Let_def andThen_eq_Inr by blast
  from dec show "\<exists>body. token = body @ ''.'' @ sign k body"
    by (rule decoded_pairs) blast
  let ?ok = "\<lambda>c. \<exists>t b. c = context_with_baseline s t b \<and> admissible s provider account_id t b"
  show "\<forall>c \<in> set cs. ?ok c"
  proof (rule fold_result_invariant [OF fold, where P = "\<lambda>cs. \<forall>c \<in> set cs. ?ok c"])
    fix pair acc out
    assume acc: "\<forall>c \<in> set acc. ?ok c"
      and res: "resolve_pair s provider account_id pair acc = Inr out"
    from resolve_pair_Inr [OF res] obtain t b
      where out: "out = acc @ [context_with_baseline s t b]"
        and ok: "admissible s provider account_id t b" by blast
    from ok have "?ok (context_with_baseline s t b)" by blast
    with acc show "\<forall>c \<in> set out. ?ok c" unfolding out by simp
  qed simp
qed

lemma latest_targets:
  assumes "r \<in> set (latest_success_targets s provider account_id)"
  shows "r \<in> set (collection_runs s) \<and> cr_status r = SUCCESS \<and>
     (truthy provider \<longrightarrow> Some (cr_provider r) = map_option lower provider) \<and>
     (truthy account_id \<longrightarrow> Some (cr_account_id r) = account_id)"
proof -
  let ?P = "\<lambda>r. cr_status r = SUCCESS \<and>
     (truthy provider \<longrightarrow> Some (cr_provider r) = map_option lower provider) \<and>
     (truthy account_id \<longrightarrow> Some (cr_account_id r) = account_id)"
  from assms have "r \<in> set (filter ?P (collection_runs s))"
    unfolding latest_success_targets_def Let_def set_sort by (rule filter_is_subset [THEN subsetD])
  then show ?thesis unfolding set_filter by blast
qed

lemma distinct_latest_targets:
  assumes "distinct (map cr_id (collection_runs s))"
  shows "distinct (map cr_id (latest_success_targets s provider account_id))"
  using assms
  by (simp add: latest_success_targets_def Let_def distinct_map_sort distinct_map_filter)

lemma map_result_filter:
  assumes "map_result f xs = Inr ys"
  shows "filter P ys = List.map_filter (\<lambda>x. case f x of Inr y \<Rightarrow> if P y then Some y else None
                                              | Inl _ \<Rightarrow> None) xs"
  using assms
proof (induction xs arbitrary: ys)
  case (Cons x xs)
  then obtain z zs where "f x = Inr z" "map_result f xs = Inr zs" "ys = z # zs"
    by (auto simp: andThen_eq_Inr)
  with Cons.IH show ?case by (simp add: List.map_filter_def)
qed (simp add: List.map_filter_def)

text \<open>The comparable contexts of a list of targets, with the pairs that represent them.\<close>

lemma contexts_of_targets:
  assumes "map_result (resolve_run_context s) ts = Inr all"
  shows "\<exists>tbs.
    filter (\<lambda>c. rc_comparable c \<and> rc_baseline c \<noteq> None) all =
      map (\<lambda>(t, b). context_with_baseline s t b) tbs \<and>
    (distinct (map cr_id ts) \<longrightarrow> distinct (map (cr_id \<circ> fst) tbs)) \<and>
    fst ` set tbs \<subseteq> set ts \<and>
    (\<forall>(t, b) \<in> set tbs. previous_comparable_run s t = Inr (Some b) \<and>
       cr_detailed_observations_available t \<and> cr_detailed_observations_available b)"
    (is "\<exists>tbs. ?Q ts all tbs")
  using assms
proof (induction ts arbitrary: all)
  case Nil
  then show ?case by simp
next
  case (Cons t ts)
  from Cons.prems obtain c cs where c: "resolve_run_context s t = Inr c"
    "map_result (resolve_run_context s) ts = Inr cs" "all = c # cs"
    by (auto simp: andThen_eq_Inr)
  from Cons.IH [OF c(2)] obtain tbs where tbs: "?Q ts cs tbs" by blast
  show ?case
  proof (cases "rc_comparable c \<and> rc_baseline c \<noteq> None")
    case False
    with c(3) tbs have "?Q (t # ts) all tbs" by auto
    then show ?thesis by blast
  next
    case True
    with c(1) obtain b where b: "c = context_with_baseline s t b"
      "previous_comparable_run s t = Inr (Some b)"
      "cr_detailed_observations_available t" "cr_detailed_observations_available b"
      by (meson comparable_context)
    have "cr_id t \<notin> set (map (cr_id \<circ> fst) tbs)" if "distinct (map cr_id (t # ts))"
      using that tbs by auto
    with c(3) tbs b True have "?Q (t # ts) all ((t, b) # tbs)" by auto
    then show ?thesis by blast
  qed
qed

lemma context_pairs_map:
  "context_pairs (map (\<lambda>(t, b). context_with_baseline s t b) tbs) =
     map (\<lambda>(t, b). (cr_id t, cr_id b)) tbs"
  by (induction tbs) (auto simp: context_pairs_def List.map_filter_def context_with_baseline_def)

lemma fold_resolve_pairs:
  assumes "\<And>t b acc. (t, b) \<in> set tbs \<Longrightarrow>
      resolve_pair s provider account_id (cr_id t, cr_id b) acc =
        Inr (acc @ [context_with_baseline s t b])"
  shows "fold_result (resolve_pair s provider account_id)
      (map (\<lambda>(t, b). (cr_id t, cr_id b)) tbs) acc =
    Inr (acc @ map (\<lambda>(t, b). context_with_baseline s t b) tbs)"
  using assms
proof (induction tbs arbitrary: acc)
  case (Cons p tbs)
  obtain t b where "p = (t, b)" by fastforce
  with Cons show ?case by simp
qed simp

text \<open>
  C33: Following the link of the dashboard shows the comparisons the dashboard counted.  If the
  snapshot carries a token, then resolving this token against the same state, under the same
  provider and account filter, yields exactly the contexts of the snapshot.  The keys of the
  stored runs are distinct, non-empty and at most 64 characters long (they are UUIDs);
  compression and the JSON parser invert each other on the payload, and base64 text has no dot.
\<close>

theorem snapshot_token_roundtrip:
  assumes snap: "dashboard_comparison_snapshot k s provider account_id = Inr sn"
    and token: "sn_comparison_context sn = Some token"
    and keys: "distinct (map cr_id (collection_runs s))"
      "\<forall>r \<in> set (collection_runs s). cr_id r \<noteq> [] \<and> length (cr_id r) \<le> 64"
    and load: "load k (pack k (dumps (context_payload (context_pairs (sn_contexts sn))))) =
      Some (context_payload (context_pairs (sn_contexts sn)))"
    and dots: "CHR ''.'' \<notin> set (pack k (dumps (context_payload (context_pairs (sn_contexts sn)))))"
      "\<forall>body. CHR ''.'' \<notin> set (sign k body)"
  shows "resolve_comparison_context k s token provider account_id = Inr (sn_contexts sn)"
proof -
  let ?ts = "latest_success_targets s provider account_id"
  let ?cmp = "\<lambda>c. rc_comparable c \<and> rc_baseline c \<noteq> None"
  from snap token obtain all where all: "map_result (resolve_run_context s) ?ts = Inr all"
    and cs: "sn_contexts sn = filter ?cmp all"
    and enc: "encode_contexts k (sn_contexts sn) = Inr (Some token)"
    by (auto simp: dashboard_comparison_snapshot_def andThen_eq_Inr Let_def)
  from contexts_of_targets [OF all] distinct_latest_targets [OF keys(1), of provider account_id]
  obtain tbs where tbs: "filter ?cmp all = map (\<lambda>(t, b). context_with_baseline s t b) tbs"
    "distinct (map (cr_id \<circ> fst) tbs)" "fst ` set tbs \<subseteq> set ?ts"
    "\<forall>(t, b) \<in> set tbs. previous_comparable_run s t = Inr (Some b) \<and>
       cr_detailed_observations_available t \<and> cr_detailed_observations_available b"
    by blast
  have runs: "t \<in> set ?ts \<and> b \<in> set (collection_runs s) \<and> t \<in> set (collection_runs s)"
    if "(t, b) \<in> set tbs" for t b
    using that tbs(3,4) latest_targets [of t s provider account_id] previous_run_facts(1) by force
  have scs: "sn_contexts sn = map (\<lambda>(t, b). context_with_baseline s t b) tbs"
    using cs tbs(1) by (rule trans)
  have pairs: "context_pairs (sn_contexts sn) = map (\<lambda>(t, b). (cr_id t, cr_id b)) tbs"
    by (simp only: scs context_pairs_map)
  have dist: "distinct (context_pairs (sn_contexts sn))"
  proof -
    have "map fst (context_pairs (sn_contexts sn)) = map (cr_id \<circ> fst) tbs"
      by (auto simp: pairs)
    with tbs(2) show ?thesis by (metis distinct_map)
  qed
  have ne: "context_pairs (sn_contexts sn) \<noteq> []"
    using enc pairs by (cases tbs) (simp_all add: scs encode_contexts_def)
  have dec: "decode_comparison_context k token = Inr (context_pairs (sn_contexts sn))"
    using decode_encoded [OF enc ne dist _ load dots] keys(2) runs by (fastforce simp: pairs)
  have find: "find_row cr_id (cr_id r) (collection_runs s) = Some r"
    if "r \<in> set (collection_runs s)" for r
    using distinct_find_row [OF keys(1) that] .
  have each: "resolve_pair s provider account_id (cr_id t, cr_id b) acc =
      Inr (acc @ [context_with_baseline s t b])" if "(t, b) \<in> set tbs" for t b acc
    using that runs [OF that] tbs(4) latest_targets [of t s provider account_id]
    by (intro resolve_pair_ok find) auto
  have known: "list_all (\<lambda>i. find_row cr_id i (collection_runs s) \<noteq> None)
      (concat (map (\<lambda>(t, b). [t, b]) (context_pairs (sn_contexts sn))))"
    using runs find by (fastforce simp: pairs list_all_iff)
  show ?thesis
    using dec [unfolded pairs] known [unfolded pairs] fold_resolve_pairs [OF each, of tbs "[]"]
    by (simp add: resolve_comparison_context_def scs)
qed

definition sample_runs :: db where
  "sample_runs = empty_db\<lparr>collection_runs := [run_at ''a'' 1, run_at ''b'' 2]\<rparr>"

definition sample_codec :: codec where
  "sample_codec = \<lparr>pack = (\<lambda>_. ''x''), sign = (\<lambda>_. ''y''),
     load = (\<lambda>_. Some (context_payload [(''b'', ''a'')]))\<rparr>"

lemma sample_snapshot:
  "case dashboard_comparison_snapshot sample_codec sample_runs None None of
     Inl _ \<Rightarrow> False
   | Inr sn \<Rightarrow> sn_comparison_context sn = Some ''x.y'' \<and>
       context_pairs (sn_contexts sn) = [(''b'', ''a'')]"
  by code_simp

lemma snapshot_token_witness:
  "\<exists>sn. dashboard_comparison_snapshot sample_codec sample_runs None None = Inr sn \<and>
     resolve_comparison_context sample_codec sample_runs ''x.y'' None None = Inr (sn_contexts sn)"
proof -
  from sample_snapshot obtain sn where
    sn: "dashboard_comparison_snapshot sample_codec sample_runs None None = Inr sn"
    "sn_comparison_context sn = Some ''x.y''" "context_pairs (sn_contexts sn) = [(''b'', ''a'')]"
    by (auto split: sum.splits)
  have "resolve_comparison_context sample_codec sample_runs ''x.y'' None None =
      Inr (sn_contexts sn)"
    by (rule snapshot_token_roundtrip [OF sn(1,2)])
       (simp_all add: sn(3) sample_runs_def sample_codec_def run_at_def)
  with sn(1) show ?thesis by blast
qed

lemma resolved_token_witness:
  "\<exists>cs. resolve_comparison_context sample_codec sample_runs ''x.y'' (Some ''AWS'') None = Inr cs \<and>
     (\<forall>c \<in> set cs. \<exists>t b. c = context_with_baseline sample_runs t b \<and>
        admissible sample_runs (Some ''AWS'') None t b)"
proof -
  have "case resolve_comparison_context sample_codec sample_runs ''x.y'' (Some ''AWS'') None of
      Inl _ \<Rightarrow> False | Inr cs \<Rightarrow> length cs = 1"
    by code_simp
  then obtain cs where
    "resolve_comparison_context sample_codec sample_runs ''x.y'' (Some ''AWS'') None = Inr cs"
    by (auto split: sum.splits)
  then show ?thesis using resolved_token_safe by blast
qed

end
