(* ===== verification/Dashboard.thy ===== *)
theory Dashboard
  imports RunComparison
begin

text \<open>
  The persisted dashboard summaries (backend/app/services/dashboard_aggregation.py): the
  metrics of the latest successful run of an account, and the operations that keep the stored
  row equal to what the source tables give.  Amounts are kept as decimals; the code stores
  their fixed-point rendering.
\<close>

section \<open>Metrics\<close>

definition latest_successful_run :: "db \<Rightarrow> string \<Rightarrow> string \<Rightarrow> collection_run option" where
  "latest_successful_run s provider account_id =
     (case rev (sort_key run_order
             (filter (\<lambda>r. cr_status r = SUCCESS \<and> cr_provider r = lower provider \<and>
                           cr_account_id r = account_id) (collection_runs s))) of
        [] \<Rightarrow> None | r # _ \<Rightarrow> Some r)"

definition severities :: "string list" where
  "severities = [''high'', ''medium'', ''low'']"

text \<open>The join of observations and findings that are not archived.\<close>

definition observed_rows :: "db \<Rightarrow> collection_run \<Rightarrow> (observation \<times> finding) list" where
  "observed_rows s target =
     concat (map (\<lambda>ob. map (Pair ob)
       (filter (\<lambda>f. f_id f = o_opportunity_id ob \<and> f_archived_at f = None) (findings s)))
     (filter (\<lambda>ob. o_collection_run_id ob = cr_id target) (observations s)))"

record currency_row =
  cy_currency :: string
  cy_open :: nat
  cy_treated :: nat
  cy_rejected :: nat
  cy_severity :: "(string \<times> nat) list"
  cy_severity_other :: nat
  cy_amount :: decimal

definition currency_row_of :: "(observation \<times> finding) list \<Rightarrow> string \<Rightarrow> currency_row" where
  "currency_row_of rows currency =
     (let group = filter (\<lambda>(ob, f). o_currency ob = currency) rows;
          n = (\<lambda>st. count_where (\<lambda>(ob, f). f_status f = st) group)
      in \<lparr>cy_currency = currency, cy_open = n Open, cy_treated = n Treated,
          cy_rejected = n Rejected,
          cy_severity = map (\<lambda>sev. (sev,
            count_where (\<lambda>(ob, f). f_status f = Open \<and> o_severity ob = sev) group)) severities,
          cy_severity_other =
            count_where (\<lambda>(ob, f). f_status f = Open \<and> o_severity ob \<notin> set severities) group,
          cy_amount = sum_list (map (\<lambda>(ob, f).
            if f_status f = Open
            then (case o_estimated_monthly_savings ob of None \<Rightarrow> 0 | Some a \<Rightarrow> a) else 0) group)\<rparr>)"

definition currency_rows :: "db \<Rightarrow> collection_run \<Rightarrow> currency_row list" where
  "currency_rows s target =
     (let rows = observed_rows s target
      in map (currency_row_of rows) (sort (remdups (map (\<lambda>(ob, f). o_currency ob) rows))))"

text \<open>The values of a summary, the union of the two dictionaries of metrics.\<close>

record summary_values =
  sv_open_count :: nat
  sv_treated_count :: nat
  sv_rejected_count :: nat
  sv_severity_counts :: "(string \<times> nat) list"
  sv_financial :: "(string \<times> decimal) list"
  sv_baseline_collection_run_id :: "string option"
  sv_new_count :: nat
  sv_no_longer_detected_count :: nat
  sv_has_baseline :: bool
  sv_rules_version_changed :: bool
  sv_rules_version_unknown :: bool

definition severity_total :: "currency_row list \<Rightarrow> string \<Rightarrow> nat" where
  "severity_total rows sev =
     sum_list (map (\<lambda>r. case map_of (cy_severity r) sev of None \<Rightarrow> 0 | Some n \<Rightarrow> n) rows)"

definition current_metrics :: "db \<Rightarrow> collection_run \<Rightarrow>
    nat \<times> nat \<times> nat \<times> (string \<times> nat) list \<times> (string \<times> decimal) list" where
  "current_metrics s target =
     (let rows = currency_rows s target
      in (sum_list (map cy_open rows), sum_list (map cy_treated rows),
          sum_list (map cy_rejected rows),
          map (\<lambda>sev. (sev, severity_total rows sev)) severities
            @ [(''other'', sum_list (map cy_severity_other rows))],
          map (\<lambda>r. (cy_currency r, cy_amount r)) (filter (\<lambda>r. 0 < cy_open r) rows)))"

definition comparison_metrics ::
  "db \<Rightarrow> collection_run \<Rightarrow> (string option \<times> nat \<times> nat \<times> bool \<times> bool \<times> bool) result" where
  "comparison_metrics s target =
     andThen (opportunity_run_changes s target) (\<lambda>changes.
     let summary = ch_summary changes;
         baseline_run_id = map_option rr_id (ch_baseline changes);
         comparable = ch_comparable changes
     in Inr (baseline_run_id,
             if comparable then cs_operational_new_vs_previous summary else 0,
             if comparable then cs_no_longer_detected summary else 0,
             comparable,
             ch_rules_version_changed changes = Some True,
             baseline_run_id \<noteq> None \<and> ch_rules_version_changed changes = None))"

definition summary_values_of :: "db \<Rightarrow> collection_run \<Rightarrow> summary_values result" where
  "summary_values_of s target =
     (case current_metrics s target of (opn, treated, rejected, sevs, money) \<Rightarrow>
      andThen (comparison_metrics s target) (\<lambda>(base, new, gone, has, changed, unknown).
      Inr \<lparr>sv_open_count = opn, sv_treated_count = treated, sv_rejected_count = rejected,
           sv_severity_counts = sevs, sv_financial = money,
           sv_baseline_collection_run_id = base, sv_new_count = new,
           sv_no_longer_detected_count = gone, sv_has_baseline = has,
           sv_rules_version_changed = changed, sv_rules_version_unknown = unknown\<rparr>))"

definition calculate_account_summary :: "db \<Rightarrow> collection_run \<Rightarrow> summary_values result" where
  "calculate_account_summary s target =
     andThen (guard (cr_status target = SUCCESS)
       (ValueError ''Dashboard summaries can only be built from successful collections''))
     (\<lambda>_. summary_values_of s target)"

section \<open>The stored rows\<close>

definition summary_key :: "account_summary \<Rightarrow> string \<times> string" where
  "summary_key a = (as_provider a, as_account_id a)"

definition get_summary :: "db \<Rightarrow> string \<Rightarrow> string \<Rightarrow> account_summary option" where
  "get_summary s provider account_id =
     find_row summary_key (provider, account_id) (summaries s)"

definition put_summary :: "account_summary \<Rightarrow> db \<Rightarrow> db" where
  "put_summary a s = s\<lparr>summaries := put_row summary_key a (summaries s)\<rparr>"

definition delete_summary :: "account_summary \<Rightarrow> db \<Rightarrow> db" where
  "delete_summary a s =
     s\<lparr>summaries := filter (\<lambda>x. summary_key x \<noteq> summary_key a) (summaries s)\<rparr>"

definition summary_row :: "string \<Rightarrow> string \<Rightarrow> string \<Rightarrow> summary_values \<Rightarrow> datetime
    \<Rightarrow> account_summary" where
  "summary_row provider account_id run_id v t =
     \<lparr>as_provider = provider, as_account_id = account_id, as_collection_run_id = run_id,
      as_baseline_collection_run_id = sv_baseline_collection_run_id v,
      as_open_count = sv_open_count v, as_treated_count = sv_treated_count v,
      as_rejected_count = sv_rejected_count v, as_severity_counts = sv_severity_counts v,
      as_financial = sv_financial v, as_new_count = sv_new_count v,
      as_no_longer_detected_count = sv_no_longer_detected_count v,
      as_has_baseline = sv_has_baseline v,
      as_rules_version_changed = sv_rules_version_changed v,
      as_rules_version_unknown = sv_rules_version_unknown v, as_updated_at = t\<rparr>"

definition persist :: "collection_run \<Rightarrow> summary_values \<Rightarrow> account_summary option \<Rightarrow> db \<Rightarrow> db" where
  "persist target v summary s =
     (let (now, s') = utcnow s
      in case summary of
           None \<Rightarrow> s'\<lparr>summaries := summaries s' @
             [summary_row (cr_provider target) (cr_account_id target) (cr_id target) v now]\<rparr>
         | Some a \<Rightarrow>
             put_summary (summary_row (as_provider a) (as_account_id a) (cr_id target) v now) s')"

text \<open>The check of an explicitly requested run, which only chooses the error.\<close>

definition requested_run_error :: "db \<Rightarrow> string \<Rightarrow> string \<Rightarrow> string \<Rightarrow> bool \<Rightarrow> error" where
  "requested_run_error s provider account_id run_id has_target =
     (case find_row cr_id run_id (collection_runs s) of
        None \<Rightarrow> ValueError (''CollectionRun '' @ run_id @ '' does not exist'')
      | Some r \<Rightarrow>
          if cr_provider r \<noteq> provider \<or> cr_account_id r \<noteq> account_id
          then ValueError ''CollectionRun does not belong to the requested provider/account''
          else if \<not> has_target \<or> cr_status r \<noteq> SUCCESS
          then ValueError ''CollectionRun is not successful''
          else ValueError (''CollectionRun is not the latest successful collection for this '' @
                 ''provider/account''))"

definition rebuild_account_summary ::
  "string \<Rightarrow> string \<Rightarrow> string option \<Rightarrow> db \<Rightarrow> (bool \<times> db) result" where
  "rebuild_account_summary provider0 account_id collection_run_id s =
     (let provider = lower provider0;
          summary = get_summary s provider account_id
      in case latest_successful_run s provider account_id of
           None \<Rightarrow>
             (case collection_run_id of
                Some i \<Rightarrow> Inl (requested_run_error s provider account_id i False)
              | None \<Rightarrow>
                  Inr (False, case summary of None \<Rightarrow> s | Some a \<Rightarrow> delete_summary a s))
         | Some target \<Rightarrow>
             if collection_run_id \<noteq> None \<and> collection_run_id \<noteq> Some (cr_id target)
             then Inl (requested_run_error s provider account_id (the collection_run_id) True)
             else
               andThen (guard (case summary of None \<Rightarrow> True
                                | Some a \<Rightarrow> summary_key a = (provider, account_id))
                 (RuntimeError ''Locked dashboard summary identity changed unexpectedly'')) (\<lambda>_.
               andThen (calculate_account_summary s target) (\<lambda>v.
               Inr (True, persist target v summary s))))"

definition refresh_account_summary_after_lifecycle ::
  "string \<Rightarrow> string \<Rightarrow> db \<Rightarrow> (bool \<times> db) result" where
  "refresh_account_summary_after_lifecycle provider0 account_id s =
     (let provider = lower provider0;
          summary = get_summary s provider account_id
      in case latest_successful_run s provider account_id of
           None \<Rightarrow> Inr (False, s)
         | Some target \<Rightarrow>
             (case summary of
                None \<Rightarrow> rebuild_account_summary provider account_id (Some (cr_id target)) s
              | Some a \<Rightarrow>
                  if as_collection_run_id a \<noteq> cr_id target
                  then rebuild_account_summary provider account_id (Some (cr_id target)) s
                  else andThen (summary_values_of s target) (\<lambda>v.
                       let (now, s') = utcnow s
                       in Inr (True, put_summary (summary_row (as_provider a) (as_account_id a)
                                                    (as_collection_run_id a) v now) s'))))"

definition finding_scopes :: "finding list \<Rightarrow> (string \<times> string) list" where
  "finding_scopes fs = sort (remdups (map (\<lambda>f. (f_provider f, f_account_id f)) fs))"

definition refresh_summaries_for_findings :: "finding list \<Rightarrow> db \<Rightarrow> (nat \<times> db) result" where
  "refresh_summaries_for_findings fs s =
     (let scopes = finding_scopes fs
      in andThen (fold_result (\<lambda>(p, a) s.
             andThen (refresh_account_summary_after_lifecycle p a s) (\<lambda>(_, s'). Inr s')) scopes s)
           (\<lambda>s'. Inr (length scopes, s')))"

definition backfill_dashboard_summaries ::
  "string option \<Rightarrow> string option \<Rightarrow> db \<Rightarrow> (nat \<times> db) result" where
  "backfill_dashboard_summaries provider account_id s =
     fold_result (\<lambda>target (rebuilt, s).
         andThen (rebuild_account_summary (cr_provider target) (cr_account_id target) None s)
           (\<lambda>(built, s'). Inr (rebuilt + (if built then 1 else 0), s')))
       (latest_success_targets s provider account_id) (0, s)"

definition matches_values :: "account_summary \<Rightarrow> summary_values \<Rightarrow> bool" where
  "matches_values a v \<longleftrightarrow>
     as_open_count a = sv_open_count v \<and> as_treated_count a = sv_treated_count v \<and>
     as_rejected_count a = sv_rejected_count v \<and>
     as_severity_counts a = sv_severity_counts v \<and> as_financial a = sv_financial v \<and>
     as_baseline_collection_run_id a = sv_baseline_collection_run_id v \<and>
     as_new_count a = sv_new_count v \<and>
     as_no_longer_detected_count a = sv_no_longer_detected_count v \<and>
     as_has_baseline a = sv_has_baseline v \<and>
     as_rules_version_changed a = sv_rules_version_changed v \<and>
     as_rules_version_unknown a = sv_rules_version_unknown v"

definition summary_matches_source :: "db \<Rightarrow> string \<Rightarrow> string \<Rightarrow> bool result" where
  "summary_matches_source s provider account_id =
     (let summary = get_summary s (lower provider) account_id
      in case latest_successful_run s (lower provider) account_id of
           None \<Rightarrow> Inr (summary = None)
         | Some target \<Rightarrow>
             (case summary of
                None \<Rightarrow> Inr False
              | Some a \<Rightarrow>
                  if as_collection_run_id a \<noteq> cr_id target then Inr False
                  else andThen (calculate_account_summary s target) (\<lambda>v.
                       Inr (matches_values a v))))"

section \<open>Correctness\<close>

interpretation summary_rows: row_store summaries summary_key put_summary
  by unfold_locales (simp add: put_summary_def)

text \<open>
  What the metrics read: the summaries, the clock and the audit trail are not among it.
\<close>

named_theorems source_frame \<open>reading the source tables ignores summaries, clock and audit\<close>

lemma observed_in_frame [source_frame]:
  "observed_in (s\<lparr>summaries := x\<rparr>) = observed_in s"
  "observed_in (s\<lparr>ticks := n\<rparr>) = observed_in s"
  "observed_in (s\<lparr>audit_events := es\<rparr>) = observed_in s"
  by (simp_all add: observed_in_def fun_eq_iff)

lemma covered_frame [source_frame]:
  "covered_by_target (s\<lparr>summaries := x\<rparr>) = covered_by_target s"
  "covered_by_target (s\<lparr>ticks := n\<rparr>) = covered_by_target s"
  "covered_by_target (s\<lparr>audit_events := es\<rparr>) = covered_by_target s"
  by (simp_all add: covered_by_target_def fun_eq_iff)

lemma scopes_frame [source_frame]:
  "scope_coverage (s\<lparr>summaries := x\<rparr>) = scope_coverage s"
  "scope_coverage (s\<lparr>ticks := n\<rparr>) = scope_coverage s"
  "scope_coverage (s\<lparr>audit_events := es\<rparr>) = scope_coverage s"
  by (simp_all add: scope_coverage_def run_scopes_def fun_eq_iff)

lemma make_context_frame [source_frame]:
  "make_context (s\<lparr>summaries := x\<rparr>) = make_context s"
  "make_context (s\<lparr>ticks := n\<rparr>) = make_context s"
  "make_context (s\<lparr>audit_events := es\<rparr>) = make_context s"
  by (simp_all add: make_context_def source_frame fun_eq_iff)

lemma previous_frame [source_frame]:
  "previous_comparable_run (s\<lparr>summaries := x\<rparr>) = previous_comparable_run s"
  "previous_comparable_run (s\<lparr>ticks := n\<rparr>) = previous_comparable_run s"
  "previous_comparable_run (s\<lparr>audit_events := es\<rparr>) = previous_comparable_run s"
  by (simp_all add: previous_comparable_run_def compatible_baselines_def
      baseline_candidates_def fun_eq_iff)

lemma resolve_frame [source_frame]:
  "resolve_run_context (s\<lparr>summaries := x\<rparr>) = resolve_run_context s"
  "resolve_run_context (s\<lparr>ticks := n\<rparr>) = resolve_run_context s"
  "resolve_run_context (s\<lparr>audit_events := es\<rparr>) = resolve_run_context s"
  by (simp_all add: resolve_run_context_def context_with_baseline_def source_frame fun_eq_iff
      cong: if_cong option.case_cong)

lemma classification_frame [source_frame]:
  "classification_condition (s\<lparr>summaries := x\<rparr>) = classification_condition s"
  "classification_condition (s\<lparr>ticks := n\<rparr>) = classification_condition s"
  "classification_condition (s\<lparr>audit_events := es\<rparr>) = classification_condition s"
  by (simp_all add: classification_condition_def source_frame fun_eq_iff
      cong: if_cong option.case_cong discovery_type.case_cong)

lemma count_frame [source_frame]:
  "count_findings (s\<lparr>summaries := x\<rparr>) = count_findings s"
  "count_findings (s\<lparr>ticks := n\<rparr>) = count_findings s"
  "count_findings (s\<lparr>audit_events := es\<rparr>) = count_findings s"
  by (simp_all add: count_findings_def fun_eq_iff split: option.split)

lemma changes_frame [source_frame]:
  "opportunity_run_changes (s\<lparr>summaries := x\<rparr>) = opportunity_run_changes s"
  "opportunity_run_changes (s\<lparr>ticks := n\<rparr>) = opportunity_run_changes s"
  "opportunity_run_changes (s\<lparr>audit_events := es\<rparr>) = opportunity_run_changes s"
  by (simp_all add: opportunity_run_changes_def change_summary_of_def source_frame fun_eq_iff)

lemma values_frame [source_frame]:
  "summary_values_of (s\<lparr>summaries := x\<rparr>) = summary_values_of s"
  "summary_values_of (s\<lparr>ticks := n\<rparr>) = summary_values_of s"
  "summary_values_of (s\<lparr>audit_events := es\<rparr>) = summary_values_of s"
  by (simp_all add: summary_values_of_def current_metrics_def currency_rows_def
      observed_rows_def comparison_metrics_def source_frame fun_eq_iff)

lemma latest_frame [source_frame]:
  "latest_successful_run (s\<lparr>summaries := x\<rparr>) = latest_successful_run s"
  "latest_successful_run (s\<lparr>ticks := n\<rparr>) = latest_successful_run s"
  "latest_successful_run (s\<lparr>audit_events := es\<rparr>) = latest_successful_run s"
  by (simp_all add: latest_successful_run_def fun_eq_iff)

lemma calculate_frame [source_frame]:
  "calculate_account_summary (s\<lparr>summaries := x\<rparr>) = calculate_account_summary s"
  "calculate_account_summary (s\<lparr>ticks := n\<rparr>) = calculate_account_summary s"
  "calculate_account_summary (s\<lparr>audit_events := es\<rparr>) = calculate_account_summary s"
  by (simp_all add: calculate_account_summary_def source_frame fun_eq_iff)

lemma matches_frame [source_frame]:
  "summary_matches_source (s\<lparr>audit_events := es\<rparr>) = summary_matches_source s"
  by (simp add: summary_matches_source_def get_summary_def source_frame fun_eq_iff
      cong: if_cong option.case_cong)

text \<open>Two states that differ in nothing but summaries and clock readings.\<close>

definition same_source :: "db \<Rightarrow> db \<Rightarrow> bool" where
  "same_source s t \<longleftrightarrow> t\<lparr>summaries := summaries s, ticks := ticks s\<rparr> = s"

lemma same_sourceD:
  assumes "same_source s t"
  obtains x n where "t = s\<lparr>summaries := x, ticks := n\<rparr>"
proof -
  have "t = t\<lparr>summaries := summaries s, ticks := ticks s\<rparr>\<lparr>summaries := summaries t, ticks := ticks t\<rparr>"
    by simp
  then have "t = s\<lparr>summaries := summaries t, ticks := ticks t\<rparr>"
    using assms unfolding same_source_def by simp
  then show thesis by (rule that)
qed

lemma same_source_refl [simp]: "same_source s s"
  by (simp add: same_source_def)

lemma same_source_trans: "same_source s t \<Longrightarrow> same_source t u \<Longrightarrow> same_source s u"
  by (elim same_sourceD) (simp add: same_source_def)

lemma same_source_reads:
  assumes "same_source s t"
  shows "latest_successful_run t = latest_successful_run s"
    "calculate_account_summary t = calculate_account_summary s"
    "summary_values_of t = summary_values_of s"
    "latest_success_targets t = latest_success_targets s"
  using assms
  by (auto elim!: same_sourceD simp: source_frame latest_success_targets_def fun_eq_iff)

lemma summary_values_total: "\<exists>v. summary_values_of s target = Inr v"
proof -
  obtain c where "opportunity_run_changes s target = Inr c"
    using opportunity_run_changes_total by blast
  then show ?thesis
    by (simp add: summary_values_of_def comparison_metrics_def Let_def split: prod.split)
qed

lemma matches_summary_row [simp]: "matches_values (summary_row p a i v t) v"
  by (simp add: matches_values_def summary_row_def)

lemma summary_row_simps [simp]:
  "summary_key (summary_row p a i v t) = (p, a)"
  "as_collection_run_id (summary_row p a i v t) = i"
  by (simp_all add: summary_row_def summary_key_def)

lemma latest_successful_run_Some:
  assumes "latest_successful_run s p a = Some r"
  shows "r \<in> set (collection_runs s)" "cr_status r = SUCCESS"
    "cr_provider r = lower p" "cr_account_id r = a"
proof -
  let ?rows = "filter (\<lambda>r. cr_status r = SUCCESS \<and> cr_provider r = lower p \<and>
     cr_account_id r = a) (collection_runs s)"
  have "(case xs of [] \<Rightarrow> None | x # _ \<Rightarrow> Some x) = Some r \<Longrightarrow> r \<in> set xs" for xs
    by (cases xs) simp_all
  then have "r \<in> set (rev (sort_key run_order ?rows))"
    using assms unfolding latest_successful_run_def by blast
  then have "r \<in> set ?rows" by simp
  then show "r \<in> set (collection_runs s)" "cr_status r = SUCCESS"
    "cr_provider r = lower p" "cr_account_id r = a" by simp_all
qed

lemma latest_successful_run_lower [simp]:
  "latest_successful_run s (lower p) a = latest_successful_run s p a"
  by (simp add: latest_successful_run_def)

text \<open>
  The row of a scope is fresh: it belongs to the latest successful run and holds the values
  calculated from the source tables.
\<close>

definition fresh :: "db \<Rightarrow> string \<Rightarrow> string \<Rightarrow> bool" where
  "fresh s p a \<longleftrightarrow> summary_matches_source s p a = Inr True"

lemma freshI:
  assumes "latest_successful_run s p a = Some r" "summary_values_of s r = Inr v"
    "get_summary s (lower p) a = Some row" "as_collection_run_id row = cr_id r"
    "matches_values row v"
  shows "fresh s p a"
  using assms latest_successful_run_Some(2) [OF assms(1)]
  by (simp add: fresh_def summary_matches_source_def calculate_account_summary_def)

lemma persist_effect:
  assumes r: "latest_successful_run s p a = Some r" and v: "summary_values_of s r = Inr v"
  defines "s' \<equiv> persist r v (get_summary s (lower p) a) s"
  shows "same_source s s'" "fresh s' p a"
    "\<And>q b. (q, b) \<noteq> (lower p, a) \<Longrightarrow> get_summary s' q b = get_summary s q b"
proof -
  note r' = latest_successful_run_Some [OF r]
  have key: "summary_key row = (lower p, a)" if "get_summary s (lower p) a = Some row" for row
    using find_row_Some that unfolding get_summary_def by fast
  show src: "same_source s s'"
    by (auto simp: s'_def persist_def utcnow_def put_summary_def same_source_def
        split: option.splits)
  have get: "get_summary s' q b = (if (q, b) = (lower p, a)
      then Some (summary_row (lower p) a (cr_id r) v (fst (utcnow s))) else get_summary s q b)"
    for q b
  proof (cases "get_summary s (lower p) a")
    case None
    then show ?thesis
      using r'(3,4)
      by (auto simp: s'_def persist_def utcnow_def get_summary_def find_row_append row_simps
          split: option.splits)
  next
    case (Some row)
    with key have "summary_key row = (lower p, a)" by blast
    then have "as_provider row = lower p" "as_account_id row = a"
      by (simp_all add: summary_key_def)
    with Some show ?thesis
      by (auto simp: s'_def persist_def utcnow_def get_summary_def put_summary_def row_simps)
  qed
  show "\<And>q b. (q, b) \<noteq> (lower p, a) \<Longrightarrow> get_summary s' q b = get_summary s q b"
    by (subst get) auto
  show "fresh s' p a"
  proof (rule freshI)
    show "latest_successful_run s' p a = Some r" "summary_values_of s' r = Inr v"
      using r v by (simp_all add: same_source_reads [OF src])
    show "get_summary s' (lower p) a = Some (summary_row (lower p) a (cr_id r) v (fst (utcnow s)))"
      using get by simp
  qed simp_all
qed

lemma rebuild_effect:
  assumes "run = None \<or> run = map_option cr_id (latest_successful_run s p a)"
  shows "\<exists>b s'. rebuild_account_summary p a run s = Inr (b, s') \<and> same_source s s' \<and>
    (run = None \<or> latest_successful_run s p a \<noteq> None \<longrightarrow> fresh s' p a) \<and>
    (\<forall>q c. (q, c) \<noteq> (lower p, a) \<longrightarrow> get_summary s' q c = get_summary s q c)"
proof (cases "latest_successful_run s p a")
  case None
  with assms have run: "run = None" by auto
  show ?thesis
  proof (cases "get_summary s (lower p) a")
    case None': None
    then have "fresh s p a" using None by (simp add: fresh_def summary_matches_source_def)
    with None None' run show ?thesis by (simp add: rebuild_account_summary_def ex_bool_eq)
  next
    case (Some row)
    have key: "summary_key row = (lower p, a)"
      using find_row_Some Some unfolding get_summary_def by fast
    let ?t = "delete_summary row s"
    have src: "same_source s ?t"
      by (simp add: delete_summary_def same_source_def)
    have "find_row summary_key k (filter (\<lambda>x. summary_key x \<noteq> m) rows) =
        (if k = m then None else find_row summary_key k rows)" for k m rows
      by (induction rows) (auto simp: row_simps)
    then have get: "get_summary ?t q c = (if (q, c) = (lower p, a) then None else get_summary s q c)"
      for q c by (simp add: get_summary_def delete_summary_def key)
    then have "fresh ?t p a"
      using None by (simp add: fresh_def summary_matches_source_def same_source_reads [OF src])
    with None Some run get src show ?thesis by (simp add: rebuild_account_summary_def ex_bool_eq)
  qed
next
  case (Some r)
  obtain v where v: "summary_values_of s r = Inr v" using summary_values_total by blast
  have calc: "calculate_account_summary s r = Inr v"
    using v latest_successful_run_Some(2) [OF Some] by (simp add: calculate_account_summary_def)
  have key: "(case get_summary s (lower p) a of None \<Rightarrow> True
      | Some row \<Rightarrow> summary_key row = (lower p, a))"
    using find_row_Some unfolding get_summary_def by (fastforce split: option.split)
  have "rebuild_account_summary p a run s =
      Inr (True, persist r v (get_summary s (lower p) a) s)"
    using assms Some key calc by (auto simp: rebuild_account_summary_def)
  with persist_effect [OF Some v] show ?thesis by (simp add: ex_bool_eq)
qed

lemma refresh_effect:
  "\<exists>b s'. refresh_account_summary_after_lifecycle p a s = Inr (b, s') \<and> same_source s s' \<and>
    (latest_successful_run s p a \<noteq> None \<longrightarrow> fresh s' p a) \<and>
    (\<forall>q c. (q, c) \<noteq> (lower p, a) \<longrightarrow> get_summary s' q c = get_summary s q c)"
proof (cases "latest_successful_run s p a")
  case None
  then show ?thesis by (simp add: refresh_account_summary_after_lifecycle_def ex_bool_eq)
next
  case (Some r)
  obtain v where v: "summary_values_of s r = Inr v" using summary_values_total by blast
  have rebuilt: ?thesis if "refresh_account_summary_after_lifecycle p a s =
      rebuild_account_summary (lower p) a (Some (cr_id r)) s"
    using rebuild_effect [of "Some (cr_id r)" s "lower p" a] Some that
    by (auto simp: fresh_def summary_matches_source_def)
  show ?thesis
  proof (cases "get_summary s (lower p) a")
    case None
    with Some rebuilt show ?thesis by (simp add: refresh_account_summary_after_lifecycle_def)
  next
    case row: (Some row)
    show ?thesis
    proof (cases "as_collection_run_id row = cr_id r")
      case False
      with Some row rebuilt show ?thesis by (simp add: refresh_account_summary_after_lifecycle_def)
    next
      case True
      with Some row v have "refresh_account_summary_after_lifecycle p a s =
          Inr (True, persist r v (get_summary s (lower p) a) s)"
        by (simp add: refresh_account_summary_after_lifecycle_def persist_def split: prod.split)
      with persist_effect [OF Some v] show ?thesis by (simp add: ex_bool_eq)
    qed
  qed
qed

lemma fresh_frame:
  assumes "same_source s t" "get_summary t (lower p) a = get_summary s (lower p) a"
  shows "fresh t p a = fresh s p a"
  unfolding fresh_def summary_matches_source_def same_source_reads(1,2) [OF assms(1)]
    assms(2) ..

lemma fresh_lower: "lower p = lower q \<Longrightarrow> fresh s p a = fresh s q a"
  by (simp add: fresh_def summary_matches_source_def)

lemma refresh_scopes:
  "\<exists>s'. fold_result (\<lambda>(p, a) s.
      andThen (refresh_account_summary_after_lifecycle p a s) (\<lambda>(_, s'). Inr s')) scopes s = Inr s' \<and>
    same_source s s' \<and>
    (\<forall>(p, a) \<in> set scopes. latest_successful_run s p a \<noteq> None \<longrightarrow> fresh s' p a) \<and>
    (\<forall>p a. fresh s p a \<longrightarrow> latest_successful_run s p a \<noteq> None \<longrightarrow> fresh s' p a)"
proof (induction scopes arbitrary: s)
  case Nil
  then show ?case by simp
next
  case (Cons x scopes)
  obtain p a where x: "x = (p, a)" by fastforce
  obtain b t where t: "refresh_account_summary_after_lifecycle p a s = Inr (b, t)"
    "same_source s t" "latest_successful_run s p a \<noteq> None \<longrightarrow> fresh t p a"
    "\<forall>q c. (q, c) \<noteq> (lower p, a) \<longrightarrow> get_summary t q c = get_summary s q c"
    using refresh_effect by blast
  obtain u where u: "fold_result (\<lambda>(p, a) s.
      andThen (refresh_account_summary_after_lifecycle p a s) (\<lambda>(_, s'). Inr s')) scopes t = Inr u"
    "same_source t u"
    "\<forall>(p, a) \<in> set scopes. latest_successful_run t p a \<noteq> None \<longrightarrow> fresh u p a"
    "\<forall>p a. fresh t p a \<longrightarrow> latest_successful_run t p a \<noteq> None \<longrightarrow> fresh u p a"
    using Cons.IH by blast
  note same = same_source_reads [OF t(2)]
  have kept: "fresh t q c" if "fresh s q c" "latest_successful_run s q c \<noteq> None" for q c
  proof (cases "(lower q, c) = (lower p, a)")
    case True
    then have "latest_successful_run s p a \<noteq> None"
      using that(2) latest_successful_run_lower [of s p a] latest_successful_run_lower [of s q c]
      by auto
    with t(3) True show ?thesis using fresh_lower [of q p] by auto
  next
    case False
    with t(4) that(1) show ?thesis using fresh_frame [OF t(2)] by blast
  qed
  have "same_source s u" using t(2) u(2) by (rule same_source_trans)
  with x t(1,3) u kept same show ?case
    by (intro exI [of _ u]) (auto split: prod.split)
qed

lemma refresh_exists:
  "\<exists>n s'. refresh_summaries_for_findings fs s = Inr (n, s') \<and> same_source s s'"
  using refresh_scopes [of "finding_scopes fs" s]
  by (auto simp: refresh_summaries_for_findings_def)

lemma refresh_exact:
  assumes "refresh_summaries_for_findings fs s = Inr (n, t)" "f \<in> set fs"
    and "latest_successful_run t (f_provider f) (f_account_id f) \<noteq> None"
  shows "summary_matches_source t (f_provider f) (f_account_id f) = Inr True"
proof -
  have scopes: "(f_provider f, f_account_id f) \<in> set (finding_scopes fs)"
    using assms(2) by (simp add: finding_scopes_def)
  from refresh_scopes [of "finding_scopes fs" s] assms(1) have
    "same_source s t" "\<forall>(p, a) \<in> set (finding_scopes fs).
       latest_successful_run s p a \<noteq> None \<longrightarrow> fresh t p a"
    by (auto simp: refresh_summaries_for_findings_def)
  with scopes assms(3) show ?thesis by (auto simp: same_source_reads fresh_def)
qed

text \<open>
  C20: After a human decision the dashboard tells the truth.  Refreshing the summaries for any
  findings never fails, changes nothing but the summary rows, and afterwards the stored summary
  of every affected account that has a successful run equals what is calculated from the
  source tables; summaries of other accounts that were exact stay exact.
\<close>

theorem refresh_makes_summaries_exact:
  "\<exists>n s'. refresh_summaries_for_findings fs s = Inr (n, s') \<and> same_source s s' \<and>
     (\<forall>f \<in> set fs. latest_successful_run s (f_provider f) (f_account_id f) \<noteq> None \<longrightarrow>
        summary_matches_source s' (f_provider f) (f_account_id f) = Inr True) \<and>
     (\<forall>p a. summary_matches_source s p a = Inr True \<longrightarrow> latest_successful_run s p a \<noteq> None \<longrightarrow>
        summary_matches_source s' p a = Inr True)"
proof -
  have scopes: "set (finding_scopes fs) = (\<lambda>f. (f_provider f, f_account_id f)) ` set fs"
    by (simp add: finding_scopes_def)
  from refresh_scopes [of "finding_scopes fs" s] obtain s' where
    "refresh_summaries_for_findings fs s = Inr (length (finding_scopes fs), s')"
    "same_source s s'"
    "\<forall>(p, a) \<in> set (finding_scopes fs). latest_successful_run s p a \<noteq> None \<longrightarrow> fresh s' p a"
    "\<forall>p a. fresh s p a \<longrightarrow> latest_successful_run s p a \<noteq> None \<longrightarrow> fresh s' p a"
    by (auto simp: refresh_summaries_for_findings_def)
  then show ?thesis unfolding scopes fresh_def by auto
qed

lemma backfill_fold:
  "\<exists>n s'. fold_result (\<lambda>target (rebuilt, s).
         andThen (rebuild_account_summary (cr_provider target) (cr_account_id target) None s)
           (\<lambda>(built, s'). Inr (rebuilt + (if built then 1 else 0 :: nat), s'))) ts (m, s) =
       Inr (n, s') \<and> same_source s s' \<and>
     (\<forall>r \<in> set ts. fresh s' (cr_provider r) (cr_account_id r)) \<and>
     (\<forall>p a. fresh s p a \<longrightarrow> fresh s' p a)"
proof (induction ts arbitrary: m s)
  case Nil
  then show ?case by simp
next
  case (Cons r ts)
  obtain b t where t: "rebuild_account_summary (cr_provider r) (cr_account_id r) None s = Inr (b, t)"
    "same_source s t" "fresh t (cr_provider r) (cr_account_id r)"
    "\<forall>q c. (q, c) \<noteq> (lower (cr_provider r), cr_account_id r) \<longrightarrow> get_summary t q c = get_summary s q c"
    using rebuild_effect [of None s "cr_provider r" "cr_account_id r"] by blast
  obtain n u where u: "fold_result (\<lambda>target (rebuilt, s).
         andThen (rebuild_account_summary (cr_provider target) (cr_account_id target) None s)
           (\<lambda>(built, s'). Inr (rebuilt + (if built then 1 else 0 :: nat), s'))) ts
       (m + (if b then 1 else 0), t) = Inr (n, u)"
    "same_source t u" "\<forall>r \<in> set ts. fresh u (cr_provider r) (cr_account_id r)"
    "\<forall>p a. fresh t p a \<longrightarrow> fresh u p a"
    using Cons.IH by blast
  have kept: "fresh t q c" if "fresh s q c" for q c
  proof (cases "(lower q, c) = (lower (cr_provider r), cr_account_id r)")
    case True
    with t(3) show ?thesis using fresh_lower [of q "cr_provider r"] by simp
  next
    case False
    with t(4) that show ?thesis using fresh_frame [OF t(2)] by blast
  qed
  have "same_source s u" using t(2) u(2) by (rule same_source_trans)
  with t u kept show ?case by (intro exI [of _ n] exI [of _ u]) simp
qed

text \<open>
  A backfill always completes and leaves the summary of every account it covers, that is
  every account with a successful run inside the filter, equal to its recalculation, without
  disturbing a summary that was already exact.
\<close>

theorem backfill_makes_summaries_exact:
  "\<exists>n s'. backfill_dashboard_summaries provider account_id s = Inr (n, s') \<and> same_source s s' \<and>
     (\<forall>r \<in> set (latest_success_targets s provider account_id).
        summary_matches_source s' (cr_provider r) (cr_account_id r) = Inr True) \<and>
     (\<forall>p a. summary_matches_source s p a = Inr True \<longrightarrow> summary_matches_source s' p a = Inr True)"
  using backfill_fold unfolding backfill_dashboard_summaries_def fresh_def by blast

text \<open>The witnesses run on one successful collection.\<close>

lemma refresh_makes_summaries_exact_witness:
  "\<exists>n s'. refresh_summaries_for_findings [finding0 ''f''] sample_runs = Inr (n, s') \<and>
     summary_matches_source s' ''aws'' ''1'' = Inr True"
proof -
  have "latest_successful_run sample_runs ''aws'' ''1'' \<noteq> None" by code_simp
  then show ?thesis
    using refresh_makes_summaries_exact [of "[finding0 ''f'']" sample_runs]
    by (auto simp: finding0_def)
qed

lemma backfill_witness:
  "\<exists>n s'. backfill_dashboard_summaries None None sample_runs = Inr (n, s') \<and>
     (\<forall>r \<in> set (latest_success_targets sample_runs None None).
        summary_matches_source s' (cr_provider r) (cr_account_id r) = Inr True)"
  using backfill_makes_summaries_exact [of None None sample_runs] by blast

end
