(* ===== verification/Archiving.thy ===== *)
theory Archiving
  imports Dashboard
begin

text \<open>
  Archiving and unarchiving of a finding (backend/app/services/opportunity_archiving.py).  Every
  change writes one row of the archive history and, except where a caller opts out, one audit
  event; a rejected finding leaves the archive only when it is reopened.
\<close>

section \<open>Shared steps\<close>

text \<open>\<open>_locked\<close>: the row under \<open>SELECT ... FOR UPDATE\<close>.\<close>

definition locked :: "string \<Rightarrow> db \<Rightarrow> finding result" where
  "locked i s = (case get_finding i s of
     None \<Rightarrow> Inl (HTTPException 404 ''Opportunity not found'')
   | Some f \<Rightarrow> Inr f)"

definition text_or_null :: "archive_reason option \<Rightarrow> json" where
  "text_or_null r = jopt (map_option archive_reason_text r)"

definition archive_snapshot :: "db \<Rightarrow> finding \<Rightarrow> json" where
  "archive_snapshot s f = audit_snapshot s
     [(''archived'', JBool (f_archived_at f \<noteq> None)),
      (''archive_reason'', text_or_null (f_archive_reason f)),
      (''status'', JStr (status_text (f_status f))),
      (''presence_status'', JStr (presence_text (f_presence_status f)))]"

text \<open>The label of a finding; the separating dot is transliterated.\<close>

definition finding_label :: "finding \<Rightarrow> string" where
  "finding_label f = f_title f @ '' . '' @ or_text (f_resource_name f) (f_resource_id f)"

definition archive_log :: "finding \<Rightarrow> archive_action \<Rightarrow> archive_reason \<Rightarrow> string option \<Rightarrow>
    string option \<Rightarrow> json \<Rightarrow> datetime option \<Rightarrow> db \<Rightarrow> db" where
  "archive_log f action reason changed_by run_id ctx occurred_at s =
     (let (t, s') = (case occurred_at of Some t \<Rightarrow> (t, s) | None \<Rightarrow> utcnow s)
      in s'\<lparr>archive_history := archive_history s' @
           [\<lparr>ae_opportunity_id = f_id f, ae_action = action, ae_reason = reason,
             ae_changed_by = changed_by, ae_collection_run_id = run_id, ae_occurred_at = t,
             ae_context = ctx\<rparr>]\<rparr>)"

definition archive_audit :: "string \<Rightarrow> finding \<Rightarrow> user option \<Rightarrow> json \<Rightarrow> json \<Rightarrow> string \<Rightarrow>
    json option \<Rightarrow> audit_call" where
  "archive_audit action f actor before after source metadata =
     audit_call0\<lparr>ac_actor := actor, ac_module := ''opportunities'', ac_action := action,
       ac_entity_type := ''opportunity'', ac_entity_id := Some (f_id f),
       ac_entity_label := Some (finding_label f), ac_before := Some before,
       ac_after := Some after, ac_source := source, ac_metadata := metadata\<rparr>"

definition unarchived :: "finding \<Rightarrow> finding" where
  "unarchived f = f\<lparr>f_archived_at := None, f_archived_by := None, f_archive_reason := None\<rparr>"

text \<open>The context of an unarchive event: what the row said before; \<open>extra\<close> is appended.\<close>

definition archived_state :: "finding \<Rightarrow> (string \<times> json) list \<Rightarrow> json" where
  "archived_state f extra = JObj
     ([(''archived_at'', case f_archived_at f of None \<Rightarrow> JNull | Some t \<Rightarrow> JStr (isoformat t)),
       (''archived_by'', jopt (f_archived_by f)),
       (''archive_reason'', text_or_null (f_archive_reason f)),
       (''status'', JStr (status_text (f_status f))),
       (''presence_status'', JStr (presence_text (f_presence_status f)))] @ extra)"

section \<open>Operations\<close>

definition archive :: "string \<Rightarrow> user \<Rightarrow> db \<Rightarrow> (finding \<times> db) result" where
  "archive i actor s =
     andThen (locked i s) (\<lambda>f.
     if f_archived_at f \<noteq> None then Inr (f, s)
     else
       let before = archive_snapshot s f;
           (archived_at, s1) = utcnow s;
           f' = f\<lparr>f_archived_at := Some archived_at, f_archived_by := Some (u_id actor),
                  f_archive_reason := Some MANUAL\<rparr>;
           s2 = archive_log f' ARCHIVE MANUAL (Some (u_id actor)) None
                  (JObj [(''status'', JStr (status_text (f_status f))),
                         (''presence_status'', JStr (presence_text (f_presence_status f)))])
                  None (put_finding f' s1)
       in andThen (refresh_summaries_for_findings [f'] s2) (\<lambda>(_, s3).
          andThen (record_audit (archive_audit ''opportunity.archive'' f' (Some actor) before
                     (archive_snapshot s3 f') ''API'' None) s3) (\<lambda>s4.
          Inr (f', s4))))"

definition archive_retention_locked :: "finding \<Rightarrow> datetime \<Rightarrow> string \<Rightarrow> int \<Rightarrow> datetime \<Rightarrow>
    int option \<Rightarrow> bool \<Rightarrow> db \<Rightarrow> (bool \<times> db) result" where
  "archive_retention_locked f archived_at policy threshold_days reference policy_version
       record_event s =
     (if f_archived_at f \<noteq> None then Inr (False, s)
      else
        let before = archive_snapshot s f;
            f' = f\<lparr>f_archived_at := Some archived_at, f_archived_by := None,
                   f_archive_reason := Some RETENTION_POLICY\<rparr>;
            version = (case policy_version of None \<Rightarrow> JNull | Some v \<Rightarrow> JInt v);
            ctx = JObj [(''actor'', JStr ''SYSTEM''), (''policy'', JStr policy),
              (''policy_key'', JStr policy), (''policy_version'', version),
              (''threshold_days'', JInt threshold_days),
              (''reference_timestamp'', JStr (isoformat reference)),
              (''status'', JStr (status_text (f_status f))),
              (''presence_status'', JStr (presence_text (f_presence_status f)))];
            s1 = archive_log f' ARCHIVE RETENTION_POLICY None None ctx (Some archived_at)
                   (put_finding f' s)
        in if \<not> record_event then Inr (True, s1)
           else andThen (record_audit (archive_audit ''opportunity.archive'' f' None before
                  (archive_snapshot s1 f') ''SYSTEM''
                  (Some (JObj [(''policy'', JStr policy), (''policy_version'', version),
                     (''threshold_days'', JInt threshold_days),
                     (''reference_timestamp'', JStr (isoformat reference))]))) s1)
                (\<lambda>s2. Inr (True, s2)))"

definition unarchive :: "string \<Rightarrow> user \<Rightarrow> db \<Rightarrow> (finding \<times> db) result" where
  "unarchive i actor s =
     andThen (locked i s) (\<lambda>f.
     if f_archived_at f = None then Inr (f, s)
     else
       andThen (guard (f_status f \<noteq> Rejected)
         (HTTPException 409 (''Esta oportunidade esta rejeitada. '' @
            ''Reabra-a para devolve-la ao backlog operacional.''))) (\<lambda>_.
       let before = archive_snapshot s f;
           f' = unarchived f;
           s1 = archive_log f' UNARCHIVE MANUAL (Some (u_id actor)) None (archived_state f [])
                  None (put_finding f' s)
       in andThen (refresh_summaries_for_findings [f'] s1) (\<lambda>(_, s2).
          andThen (record_audit (archive_audit ''opportunity.unarchive'' f' (Some actor) before
                     (archive_snapshot s2 f') ''API'' None) s2) (\<lambda>s3.
          Inr (f', s3)))))"

text \<open>The finding is locked by the caller, which goes on with the finding returned here.\<close>

definition unarchive_for_reopen :: "finding \<Rightarrow> user \<Rightarrow> db \<Rightarrow> (finding \<times> bool \<times> db) result" where
  "unarchive_for_reopen f actor s =
     (if f_archived_at f = None then Inr (f, False, s)
      else
        andThen (guard (f_status f = Rejected)
          (RuntimeError ''Reopen unarchive is only valid for rejected opportunities'')) (\<lambda>_.
        let before = archive_snapshot s f;
            f' = unarchived f;
            s1 = archive_log f' UNARCHIVE MANUAL (Some (u_id actor)) None
                   (archived_state f [(''trigger'', JStr ''reopen'')]) None (put_finding f' s)
        in andThen (record_audit (archive_audit ''opportunity.unarchive'' f' (Some actor) before
                     (archive_snapshot s1 f') ''API''
                     (Some (JObj [(''reason'', JStr ''REOPEN'')]))) s1) (\<lambda>s2.
           Inr (f', True, s2))))"

definition unarchive_reappeared ::
  "finding \<Rightarrow> collection_run \<Rightarrow> db \<Rightarrow> (finding \<times> bool \<times> db) result" where
  "unarchive_reappeared f run s =
     (if f_status f = Rejected then Inr (f, False, s)
      else if f_archived_at f = None then Inr (f, False, s)
      else
        let before = archive_snapshot s f;
            f' = unarchived f;
            s1 = archive_log f' UNARCHIVE REAPPEARED None (Some (cr_id run))
                   (archived_state f [(''provider'', JStr (f_provider f)),
                                      (''account_id'', JStr (f_account_id f))])
                   None (put_finding f' s)
        in andThen (record_audit (archive_audit ''opportunity.unarchive'' f' None before
                     (archive_snapshot s1 f') ''SYSTEM''
                     (Some (JObj [(''collection_run_id'', JStr (cr_id run)),
                                  (''reason'', JStr ''REAPPEARED'')]))) s1) (\<lambda>s2.
           Inr (f', True, s2)))"

section \<open>Correctness\<close>

lemma archive_audit_recorded:
  assumes "action = ''opportunity.archive'' \<or> action = ''opportunity.unarchive''"
    and "source = ''API'' \<or> source = ''SYSTEM''"
  shows "\<exists>e. record_audit (archive_audit action f actor before after source metadata) s =
    Inr (s\<lparr>audit_events := audit_events s @ [e]\<rparr>)"
proof -
  have req: "required_text ''opportunity.archive'' 120 = Inr ''opportunity.archive''"
    "required_text ''opportunity.unarchive'' 120 = Inr ''opportunity.unarchive''"
    "required_text ''opportunities'' 80 = Inr ''opportunities''"
    "required_text ''opportunity'' 120 = Inr ''opportunity''"
    by code_simp+
  have act: "required_text action 120 = Inr action" using assms(1) req(1,2) by metis
  show ?thesis
    by (rule record_audit_ok) (use assms(2) act req(3,4) in \<open>simp_all add: archive_audit_def\<close>)
qed

lemma archive_log_simps [simp]:
  "findings (archive_log f a r by run ctx t s) = findings s"
  "status_history (archive_log f a r by run ctx t s) = status_history s"
  "ledger (archive_log f a r by run ctx t s) = ledger s"
  "observations (archive_log f a r by run ctx t s) = observations s"
  "collection_runs (archive_log f a r by run ctx t s) = collection_runs s"
  "audit_events (archive_log f a r by run ctx t s) = audit_events s"
  "summaries (archive_log f a r by run ctx t s) = summaries s"
  "presence_history (archive_log f a r by run ctx t s) = presence_history s"
  "uuids (archive_log f a r by run ctx t s) = uuids s"
  "uuid4 (archive_log f a r by run ctx t s) = uuid4 s"
  by (simp_all add: archive_log_def utcnow_def split: option.split)

lemma archive_log_history:
  "\<exists>t. archive_history (archive_log f a r by run ctx occ s) = archive_history s @
     [\<lparr>ae_opportunity_id = f_id f, ae_action = a, ae_reason = r, ae_changed_by = by,
       ae_collection_run_id = run, ae_occurred_at = t, ae_context = ctx\<rparr>] \<and>
     (\<forall>u. occ = Some u \<longrightarrow> t = u)"
  by (cases occ) (simp_all add: archive_log_def utcnow_def)

lemma put_finding_simps [simp]:
  "findings (put_finding f s) = put_row f_id f (findings s)"
  "status_history (put_finding f s) = status_history s" "ledger (put_finding f s) = ledger s"
  "archive_history (put_finding f s) = archive_history s"
  "observations (put_finding f s) = observations s"
  "collection_runs (put_finding f s) = collection_runs s"
  "audit_events (put_finding f s) = audit_events s" "summaries (put_finding f s) = summaries s"
  "presence_history (put_finding f s) = presence_history s"
  "uuids (put_finding f s) = uuids s" "uuid4 (put_finding f s) = uuid4 s"
  by (simp_all add: put_finding_def)

lemma same_source_tables:
  assumes "same_source s t"
  shows "findings t = findings s" "status_history t = status_history s" "ledger t = ledger s"
    "archive_history t = archive_history s" "observations t = observations s"
    "collection_runs t = collection_runs s" "audit_events t = audit_events s"
    "presence_history t = presence_history s" "uuids t = uuids s" "uuid4 t = uuid4 s"
    "cloud_accounts t = cloud_accounts s" "scope_executions t = scope_executions s"
  using assms by (auto elim: same_sourceD)

lemma refresh_total:
  obtains n s' where "refresh_summaries_for_findings fs s = Inr (n, s')" "same_source s s'"
  using refresh_exists by blast

text \<open>
  The effect of an operation on one finding: the row is replaced, one event is appended to the
  archive history and one to the audit trail, every other table but the derived summaries is
  untouched.
\<close>

definition archive_effect :: "db \<Rightarrow> db \<Rightarrow> finding \<Rightarrow> archive_action \<Rightarrow> archive_reason \<Rightarrow>
    string option \<Rightarrow> bool" where
  "archive_effect s t f action reason changed_by \<longleftrightarrow>
     findings t = put_row f_id f (findings s) \<and>
     (\<exists>ev. archive_history t = archive_history s @ [ev] \<and> ae_opportunity_id ev = f_id f \<and>
        ae_action ev = action \<and> ae_reason ev = reason \<and> ae_changed_by ev = changed_by) \<and>
     (\<exists>e. audit_events t = audit_events s @ [e]) \<and>
     status_history t = status_history s \<and> ledger t = ledger s \<and>
     observations t = observations s \<and> collection_runs t = collection_runs s \<and>
     presence_history t = presence_history s"

lemma locked_eq: "locked i s = Inr f \<longleftrightarrow> get_finding i s = Some f"
  by (auto simp: locked_def split: option.splits)

lemma archive_cases:
  assumes "get_finding i s = Some f" "f_archived_at f = None"
  shows "\<exists>t f'. archive i actor s = Inr (f', t) \<and>
    (\<exists>now. f' = f\<lparr>f_archived_at := Some now, f_archived_by := Some (u_id actor),
                  f_archive_reason := Some MANUAL\<rparr>) \<and>
    archive_effect s t f' ARCHIVE MANUAL (Some (u_id actor))"
proof -
  let ?now = "fst (utcnow s)" and ?s1 = "snd (utcnow s)"
  let ?f = "f\<lparr>f_archived_at := Some ?now, f_archived_by := Some (u_id actor),
      f_archive_reason := Some MANUAL\<rparr>"
  let ?ctx = "JObj [(''status'', JStr (status_text (f_status f))),
      (''presence_status'', JStr (presence_text (f_presence_status f)))]"
  let ?s2 = "archive_log ?f ARCHIVE MANUAL (Some (u_id actor)) None ?ctx None (put_finding ?f ?s1)"
  obtain n s3 where r: "refresh_summaries_for_findings [?f] ?s2 = Inr (n, s3)" "same_source ?s2 s3"
    by (rule refresh_total)
  obtain e where e: "record_audit (archive_audit ''opportunity.archive'' ?f (Some actor)
      (archive_snapshot s f) (archive_snapshot s3 ?f) ''API'' None) s3 =
    Inr (s3\<lparr>audit_events := audit_events s3 @ [e]\<rparr>)"
    using archive_audit_recorded by blast
  let ?t = "s3\<lparr>audit_events := audit_events s3 @ [e]\<rparr>"
  have "archive i actor s = Inr (?f, ?t)"
    using assms r(1) e
    by (simp add: archive_def locked_eq [THEN iffD2, OF assms(1)] Let_def case_prod_beta)
  moreover have "archive_effect s ?t ?f ARCHIVE MANUAL (Some (u_id actor))"
  proof -
    have frame: "findings ?s1 = findings s" "archive_history ?s1 = archive_history s"
      "audit_events ?s1 = audit_events s" "status_history ?s1 = status_history s"
      "ledger ?s1 = ledger s" "observations ?s1 = observations s"
      "collection_runs ?s1 = collection_runs s" "presence_history ?s1 = presence_history s"
      by (simp_all add: utcnow_def)
    show ?thesis
      using archive_log_history [of ?f ARCHIVE MANUAL "Some (u_id actor)" None ?ctx None "put_finding ?f ?s1"]
      by (auto simp: archive_effect_def same_source_tables [OF r(2)] frame)
  qed
  ultimately show ?thesis by blast
qed

lemma unarchive_cases:
  assumes "get_finding i s = Some f" "f_archived_at f \<noteq> None" "f_status f \<noteq> Rejected"
  shows "\<exists>t. unarchive i actor s = Inr (unarchived f, t) \<and>
    archive_effect s t (unarchived f) UNARCHIVE MANUAL (Some (u_id actor))"
proof -
  let ?f = "unarchived f"
  let ?s1 = "archive_log ?f UNARCHIVE MANUAL (Some (u_id actor)) None (archived_state f []) None
    (put_finding ?f s)"
  obtain n s2 where r: "refresh_summaries_for_findings [?f] ?s1 = Inr (n, s2)" "same_source ?s1 s2"
    by (rule refresh_total)
  obtain e where e: "record_audit (archive_audit ''opportunity.unarchive'' ?f (Some actor)
      (archive_snapshot s f) (archive_snapshot s2 ?f) ''API'' None) s2 =
    Inr (s2\<lparr>audit_events := audit_events s2 @ [e]\<rparr>)"
    using archive_audit_recorded by blast
  let ?t = "s2\<lparr>audit_events := audit_events s2 @ [e]\<rparr>"
  have l: "locked i s = Inr f" using assms(1) by (simp add: locked_eq)
  from assms(2) obtain x where "f_archived_at f = Some x" by blast
  with l assms(3) r(1) e have "unarchive i actor s = Inr (?f, ?t)"
    by (simp add: unarchive_def Let_def)
  moreover have "archive_effect s ?t ?f UNARCHIVE MANUAL (Some (u_id actor))"
    using archive_log_history [of ?f UNARCHIVE MANUAL "Some (u_id actor)" None
        "archived_state f []" None "put_finding ?f s"]
    by (auto simp: archive_effect_def same_source_tables [OF r(2)])
  ultimately show ?thesis by blast
qed

text \<open>A row that is not archived carries no archive data.\<close>

definition archive_coherent :: "finding \<Rightarrow> bool" where
  "archive_coherent f \<longleftrightarrow> (f_archived_at f = None \<longrightarrow> f_archived_by f = None) \<and>
     (f_archived_at f = None \<longleftrightarrow> f_archive_reason f = None)"

text \<open>
  C28: Archiving and unarchiving an opportunity that is not rejected are inverse.  For a stored,
  unarchived finding, archive succeeds, sets the archive data and nothing else on the row, and
  adds one history row and one audit event; a second archive changes nothing at all; and a
  following unarchive restores the findings table exactly, with one more history row each.
\<close>

theorem archive_roundtrip:
  assumes "get_finding i s = Some f" "f_archived_at f = None" "archive_coherent f"
    and "f_status f \<noteq> Rejected" "distinct (map f_id (findings s))"
  shows "\<exists>f' t u. archive i actor s = Inr (f', t) \<and>
    archive_effect s t f' ARCHIVE MANUAL (Some (u_id actor)) \<and> unarchived f' = f \<and>
    archive i other t = Inr (f', t) \<and>
    unarchive i actor t = Inr (f, u) \<and> findings u = findings s \<and>
    archive_effect t u f UNARCHIVE MANUAL (Some (u_id actor))"
proof -
  from archive_cases [OF assms(1,2)] obtain f' t now where
    a: "archive i actor s = Inr (f', t)" "archive_effect s t f' ARCHIVE MANUAL (Some (u_id actor))"
    and f': "f' = f\<lparr>f_archived_at := Some now, f_archived_by := Some (u_id actor),
      f_archive_reason := Some MANUAL\<rparr>" by blast
  have id: "f_id f = i" "f \<in> set (findings s)" using get_finding_Some [OF assms(1)] by simp_all
  have undo: "unarchived f' = f"
    using assms(2,3) by (simp add: f' unarchived_def archive_coherent_def)
  have get: "get_finding i t = Some f'"
    using a(2) assms(1) id(1) f'
    by (simp add: archive_effect_def get_finding_def find_row_put_row)
  have idem: "archive i other t = Inr (f', t)"
    using get by (simp add: archive_def locked_eq [THEN iffD2, OF get] f')
  have arch: "f_archived_at f' \<noteq> None" "f_status f' \<noteq> Rejected" using assms(4) by (simp_all add: f')
  from unarchive_cases [OF get arch, of actor] obtain u where
    u: "unarchive i actor t = Inr (f, u)" "archive_effect t u f UNARCHIVE MANUAL (Some (u_id actor))"
    unfolding undo by blast
  have "findings u = findings s"
    using u(2) a(2) id put_row_same [OF assms(5) id(2)]
    by (simp add: archive_effect_def put_row_put_row f')
  with a u undo idem show ?thesis by blast
qed

definition sample_actor :: user where
  "sample_actor = \<lparr>u_id = ''u'', u_name = ''User'', u_email = ''u@x''\<rparr>"

lemma archive_roundtrip_witness:
  "\<exists>f' t u. archive ''f'' sample_actor (empty_db\<lparr>findings := [finding0 ''f'']\<rparr>) = Inr (f', t) \<and>
     unarchive ''f'' sample_actor t = Inr (finding0 ''f'', u) \<and> findings u = [finding0 ''f'']"
proof -
  have "get_finding ''f'' (empty_db\<lparr>findings := [finding0 ''f'']\<rparr>) = Some (finding0 ''f'')"
    by code_simp
  from archive_roundtrip [OF this, of sample_actor sample_actor] show ?thesis
    by (simp add: finding0_def archive_coherent_def) blast
qed

end
