(* ===== verification/EventLog.thy ===== *)
theory EventLog
  imports Archiving
begin

text \<open>
  The three histories of a finding as event logs.  The program keeps the current state of a
  finding in its row and records every change of the human decision, of the archive and of the
  technical presence in an append-only table.  Here is what it means that the histories tell
  the truth (replaying the events of a finding gives its current state), the kind of step every
  service takes (\<open>audited_step\<close>), and the proof, once for all logs, that such steps keep it.
\<close>

section \<open>Chains of events\<close>

text \<open>Events that lead from one state to another, each starting where the last one ended.\<close>

fun chain :: "('e \<Rightarrow> 'a) \<Rightarrow> ('e \<Rightarrow> 'a) \<Rightarrow> 'a \<Rightarrow> 'e list \<Rightarrow> 'a \<Rightarrow> bool" where
  "chain before after a [] b \<longleftrightarrow> a = b"
| "chain before after a (e # es) b \<longleftrightarrow> before e = a \<and> chain before after (after e) es b"

lemma chain_append:
  "chain p q a (es @ fs) c \<longleftrightarrow> (\<exists>b. chain p q a es b \<and> chain p q b fs c)"
  by (induction es arbitrary: a) auto

lemma chain_deterministic: "chain p q a es b \<Longrightarrow> chain p q a es c \<Longrightarrow> b = c"
  by (induction es arbitrary: a) auto

text \<open>The state a log ends in is the outcome of its last event.\<close>

lemma chain_last: "chain p q a es b \<Longrightarrow> b = (if es = [] then a else q (last es))"
proof (induction es arbitrary: a)
  case (Cons e es)
  then show ?case by (cases es) auto
qed simp

definition replays :: "(db \<Rightarrow> 'e list) \<Rightarrow> ('e \<Rightarrow> string) \<Rightarrow> ('e \<Rightarrow> 'a) \<Rightarrow> ('e \<Rightarrow> 'a) \<Rightarrow>
    (finding \<Rightarrow> 'a) \<Rightarrow> 'a \<Rightarrow> db \<Rightarrow> bool" where
  "replays events subject before after state initial s \<longleftrightarrow>
     distinct (map f_id (findings s)) \<and>
     subject ` set (events s) \<subseteq> f_id ` set (findings s) \<and>
     (\<forall>f \<in> set (findings s).
        chain before after initial (filter (\<lambda>e. subject e = f_id f) (events s)) (state f))"

text \<open>One row is replaced, and its log grows by events that lead from the old to the new row.\<close>

definition log_grows :: "(db \<Rightarrow> 'e list) \<Rightarrow> ('e \<Rightarrow> string) \<Rightarrow> ('e \<Rightarrow> 'a) \<Rightarrow> ('e \<Rightarrow> 'a) \<Rightarrow>
    (finding \<Rightarrow> 'a) \<Rightarrow> finding \<Rightarrow> finding \<Rightarrow> db \<Rightarrow> db \<Rightarrow> bool" where
  "log_grows events subject before after state f f' s t \<longleftrightarrow>
     (\<exists>es. events t = events s @ es \<and> (\<forall>e \<in> set es. subject e = f_id f) \<and>
           chain before after (state f) es (state f'))"

definition row_replaced :: "finding \<Rightarrow> finding \<Rightarrow> db \<Rightarrow> db \<Rightarrow> bool" where
  "row_replaced f f' s t \<longleftrightarrow> f \<in> set (findings s) \<and> f_id f' = f_id f \<and>
     findings t = put_row f_id f' (findings s)"

definition rows_added :: "finding list \<Rightarrow> db \<Rightarrow> db \<Rightarrow> bool" where
  "rows_added new s t \<longleftrightarrow> findings t = findings s @ new \<and> distinct (map f_id new) \<and>
     f_id ` set new \<inter> f_id ` set (findings s) = {}"

locale event_log =
  fixes events :: "db \<Rightarrow> 'e list"
    and subject :: "'e \<Rightarrow> string"
    and before :: "'e \<Rightarrow> 'a"
    and after :: "'e \<Rightarrow> 'a"
    and state :: "finding \<Rightarrow> 'a"
    and initial :: 'a
    and step :: "db \<Rightarrow> db \<Rightarrow> bool"
  assumes step_cases: "step s t \<Longrightarrow>
    (\<exists>f f'. row_replaced f f' s t \<and> log_grows events subject before after state f f' s t) \<or>
    (\<exists>new. rows_added new s t \<and> events t = events s \<and> (\<forall>f \<in> set new. state f = initial))"
begin

lemma replaced_replays:
  assumes "row_replaced f f' s t" "log_grows events subject before after state f f' s t"
    and inv: "replays events subject before after state initial s"
  shows "replays events subject before after state initial t"
proof -
  from assms(1) have f: "f \<in> set (findings s)" "f_id f' = f_id f"
    and rows: "findings t = put_row f_id f' (findings s)" by (simp_all add: row_replaced_def)
  from assms(2) obtain es where es: "events t = events s @ es" "\<forall>e \<in> set es. subject e = f_id f"
    "chain before after (state f) es (state f')" by (auto simp: log_grows_def)
  have ids: "f_id ` set (findings t) = f_id ` set (findings s)"
    by (metis put_row_keys rows set_map)
  have "chain before after initial (filter (\<lambda>e. subject e = f_id g) (events t)) (state g)"
    if "g \<in> set (findings t)" for g
  proof (cases "f_id g = f_id f")
    case True
    with that rows f have g: "g = f'" by (auto simp: in_put_row)
    have "filter (\<lambda>e. subject e = f_id f) (events t) = filter (\<lambda>e. subject e = f_id f) (events s) @ es"
      using es by simp
    with True g es(3) inv f(1) show ?thesis
      by (auto simp: replays_def chain_append)
  next
    case False
    with that rows f(2) have "g \<in> set (findings s)" by (auto simp: in_put_row)
    moreover have "filter (\<lambda>e. subject e = f_id g) (events t) = filter (\<lambda>e. subject e = f_id g) (events s)"
      using es(1,2) False by (auto simp: filter_empty_conv)
    ultimately show ?thesis using inv by (simp add: replays_def)
  qed
  moreover have "subject ` set (events t) \<subseteq> f_id ` set (findings t)"
    using inv es(1,2) f(1) by (auto simp: ids replays_def)
  moreover have "distinct (map f_id (findings t))"
    using inv by (simp add: rows put_row_keys replays_def)
  ultimately show ?thesis by (simp add: replays_def)
qed

lemma added_replays:
  assumes "rows_added new s t" "events t = events s" "\<forall>f \<in> set new. state f = initial"
    and inv: "replays events subject before after state initial s"
  shows "replays events subject before after state initial t"
proof -
  have none: "filter (\<lambda>e. subject e = f_id f) (events s) = []" if "f \<in> set new" for f
  proof -
    have "f_id f \<notin> subject ` set (events s)"
      using inv that assms(1) by (auto simp: replays_def rows_added_def)
    then show ?thesis by (auto simp: filter_empty_conv image_iff)
  qed
  have rows: "findings t = findings s @ new" "distinct (map f_id new)"
    "f_id ` set new \<inter> f_id ` set (findings s) = {}"
    using assms(1) by (simp_all add: rows_added_def)
  have chains: "chain before after initial (filter (\<lambda>e. subject e = f_id f) (events s)) (state f)"
    if "f \<in> set (findings s)" for f
    using inv that by (simp add: replays_def)
  have old: "distinct (map f_id (findings s))" "subject ` set (events s) \<subseteq> f_id ` set (findings s)"
    using inv by (simp_all add: replays_def)
  show ?thesis
    unfolding replays_def rows(1) assms(2)
    using none chains old rows(2,3) assms(3)
    by (simp add: ball_Un image_Un le_supI1 inf_commute)
qed

lemma step_replays:
  "step s t \<Longrightarrow> replays events subject before after state initial s \<Longrightarrow>
   replays events subject before after state initial t"
  using step_cases [of s t] replaced_replays added_replays by blast

lemma step_extends_log: "step s t \<Longrightarrow> \<exists>es. events t = events s @ es"
  using step_cases [of s t] by (auto simp: log_grows_def)

end

sublocale event_log \<subseteq> append_only events step
  by unfold_locales (rule step_extends_log)

sublocale event_log \<subseteq> invariant_system "replays events subject before after state initial" step
  by unfold_locales (rule step_replays)

section \<open>The steps of the program\<close>

text \<open>Events of the archive: a finding is taken out by UNARCHIVE and put in by ARCHIVE.\<close>

definition archived_before :: "archive_event \<Rightarrow> bool" where
  "archived_before e \<longleftrightarrow> ae_action e = UNARCHIVE"

definition archived_after :: "archive_event \<Rightarrow> bool" where
  "archived_after e \<longleftrightarrow> ae_action e = ARCHIVE"

definition is_archived :: "finding \<Rightarrow> bool" where
  "is_archived f \<longleftrightarrow> f_archived_at f \<noteq> None"

text \<open>
  Rows that are coherent: presence data match the presence status, archive data are there
  exactly for archived rows, and a decided row says who decided it and when.
\<close>

definition presence_coherent :: "finding \<Rightarrow> bool" where
  "presence_coherent f \<longleftrightarrow>
     (case f_presence_status f of
        Active \<Rightarrow> f_missing_count f = 0 \<and> f_missing_since_at f = None \<and>
                  f_resolved_externally_at f = None
      | Missing \<Rightarrow> 0 < f_missing_count f \<and> f_missing_since_at f \<noteq> None \<and>
                  f_resolved_externally_at f = None
      | ResolvedExternally \<Rightarrow> 0 < f_missing_count f \<and> f_missing_since_at f \<noteq> None \<and>
                  f_resolved_externally_at f \<noteq> None)"

definition decision_coherent :: "finding \<Rightarrow> bool" where
  "decision_coherent f \<longleftrightarrow>
     (f_status f = Treated \<longrightarrow> f_treated_at f \<noteq> None \<and> f_treated_by f \<noteq> None) \<and>
     (f_status f = Rejected \<longrightarrow> f_rejected_at f \<noteq> None \<and> f_rejected_by f \<noteq> None \<and>
        f_rejection_reason f \<noteq> None)"

definition coherent :: "finding \<Rightarrow> bool" where
  "coherent f \<longleftrightarrow> presence_coherent f \<and> archive_coherent f \<and> decision_coherent f"

text \<open>A rejected finding leaves the archive only by being reopened.\<close>

definition rejection_respected :: "finding \<Rightarrow> finding \<Rightarrow> bool" where
  "rejection_respected f f' \<longleftrightarrow>
     (f_status f = Rejected \<and> is_archived f \<longrightarrow> f_status f' = Open \<or> is_archived f')"

text \<open>What of a row the histories do not govern: its identity.\<close>

definition same_identity :: "finding \<Rightarrow> finding \<Rightarrow> bool" where
  "same_identity f f' \<longleftrightarrow> f_id f' = f_id f \<and> f_fingerprint f' = f_fingerprint f \<and>
     f_provider f' = f_provider f \<and> f_account_id f' = f_account_id f \<and>
     f_rule_key f' = f_rule_key f \<and> f_resource_id f' = f_resource_id f"

definition logged_change :: "finding \<Rightarrow> finding \<Rightarrow> db \<Rightarrow> db \<Rightarrow> bool" where
  "logged_change f f' s t \<longleftrightarrow>
     row_replaced f f' s t \<and>
     log_grows status_history se_opportunity_id se_from_status se_to_status f_status f f' s t \<and>
     log_grows archive_history ae_opportunity_id archived_before archived_after is_archived
       f f' s t \<and>
     log_grows presence_history pe_opportunity_id pe_from_status pe_to_status
       f_presence_status f f' s t \<and>
     same_identity f f' \<and> rejection_respected f f' \<and> (coherent f \<longrightarrow> coherent f')"

definition same_logs :: "db \<Rightarrow> db \<Rightarrow> bool" where
  "same_logs s t \<longleftrightarrow> status_history t = status_history s \<and>
     archive_history t = archive_history s \<and> presence_history t = presence_history s"

definition born :: "finding \<Rightarrow> bool" where
  "born f \<longleftrightarrow> f_status f = Open \<and> \<not> is_archived f \<and> f_presence_status f = Active \<and> coherent f"

inductive audited_step :: "db \<Rightarrow> db \<Rightarrow> bool" where
  changed: "logged_change f f' s t \<Longrightarrow> audited_step s t"
| created: "rows_added new s t \<Longrightarrow> same_logs s t \<Longrightarrow> list_all born new \<Longrightarrow> audited_step s t"

inductive_cases audited_stepE: "audited_step s t"

lemma audited_step_cases:
  assumes "audited_step s t"
  shows "(\<exists>f f'. logged_change f f' s t) \<or>
    (\<exists>new. rows_added new s t \<and> same_logs s t \<and> (\<forall>f \<in> set new. born f))"
  using assms by (auto elim!: audited_stepE simp: list_all_iff)

text \<open>Steps on other tables.\<close>

lemma audited_other: "findings t = findings s \<Longrightarrow> same_logs s t \<Longrightarrow> audited_step s t"
  by (rule created [of "[]"]) (simp_all add: rows_added_def)

lemma log_grows_same: "events t = events s \<Longrightarrow> state f' = state f \<Longrightarrow>
    log_grows events subject before after state f f' s t"
  by (auto simp: log_grows_def intro!: exI [of _ "[]"])

lemma log_grows_one: "events t = events s @ [e] \<Longrightarrow> subject e = f_id f \<Longrightarrow> before e = state f \<Longrightarrow>
    after e = state f' \<Longrightarrow> log_grows events subject before after state f f' s t"
  by (auto simp: log_grows_def)

interpretation decision_log: event_log status_history se_opportunity_id se_from_status se_to_status f_status Open audited_step
proof
  fix s t
  assume "audited_step s t"
  from audited_step_cases [OF this]
  show "(\<exists>f f'. row_replaced f f' s t \<and> log_grows status_history se_opportunity_id se_from_status se_to_status f_status f f' s t) \<or>
    (\<exists>new. rows_added new s t \<and> status_history t = status_history s \<and> (\<forall>f \<in> set new. f_status f = Open))"
    unfolding logged_change_def same_logs_def born_def by blast
qed

interpretation archive_events: event_log archive_history ae_opportunity_id archived_before archived_after is_archived False audited_step
proof
  fix s t
  assume "audited_step s t"
  from audited_step_cases [OF this]
  show "(\<exists>f f'. row_replaced f f' s t \<and> log_grows archive_history ae_opportunity_id archived_before archived_after is_archived f f' s t) \<or>
    (\<exists>new. rows_added new s t \<and> archive_history t = archive_history s \<and> (\<forall>f \<in> set new. is_archived f = False))"
    unfolding logged_change_def same_logs_def born_def by blast
qed

interpretation presence_log: event_log presence_history pe_opportunity_id pe_from_status pe_to_status f_presence_status Active audited_step
proof
  fix s t
  assume "audited_step s t"
  from audited_step_cases [OF this]
  show "(\<exists>f f'. row_replaced f f' s t \<and> log_grows presence_history pe_opportunity_id pe_from_status pe_to_status f_presence_status f f' s t) \<or>
    (\<exists>new. rows_added new s t \<and> presence_history t = presence_history s \<and> (\<forall>f \<in> set new. f_presence_status f = Active))"
    unfolding logged_change_def same_logs_def born_def by blast
qed

definition rows_coherent :: "db \<Rightarrow> bool" where
  "rows_coherent s \<longleftrightarrow> list_all coherent (findings s)"

lemma step_rows_coherent:
  assumes "audited_step s t" "rows_coherent s"
  shows "rows_coherent t"
  using audited_step_cases [OF assms(1)]
proof
  assume "\<exists>f f'. logged_change f f' s t"
  then obtain f f' where "f \<in> set (findings s)" "findings t = put_row f_id f' (findings s)"
    "coherent f \<longrightarrow> coherent f'" by (auto simp: logged_change_def row_replaced_def)
  with assms(2) show ?thesis by (auto simp: rows_coherent_def list_all_iff in_put_row)
next
  assume "\<exists>new. rows_added new s t \<and> same_logs s t \<and> (\<forall>f \<in> set new. born f)"
  with assms(2) show ?thesis
    by (auto simp: rows_coherent_def list_all_iff rows_added_def born_def)
qed

interpretation coherence: invariant_system rows_coherent audited_step
  by unfold_locales (rule step_rows_coherent)

end
