(* ===== verification/Presence.thy ===== *)
theory Presence
  imports EventLog CollectionErrors
begin

text \<open>
  Technical presence of an opportunity (backend/app/services/opportunity_reconciliation.py and
  opportunity_presence_history.py).  A completed collection says which (rule, region) scopes it
  covered; a finding that was not observed inside a covered scope goes missing and, after a
  number of such collections, counts as resolved externally; an observation makes it active
  again.  The effective rule policies of an AWS account (\<open>list_effective_policies\<close>) and the
  reply of a provider's executor are arguments.
\<close>

section \<open>What a collection reports\<close>

record collected_finding =
  ci_rule_key :: string
  ci_service :: string
  ci_region :: "string option"
  ci_resource_id :: string
  ci_resource_name :: "string option"
  ci_resource_type :: "string option"
  ci_provider_metadata :: json
  ci_title :: string
  ci_description :: string
  ci_evidence :: json
  ci_current_monthly_cost :: decimal
  ci_estimated_monthly_savings :: "decimal option"
  ci_currency :: string
  ci_confidence :: string
  ci_severity :: string

record collection_result =
  cx_findings :: "collected_finding list"
  cx_active_rule_keys :: "string list"
  cx_collector_errors :: "reported list"
  cx_resources_analyzed :: int

record effective_policy =
  ep_rule_key :: string
  ep_enabled :: bool
  ep_implemented :: bool

type_synonym scope_key = "string \<times> string"

definition ALL_REGIONS_SCOPE :: string where
  "ALL_REGIONS_SCOPE = ''*''"

definition GLOBAL_COLLECTORS :: "string list" where
  "GLOBAL_COLLECTORS = [''cost_growth_anomaly'']"

definition scope_region :: "string option \<Rightarrow> string" where
  "scope_region v = or_text v ''global''"

text \<open>The regions of a run's scope; the writers of a scope store texts only.\<close>

fun region_texts :: "json list \<Rightarrow> string list" where
  "region_texts [] = []"
| "region_texts (JStr r # rs) = (if r = [] then region_texts rs else r # region_texts rs)"
| "region_texts (_ # rs) = region_texts rs"

fun run_region_values :: "json \<Rightarrow> string list" where
  "run_region_values (JObj fs) =
     (case map_of fs ''regions'' of Some (JList rs) \<Rightarrow> region_texts rs | _ \<Rightarrow> [])"
| "run_region_values _ = []"

definition run_regions :: "collection_run \<Rightarrow> string list" where
  "run_regions run =
     (let rendered = sort (remdups (run_region_values (cr_scope run)))
      in if rendered = [] then [''global''] else rendered)"

definition observed_service :: "collection_result \<Rightarrow> scope_key \<Rightarrow> string option" where
  "observed_service res key =
     (case remdups (map ci_service (filter (\<lambda>x. (ci_rule_key x, scope_region (ci_region x)) = key)
             (cx_findings res))) of
        [v] \<Rightarrow> Some v
      | _ \<Rightarrow> None)"

text \<open>
  A structured collector error reads \<open>rule_key@region: message\<close>; other errors name no scope.
  Of two errors for one scope the later one gives the detail.
\<close>

definition error_scope :: "reported \<Rightarrow> (scope_key \<times> string) option" where
  "error_scope raw =
     (case partition_at (CHR '':'') (str_value raw) of
        None \<Rightarrow> None
      | Some (prefix, _) \<Rightarrow>
          (case rpartition_at (CHR ''@'') prefix of
             None \<Rightarrow> None
           | Some (rule_key, region) \<Rightarrow>
               if rule_key = [] \<or> region = [] then None
               else Some ((rule_key, scope_region (Some region)),
                      take 4000 (or_text (sanitize_collection_error (Some raw))
                                   ''Collector scope failed''))))"

definition aws_error_scopes :: "reported list \<Rightarrow> (scope_key \<times> string) list" where
  "aws_error_scopes errors = rev (List.map_filter error_scope errors)"

section \<open>Coverage rows\<close>

text \<open>A coverage row before it is stored: its identifier is assigned when it is inserted.\<close>

definition new_scope_row :: "collection_run \<Rightarrow> datetime \<Rightarrow> scope_key \<Rightarrow> string option \<Rightarrow>
    scope_status \<Rightarrow> int option \<Rightarrow> string option \<Rightarrow> scope_execution" where
  "new_scope_row run finished_at key service st examined detail =
     \<lparr>sx_id = [], sx_collection_run_id = cr_id run, sx_provider = cr_provider run,
      sx_account_id = cr_account_id run, sx_region = snd key, sx_service = service,
      sx_rule_key = fst key, sx_status = st, sx_started_at = cr_started_at run,
      sx_finished_at = finished_at, sx_resources_examined = examined,
      sx_error_detail = detail\<rparr>"

definition aws_scope_status :: "scope_key list \<Rightarrow> string list \<Rightarrow> scope_key \<Rightarrow> scope_status" where
  "aws_scope_status failed successful collector_key =
     (if collector_key \<in> set failed then ScopeFailed
      else if fst collector_key \<in> set successful \<or> fst collector_key \<in> fst ` set failed
        then ScopeSuccess
      else ScopeSkipped)"

definition aws_rule_rows :: "collection_run \<Rightarrow> collection_result \<Rightarrow> datetime \<Rightarrow> string \<Rightarrow>
    scope_execution list" where
  "aws_rule_rows run res finished_at rule_key =
     (let details = aws_error_scopes (cx_collector_errors res);
          is_global = rule_key \<in> set GLOBAL_COLLECTORS
      in map (\<lambda>region.
           let collector_key = (rule_key, if is_global then ''global'' else region)
           in new_scope_row run finished_at (rule_key, region)
                (observed_service res (rule_key, region))
                (aws_scope_status (map fst details) (cx_active_rule_keys res) collector_key)
                None (map_of details collector_key))
         (if is_global then [ALL_REGIONS_SCOPE] else run_regions run))"

definition aws_scope_rows :: "effective_policy list \<Rightarrow> cloud_account \<Rightarrow> collection_run \<Rightarrow>
    collection_result \<Rightarrow> datetime \<Rightarrow> scope_execution list" where
  "aws_scope_rows policies acc run res finished_at =
     (case ca_aws_configuration acc of
        None \<Rightarrow> []
      | Some _ \<Rightarrow> concat (map (aws_rule_rows run res finished_at)
          (sort (remdups (map ep_rule_key
             (filter (\<lambda>p. ep_enabled p \<and> ep_implemented p) policies))))))"

definition oci_scope_rows :: "collection_run \<Rightarrow> collection_result \<Rightarrow> datetime \<Rightarrow>
    scope_execution list" where
  "oci_scope_rows run res finished_at =
     (let clean = (cx_collector_errors res = [])
      in concat (map (\<lambda>rule_key. map (\<lambda>region.
           new_scope_row run finished_at (rule_key, region)
             (observed_service res (rule_key, region))
             (if clean then ScopeSuccess else ScopeSkipped)
             (if clean then Some (cx_resources_analyzed res) else None)
             (if clean then None
              else Some ''OCI partial coverage; absence reconciliation skipped''))
           (run_regions run))
         (sort (remdups (cx_active_rule_keys res)))))"

definition build_collection_scope_executions :: "effective_policy list \<Rightarrow> cloud_account \<Rightarrow>
    collection_run \<Rightarrow> collection_result \<Rightarrow> datetime \<Rightarrow> scope_execution list" where
  "build_collection_scope_executions policies acc run res finished_at =
     (if cr_provider run = ''aws'' then aws_scope_rows policies acc run res finished_at
      else if cr_provider run = ''oci'' then oci_scope_rows run res finished_at
      else [])"

text \<open>
  Storing the rows: one row per run, region and rule, updated when it exists.  The loop keeps
  the identifiers; the reply is the stored rows, read at the end because the code returns
  references to them.
\<close>

definition run_scope_row :: "string \<Rightarrow> scope_execution \<Rightarrow> db \<Rightarrow> scope_execution option" where
  "run_scope_row run_id c s =
     find (\<lambda>x. sx_collection_run_id x = run_id \<and> sx_region x = sx_region c \<and>
                sx_rule_key x = sx_rule_key c) (scope_executions s)"

definition persist_scope_row :: "string \<Rightarrow> scope_execution \<Rightarrow> string list \<times> db \<Rightarrow>
    string list \<times> db" where
  "persist_scope_row run_id c st = (case st of (ids, s) \<Rightarrow>
     (case run_scope_row run_id c s of
        None \<Rightarrow>
          let (i, s1) = new_uuid s
          in (ids @ [i], s1\<lparr>scope_executions := scope_executions s1 @ [c\<lparr>sx_id := i\<rparr>]\<rparr>)
      | Some row \<Rightarrow>
          (ids @ [sx_id row],
           put_scope_execution (row\<lparr>sx_provider := sx_provider c,
             sx_account_id := sx_account_id c, sx_service := sx_service c,
             sx_status := sx_status c, sx_started_at := sx_started_at c,
             sx_finished_at := sx_finished_at c,
             sx_resources_examined := sx_resources_examined c,
             sx_error_detail := sx_error_detail c\<rparr>) s)))"

definition persist_collection_scope_executions :: "collection_run \<Rightarrow> scope_execution list \<Rightarrow>
    db \<Rightarrow> scope_execution list \<times> db" where
  "persist_collection_scope_executions run rows s =
     (let (ids, t) = fold (persist_scope_row (cr_id run)) rows ([], s)
      in (List.map_filter (\<lambda>i. find_row sx_id i (scope_executions t)) ids, t))"

section \<open>Presence transitions\<close>

definition scope_context :: "scope_execution \<Rightarrow> (string \<times> json) list" where
  "scope_context x = [(''scope_region'', JStr (sx_region x)),
     (''scope_rule_key'', JStr (sx_rule_key x)),
     (''scope_status'', JStr (scope_status_text (sx_status x))),
     (''resources_examined'', case sx_resources_examined x of None \<Rightarrow> JNull | Some n \<Rightarrow> JInt n)]"

text \<open>
  \<open>_record_presence_history\<close>; the table allows one event per finding, run and reason.
\<close>

definition record_presence :: "finding \<Rightarrow> collection_run \<Rightarrow> presence \<Rightarrow> presence \<Rightarrow>
    presence_reason \<Rightarrow> int \<Rightarrow> int option \<Rightarrow> scope_execution option \<Rightarrow> int \<Rightarrow> db \<Rightarrow> db result" where
  "record_presence f run from_status to_status reason count threshold scope previous_count s =
     (let (i, s1) = new_uuid s
      in andThen (guard (\<forall>e \<in> set (presence_history s).
           \<not> (pe_opportunity_id e = f_id f \<and> pe_collection_run_id e = Some (cr_id run) \<and>
              pe_reason e = reason)) IntegrityError) (\<lambda>_.
         Inr (s1\<lparr>presence_history := presence_history s1 @
           [\<lparr>pe_id = i, pe_opportunity_id = f_id f, pe_collection_run_id = Some (cr_id run),
             pe_collection_scope_execution_id = map_option sx_id scope,
             pe_from_status = from_status, pe_to_status = to_status, pe_reason = reason,
             pe_missing_count = count, pe_missing_threshold = threshold,
             pe_occurred_at = cr_started_at run,
             pe_context = JObj ([(''provider'', JStr (f_provider f)),
               (''account_id'', JStr (f_account_id f)), (''rule_key'', JStr (f_rule_key f)),
               (''region'', jopt (f_region f))]
               @ (case scope of None \<Rightarrow> [] | Some x \<Rightarrow> scope_context x)
               @ [(''previous_missing_count'', JInt previous_count)])\<rparr>]\<rparr>)))"

text \<open>The row of a finding that was observed in a run.\<close>

definition reactivated :: "finding \<Rightarrow> collection_run \<Rightarrow> finding" where
  "reactivated f run = f\<lparr>f_presence_status := Active, f_missing_count := 0,
     f_missing_since_at := None, f_resolved_externally_at := None,
     f_presence_reconciled_run_id := Some (cr_id run),
     f_presence_reconciled_at := Some (cr_started_at run),
     f_needs_review := (f_needs_review f \<and> f_status f \<noteq> Rejected)\<rparr>"

definition out_of_date :: "finding \<Rightarrow> collection_run \<Rightarrow> bool" where
  "out_of_date f run =
     (case f_presence_reconciled_at f of None \<Rightarrow> False
      | Some t \<Rightarrow> earlier (utc (cr_started_at run)) (utc t))"

definition reactivate_presence_from_observation ::
  "finding \<Rightarrow> collection_run \<Rightarrow> db \<Rightarrow> (finding \<times> bool \<times> db) result" where
  "reactivate_presence_from_observation f run s =
     (if out_of_date f run then Inr (f, False, s)
      else
        andThen (if f_presence_status f \<noteq> Active
                 then record_presence f run (f_presence_status f) Active OBSERVED_AGAIN 0 None
                        None (f_missing_count f) s
                 else Inr s) (\<lambda>s1.
        let f' = reactivated f run;
            s2 = put_finding f' s1
        in if f_status f = Rejected then Inr (f', True, s2)
           else andThen (unarchive_reappeared f' run s2) (\<lambda>(f'', _, s3).
                Inr (f'', True, s3))))"

record reconciliation_stats =
  opportunities_reconciled :: nat
  marked_missing :: nat
  resolved_externally :: nat
  skipped_out_of_order :: nat

definition no_stats :: reconciliation_stats where
  "no_stats = \<lparr>opportunities_reconciled = 0, marked_missing = 0, resolved_externally = 0,
     skipped_out_of_order = 0\<rparr>"

definition successful_scope :: "scope_execution list \<Rightarrow> scope_key \<Rightarrow> scope_execution option" where
  "successful_scope rows key =
     find (\<lambda>x. sx_status x = ScopeSuccess \<and>
                (sx_rule_key x, scope_region (Some (sx_region x))) = key) (rev rows)"

text \<open>The scope that covers a finding: its own region, or all regions of its rule.\<close>

definition covering_scope :: "scope_execution list \<Rightarrow> finding \<Rightarrow> scope_execution option" where
  "covering_scope rows f =
     (case successful_scope rows (f_rule_key f, scope_region (f_region f)) of
        Some x \<Rightarrow> Some x
      | None \<Rightarrow> successful_scope rows (f_rule_key f, ALL_REGIONS_SCOPE))"

definition run_not_newer :: "finding \<Rightarrow> collection_run \<Rightarrow> bool" where
  "run_not_newer f run \<longleftrightarrow>
     (case f_presence_reconciled_at f of None \<Rightarrow> False
      | Some t \<Rightarrow> no_later (utc (cr_started_at run)) (utc t)) \<or>
     earlier (utc (cr_started_at run)) (utc (f_last_seen_at f))"

definition gone_missing :: "finding \<Rightarrow> collection_run \<Rightarrow> int \<Rightarrow> finding" where
  "gone_missing f run threshold =
     (let n = f_missing_count f + 1;
          f' = f\<lparr>f_missing_count := n,
            f_missing_since_at := (case f_missing_since_at f of
              None \<Rightarrow> Some (cr_started_at run) | Some t \<Rightarrow> Some t),
            f_presence_reconciled_run_id := Some (cr_id run),
            f_presence_reconciled_at := Some (cr_started_at run)\<rparr>
      in if threshold \<le> n
         then f'\<lparr>f_presence_status := ResolvedExternally,
                 f_resolved_externally_at := Some (cr_started_at run)\<rparr>
         else f'\<lparr>f_presence_status := Missing\<rparr>)"

definition missing_reason :: "finding \<Rightarrow> presence_reason" where
  "missing_reason f' = (if f_presence_status f' = ResolvedExternally
     then MISSING_THRESHOLD_REACHED else NOT_OBSERVED_IN_SUCCESSFUL_SCOPE)"

definition count_missing :: "finding \<Rightarrow> finding \<Rightarrow> reconciliation_stats \<Rightarrow> reconciliation_stats" where
  "count_missing f f' st =
     (let st' = st\<lparr>opportunities_reconciled := opportunities_reconciled st + 1\<rparr>
      in if f_presence_status f' = ResolvedExternally
         then st'\<lparr>resolved_externally := resolved_externally st + 1\<rparr>
         else if f_presence_status f = Active
         then st'\<lparr>marked_missing := marked_missing st + 1\<rparr>
         else st')"

definition reconcile_one :: "collection_run \<Rightarrow> scope_execution list \<Rightarrow> string list \<Rightarrow> int \<Rightarrow>
    finding \<Rightarrow> reconciliation_stats \<times> db \<Rightarrow> (reconciliation_stats \<times> db) result" where
  "reconcile_one run rows observed threshold f acc = (case acc of (st, s) \<Rightarrow>
     (case covering_scope rows f of
        None \<Rightarrow> Inr (st, s)
      | Some x \<Rightarrow>
          if f_id f \<in> set observed then Inr (st, s)
          else if f_presence_reconciled_run_id f = Some (cr_id run) then Inr (st, s)
          else if run_not_newer f run
            then Inr (st\<lparr>skipped_out_of_order := skipped_out_of_order st + 1\<rparr>, s)
          else
            let f' = gone_missing f run threshold
            in andThen (record_presence f run (f_presence_status f) (f_presence_status f')
                 (missing_reason f') (f_missing_count f') (Some threshold) (Some x)
                 (f_missing_count f) (put_finding f' s)) (\<lambda>s'.
               Inr (count_missing f f' st, s'))))"

text \<open>The rows the loop visits: the findings of the run's account under a covered rule.\<close>

definition reconcilable :: "collection_run \<Rightarrow> scope_execution list \<Rightarrow> finding \<Rightarrow> bool" where
  "reconcilable run rows f \<longleftrightarrow>
     f_provider f = cr_provider run \<and> f_account_id f = cr_account_id run \<and>
     f_rule_key f \<in> sx_rule_key ` set (filter (\<lambda>x. sx_status x = ScopeSuccess) rows) \<and>
     f_presence_status f \<in> {Active, Missing}"

definition observed_ids :: "collection_run \<Rightarrow> db \<Rightarrow> string list" where
  "observed_ids run s =
     map o_opportunity_id (filter (\<lambda>ob. o_collection_run_id ob = cr_id run) (observations s))"

definition reconcile_opportunity_presence :: "collection_run \<Rightarrow> scope_execution list \<Rightarrow> int \<Rightarrow>
    db \<Rightarrow> (reconciliation_stats \<times> db) result" where
  "reconcile_opportunity_presence run rows missing_threshold s =
     andThen (guard (1 \<le> missing_threshold)
       (ValueError ''missing_threshold must be greater than or equal to 1'')) (\<lambda>_.
     if cr_status run = FAILED then Inr (no_stats, s)
     else if \<not> list_ex (\<lambda>x. sx_status x = ScopeSuccess) rows then Inr (no_stats, s)
     else fold_result (reconcile_one run rows (observed_ids run s) missing_threshold)
            (filter (reconcilable run rows) (findings s)) (no_stats, s))"

section \<open>The history of a finding\<close>

record presence_item =
  pi_event :: presence_event
  pi_collection_provider :: "string option"
  pi_collection_account_id :: "string option"
  pi_collection_started_at :: "datetime option"
  pi_scope_region :: "string option"
  pi_scope_rule_key :: "string option"

record presence_page =
  pp_items :: "presence_item list"
  pp_page :: nat
  pp_page_size :: nat
  pp_total :: nat
  pp_total_pages :: nat

definition presence_item_of :: "db \<Rightarrow> presence_event \<Rightarrow> presence_item" where
  "presence_item_of s e =
     (let run = Option.bind (pe_collection_run_id e) (\<lambda>i. find_row cr_id i (collection_runs s));
          scope = Option.bind (pe_collection_scope_execution_id e)
                    (\<lambda>i. find_row sx_id i (scope_executions s))
      in \<lparr>pi_event = e, pi_collection_provider = map_option cr_provider run,
          pi_collection_account_id = map_option cr_account_id run,
          pi_collection_started_at = map_option cr_started_at run,
          pi_scope_region = map_option sx_region scope,
          pi_scope_rule_key = map_option sx_rule_key scope\<rparr>)"

definition presence_history_page :: "string \<Rightarrow> nat \<Rightarrow> nat \<Rightarrow> db \<Rightarrow> presence_page option" where
  "presence_history_page i page page_size s =
     (case get_finding i s of
        None \<Rightarrow> None
      | Some _ \<Rightarrow>
          let rows = filter (\<lambda>e. pe_opportunity_id e = i) (presence_history s);
              ordered = rev (sort_key (\<lambda>e. (instant (pe_occurred_at e), pe_id e)) rows)
          in Some \<lparr>pp_items = map (presence_item_of s)
                     (take page_size (drop ((page - 1) * page_size) ordered)),
                   pp_page = page, pp_page_size = page_size, pp_total = length rows,
                   pp_total_pages = total_pages (length rows) page_size\<rparr>)"

section \<open>Correctness\<close>

lemma record_presence_Inr:
  "record_presence f run a b reason n threshold scope prev s = Inr t \<longleftrightarrow>
   (\<forall>e \<in> set (presence_history s). \<not> (pe_opportunity_id e = f_id f \<and>
      pe_collection_run_id e = Some (cr_id run) \<and> pe_reason e = reason)) \<and>
   (\<exists>e. t = s\<lparr>presence_history := presence_history s @ [e], uuids := Suc (uuids s)\<rparr> \<and>
      e = \<lparr>pe_id = uuid4 s (uuids s), pe_opportunity_id = f_id f,
        pe_collection_run_id = Some (cr_id run),
        pe_collection_scope_execution_id = map_option sx_id scope,
        pe_from_status = a, pe_to_status = b, pe_reason = reason, pe_missing_count = n,
        pe_missing_threshold = threshold, pe_occurred_at = cr_started_at run,
        pe_context = JObj ([(''provider'', JStr (f_provider f)),
          (''account_id'', JStr (f_account_id f)), (''rule_key'', JStr (f_rule_key f)),
          (''region'', jopt (f_region f))]
          @ (case scope of None \<Rightarrow> [] | Some x \<Rightarrow> scope_context x)
          @ [(''previous_missing_count'', JInt prev)])\<rparr>)"
  unfolding record_presence_def new_uuid_def Let_def prod.case andThen_eq_Inr guard_eq_Inr
    sum.inject by auto

lemma record_presence_effect:
  assumes "record_presence f run a b reason n threshold scope prev s = Inr t"
  shows "\<exists>e. t = s\<lparr>presence_history := presence_history s @ [e], uuids := Suc (uuids s)\<rparr> \<and>
    pe_opportunity_id e = f_id f \<and> pe_collection_run_id e = Some (cr_id run) \<and>
    pe_from_status e = a \<and> pe_to_status e = b \<and> pe_reason e = reason \<and>
    pe_missing_count e = n \<and> pe_occurred_at e = cr_started_at run"
  using assms unfolding record_presence_Inr by auto

lemma record_presence_total:
  assumes "\<forall>e \<in> set (presence_history s). \<not> (pe_opportunity_id e = f_id f \<and>
      pe_collection_run_id e = Some (cr_id run) \<and> pe_reason e = reason)"
  shows "\<exists>t. record_presence f run a b reason n threshold scope prev s = Inr t"
  using assms unfolding record_presence_Inr by blast

lemma gone_missing_fields [simp]:
  "f_id (gone_missing f run th) = f_id f"
  "f_status (gone_missing f run th) = f_status f"
  "f_archived_at (gone_missing f run th) = f_archived_at f"
  "f_presence_reconciled_run_id (gone_missing f run th) = Some (cr_id run)"
  "f_missing_count (gone_missing f run th) = f_missing_count f + 1"
  by (simp_all add: gone_missing_def Let_def)

lemma gone_missing_status:
  "f_presence_status (gone_missing f run th) =
     (if th \<le> f_missing_count f + 1 then ResolvedExternally else Missing)"
  by (simp add: gone_missing_def Let_def)

lemma gone_missing_resolved: "f_presence_status (gone_missing f run th) = ResolvedExternally
    \<longleftrightarrow> th \<le> f_missing_count f + 1"
  by (simp add: gone_missing_status)

lemma gone_missing_coherent:
  "f_presence_status f \<in> {Active, Missing} \<Longrightarrow> coherent f \<Longrightarrow> coherent (gone_missing f run th)"
  by (auto simp: coherent_def presence_coherent_def archive_coherent_def decision_coherent_def
      gone_missing_def Let_def split: option.split)

lemma gone_missing_identity: "same_identity f (gone_missing f run th)"
  by (simp add: same_identity_def gone_missing_def Let_def)

text \<open>The findings a run makes missing.\<close>

definition lost :: "collection_run \<Rightarrow> scope_execution list \<Rightarrow> string list \<Rightarrow> finding \<Rightarrow> bool" where
  "lost run rows observed f \<longleftrightarrow> covering_scope rows f \<noteq> None \<and> f_id f \<notin> set observed \<and>
     f_presence_reconciled_run_id f \<noteq> Some (cr_id run) \<and> \<not> run_not_newer f run"

definition reconciled_by :: "collection_run \<Rightarrow> scope_execution list \<Rightarrow> db \<Rightarrow> finding \<Rightarrow> bool" where
  "reconciled_by run rows s f \<longleftrightarrow> cr_status run \<noteq> FAILED \<and> reconcilable run rows f \<and>
     lost run rows (observed_ids run s) f"

lemma reconcile_one_lost:
  assumes "lost run rows obs f"
    and "\<forall>e \<in> set (presence_history s). \<not> (pe_opportunity_id e = f_id f \<and>
      pe_collection_run_id e = Some (cr_id run))"
  shows "\<exists>e. reconcile_one run rows obs th f (st, s) =
      Inr (count_missing f (gone_missing f run th) st,
        s\<lparr>findings := put_row f_id (gone_missing f run th) (findings s),
          presence_history := presence_history s @ [e], uuids := Suc (uuids s)\<rparr>) \<and>
    pe_opportunity_id e = f_id f \<and> pe_collection_run_id e = Some (cr_id run) \<and>
    pe_from_status e = f_presence_status f \<and>
    pe_to_status e = f_presence_status (gone_missing f run th)"
proof -
  let ?g = "gone_missing f run th"
  from assms(1) obtain x where x: "covering_scope rows f = Some x" "f_id f \<notin> set obs"
    "f_presence_reconciled_run_id f \<noteq> Some (cr_id run)" "\<not> run_not_newer f run"
    by (auto simp: lost_def)
  have fresh: "\<forall>e \<in> set (presence_history (put_finding ?g s)). \<not> (pe_opportunity_id e = f_id f \<and>
      pe_collection_run_id e = Some (cr_id run) \<and> pe_reason e = missing_reason ?g)"
    using assms(2) by (auto simp: put_finding_def)
  obtain t where t: "record_presence f run (f_presence_status f) (f_presence_status ?g)
      (missing_reason ?g) (f_missing_count ?g) (Some th) (Some x) (f_missing_count f)
      (put_finding ?g s) = Inr t"
    using record_presence_total [OF fresh] by blast
  from record_presence_effect [OF t] x t show ?thesis
    unfolding reconcile_one_def prod.case x(1) option.case if_not_P [OF x(2)] if_not_P [OF x(3)]
      if_not_P [OF x(4)] Let_def t andThen_Inr
    by (auto simp: put_finding_def)
qed

lemma reconcile_one_kept:
  "\<not> lost run rows obs f \<Longrightarrow> \<exists>st'. reconcile_one run rows obs th f (st, s) = Inr (st', s) \<and>
     opportunities_reconciled st' = opportunities_reconciled st \<and>
     marked_missing st' = marked_missing st \<and> resolved_externally st' = resolved_externally st"
  by (auto simp: reconcile_one_def lost_def split: option.split)

text \<open>The loop, over any of the stored rows.\<close>

definition no_event_of :: "collection_run \<Rightarrow> finding list \<Rightarrow> db \<Rightarrow> bool" where
  "no_event_of run fs s \<longleftrightarrow> (\<forall>e \<in> set (presence_history s).
     pe_collection_run_id e = Some (cr_id run) \<longrightarrow> pe_opportunity_id e \<notin> f_id ` set fs)"

definition presence_only :: "db \<Rightarrow> db \<Rightarrow> bool" where
  "presence_only s t \<longleftrightarrow> t\<lparr>findings := findings s, presence_history := presence_history s,
     uuids := uuids s\<rparr> = s"

lemma presence_only_trans:
  assumes "presence_only s t" "presence_only t u"
  shows "presence_only s u"
proof -
  have "u\<lparr>findings := findings s, presence_history := presence_history s, uuids := uuids s\<rparr> =
      (u\<lparr>findings := findings t, presence_history := presence_history t, uuids := uuids t\<rparr>)
        \<lparr>findings := findings s, presence_history := presence_history s, uuids := uuids s\<rparr>"
    by simp
  with assms show ?thesis unfolding presence_only_def by metis
qed

lemma lost_row_logged:
  assumes "f \<in> set (findings s)" "f_presence_status f \<in> {Active, Missing}"
    and "t = s\<lparr>findings := put_row f_id (gone_missing f run th) (findings s),
          presence_history := presence_history s @ [e], uuids := Suc (uuids s)\<rparr>"
    and "pe_opportunity_id e = f_id f" "pe_from_status e = f_presence_status f"
      "pe_to_status e = f_presence_status (gone_missing f run th)"
  shows "logged_change f (gone_missing f run th) s t"
proof -
  let ?g = "gone_missing f run th"
  have "row_replaced f ?g s t" using assms(1,3) by (simp add: row_replaced_def)
  moreover have "log_grows presence_history pe_opportunity_id pe_from_status pe_to_status
      f_presence_status f ?g s t"
    by (rule log_grows_one [of _ _ _ e]) (simp_all add: assms(3-))
  moreover have "log_grows status_history se_opportunity_id se_from_status se_to_status
      f_status f ?g s t"
    by (rule log_grows_same) (simp_all add: assms(3))
  moreover have "log_grows archive_history ae_opportunity_id archived_before archived_after
      is_archived f ?g s t"
    by (rule log_grows_same) (simp_all add: assms(3) is_archived_def)
  moreover have "rejection_respected f ?g" by (simp add: rejection_respected_def is_archived_def)
  ultimately show ?thesis
    using gone_missing_coherent [OF assms(2)] gone_missing_identity
    by (simp add: logged_change_def)
qed

lemma lost_row_step:
  assumes "f \<in> set (findings s)" "f_presence_status f \<in> {Active, Missing}"
    and "t = s\<lparr>findings := put_row f_id (gone_missing f run th) (findings s),
          presence_history := presence_history s @ [e], uuids := Suc (uuids s)\<rparr>"
    and "pe_opportunity_id e = f_id f" "pe_from_status e = f_presence_status f"
      "pe_to_status e = f_presence_status (gone_missing f run th)"
  shows "audited_step s t" "presence_only s t"
  using changed [OF lost_row_logged [OF assms]] by (simp_all add: assms(3) presence_only_def)

lemma reconcile_fold:
  assumes "distinct (map f_id (findings s))" "distinct (map f_id fs)" "set fs \<subseteq> set (findings s)"
    and "no_event_of run (filter (lost run rows obs) fs) s"
    and "\<forall>f \<in> set fs. f_presence_status f \<in> {Active, Missing}"
  shows "\<exists>st' t. fold_result (reconcile_one run rows obs th) fs (st, s) = Inr (st', t) \<and>
    findings t = map (\<lambda>f. if f \<in> set fs \<and> lost run rows obs f then gone_missing f run th else f)
      (findings s) \<and>
    audited_step\<^sup>*\<^sup>* s t \<and> presence_only s t \<and>
    (\<exists>es. presence_history t = presence_history s @ es \<and>
       map pe_opportunity_id es = map f_id (filter (lost run rows obs) fs)) \<and>
    opportunities_reconciled st' =
      opportunities_reconciled st + count_where (lost run rows obs) fs \<and>
    resolved_externally st' = resolved_externally st + count_where (\<lambda>f. lost run rows obs f \<and>
      f_presence_status (gone_missing f run th) = ResolvedExternally) fs"
  using assms
proof (induction fs arbitrary: st s)
  case Nil
  then show ?case by (simp add: presence_only_def count_where_def)
next
  case (Cons f fs)
  let ?act = "lost run rows obs"
  from Cons.prems have f: "f \<in> set (findings s)" and fresh_id: "f_id f \<notin> f_id ` set fs"
    and st_f: "f_presence_status f \<in> {Active, Missing}" by auto
  show ?case
  proof (cases "?act f")
    case False
    from reconcile_one_kept [OF this] obtain st1 where
      one: "reconcile_one run rows obs th f (st, s) = Inr (st1, s)"
      and eqs: "opportunities_reconciled st1 = opportunities_reconciled st"
        "resolved_externally st1 = resolved_externally st" by blast
    have rest: "no_event_of run (filter ?act fs) s" using Cons.prems(4) False by simp
    have "(if x \<in> set (f # fs) \<and> ?act x then gone_missing x run th else x) =
        (if x \<in> set fs \<and> ?act x then gone_missing x run th else x)" for x
      using False by auto
    with Cons.IH [of s st1] Cons.prems rest one eqs False show ?thesis
      by (simp add: count_where_def)
  next
    case True
    have "\<forall>e \<in> set (presence_history s). \<not> (pe_opportunity_id e = f_id f \<and>
        pe_collection_run_id e = Some (cr_id run))"
      using Cons.prems(4) True by (auto simp: no_event_of_def)
    from reconcile_one_lost [OF True this, of th st] obtain e s1 where
      one: "reconcile_one run rows obs th f (st, s) =
        Inr (count_missing f (gone_missing f run th) st, s1)"
      and s1: "s1 = s\<lparr>findings := put_row f_id (gone_missing f run th) (findings s),
          presence_history := presence_history s @ [e], uuids := Suc (uuids s)\<rparr>"
      and e: "pe_opportunity_id e = f_id f" "pe_from_status e = f_presence_status f"
        "pe_to_status e = f_presence_status (gone_missing f run th)" by blast
    note step = lost_row_step [OF f st_f s1 e]
    have rows1: "findings s1 = map (\<lambda>x. if x = f then gone_missing f run th else x) (findings s)"
      unfolding s1 put_row_def using Cons.prems(1) f
      by (auto simp: distinct_map dest: inj_onD)
    have "distinct (map f_id (findings s1))" using Cons.prems(1) by (simp add: s1 put_row_keys)
    moreover have "set fs \<subseteq> set (findings s1)"
      using Cons.prems(3) fresh_id by (auto simp: rows1)
    moreover have "no_event_of run (filter ?act fs) s1"
      using Cons.prems(4) fresh_id e(1) True by (auto simp: no_event_of_def s1)
    ultimately obtain st' t where
      rest: "fold_result (reconcile_one run rows obs th) fs
          (count_missing f (gone_missing f run th) st, s1) = Inr (st', t)"
      and rows: "findings t = map (\<lambda>x. if x \<in> set fs \<and> ?act x then gone_missing x run th else x)
          (findings s1)"
      and steps: "audited_step\<^sup>*\<^sup>* s1 t" "presence_only s1 t"
      and events: "\<exists>es. presence_history t = presence_history s1 @ es \<and>
        map pe_opportunity_id es = map f_id (filter ?act fs)"
      and counts: "opportunities_reconciled st' = opportunities_reconciled
            (count_missing f (gone_missing f run th) st) + count_where ?act fs"
        "resolved_externally st' = resolved_externally
            (count_missing f (gone_missing f run th) st) + count_where (\<lambda>x. ?act x \<and>
              f_presence_status (gone_missing x run th) = ResolvedExternally) fs"
      using Cons.IH [of s1 "count_missing f (gone_missing f run th) st"] Cons.prems(2,5) by auto
    have "gone_missing f run th \<notin> set fs" using fresh_id by (metis gone_missing_fields(1) imageI)
    moreover have "f \<notin> set fs" using fresh_id by auto
    ultimately have "findings t = map (\<lambda>x. if x \<in> set (f # fs) \<and> ?act x
        then gone_missing x run th else x) (findings s)"
      unfolding rows rows1 using True by auto
    moreover have "audited_step\<^sup>*\<^sup>* s t" using step(1) steps(1) by (rule converse_rtranclp_into_rtranclp)
    moreover have "presence_only s t" using step(2) steps(2) by (rule presence_only_trans)
    moreover have "\<exists>es. presence_history t = presence_history s @ es \<and>
        map pe_opportunity_id es = map f_id (filter ?act (f # fs))"
    proof -
      from events obtain es where "presence_history t = presence_history s1 @ es"
        "map pe_opportunity_id es = map f_id (filter ?act fs)" by blast
      with True e(1) show ?thesis by (intro exI [of _ "e # es"]) (simp add: s1)
    qed
    ultimately show ?thesis
      using one rest counts True
      by (simp add: count_where_def count_missing_def Let_def)
  qed
qed

lemma reconcile_fold_kept:
  "\<forall>f \<in> set fs. \<not> lost run rows obs f \<Longrightarrow>
   \<exists>st'. fold_result (reconcile_one run rows obs th) fs (st, s) = Inr (st', s) \<and>
     opportunities_reconciled st' = opportunities_reconciled st"
proof (induction fs arbitrary: st)
  case (Cons f fs)
  from reconcile_one_kept [of run rows obs f th st s] Cons.prems obtain st1 where
    "reconcile_one run rows obs th f (st, s) = Inr (st1, s)"
    "opportunities_reconciled st1 = opportunities_reconciled st" by auto
  with Cons.IH [of st1] Cons.prems show ?case by auto
qed simp

lemma reconcile_unfold:
  assumes "1 \<le> th" "cr_status run \<noteq> FAILED"
  shows "reconcile_opportunity_presence run rows th s =
    fold_result (reconcile_one run rows (observed_ids run s) th)
      (filter (reconcilable run rows) (findings s)) (no_stats, s)"
proof (cases "list_ex (\<lambda>x. sx_status x = ScopeSuccess) rows")
  case False
  then have "filter (\<lambda>x. sx_status x = ScopeSuccess) rows = []"
    by (auto simp: list_ex_iff filter_empty_conv)
  then have "filter (reconcilable run rows) (findings s) = []"
    by (simp add: reconcilable_def)
  with assms False show ?thesis by (simp add: reconcile_opportunity_presence_def)
qed (use assms in \<open>simp add: reconcile_opportunity_presence_def\<close>)

lemma count_where_filter: "count_where P (filter Q xs) = count_where (\<lambda>x. Q x \<and> P x) xs"
  by (simp add: count_where_def conj_commute)

lemma reconciliation_total:
  assumes "1 \<le> threshold" "distinct (map f_id (findings s))"
    and "\<forall>e \<in> set (presence_history s). pe_collection_run_id e = Some (cr_id run) \<longrightarrow>
      pe_opportunity_id e \<in> set (observed_ids run s)"
  shows "\<exists>st t. reconcile_opportunity_presence run rows threshold s = Inr (st, t) \<and>
    findings t = map (\<lambda>f. if reconciled_by run rows s f then gone_missing f run threshold else f)
      (findings s) \<and>
    (\<exists>es. presence_history t = presence_history s @ es \<and>
       map pe_opportunity_id es = map f_id (filter (reconciled_by run rows s) (findings s))) \<and>
    presence_only s t \<and>
    opportunities_reconciled st = count_where (reconciled_by run rows s) (findings s) \<and>
    resolved_externally st = count_where (\<lambda>f. reconciled_by run rows s f \<and>
      threshold \<le> f_missing_count f + 1) (findings s)"
proof (cases "cr_status run = FAILED")
  case True
  then have "reconcile_opportunity_presence run rows threshold s = Inr (no_stats, s)"
    using assms(1) by (simp add: reconcile_opportunity_presence_def)
  then show ?thesis
    by (simp add: True reconciled_by_def no_stats_def count_where_def presence_only_def)
next
  case False
  let ?obs = "observed_ids run s" and ?fs = "filter (reconcilable run rows) (findings s)"
  have by_eq: "reconciled_by run rows s = (\<lambda>f. reconcilable run rows f \<and> lost run rows ?obs f)"
    using False by (simp add: reconciled_by_def fun_eq_iff)
  have "no_event_of run (filter (lost run rows ?obs) ?fs) s"
    using assms(3) by (auto simp: no_event_of_def lost_def)
  moreover have "distinct (map f_id ?fs)" using assms(2) by (rule distinct_map_filter)
  moreover have "\<forall>f \<in> set ?fs. f_presence_status f \<in> {Active, Missing}"
    by (simp add: reconcilable_def)
  ultimately obtain st t where
    r: "fold_result (reconcile_one run rows ?obs threshold) ?fs (no_stats, s) = Inr (st, t)"
    and rows: "findings t = map (\<lambda>f. if f \<in> set ?fs \<and> lost run rows ?obs f
        then gone_missing f run threshold else f) (findings s)"
    and only: "presence_only s t"
    and events: "\<exists>es. presence_history t = presence_history s @ es \<and>
      map pe_opportunity_id es = map f_id (filter (lost run rows ?obs) ?fs)"
    and counts: "opportunities_reconciled st =
        opportunities_reconciled no_stats + count_where (lost run rows ?obs) ?fs"
      "resolved_externally st = resolved_externally no_stats + count_where (\<lambda>f.
        lost run rows ?obs f \<and>
        f_presence_status (gone_missing f run threshold) = ResolvedExternally) ?fs"
    using reconcile_fold [OF assms(2), of ?fs run rows ?obs threshold no_stats] by auto
  have "findings t = map (\<lambda>f. if reconciled_by run rows s f then gone_missing f run threshold else f)
      (findings s)"
    unfolding rows by (auto simp: by_eq)
  with r only events counts show ?thesis
    unfolding reconcile_unfold [OF assms(1) False]
    by (simp add: by_eq count_where_filter no_stats_def gone_missing_resolved filter_filter
        conj_assoc)
qed

lemma presence_only_tables:
  assumes "presence_only s t"
  shows "observations t = observations s" "status_history t = status_history s"
    "archive_history t = archive_history s" "ledger t = ledger s" "summaries t = summaries s"
    "collection_runs t = collection_runs s" "audit_events t = audit_events s"
    "scope_executions t = scope_executions s" "cloud_accounts t = cloud_accounts s"
proof -
  have s: "s = t\<lparr>findings := findings s, presence_history := presence_history s, uuids := uuids s\<rparr>"
    using assms by (simp add: presence_only_def)
  show "observations t = observations s" "status_history t = status_history s"
    "archive_history t = archive_history s" "ledger t = ledger s" "summaries t = summaries s"
    "collection_runs t = collection_runs s" "audit_events t = audit_events s"
    "scope_executions t = scope_executions s" "cloud_accounts t = cloud_accounts s"
    by (subst s, simp)+
qed

lemma reconciliation_rows:
  assumes "1 \<le> threshold" "distinct (map f_id (findings s))"
    and "\<forall>e \<in> set (presence_history s). pe_collection_run_id e = Some (cr_id run) \<longrightarrow>
      pe_opportunity_id e \<in> set (observed_ids run s)"
    and "reconcile_opportunity_presence run rows threshold s = Inr (st, t)"
  shows "findings t = map (\<lambda>f. if reconciled_by run rows s f then gone_missing f run threshold
      else f) (findings s) \<and> presence_only s t"
  using reconciliation_total [OF assms(1-3), of rows] assms(4) by auto


text \<open>
  Reconciling the same run again changes nothing.  A worker that repeats the step after it
  succeeded finds no finding to reconcile and leaves the whole state as it is.
\<close>

theorem reconciliation_idempotent:
  assumes "1 \<le> threshold" "distinct (map f_id (findings s))"
    and "\<forall>e \<in> set (presence_history s). pe_collection_run_id e = Some (cr_id run) \<longrightarrow>
      pe_opportunity_id e \<in> set (observed_ids run s)"
    and "reconcile_opportunity_presence run rows threshold s = Inr (st, t)"
  shows "\<exists>st'. reconcile_opportunity_presence run rows threshold t = Inr (st', t) \<and>
    opportunities_reconciled st' = 0"
proof (cases "cr_status run = FAILED")
  case True
  then show ?thesis
    using assms(1) by (simp add: reconcile_opportunity_presence_def no_stats_def)
next
  case False
  have "\<not> lost run rows (observed_ids run t) f" if f: "f \<in> set (findings t)" "reconcilable run rows f" for f
  proof -
    from reconciliation_rows [OF assms] obtain g where g: "g \<in> set (findings s)"
      "f = (if reconciled_by run rows s g then gone_missing g run threshold else g)"
      using f(1) by auto
    have obs: "observed_ids run t = observed_ids run s"
      using reconciliation_rows [OF assms] by (auto simp: observed_ids_def dest: presence_only_tables)
    show ?thesis
    proof (cases "reconciled_by run rows s g")
      case True
      with g(2) show ?thesis by (simp add: lost_def)
    next
      case kept: False
      with g(2) have "f = g" by simp
      with kept f(2) False show ?thesis by (simp add: obs reconciled_by_def)
    qed
  qed
  then show ?thesis
    using reconcile_fold_kept [of "filter (reconcilable run rows) (findings t)" run rows
        "observed_ids run t" threshold no_stats t]
    by (simp add: reconcile_unfold [OF assms(1) False] no_stats_def)
qed

section \<open>Observed again\<close>

lemma unarchive_reappeared_effect:
  assumes "unarchive_reappeared f run s = Inr (f1, b, t)"
  shows "(f1 = f \<and> t = s \<and> (f_status f = Rejected \<or> f_archived_at f = None)) \<or>
    (f_status f \<noteq> Rejected \<and> f_archived_at f \<noteq> None \<and> f1 = unarchived f \<and>
     findings t = put_row f_id f1 (findings s) \<and>
     (\<exists>ev. archive_history t = archive_history s @ [ev] \<and> ae_opportunity_id ev = f_id f \<and>
        ae_action ev = UNARCHIVE \<and> ae_reason ev = REAPPEARED) \<and>
     status_history t = status_history s \<and> presence_history t = presence_history s \<and>
     observations t = observations s \<and> collection_runs t = collection_runs s \<and>
     ledger t = ledger s \<and> scope_executions t = scope_executions s)"
proof (cases "f_status f = Rejected \<or> f_archived_at f = None")
  case True
  with assms show ?thesis by (auto simp: unarchive_reappeared_def split: if_splits)
next
  case False
  then have n: "f_status f \<noteq> Rejected" "\<not> f_archived_at f = None" by blast+
  let ?ctx = "archived_state f [(''provider'', JStr (f_provider f)),
    (''account_id'', JStr (f_account_id f))]"
  let ?s1 = "archive_log (unarchived f) UNARCHIVE REAPPEARED None (Some (cr_id run)) ?ctx None
    (put_finding (unarchived f) s)"
  from assms obtain c where c: "record_audit c ?s1 = Inr t" and f1: "f1 = unarchived f"
    unfolding unarchive_reappeared_def Let_def if_not_P [OF n(1)] if_not_P [OF n(2)] andThen_eq_Inr
      sum.inject prod.inject
    by blast
  have frame: "scope_executions ?s1 = scope_executions s"
    by (simp add: archive_log_def utcnow_def put_finding_def)
  obtain ev where "archive_history ?s1 = archive_history s @ [ev]" "ae_opportunity_id ev = f_id f"
    "ae_action ev = UNARCHIVE" "ae_reason ev = REAPPEARED"
    using archive_log_history [of "unarchived f" UNARCHIVE REAPPEARED None "Some (cr_id run)" ?ctx
        None "put_finding (unarchived f) s"]
    by (auto simp: unarchived_def)
  then show ?thesis using n f1 frame record_audit_frame [OF c] by auto
qed

lemma unarchive_reappeared_total: "\<exists>r. unarchive_reappeared f run s = Inr r"
proof (cases "f_status f = Rejected \<or> f_archived_at f = None")
  case True
  then show ?thesis by (auto simp: unarchive_reappeared_def)
next
  case False
  then have n: "f_status f \<noteq> Rejected" "\<not> f_archived_at f = None" by blast+
  let ?s1 = "archive_log (unarchived f) UNARCHIVE REAPPEARED None (Some (cr_id run))
    (archived_state f [(''provider'', JStr (f_provider f)), (''account_id'', JStr (f_account_id f))])
    None (put_finding (unarchived f) s)"
  obtain e where "record_audit (archive_audit ''opportunity.unarchive'' (unarchived f) None
      (archive_snapshot s f) (archive_snapshot ?s1 (unarchived f)) ''SYSTEM''
      (Some (JObj [(''collection_run_id'', JStr (cr_id run)), (''reason'', JStr ''REAPPEARED'')])))
      ?s1 = Inr (?s1\<lparr>audit_events := audit_events ?s1 @ [e]\<rparr>)"
    using archive_audit_recorded by blast
  then show ?thesis
    unfolding unarchive_reappeared_def Let_def if_not_P [OF n(1)] if_not_P [OF n(2)]
    by (simp add: ex_bool_eq)
qed

lemma reactivated_fields [simp]:
  "f_id (reactivated f run) = f_id f" "f_status (reactivated f run) = f_status f"
  "f_archived_at (reactivated f run) = f_archived_at f"
  "f_archived_by (reactivated f run) = f_archived_by f"
  "f_archive_reason (reactivated f run) = f_archive_reason f"
  "f_presence_status (reactivated f run) = Active"
  "f_missing_count (reactivated f run) = 0"
  "f_needs_review (reactivated f run) = (f_needs_review f \<and> f_status f \<noteq> Rejected)"
  by (simp_all add: reactivated_def)

lemma unarchived_fields [simp]:
  "f_id (unarchived f) = f_id f" "f_status (unarchived f) = f_status f"
  "f_archived_at (unarchived f) = None" "f_archived_by (unarchived f) = None"
  "f_archive_reason (unarchived f) = None"
  "f_presence_status (unarchived f) = f_presence_status f"
  "f_missing_count (unarchived f) = f_missing_count f"
  "f_needs_review (unarchived f) = f_needs_review f"
  by (simp_all add: unarchived_def)

lemma reactivated_coherent:
  "coherent f \<Longrightarrow> coherent (reactivated f run)"
  "coherent f \<Longrightarrow> coherent (unarchived (reactivated f run))"
  by (simp_all add: coherent_def presence_coherent_def archive_coherent_def decision_coherent_def
      reactivated_def unarchived_def)

lemma reactivated_identity:
  "same_identity f (reactivated f run)" "same_identity f (unarchived (reactivated f run))"
  by (simp_all add: same_identity_def reactivated_def unarchived_def)

text \<open>The row after an observation, and the events the observation leaves behind.\<close>

definition observed_row :: "finding \<Rightarrow> collection_run \<Rightarrow> finding" where
  "observed_row f run = (if f_status f \<noteq> Rejected \<and> is_archived f
     then unarchived (reactivated f run) else reactivated f run)"

lemma reactivation_effect:
  assumes r: "reactivate_presence_from_observation f run s = Inr (g, b, t)"
    and f: "f \<in> set (findings s)"
  shows "(\<not> b \<and> out_of_date f run \<and> g = f \<and> t = s) \<or>
    (b \<and> \<not> out_of_date f run \<and> g = observed_row f run \<and> logged_change f g s t \<and>
     observations t = observations s \<and> collection_runs t = collection_runs s \<and>
     ledger t = ledger s \<and> scope_executions t = scope_executions s \<and>
     status_history t = status_history s \<and>
     (\<exists>es. presence_history t = presence_history s @ es \<and>
        length es = (if f_presence_status f = Active then 0 else 1) \<and>
        (\<forall>e \<in> set es. pe_collection_run_id e = Some (cr_id run) \<and>
           pe_opportunity_id e = f_id f \<and> pe_reason e = OBSERVED_AGAIN)) \<and>
     (\<exists>as. archive_history t = archive_history s @ as \<and>
        length as = (if f_status f \<noteq> Rejected \<and> is_archived f then 1 else 0)))"
proof (cases "out_of_date f run")
  case True
  with r show ?thesis by (simp add: reactivate_presence_from_observation_def)
next
  case False
  let ?f = "reactivated f run"
  from r obtain s1 where
    p: "(if f_presence_status f \<noteq> Active
      then record_presence f run (f_presence_status f) Active OBSERVED_AGAIN 0 None None
        (f_missing_count f) s else Inr s) = Inr s1"
    and rest: "(if f_status f = Rejected then Inr (?f, True, put_finding ?f s1)
      else andThen (unarchive_reappeared ?f run (put_finding ?f s1)) (\<lambda>(f'', _, s3).
        Inr (f'', True, s3))) = Inr (g, b, t)"
    unfolding reactivate_presence_from_observation_def if_not_P [OF False] andThen_eq_Inr Let_def
    by blast
  obtain es where es: "presence_history s1 = presence_history s @ es"
      "length es = (if f_presence_status f = Active then 0 else 1)"
      "\<forall>e \<in> set es. pe_collection_run_id e = Some (cr_id run) \<and> pe_opportunity_id e = f_id f \<and>
         pe_reason e = OBSERVED_AGAIN"
      "chain pe_from_status pe_to_status (f_presence_status f) es Active"
    and s1: "findings s1 = findings s" "archive_history s1 = archive_history s"
      "status_history s1 = status_history s" "observations s1 = observations s"
      "collection_runs s1 = collection_runs s" "ledger s1 = ledger s"
      "scope_executions s1 = scope_executions s"
  proof (cases "f_presence_status f = Active")
    case True
    with p that [of "[]"] show ?thesis by simp
  next
    case False
    with p have "record_presence f run (f_presence_status f) Active OBSERVED_AGAIN 0 None None
        (f_missing_count f) s = Inr s1" by simp
    from record_presence_effect [OF this] obtain e where
      "s1 = s\<lparr>presence_history := presence_history s @ [e], uuids := Suc (uuids s)\<rparr>"
      "pe_opportunity_id e = f_id f" "pe_collection_run_id e = Some (cr_id run)"
      "pe_from_status e = f_presence_status f" "pe_to_status e = Active"
      "pe_reason e = OBSERVED_AGAIN" by blast
    with False that [of "[e]"] show ?thesis by simp
  qed
  have split: "b \<and> ((f_status f = Rejected \<and> g = ?f \<and> t = put_finding ?f s1) \<or>
      (f_status f \<noteq> Rejected \<and> (\<exists>u. unarchive_reappeared ?f run (put_finding ?f s1) = Inr (g, u, t))))"
    using rest by (cases "f_status f = Rejected") (auto simp: andThen_eq_Inr)
  then have cases: "(g = ?f \<and> t = put_finding ?f s1 \<and> (f_status f = Rejected \<or> \<not> is_archived f)) \<or>
    (f_status f \<noteq> Rejected \<and> is_archived f \<and> g = unarchived ?f \<and>
     findings t = put_row f_id g (findings (put_finding ?f s1)) \<and>
     (\<exists>ev. archive_history t = archive_history s @ [ev] \<and> ae_opportunity_id ev = f_id f \<and>
        ae_action ev = UNARCHIVE) \<and>
     status_history t = status_history s1 \<and> presence_history t = presence_history s1 \<and>
     observations t = observations s1 \<and> collection_runs t = collection_runs s1 \<and>
     ledger t = ledger s1 \<and> scope_executions t = scope_executions s1)"
    using unarchive_reappeared_effect [of ?f run "put_finding ?f s1" g _ t]
    by (auto simp: is_archived_def s1 put_finding_def)
  have rows: "findings t = put_row f_id g (findings s)"
    and logs: "status_history t = status_history s" "presence_history t = presence_history s @ es"
      "observations t = observations s" "collection_runs t = collection_runs s"
      "ledger t = ledger s" "scope_executions t = scope_executions s"
    using cases by (auto simp: s1 es(1) put_finding_def put_row_put_row)
  have g: "g = observed_row f run"
    using cases by (auto simp: observed_row_def)
  have fields: "f_id g = f_id f" "f_status g = f_status f" "f_presence_status g = Active"
    by (simp_all add: g observed_row_def)
  have arch: "\<exists>as. archive_history t = archive_history s @ as \<and>
      length as = (if f_status f \<noteq> Rejected \<and> is_archived f then 1 else 0) \<and>
      (\<forall>e \<in> set as. ae_opportunity_id e = f_id f) \<and>
      chain archived_before archived_after (is_archived f) as (is_archived g)"
    using cases
  proof
    assume a: "g = ?f \<and> t = put_finding ?f s1 \<and> (f_status f = Rejected \<or> \<not> is_archived f)"
    then show ?thesis by (intro exI [of _ "[]"]) (auto simp: s1 put_finding_def is_archived_def)
  next
    assume "f_status f \<noteq> Rejected \<and> is_archived f \<and> g = unarchived ?f \<and>
      findings t = put_row f_id g (findings (put_finding ?f s1)) \<and>
      (\<exists>ev. archive_history t = archive_history s @ [ev] \<and> ae_opportunity_id ev = f_id f \<and>
         ae_action ev = UNARCHIVE) \<and>
      status_history t = status_history s1 \<and> presence_history t = presence_history s1 \<and>
      observations t = observations s1 \<and> collection_runs t = collection_runs s1 \<and>
      ledger t = ledger s1 \<and> scope_executions t = scope_executions s1"
    then obtain ev where "archive_history t = archive_history s @ [ev]"
      "ae_opportunity_id ev = f_id f" "ae_action ev = UNARCHIVE"
      "f_status f \<noteq> Rejected" "is_archived f" "g = unarchived ?f" by blast
    then show ?thesis
      by (intro exI [of _ "[ev]"]) (simp add: archived_before_def archived_after_def is_archived_def)
  qed
  have "logged_change f g s t"
    unfolding logged_change_def
  proof (intro conjI)
    show "row_replaced f g s t" using f rows fields by (simp add: row_replaced_def)
    show "log_grows status_history se_opportunity_id se_from_status se_to_status f_status f g s t"
      by (rule log_grows_same) (simp_all add: logs fields)
    show "log_grows presence_history pe_opportunity_id pe_from_status pe_to_status
        f_presence_status f g s t"
      using es logs fields by (auto simp: log_grows_def)
    show "log_grows archive_history ae_opportunity_id archived_before archived_after is_archived
        f g s t"
      using arch by (auto simp: log_grows_def)
    show "same_identity f g" using reactivated_identity by (simp add: g observed_row_def)
    show "rejection_respected f g"
      by (simp add: g observed_row_def rejection_respected_def is_archived_def)
    show "coherent f \<longrightarrow> coherent g" using reactivated_coherent by (simp add: g observed_row_def)
  qed
  then show ?thesis using split False g logs es(2,3) arch by blast
qed

lemma reactivation_total:
  assumes "\<forall>e \<in> set (presence_history s). \<not> (pe_opportunity_id e = f_id f \<and>
      pe_collection_run_id e = Some (cr_id run) \<and> pe_reason e = OBSERVED_AGAIN)"
  shows "\<exists>r. reactivate_presence_from_observation f run s = Inr r"
proof (cases "out_of_date f run")
  case True
  then show ?thesis by (simp add: reactivate_presence_from_observation_def ex_bool_eq)
next
  case False
  obtain s1 where "(if f_presence_status f \<noteq> Active
      then record_presence f run (f_presence_status f) Active OBSERVED_AGAIN 0 None None
        (f_missing_count f) s else Inr s) = Inr s1"
    using record_presence_total [OF assms, of "f_presence_status f" Active 0 None None
        "f_missing_count f"] by (cases "f_presence_status f = Active") auto
  moreover obtain r where
    "unarchive_reappeared (reactivated f run) run (put_finding (reactivated f run) s1) = Inr r"
    using unarchive_reappeared_total by blast
  ultimately show ?thesis
    unfolding reactivate_presence_from_observation_def if_not_P [OF False]
    by (cases "f_status f = Rejected") (auto simp: Let_def split: prod.split)
qed

text \<open>
  C22: Seeing an opportunity again never overrides a rejection.  For a stored finding that the run
  is not behind and has not yet reactivated, the step succeeds, makes the finding active and
  clears its absence data; the human decision stays; a rejected finding keeps its archive data
  and leaves the review queue, any other is taken out of the archive; one presence event is
  written exactly if the finding was not active, one archive event exactly if it left the archive.
\<close>

theorem observation_reactivates:
  assumes "get_finding i s = Some f" "\<not> out_of_date f run"
    and "\<forall>e \<in> set (presence_history s). \<not> (pe_opportunity_id e = i \<and>
      pe_collection_run_id e = Some (cr_id run) \<and> pe_reason e = OBSERVED_AGAIN)"
  shows "\<exists>g t. reactivate_presence_from_observation f run s = Inr (g, True, t) \<and>
    get_finding i t = Some g \<and> f_presence_status g = Active \<and> f_missing_count g = 0 \<and>
    f_missing_since_at g = None \<and> f_resolved_externally_at g = None \<and>
    f_status g = f_status f \<and> status_history t = status_history s \<and> ledger t = ledger s \<and>
    (if f_status f = Rejected
     then f_archived_at g = f_archived_at f \<and> f_archived_by g = f_archived_by f \<and>
       f_archive_reason g = f_archive_reason f \<and> \<not> f_needs_review g
     else f_archived_at g = None \<and> f_needs_review g = f_needs_review f) \<and>
    length (presence_history t) =
      length (presence_history s) + (if f_presence_status f = Active then 0 else 1) \<and>
    length (archive_history t) =
      length (archive_history s) + (if f_status f \<noteq> Rejected \<and> is_archived f then 1 else 0)"
proof -
  have f: "f_id f = i" "f \<in> set (findings s)" using get_finding_Some [OF assms(1)] by simp_all
  obtain g b t where r: "reactivate_presence_from_observation f run s = Inr (g, b, t)"
    using reactivation_total [of s f run] assms(3) f(1) by (auto simp: split_paired_Ex)
  from reactivation_effect [OF r f(2)] assms(2) have e: "b" "g = observed_row f run"
    "logged_change f g s t" "ledger t = ledger s" "status_history t = status_history s"
    "length (presence_history t) =
      length (presence_history s) + (if f_presence_status f = Active then 0 else 1)"
    "length (archive_history t) =
      length (archive_history s) + (if f_status f \<noteq> Rejected \<and> is_archived f then 1 else 0)"
    by auto
  have "get_finding i t = Some g"
    using e(2,3) f assms(1)
    by (simp add: logged_change_def row_replaced_def get_finding_def find_row_put_row)
  moreover have "f_presence_status g = Active" "f_missing_count g = 0"
    "f_missing_since_at g = None" "f_resolved_externally_at g = None" "f_status g = f_status f"
    "if f_status f = Rejected
     then f_archived_at g = f_archived_at f \<and> f_archived_by g = f_archived_by f \<and>
       f_archive_reason g = f_archive_reason f \<and> \<not> f_needs_review g
     else f_archived_at g = None \<and> f_needs_review g = f_needs_review f"
    by (simp_all add: e(2) observed_row_def is_archived_def reactivated_def unarchived_def)
  moreover have "reactivate_presence_from_observation f run s = Inr (g, True, t)"
    using r e(1) by simp
  ultimately show ?thesis using e(4-7) by blast
qed

text \<open>
  C35: An OCI collection with any reported problem proves nothing absent.  Its coverage rows are
  never successful, so reconciling the run against them leaves the whole state as it is.
\<close>

theorem oci_problems_prove_nothing:
  assumes "cr_provider run = ''oci''" "cx_collector_errors res \<noteq> []" "1 \<le> threshold"
  shows "reconcile_opportunity_presence run
      (build_collection_scope_executions policies acc run res finished_at) threshold s =
    Inr (no_stats, s)"
proof -
  have "sx_status x \<noteq> ScopeSuccess"
    if "x \<in> set (build_collection_scope_executions policies acc run res finished_at)" for x
    using that assms
    by (auto simp: build_collection_scope_executions_def oci_scope_rows_def Let_def
        new_scope_row_def)
  then show ?thesis
    using assms(3) by (auto simp: reconcile_opportunity_presence_def list_ex_iff)
qed

text \<open>
  What an AWS collection covers.  There is exactly one coverage row for every effective rule
  (enabled and implemented) and every region of the run, or the one all-regions row of a global
  collector; a scope with a structured collector error is failed and one without is successful
  if the rule is reported as completed or failed only elsewhere.
\<close>

theorem aws_coverage_rows:
  assumes "ca_aws_configuration acc = Some c" "cr_provider run = ''aws''"
    and "rows = build_collection_scope_executions policies acc run res finished_at"
    and "failed = map fst (aws_error_scopes (cx_collector_errors res))"
  shows "distinct (map (\<lambda>x. (sx_rule_key x, sx_region x)) rows) \<and>
    (\<forall>k r. (k, r) \<in> (\<lambda>x. (sx_rule_key x, sx_region x)) ` set rows \<longleftrightarrow>
       (\<exists>p \<in> set policies. ep_rule_key p = k \<and> ep_enabled p \<and> ep_implemented p) \<and>
       (if k \<in> set GLOBAL_COLLECTORS then r = ALL_REGIONS_SCOPE else r \<in> set (run_regions run))) \<and>
    (\<forall>x \<in> set rows. sx_collection_run_id x = cr_id run \<and>
       (let key = (sx_rule_key x, if sx_rule_key x \<in> set GLOBAL_COLLECTORS then ''global''
                                  else sx_region x)
        in sx_status x =
          (if key \<in> set failed then ScopeFailed
           else if sx_rule_key x \<in> set (cx_active_rule_keys res) \<or> sx_rule_key x \<in> fst ` set failed
           then ScopeSuccess else ScopeSkipped)))"
proof -
  let ?keys = "sort (remdups (map ep_rule_key
    (filter (\<lambda>p. ep_enabled p \<and> ep_implemented p) policies)))"
  let ?regions = "\<lambda>k. if k \<in> set GLOBAL_COLLECTORS then [ALL_REGIONS_SCOPE] else run_regions run"
  let ?key = "\<lambda>x. (sx_rule_key x, sx_region x)"
  have rows: "rows = concat (map (aws_rule_rows run res finished_at) ?keys)"
    using assms(1-3) by (simp add: build_collection_scope_executions_def aws_scope_rows_def)
  have one: "map ?key (aws_rule_rows run res finished_at k) = map (Pair k) (?regions k)" for k
    by (simp add: aws_rule_rows_def Let_def new_scope_row_def comp_def)
  have pairs: "map ?key rows = concat (map (\<lambda>k. map (Pair k) (?regions k)) ?keys)"
    unfolding rows map_concat map_map by (simp add: comp_def one del: map_map)
  have regs: "distinct (?regions k)" for k by (simp add: run_regions_def Let_def)
  have dist: "distinct (concat (map (\<lambda>k. map (Pair k) (?regions k)) ks))" if "distinct ks" for ks
    using that regs by (induction ks) (auto simp: distinct_map inj_on_def)
  have "distinct (map ?key rows)" unfolding pairs by (rule dist) simp
  moreover have "(k, r) \<in> ?key ` set rows \<longleftrightarrow> (k, r) \<in> set (map ?key rows)" for k r by simp
  then have "(k, r) \<in> ?key ` set rows \<longleftrightarrow>
       (\<exists>p \<in> set policies. ep_rule_key p = k \<and> ep_enabled p \<and> ep_implemented p) \<and>
       r \<in> set (?regions k)" for k r
    unfolding pairs by auto
  moreover have "sx_collection_run_id x = cr_id run \<and> (let key = (sx_rule_key x,
        if sx_rule_key x \<in> set GLOBAL_COLLECTORS then ''global'' else sx_region x)
      in sx_status x = aws_scope_status failed (cx_active_rule_keys res) key)"
    if "x \<in> set rows" for x
    using that unfolding rows assms(4)
    by (auto simp: aws_rule_rows_def Let_def new_scope_row_def)
  ultimately show ?thesis by (simp add: aws_scope_status_def Let_def split: if_splits)
qed

text \<open>Examples: a volume that is no longer reported, and one that is seen again.\<close>

definition sample_run :: "string \<Rightarrow> int \<Rightarrow> collection_run" where
  "sample_run i t = \<lparr>cr_id = i, cr_scan_id = None, cr_provider = ''aws'', cr_account_id = ''1'',
     cr_scope = JObj [(''regions'', JList [JStr ''us-east-1''])], cr_started_at = Aware t 0,
     cr_finished_at = None, cr_status = RUNNING, cr_resources_analyzed = 0,
     cr_opportunities_found = 0, cr_detailed_observations_available = True,
     cr_analyzer_version = None, cr_error_detail = None\<rparr>"

definition sample_scope :: "scope_execution" where
  "sample_scope = \<lparr>sx_id = ''x'', sx_collection_run_id = ''r'', sx_provider = ''aws'',
     sx_account_id = ''1'', sx_region = ''us-east-1'', sx_service = None,
     sx_rule_key = ''ebs_unattached'', sx_status = ScopeSuccess, sx_started_at = Aware 9 0,
     sx_finished_at = Aware 10 0, sx_resources_examined = None, sx_error_detail = None\<rparr>"

definition presence_db :: db where
  "presence_db = empty_db\<lparr>findings := [finding0 ''f'', finding0 ''g'']\<rparr>"


lemma reconciliation_idempotent_witness:
  "\<exists>st t st'. reconcile_opportunity_presence (sample_run ''r'' 9) [sample_scope] 2 presence_db =
      Inr (st, t) \<and> reconcile_opportunity_presence (sample_run ''r'' 9) [sample_scope] 2 t = Inr (st', t)"
proof -
  obtain st t where r: "reconcile_opportunity_presence (sample_run ''r'' 9) [sample_scope] 2
      presence_db = Inr (st, t)"
    using reconciliation_total [of 2 presence_db "sample_run ''r'' 9" "[sample_scope]"]
    by (auto simp: presence_db_def empty_db_def finding0_def)
  with reconciliation_idempotent [OF _ _ _ r] show ?thesis
    by (auto simp: presence_db_def empty_db_def finding0_def)
qed

lemma observation_reactivates_witness:
  "\<exists>g t. reactivate_presence_from_observation (finding0 ''g'') (sample_run ''r'' 9) presence_db =
      Inr (g, True, t) \<and> get_finding ''g'' t = Some g"
proof -
  have g: "get_finding ''g'' presence_db = Some (finding0 ''g'')"
    "\<not> out_of_date (finding0 ''g'') (sample_run ''r'' 9)" by code_simp+
  show ?thesis
    using observation_reactivates [OF g]
    by (auto simp: presence_db_def empty_db_def)
qed

definition sample_cloud_account :: cloud_account where
  "sample_cloud_account = \<lparr>ca_id = 1, ca_provider = ''aws'', ca_native_account_id = ''1'',
     ca_name = ''main'', ca_enabled = True, ca_connection_status = ''connected'',
     ca_last_error = None, ca_schedule_enabled = False, ca_scan_interval_hours = 24,
     ca_next_scan_at = None, ca_aws_configuration = Some 1\<rparr>"

definition oci_problem :: collection_result where
  "oci_problem = \<lparr>cx_findings = [], cx_active_rule_keys = [''oci_idle''],
     cx_collector_errors = [text_value ''timeout''], cx_resources_analyzed = 3\<rparr>"

lemma oci_problems_witness:
  "reconcile_opportunity_presence ((sample_run ''r'' 9)\<lparr>cr_provider := ''oci''\<rparr>)
     (build_collection_scope_executions [] sample_cloud_account ((sample_run ''r'' 9)\<lparr>cr_provider := ''oci''\<rparr>)
        oci_problem (Aware 10 0)) 3 presence_db = Inr (no_stats, presence_db)"
  by (rule oci_problems_prove_nothing) (simp_all add: oci_problem_def sample_run_def)

lemma aws_coverage_witness:
  "let rows = build_collection_scope_executions
     [\<lparr>ep_rule_key = ''ebs_unattached'', ep_enabled = True, ep_implemented = True\<rparr>]
     sample_cloud_account (sample_run ''r'' 9)
     (oci_problem\<lparr>cx_collector_errors := [text_value ''ebs_unattached@us-east-1: AccessDenied'']\<rparr>)
     (Aware 10 0)
   in map sx_status rows = [ScopeFailed] \<and> distinct (map (\<lambda>x. (sx_rule_key x, sx_region x)) rows)"
proof -
  let ?res = "oci_problem\<lparr>cx_collector_errors :=
    [text_value ''ebs_unattached@us-east-1: AccessDenied'']\<rparr>"
  let ?rows = "build_collection_scope_executions
     [\<lparr>ep_rule_key = ''ebs_unattached'', ep_enabled = True, ep_implemented = True\<rparr>]
     sample_cloud_account (sample_run ''r'' 9) ?res (Aware 10 0)"
  have "map sx_status ?rows = [ScopeFailed]" by code_simp
  moreover have "ca_aws_configuration sample_cloud_account = Some 1"
    "cr_provider (sample_run ''r'' 9) = ''aws''"
    by (simp_all add: sample_cloud_account_def sample_run_def)
  from aws_coverage_rows [OF this refl refl] have
    "distinct (map (\<lambda>x. (sx_rule_key x, sx_region x)) ?rows)" by blast
  ultimately show ?thesis by (simp only: Let_def simp_thms)
qed

end
