(* ===== verification/Scans.thy ===== *)
theory Scans
  imports Providers Presence
begin

text \<open>
  Scans, the queue of collections: the scheduler, manual requests, the claim of the worker and
  the failure path (backend/app/worker.py, backend/app/services/scan_queue.py), with the
  executor registry and the preparation of a collection
  (backend/app/services/collection_executors.py).  The cloud I/O of an executor is a parameter,
  the logging is left out, and what a database error says is not modelled.
\<close>

section \<open>Tables\<close>

definition put_scan :: "scan \<Rightarrow> db \<Rightarrow> db" where
  "put_scan x s = s\<lparr>scans := put_row sc_id x (scans s)\<rparr>"

definition put_account :: "cloud_account \<Rightarrow> db \<Rightarrow> db" where
  "put_account a s = s\<lparr>cloud_accounts := put_row ca_id a (cloud_accounts s)\<rparr>"

definition get_scan :: "string \<Rightarrow> db \<Rightarrow> scan option" where
  "get_scan i s = find_row sc_id i (scans s)"

definition get_account :: "int \<Rightarrow> db \<Rightarrow> cloud_account option" where
  "get_account i s = find_row ca_id i (cloud_accounts s)"

interpretation scan_rows: row_store scans sc_id put_scan
  by unfold_locales (simp add: put_scan_def)

interpretation account_rows: row_store cloud_accounts ca_id put_account
  by unfold_locales (simp add: put_account_def)

text \<open>\<open>str(exc)\<close> and \<open>type(exc).__name__\<close>, as far as the sanitizer reads them.\<close>

fun reported_of :: "error \<Rightarrow> reported" where
  "reported_of (HTTPException code m) =
     Reported ''HTTPException'' (show_nat code @ '': '' @ m)"
| "reported_of (FinOpsLedgerError m) = Reported ''FinOpsLedgerError'' m"
| "reported_of (FinOpsLedgerNotFoundError m) = Reported ''FinOpsLedgerNotFoundError'' m"
| "reported_of (FinOpsLedgerConflictError m) = Reported ''FinOpsLedgerConflictError'' m"
| "reported_of IntegrityError = Reported ''IntegrityError'' ''database error''"
| "reported_of (ValueError m) = Reported ''ValueError'' m"
| "reported_of (RuntimeError m) = Reported ''RuntimeError'' m"
| "reported_of (KeyError m) = Reported ''KeyError'' ([CHR 0x27] @ m @ [CHR 0x27])"
| "reported_of (AssertionError m) = Reported ''AssertionError'' m"
| "reported_of (UnknownRdsConfiguration m) = Reported ''UnknownRdsConfiguration'' m"
| "reported_of (CollectionComparisonError c m) = Reported ''CollectionComparisonError'' m"
| "reported_of (ComparisonContextError c m) = Reported ''ComparisonContextError'' m"
| "reported_of (AttributeError m) = Reported ''AttributeError'' m"
| "reported_of DataError = Reported ''DataError'' ''database error''"
| "reported_of (UnsupportedProviderOperation m) = Reported ''UnsupportedProviderOperation'' m"
| "reported_of (CollectionPreconditionError m) = Reported ''CollectionPreconditionError'' m"
| "reported_of (CollectionExecutorUnavailable m) = Reported ''CollectionExecutorUnavailable'' m"
| "reported_of (ProviderExecutionError p c m) = Reported ''ProviderExecutionError'' m"

section \<open>Executors\<close>

record preparation =
  pr_legacy_scan_account_id :: "int option"
  pr_scope :: json

text \<open>
  The protocol \<open>CollectionExecutor\<close>.  \<open>ex_execute\<close> returns the outcome and the state after the
  cloud I/O, during which other sessions may have committed.
\<close>

type_synonym provider_io = "cloud_account \<Rightarrow> scan \<Rightarrow> db \<Rightarrow> collection_result result \<times> db"

record executor =
  ex_provider :: string
  ex_prepare :: "cloud_account \<Rightarrow> scan option \<Rightarrow> db \<Rightarrow> preparation result"
  ex_execute :: provider_io
  ex_connection_error_tokens :: "string list"

definition region_scope :: "string list \<Rightarrow> json" where
  "region_scope rs = JList (map JStr (sort rs))"

definition aws_configuration :: "cloud_account \<Rightarrow> scan option \<Rightarrow> db \<Rightarrow> aws_account result" where
  "aws_configuration acc sc s =
     andThen (guard (ca_provider acc = ''aws'')
       (CollectionPreconditionError ''AWS executor received a non-AWS CloudAccount'')) (\<lambda>_.
     case find (\<lambda>a. aa_cloud_account_id a = ca_id acc) (aws_accounts s) of
       None \<Rightarrow> Inl (CollectionPreconditionError ''AWS operational configuration is missing'')
     | Some a \<Rightarrow>
         andThen (guard (aa_aws_account_id a = ca_native_account_id acc)
           (CollectionPreconditionError
             ''AWS operational configuration does not match the CloudAccount identity'')) (\<lambda>_.
         andThen (guard (case sc of None \<Rightarrow> True | Some x \<Rightarrow> sc_account_id x = Some (aa_id a))
           (CollectionPreconditionError
             ''Scan legacy AWS account link does not match its CloudAccount'')) (\<lambda>_.
         Inr a)))"

definition aws_prepare :: "cloud_account \<Rightarrow> scan option \<Rightarrow> db \<Rightarrow> preparation result" where
  "aws_prepare acc sc s =
     andThen (aws_configuration acc sc s) (\<lambda>a.
     Inr \<lparr>pr_legacy_scan_account_id = Some (aa_id a),
          pr_scope = JObj [(''regions'', region_scope (aa_regions a))]\<rparr>)"

text \<open>The checks before the cloud I/O of the AWS executor; \<open>io\<close> is the rest.\<close>

definition aws_execute :: "provider_io \<Rightarrow> provider_io" where
  "aws_execute io acc sc s =
     (case andThen (aws_configuration acc (Some sc) s) (\<lambda>_.
             require_provider_operation (ca_provider acc) FINOPS_POLICIES) of
        Inl e \<Rightarrow> (Inl e, s)
      | Inr _ \<Rightarrow> io acc sc s)"

definition oci_configuration_of :: "cloud_account \<Rightarrow> scan option \<Rightarrow> db \<Rightarrow> oci_configuration result" where
  "oci_configuration_of acc sc s =
     andThen (guard (ca_provider acc = ''oci'')
       (CollectionPreconditionError ''OCI executor received a non-OCI CloudAccount'')) (\<lambda>_.
     case find (\<lambda>c. oc_cloud_account_id c = ca_id acc) (oci_configurations s) of
       None \<Rightarrow> Inl (CollectionPreconditionError ''OCI operational configuration is missing'')
     | Some c \<Rightarrow>
         andThen (guard (case sc of None \<Rightarrow> True | Some x \<Rightarrow> sc_account_id x = None)
           (CollectionPreconditionError
             ''OCI scan must not reference a legacy AWS account'')) (\<lambda>_.
         Inr c))"

definition oci_prepare :: "cloud_account \<Rightarrow> scan option \<Rightarrow> db \<Rightarrow> preparation result" where
  "oci_prepare acc sc s =
     andThen (oci_configuration_of acc sc s) (\<lambda>c.
     let regions = (if oc_scope_regions c = [] then [oc_region c] else oc_scope_regions c)
     in Inr \<lparr>pr_legacy_scan_account_id = None,
          pr_scope = JObj [(''regions'', region_scope (dedup regions)),
            (''compartments'', region_scope (dedup (oc_compartment_ocids c))),
            (''include_root_compartment'', JBool (oc_include_root_compartment c)),
            (''include_subcompartments'', JBool (oc_include_subcompartments c))]\<rparr>)"

definition oci_execute :: "provider_io \<Rightarrow> provider_io" where
  "oci_execute io acc sc s =
     (case oci_configuration_of acc (Some sc) s of
        Inl e \<Rightarrow> (Inl e, s)
      | Inr _ \<Rightarrow> io acc sc s)"

definition aws_executor :: "provider_io \<Rightarrow> executor" where
  "aws_executor io = \<lparr>ex_provider = ''aws'', ex_prepare = aws_prepare, ex_execute = aws_execute io,
     ex_connection_error_tokens = [''credencial'', ''expiredtoken'', ''invalidclienttokenid'',
       ''signaturedoesnotmatch'', ''authentication'', ''identidade aws'', ''accessdenied'',
       ''acesso negado'']\<rparr>"

definition oci_executor :: "provider_io \<Rightarrow> executor" where
  "oci_executor io = \<lparr>ex_provider = ''oci'', ex_prepare = oci_prepare, ex_execute = oci_execute io,
     ex_connection_error_tokens = [''credential'', ''credencial'', ''authentication'',
       ''autenticacao'', ''signing'', ''private key'', ''passphrase'', ''fingerprint'',
       ''tenancy'', ''local configuration'']\<rparr>"

definition mark_connection_success :: "cloud_account \<Rightarrow> cloud_account" where
  "mark_connection_success a = a\<lparr>ca_connection_status := ''connected'', ca_last_error := None\<rparr>"

definition mark_connection_failure :: "executor \<Rightarrow> cloud_account \<Rightarrow> string \<Rightarrow> cloud_account" where
  "mark_connection_failure x a e =
     (if \<not> mentions (ex_connection_error_tokens x) (lower e) then a
      else a\<lparr>ca_connection_status := ''error'', ca_last_error := Some (take 2000 e)\<rparr>)"

type_synonym registry = "(string \<times> executor) list"

definition register :: "executor \<Rightarrow> registry \<Rightarrow> registry result" where
  "register x reg =
     andThen (normalize_provider (ex_provider x)) (\<lambda>p.
     andThen (guard (map_of reg p = None)
       (ValueError (''Duplicate collection executor for provider '' @ p))) (\<lambda>_.
     Inr (reg @ [(p, x)])))"

definition executor_registry :: "executor list \<Rightarrow> registry result" where
  "executor_registry xs = fold_result register xs []"

definition registry_get :: "registry \<Rightarrow> string \<Rightarrow> executor result" where
  "registry_get reg provider =
     (case normalize_provider provider of
        Inl _ \<Rightarrow> Inl (CollectionExecutorUnavailable (''Unknown cloud provider: '' @ provider))
      | Inr p \<Rightarrow> (case map_of reg p of
          None \<Rightarrow> Inl (CollectionExecutorUnavailable
            (''Provider '' @ p @ '' has no operational collection executor''))
        | Some x \<Rightarrow> Inr x))"

definition registry_has :: "registry \<Rightarrow> string \<Rightarrow> bool" where
  "registry_has reg provider = (case registry_get reg provider of Inl _ \<Rightarrow> False | Inr _ \<Rightarrow> True)"

text \<open>\<open>COLLECTION_EXECUTORS\<close>, for the cloud I/O of the two providers.\<close>

definition collection_executors :: "provider_io \<Rightarrow> provider_io \<Rightarrow> registry" where
  "collection_executors aws_io oci_io =
     [(''aws'', aws_executor aws_io), (''oci'', oci_executor oci_io)]"

section \<open>The queue\<close>

definition active_scan :: "scan \<Rightarrow> bool" where
  "active_scan x \<longleftrightarrow> sc_status x \<in> {ScanPending, ScanRunning}"

definition active_scan_of :: "cloud_account \<Rightarrow> db \<Rightarrow> scan option" where
  "active_scan_of acc s = find (\<lambda>x. sc_cloud_account_id x = ca_id acc \<and> active_scan x) (scans s)"

text \<open>A new row of \<open>scans\<close>, with the column defaults.\<close>

definition add_scan :: "int option \<Rightarrow> int \<Rightarrow> string \<Rightarrow> db \<Rightarrow> scan \<times> db" where
  "add_scan account_id cloud_account_id trigger s =
     (let (i, s1) = new_uuid s; (created, s2) = utcnow s1;
          x = \<lparr>sc_id = i, sc_account_id = account_id, sc_cloud_account_id = cloud_account_id,
               sc_status = ScanPending, sc_trigger = trigger, sc_created_at = created,
               sc_started_at = None, sc_completed_at = None, sc_findings_count = 0,
               sc_error = None\<rparr>
      in (x, s2\<lparr>scans := scans s2 @ [x]\<rparr>))"

definition due_account :: "datetime \<Rightarrow> cloud_account \<Rightarrow> bool" where
  "due_account now a \<longleftrightarrow> ca_provider a \<in> set (providers_supporting SCHEDULING) \<and>
     ca_enabled a \<and> ca_schedule_enabled a \<and>
     (case ca_next_scan_at a of None \<Rightarrow> False | Some t \<Rightarrow> no_later t now)"

definition enqueue_account :: "datetime \<Rightarrow> cloud_account \<Rightarrow> db \<Rightarrow> db" where
  "enqueue_account now acc s =
     (let s1 = (case active_scan_of acc s of
                  None \<Rightarrow> snd (add_scan (ca_aws_configuration acc) (ca_id acc) ''scheduled'' s)
                | Some _ \<Rightarrow> s)
      in put_account (acc\<lparr>ca_next_scan_at :=
           Some (plus_delta now (timedelta_hours (ca_scan_interval_hours acc)))\<rparr>) s1)"

definition enqueue_due_scans :: "db \<Rightarrow> db" where
  "enqueue_due_scans s =
     (let (now, s1) = utcnow s
      in fold (enqueue_account now) (filter (due_account now) (cloud_accounts s1)) s1)"

definition account_audit_event :: "cloud_account \<Rightarrow> string option \<Rightarrow> string \<Rightarrow> string \<Rightarrow> string \<Rightarrow>
    account_audit" where
  "account_audit_event acc actor action outcome detail =
     \<lparr>aw_account_id = Some (ca_id acc), aw_provider = ca_provider acc,
      aw_native_account_id = ca_native_account_id acc, aw_actor_id = actor, aw_action = action,
      aw_result = outcome, aw_detail = take 500 detail\<rparr>"

definition log_request :: "string \<Rightarrow> cloud_account \<Rightarrow> string option \<Rightarrow> scan \<Rightarrow> db \<Rightarrow> db" where
  "log_request trigger acc actor sc s =
     (if trigger = ''manual''
      then s\<lparr>account_audits := account_audits s @
        [account_audit_event acc actor ''collection.manual.requested'' ''success''
           (''scan_id='' @ sc_id sc)]\<rparr>
      else s)"

definition queue_manual_collection :: "registry \<Rightarrow> cloud_account \<Rightarrow> string \<Rightarrow> string option \<Rightarrow> db \<Rightarrow>
    (scan \<times> db) result" where
  "queue_manual_collection reg acc trigger actor s =
     andThen (require_provider_operation (ca_provider acc) MANUAL_COLLECTION) (\<lambda>_.
     andThen (guard (ca_enabled acc) (CollectionPreconditionError ''Cloud account is disabled'')) (\<lambda>_.
     andThen (registry_get reg (ca_provider acc)) (\<lambda>x.
     andThen (ex_prepare x acc None s) (\<lambda>p.
     andThen (guard (active_scan_of acc s = None)
       (CollectionPreconditionError ''A scan is already pending or running'')) (\<lambda>_.
     let (sc, s1) = add_scan (pr_legacy_scan_account_id p) (ca_id acc) trigger s
     in Inr (sc, log_request trigger acc actor sc s1))))))"

section \<open>Claiming\<close>

definition scan_operation :: "scan \<Rightarrow> provider_operation" where
  "scan_operation x = (if sc_trigger x = ''scheduled'' then SCHEDULING else MANUAL_COLLECTION)"

definition precondition_failure :: "error \<Rightarrow> bool" where
  "precondition_failure e \<longleftrightarrow> (case e of UnsupportedProviderOperation _ \<Rightarrow> True
     | CollectionPreconditionError _ \<Rightarrow> True | CollectionExecutorUnavailable _ \<Rightarrow> True | _ \<Rightarrow> False)"

definition public_error :: "error \<Rightarrow> string \<Rightarrow> string" where
  "public_error e fallback =
     take 4000 (or_text (sanitize_collection_error (Some (reported_of e))) fallback)"

definition fail_claimed_precondition :: "scan \<Rightarrow> error \<Rightarrow> db \<Rightarrow> scan \<times> db" where
  "fail_claimed_precondition x e s =
     (let (now, s1) = utcnow s;
          x' = x\<lparr>sc_status := ScanFailed, sc_completed_at := Some now,
                 sc_error := Some (public_error e ''Collection precondition failed'')\<rparr>
      in (x', put_scan x' s1))"

text \<open>The checks of the \<open>try\<close> block, up to the preparation of the run's scope.\<close>

definition claim_preparation :: "registry \<Rightarrow> scan \<Rightarrow> db \<Rightarrow> (cloud_account \<times> preparation) result" where
  "claim_preparation reg x s =
     (case get_account (sc_cloud_account_id x) s of
        None \<Rightarrow> Inl (CollectionPreconditionError ''CloudAccount for scan does not exist'')
      | Some acc \<Rightarrow>
          andThen (guard (ca_enabled acc)
            (CollectionPreconditionError ''Cloud account is disabled'')) (\<lambda>_.
          andThen (require_provider_operation (ca_provider acc) (scan_operation x)) (\<lambda>_.
          andThen (registry_get reg (ca_provider acc)) (\<lambda>ex.
          andThen (ex_prepare ex acc (Some x) s) (\<lambda>p. Inr (acc, p))))))"

definition collection_run_for_scan :: "db \<Rightarrow> string \<Rightarrow> collection_run option" where
  "collection_run_for_scan s i = find (\<lambda>r. cr_scan_id r = Some i) (collection_runs s)"

text \<open>The run of a claimed scan; \<open>scan_id\<close> is unique.\<close>

definition add_run :: "scan \<Rightarrow> cloud_account \<Rightarrow> json \<Rightarrow> datetime \<Rightarrow> db \<Rightarrow> db result" where
  "add_run x acc scope started_at s =
     andThen (guard (collection_run_for_scan s (sc_id x) = None) IntegrityError) (\<lambda>_.
     let (i, s1) = new_uuid s
     in Inr (s1\<lparr>collection_runs := collection_runs s1 @
          [\<lparr>cr_id = i, cr_scan_id = Some (sc_id x), cr_provider = ca_provider acc,
            cr_account_id = ca_native_account_id acc, cr_scope = scope,
            cr_started_at = started_at, cr_finished_at = None, cr_status = RUNNING,
            cr_resources_analyzed = 0, cr_opportunities_found = 0,
            cr_detailed_observations_available = True, cr_analyzer_version = None,
            cr_error_detail = None\<rparr>]\<rparr>))"

definition next_pending :: "db \<Rightarrow> scan option" where
  "next_pending s =
     (case sort_key (\<lambda>x. instant (sc_created_at x)) (filter (\<lambda>x. sc_status x = ScanPending) (scans s)) of
        [] \<Rightarrow> None | x # _ \<Rightarrow> Some x)"

definition claim_scan :: "registry \<Rightarrow> db \<Rightarrow> (scan option \<times> db) result" where
  "claim_scan reg s =
     (case next_pending s of
        None \<Rightarrow> Inr (None, s)
      | Some x \<Rightarrow>
          let (started_at, s1) = utcnow s;
              x' = x\<lparr>sc_status := ScanRunning, sc_started_at := Some started_at\<rparr>;
              s2 = put_scan x' s1
          in case claim_preparation reg x' s2 of
               Inr (acc, p) \<Rightarrow>
                 andThen (add_run x' acc (pr_scope p) started_at s2) (\<lambda>s3. Inr (Some x', s3))
             | Inl e \<Rightarrow>
                 if precondition_failure e
                 then let (x'', s3) = fail_claimed_precondition x' e s2 in Inr (Some x'', s3)
                 else Inl e)"

section \<open>Failing\<close>

definition note_connection_failure :: "registry \<Rightarrow> cloud_account \<Rightarrow> error \<Rightarrow> string \<Rightarrow> db \<Rightarrow> db" where
  "note_connection_failure reg acc e message s =
     (case e of
        ProviderExecutionError p connection_failure m \<Rightarrow>
          if connection_failure \<and> p = ca_provider acc
          then (case registry_get reg (ca_provider acc) of
                  Inl _ \<Rightarrow> s
                | Inr ex \<Rightarrow> put_account (mark_connection_failure ex acc message) s)
          else s
      | _ \<Rightarrow> s)"

definition fail_scan :: "registry \<Rightarrow> string \<Rightarrow> error \<Rightarrow> db \<Rightarrow> db" where
  "fail_scan reg i e s =
     (case get_scan i s of
        None \<Rightarrow> s
      | Some x \<Rightarrow>
          let (finished_at, s1) = utcnow s;
              message = or_text (sanitize_collection_error (Some (reported_of e))) ''Collection failed'';
              s2 = put_scan (x\<lparr>sc_status := ScanFailed, sc_completed_at := Some finished_at,
                     sc_error := Some (take 4000 message)\<rparr>) s1;
              s3 = (case collection_run_for_scan s2 i of
                      None \<Rightarrow> s2
                    | Some r \<Rightarrow> put_run (r\<lparr>cr_status := FAILED, cr_finished_at := Some finished_at,
                        cr_error_detail := Some (take 4000 message)\<rparr>) s2)
          in case get_account (sc_cloud_account_id x) s3 of
               None \<Rightarrow> s3
             | Some acc \<Rightarrow> note_connection_failure reg acc e message s3)"

section \<open>The queue as a state machine\<close>

fun scan_move :: "scan_status \<Rightarrow> scan_status \<Rightarrow> bool" where
  "scan_move ScanPending t \<longleftrightarrow> t = ScanRunning \<or> t = ScanFailed"
| "scan_move ScanRunning t \<longleftrightarrow> t \<in> {ScanCompleted, ScanCompletedWithWarnings, ScanFailed}"
| "scan_move _ t \<longleftrightarrow> False"

text \<open>The identifiers the source of UUIDs has handed out.\<close>

definition issued :: "db \<Rightarrow> string set" where
  "issued s = uuid4 s ` {..<uuids s}"

definition uuids_grow :: "db \<Rightarrow> db \<Rightarrow> bool" where
  "uuids_grow s t \<longleftrightarrow> uuid4 t = uuid4 s \<and> uuids s \<le> uuids t"

lemma uuids_grow_refl [simp]: "uuids_grow s s"
  by (simp add: uuids_grow_def)

lemma uuids_grow_trans [trans]: "uuids_grow s t \<Longrightarrow> uuids_grow t u \<Longrightarrow> uuids_grow s u"
  by (simp add: uuids_grow_def)

lemma issued_grow: "uuids_grow s t \<Longrightarrow> issued s \<subseteq> issued t"
  by (auto simp: issued_def uuids_grow_def intro!: imageI)

lemma new_uuid_not_issued: "inj (uuid4 s) \<Longrightarrow> uuid4 s (uuids s) \<notin> issued s"
  by (auto simp: issued_def inj_def)

text \<open>
  One step of the queue: a pending scan is appended for an account without an active one, a
  scan moves on, or the queue rests.
\<close>

inductive queue_step :: "db \<Rightarrow> db \<Rightarrow> bool" where
  enqueued: "uuids_grow s t \<Longrightarrow> scans t = scans s @ [x] \<Longrightarrow> sc_status x = ScanPending \<Longrightarrow>
    (\<forall>y \<in> set (scans s). active_scan y \<longrightarrow> sc_cloud_account_id y \<noteq> sc_cloud_account_id x) \<Longrightarrow>
    sc_id x \<in> issued t - issued s \<Longrightarrow> queue_step s t"
| moved: "uuids_grow s t \<Longrightarrow> x \<in> set (scans s) \<Longrightarrow> scans t = put_row sc_id x' (scans s) \<Longrightarrow>
    sc_id x' = sc_id x \<Longrightarrow> sc_cloud_account_id x' = sc_cloud_account_id x \<Longrightarrow>
    scan_move (sc_status x) (sc_status x') \<Longrightarrow> queue_step s t"
| rests: "uuids_grow s t \<Longrightarrow> scans t = scans s \<Longrightarrow> queue_step s t"

inductive_cases queue_stepE: "queue_step s t"

definition queue_ok :: "db \<Rightarrow> bool" where
  "queue_ok s \<longleftrightarrow> inj (uuid4 s) \<and> sc_id ` set (scans s) \<subseteq> issued s \<and>
     distinct (map sc_id (scans s)) \<and>
     distinct (map sc_cloud_account_id (filter active_scan (scans s)))"

lemma moved_active:
  assumes "distinct (map key xs)" "x \<in> set xs" "key x' = key x" "g x' = g x" "P x' \<Longrightarrow> P x"
    and "distinct (map g (filter P xs))"
  shows "distinct (map g (filter P (put_row key x' xs))) \<and>
    g ` set (filter P (put_row key x' xs)) \<subseteq> g ` set (filter P xs)"
  using assms
proof (induction xs)
  case (Cons a xs)
  show ?case
  proof (cases "key a = key x")
    case True
    with Cons.prems have "a = x" "key x' \<notin> key ` set xs"
      by (auto simp: image_iff)
    then have "put_row key x' (a # xs) = x' # xs"
      using put_row_absent [of key x' xs] Cons.prems(3) by (simp add: put_row_def)
    with \<open>a = x\<close> Cons.prems show ?thesis by auto
  next
    case False
    let ?ys = "filter P (put_row key x' xs)"
    have row: "put_row key x' (a # xs) = a # put_row key x' xs"
      using False Cons.prems(3) by (simp add: put_row_def)
    from False Cons have "distinct (map g ?ys)" and sub: "g ` set ?ys \<subseteq> g ` set (filter P xs)"
      by (auto split: if_splits)
    moreover have "P a \<longrightarrow> g a \<notin> g ` set ?ys"
      using Cons.prems(6) sub by (auto simp del: set_filter)
    ultimately show ?thesis unfolding row by auto
  qed
qed simp

interpretation scan_queue: invariant_system queue_ok queue_step
proof
  fix s t
  assume step: "queue_step s t" and ok: "queue_ok s"
  from step show "queue_ok t"
  proof (cases rule: queue_step.cases)
    case (enqueued x)
    note ok = ok [unfolded queue_ok_def]
    have "sc_id x \<notin> sc_id ` set (scans s)" using ok enqueued(5) by blast
    moreover have "sc_cloud_account_id x \<notin> sc_cloud_account_id ` set (filter active_scan (scans s))"
      using enqueued(4) by force
    moreover have "sc_id ` set (scans t) \<subseteq> issued t"
      using ok enqueued(2,5) issued_grow [OF enqueued(1)] by force
    ultimately show ?thesis using ok enqueued(1,2)
      by (simp add: queue_ok_def uuids_grow_def)
  next
    case (moved x x')
    from moved(6) have act: "active_scan x' \<Longrightarrow> active_scan x"
      by (cases "sc_status x") (auto simp: active_scan_def)
    from moved_active [of sc_id "scans s" x x' sc_cloud_account_id active_scan] moved ok act
    have "distinct (map sc_cloud_account_id (filter active_scan (scans t)))"
      by (auto simp: queue_ok_def)
    moreover have "sc_id ` set (scans t) = sc_id ` set (scans s)"
      using moved(3) by (metis put_row_keys set_map)
    ultimately show ?thesis using moved(1,3) ok issued_grow [OF moved(1)]
      by (simp add: queue_ok_def put_row_keys uuids_grow_def) blast
  next
    case rests
    with ok issued_grow [OF rests(1)] show ?thesis
      by (simp add: queue_ok_def uuids_grow_def) blast
  qed
qed

text \<open>A scan that is over stays as it is.\<close>

lemma finished_kept_step:
  assumes "queue_step s t" "queue_ok s" "x \<in> set (scans s)" "\<not> active_scan x"
  shows "x \<in> set (scans t)"
  using assms(1)
proof (cases rule: queue_step.cases)
  case (moved y y')
  have "sc_id x \<noteq> sc_id y'"
  proof
    assume "sc_id x = sc_id y'"
    then have "x = y" using assms(2,3) moved by (auto simp: queue_ok_def distinct_map inj_on_def)
    with moved(6) assms(4) show False by (cases "sc_status y") (auto simp: active_scan_def)
  qed
  with moved(3) assms(3) show ?thesis by (simp add: in_put_row)
qed (use assms(3) in simp_all)

lemma finished_kept:
  assumes "queue_step\<^sup>*\<^sup>* s t" "queue_ok s" "x \<in> set (scans s)" "\<not> active_scan x"
  shows "x \<in> set (scans t)"
  using assms(1)
proof (induction rule: rtranclp_induct)
  case (step t u)
  with scan_queue.steps_inv [OF step(1) assms(2)] finished_kept_step assms(4) show ?case by blast
qed (use assms(3) in simp)

section \<open>The operations are steps of the queue\<close>

lemma active_scan_of_None: "active_scan_of acc s = None \<longleftrightarrow>
    (\<forall>y \<in> set (scans s). active_scan y \<longrightarrow> sc_cloud_account_id y \<noteq> ca_id acc)"
  by (auto simp: active_scan_of_def find_None_iff)

lemma add_scan_fields:
  assumes "add_scan a c trigger s = (x, t)"
  shows "t = s\<lparr>scans := scans s @ [x], uuids := Suc (uuids s), ticks := Suc (ticks s)\<rparr>"
    "sc_id x = uuid4 s (uuids s)" "sc_cloud_account_id x = c" "sc_status x = ScanPending"
    "sc_account_id x = a" "sc_trigger x = trigger"
  using assms by (auto simp: add_scan_def env_defs Let_def)

lemma add_scan_step:
  assumes "add_scan a (ca_id acc) trigger s = (x, t)" "active_scan_of acc s = None"
    and "inj (uuid4 s)" "uuids_grow t u" "scans u = scans t"
  shows "queue_step s u"
proof (rule enqueued)
  note x = add_scan_fields [OF assms(1)]
  show "uuids_grow s u" using assms(4) x(1) by (auto simp: uuids_grow_def)
  show "scans u = scans s @ [x]" using assms(5) x(1) by simp
  show "sc_id x \<in> issued u - issued s"
    using new_uuid_not_issued [OF assms(3)] assms(4) x(1,2)
    by (auto simp: issued_def uuids_grow_def intro!: imageI)
qed (use assms(2) add_scan_fields [OF assms(1)] in \<open>simp_all add: active_scan_of_None\<close>)

lemma put_account_simps [simp]:
  "scans (put_account a s) = scans s" "uuid4 (put_account a s) = uuid4 s"
  "uuids (put_account a s) = uuids s" "collection_runs (put_account a s) = collection_runs s"
  "cloud_accounts (put_account a s) = put_row ca_id a (cloud_accounts s)"
  by (simp_all add: put_account_def)

lemma put_scan_simps [simp]:
  "scans (put_scan a s) = put_row sc_id a (scans s)" "uuid4 (put_scan a s) = uuid4 s"
  "uuids (put_scan a s) = uuids s" "collection_runs (put_scan a s) = collection_runs s"
  "cloud_accounts (put_scan a s) = cloud_accounts s"
  by (simp_all add: put_scan_def)

lemma put_run_simps [simp]:
  "scans (put_run a s) = scans s" "uuid4 (put_run a s) = uuid4 s" "uuids (put_run a s) = uuids s"
  "cloud_accounts (put_run a s) = cloud_accounts s"
  by (simp_all add: put_run_def)

lemma log_request_simps [simp]:
  "scans (log_request tr acc actor x s) = scans s" "uuid4 (log_request tr acc actor x s) = uuid4 s"
  "uuids (log_request tr acc actor x s) = uuids s"
  by (simp_all add: log_request_def)

lemma enqueue_account_step:
  assumes "inj (uuid4 s)"
  shows "queue_step s (enqueue_account now acc s)"
proof (cases "active_scan_of acc s")
  case None
  obtain x t where x: "add_scan (ca_aws_configuration acc) (ca_id acc) ''scheduled'' s = (x, t)"
    by fastforce
  then show ?thesis
    by (intro add_scan_step [OF x None assms])
       (simp_all add: enqueue_account_def None uuids_grow_def Let_def)
next
  case (Some y)
  then show ?thesis by (intro rests) (simp_all add: enqueue_account_def uuids_grow_def)
qed

lemma queue_step_uuid4: "queue_step s t \<Longrightarrow> uuid4 t = uuid4 s"
  by (auto elim!: queue_stepE simp: uuids_grow_def)

lemma enqueue_steps:
  assumes "inj (uuid4 s)"
  shows "queue_step\<^sup>*\<^sup>* s (enqueue_due_scans s)"
proof -
  have fold: "queue_step\<^sup>*\<^sup>* s (fold (enqueue_account now) accs s)" if "inj (uuid4 s)" for now accs s
    using that
  proof (induction accs arbitrary: s)
    case (Cons a accs)
    note step = enqueue_account_step [OF Cons.prems, of now a]
    have "inj (uuid4 (enqueue_account now a s))"
      using Cons.prems queue_step_uuid4 [OF step] by simp
    from converse_rtranclp_into_rtranclp [of queue_step, OF step Cons.IH [OF this]]
    show ?case by simp
  qed simp
  let ?s = "snd (utcnow s)"
  have "queue_step s ?s" by (rule rests) (simp_all add: utcnow_def uuids_grow_def)
  moreover have "inj (uuid4 ?s)" using assms by (simp add: utcnow_def)
  ultimately show ?thesis
    using converse_rtranclp_into_rtranclp [of queue_step, OF _ fold]
    by (simp add: enqueue_due_scans_def case_prod_beta Let_def)
qed

lemma queue_manual_step:
  assumes "queue_manual_collection reg acc trigger actor s = Inr (x, t)" "inj (uuid4 s)"
  shows "queue_step s t"
proof -
  from assms(1) obtain p :: preparation where none: "active_scan_of acc s = None"
    and t: "x = fst (add_scan (pr_legacy_scan_account_id p) (ca_id acc) trigger s)"
      "t = log_request trigger acc actor x (snd (add_scan (pr_legacy_scan_account_id p) (ca_id acc) trigger s))"
    by (auto simp: queue_manual_collection_def andThen_eq_Inr Let_def case_prod_beta)
  from t show ?thesis
    by (intro add_scan_step [OF prod.collapse [symmetric] none assms(2)])
       (simp_all add: uuids_grow_def)
qed

lemma next_pending_Some:
  assumes "next_pending s = Some x"
  shows "x \<in> set (scans s)" "sc_status x = ScanPending"
    "\<forall>y \<in> set (scans s). sc_status y = ScanPending \<longrightarrow> no_later (sc_created_at x) (sc_created_at y)"
proof -
  let ?key = "\<lambda>y. instant (sc_created_at y)"
  let ?q = "sort_key ?key (filter (\<lambda>y. sc_status y = ScanPending) (scans s))"
  from assms obtain ys where q: "?q = x # ys"
    by (auto simp: next_pending_def split: list.splits)
  then have "x \<in> set ?q" by simp
  then show "x \<in> set (scans s)" "sc_status x = ScanPending" by simp_all
  have "sorted (map ?key ?q)" by (rule sorted_sort_key)
  then have "\<forall>y \<in> set ?q. ?key x \<le> ?key y" unfolding q by simp
  then show "\<forall>y \<in> set (scans s). sc_status y = ScanPending \<longrightarrow> no_later (sc_created_at x) (sc_created_at y)"
    by (simp add: no_later_def)
qed

lemma next_pending_None: "next_pending s = None \<longleftrightarrow> (\<forall>x \<in> set (scans s). sc_status x \<noteq> ScanPending)"
proof -
  let ?key = "\<lambda>y. instant (sc_created_at y)"
  let ?p = "filter (\<lambda>y. sc_status y = ScanPending) (scans s)"
  have "next_pending s = None \<longleftrightarrow> sort_key ?key ?p = []"
    by (simp add: next_pending_def split: list.split)
  also have "\<dots> \<longleftrightarrow> ?p = []" by (metis length_0_conv length_sort)
  finally show ?thesis by (simp add: filter_empty_conv)
qed

lemma put_scan_moved:
  assumes "x \<in> set (scans s)" "sc_id x' = sc_id x" "sc_cloud_account_id x' = sc_cloud_account_id x"
    and "scan_move (sc_status x) (sc_status x')" "scans t = put_row sc_id x' (scans s)" "uuids_grow s t"
  shows "queue_step s t"
  using assms by (intro moved [of s t x x']) simp_all

lemma utcnow_simps [simp]:
  "scans (snd (utcnow s)) = scans s" "uuid4 (snd (utcnow s)) = uuid4 s"
  "uuids (snd (utcnow s)) = uuids s" "collection_runs (snd (utcnow s)) = collection_runs s"
  "cloud_accounts (snd (utcnow s)) = cloud_accounts s"
  by (simp_all add: utcnow_def)

lemma add_run_effect:
  assumes "add_run x acc scope started_at s = Inr t"
  obtains run where "t = s\<lparr>uuids := Suc (uuids s), collection_runs := collection_runs s @ [run]\<rparr>"
    "cr_scan_id run = Some (sc_id x)" "cr_provider run = ca_provider acc"
    "cr_account_id run = ca_native_account_id acc" "cr_status run = RUNNING"
    "cr_started_at run = started_at" "cr_id run = uuid4 s (uuids s)" "cr_scope run = scope"
proof -
  let ?run = "\<lparr>cr_id = uuid4 s (uuids s), cr_scan_id = Some (sc_id x), cr_provider = ca_provider acc,
      cr_account_id = ca_native_account_id acc, cr_scope = scope, cr_started_at = started_at,
      cr_finished_at = None, cr_status = RUNNING, cr_resources_analyzed = 0,
      cr_opportunities_found = 0, cr_detailed_observations_available = True,
      cr_analyzer_version = None, cr_error_detail = None\<rparr>"
  have "t = s\<lparr>uuids := Suc (uuids s), collection_runs := collection_runs s @ [?run]\<rparr>"
    using assms by (simp add: add_run_def andThen_eq_Inr env_defs Let_def)
  then show ?thesis using that [of ?run] by simp
qed

text \<open>What a claim does, in terms of the scan it takes.\<close>

definition running :: "scan \<Rightarrow> datetime \<Rightarrow> scan" where
  "running x now = x\<lparr>sc_status := ScanRunning, sc_started_at := Some now\<rparr>"

lemma claim_cases:
  assumes "claim_scan reg s = Inr (r, t)"
  obtains "next_pending s = None" "r = None" "t = s"
  | x acc p where "next_pending s = Some x" "r = Some (running x (fst (utcnow s)))"
      "claim_preparation reg (running x (fst (utcnow s)))
         (put_scan (running x (fst (utcnow s))) (snd (utcnow s))) = Inr (acc, p)"
      "add_run (running x (fst (utcnow s))) acc (pr_scope p) (fst (utcnow s))
         (put_scan (running x (fst (utcnow s))) (snd (utcnow s))) = Inr t"
  | x e where "next_pending s = Some x" "precondition_failure e"
      "claim_preparation reg (running x (fst (utcnow s)))
         (put_scan (running x (fst (utcnow s))) (snd (utcnow s))) = Inl e"
      "fail_claimed_precondition (running x (fst (utcnow s))) e
         (put_scan (running x (fst (utcnow s))) (snd (utcnow s))) = (the r, t)" "r \<noteq> None"
  using assms
  by (auto simp: claim_scan_def running_def Let_def case_prod_beta andThen_eq_Inr
      split: option.splits sum.splits if_splits)

lemma claim_steps:
  assumes "claim_scan reg s = Inr (r, t)"
  shows "queue_step\<^sup>*\<^sup>* s t"
  using assms
proof (cases rule: claim_cases)
  case (2 x acc p)
  have "uuids_grow s t" "scans t = put_row sc_id (running x (fst (utcnow s))) (scans s)"
    by (rule add_run_effect [OF 2(4)], simp add: uuids_grow_def)+
  then have "queue_step s t"
    by (intro put_scan_moved [OF next_pending_Some(1) [OF 2(1)]])
       (simp_all add: running_def next_pending_Some(2) [OF 2(1)])
  then show ?thesis by blast
next
  case (3 x e)
  let ?x = "running x (fst (utcnow s))" and ?s = "snd (utcnow s)"
  have x: "x \<in> set (scans s)" "sc_status x = ScanPending" using next_pending_Some [OF 3(1)] by simp_all
  let ?y = "?x\<lparr>sc_status := ScanFailed, sc_completed_at := Some (fst (utcnow (put_scan ?x ?s))),
      sc_error := Some (public_error e ''Collection precondition failed'')\<rparr>"
  have t: "t = put_scan ?y (snd (utcnow (put_scan ?x ?s)))"
    using 3(4) unfolding fail_claimed_precondition_def case_prod_beta Let_def prod.inject
    by (rule sym [OF conjunct2])
  have "queue_step s (put_scan ?x ?s)"
    by (rule put_scan_moved [OF x(1)]) (simp_all add: running_def x(2) uuids_grow_def)
  moreover have "queue_step (put_scan ?x ?s) t"
  proof (rule put_scan_moved [of ?x _ ?y])
    show "?x \<in> set (scans (put_scan ?x ?s))" using x(1) by (simp add: in_put_row running_def image_iff)
       blast
  qed (simp_all add: t running_def uuids_grow_def)
  ultimately show ?thesis by (meson rtranclp.simps)
qed simp

lemma note_connection_failure_simps [simp]:
  "scans (note_connection_failure reg a e m s) = scans s"
  "uuid4 (note_connection_failure reg a e m s) = uuid4 s"
  "uuids (note_connection_failure reg a e m s) = uuids s"
  by (cases e; simp add: note_connection_failure_def split: sum.split)+

lemma fail_scan_scans:
  assumes "get_scan i s = Some x"
  shows "\<exists>y. scans (fail_scan reg i e s) = put_row sc_id y (scans s) \<and> sc_id y = sc_id x \<and>
    sc_cloud_account_id y = sc_cloud_account_id x \<and> sc_status y = ScanFailed \<and>
    sc_error y = Some (public_error e ''Collection failed'')"
proof -
  let ?m = "public_error e ''Collection failed''"
  let ?y = "x\<lparr>sc_status := ScanFailed, sc_completed_at := Some (fst (utcnow s)), sc_error := Some ?m\<rparr>"
  have "scans (fail_scan reg i e s) = put_row sc_id ?y (scans s)"
    using assms by (simp add: fail_scan_def Let_def case_prod_beta public_error_def
        split: option.split)
  then show ?thesis by (intro exI [of _ ?y]) simp
qed

lemma fail_scan_uuids: "uuids_grow s (fail_scan reg i e s)"
  by (simp add: fail_scan_def Let_def case_prod_beta uuids_grow_def
      split: option.split)

lemma get_scan_Some: "get_scan i s = Some x \<Longrightarrow> x \<in> set (scans s) \<and> sc_id x = i"
  unfolding get_scan_def using find_row_Some by fastforce

lemma fail_scan_step:
  assumes "\<And>x. get_scan i s = Some x \<Longrightarrow> active_scan x"
  shows "queue_step s (fail_scan reg i e s)"
proof (cases "get_scan i s")
  case None
  then show ?thesis by (intro rests) (simp_all add: fail_scan_def)
next
  case (Some x)
  from fail_scan_scans [OF Some, of reg e] obtain y where
    y: "scans (fail_scan reg i e s) = put_row sc_id y (scans s)" "sc_id y = sc_id x"
      "sc_cloud_account_id y = sc_cloud_account_id x" "sc_status y = ScanFailed" by blast
  have "scan_move (sc_status x) ScanFailed"
    using assms [OF Some] by (auto simp: active_scan_def)
  with y get_scan_Some [OF Some] fail_scan_uuids show ?thesis
    by (intro put_scan_moved [of x s y]) simp_all
qed

section \<open>Correctness of the queue\<close>

text \<open>The requests on the queue, except the completion of a run (theory Collection).\<close>

inductive queue_request :: "registry \<Rightarrow> db \<Rightarrow> db \<Rightarrow> bool" for reg where
  scheduled: "queue_request reg s (enqueue_due_scans s)"
| manual: "queue_manual_collection reg acc trigger actor s = Inr (x, t) \<Longrightarrow> queue_request reg s t"
| claimed: "claim_scan reg s = Inr (r, t) \<Longrightarrow> queue_request reg s t"
| failed: "(\<And>x. get_scan i s = Some x \<Longrightarrow> sc_status x = ScanRunning) \<Longrightarrow>
    queue_request reg s (fail_scan reg i e s)"

lemma queue_request_steps:
  assumes "queue_request reg s t" "inj (uuid4 s)"
  shows "queue_step\<^sup>*\<^sup>* s t"
  using assms(1)
proof (cases rule: queue_request.cases)
  case scheduled
  with enqueue_steps [OF assms(2)] show ?thesis by simp
next
  case (manual acc trigger actor x)
  from queue_manual_step [OF this assms(2)] show ?thesis by blast
next
  case (claimed r)
  then show ?thesis by (rule claim_steps)
next
  case (failed i e)
  have "queue_step s (fail_scan reg i e s)"
    by (rule fail_scan_step) (use failed(2) in \<open>auto simp: active_scan_def\<close>)
  with failed(1) show ?thesis by blast
qed

lemma queue_requests_steps:
  "(queue_request reg)\<^sup>*\<^sup>* s t \<Longrightarrow> queue_ok s \<Longrightarrow> queue_step\<^sup>*\<^sup>* s t"
proof (induction rule: rtranclp_induct)
  case (step t u)
  then have "queue_step\<^sup>*\<^sup>* s t" by simp
  with scan_queue.steps_inv step.prems have "inj (uuid4 t)" by (simp add: queue_ok_def)
  from queue_request_steps [OF step(2) this] \<open>queue_step\<^sup>*\<^sup>* s t\<close> show ?case by simp
qed simp

text \<open>
  C37: No account is collected twice at a time.  However requests, the scheduler and the worker
  interleave, every account has at most one pending or running scan, identifiers of scans stay
  unique, and a scan that is over is never touched again.
\<close>

theorem one_active_scan:
  assumes "queue_ok s" "(queue_request reg)\<^sup>*\<^sup>* s t"
  shows "queue_ok t \<and> (\<forall>x \<in> set (scans s). \<not> active_scan x \<longrightarrow> x \<in> set (scans t))"
proof -
  from queue_requests_steps [OF assms(2,1)] have "queue_step\<^sup>*\<^sup>* s t" .
  with scan_queue.steps_inv finished_kept assms(1) show ?thesis by blast
qed

lemma public_error_listed: "public_error e fallback \<in> set public_messages"
proof -
  have short: "list_all (\<lambda>m. length m \<le> 4000) public_messages" by code_simp
  have "reported_of e \<noteq> text_value []" by (cases e) (simp_all add: text_value_def)
  then obtain m where m: "sanitize_collection_error (Some (reported_of e)) = Some m"
    using sanitized_None by (metis not_None_eq option.inject option.distinct(1))
  have pub: "m \<in> set public_messages" by (rule sanitized_public [OF m])
  moreover have "m \<noteq> []" using pub public_messages_nonempty by metis
  ultimately show ?thesis using short by (simp add: public_error_def m list_all_iff)
qed

text \<open>
  What the queue needs of the executors: the one of a provider is for this provider, and a
  preparation that fails does so with a failure of a precondition, which the claim records
  on the scan.
\<close>

locale executor_contract =
  fixes reg :: registry
  assumes prepare_error: "registry_get reg p = Inr x \<Longrightarrow> ex_prepare x a sc s = Inl e \<Longrightarrow>
    precondition_failure e"
begin

lemma registry_error: "registry_get reg p = Inl e \<Longrightarrow> precondition_failure e"
  by (auto simp: registry_get_def precondition_failure_def split: sum.splits option.splits)

lemma claim_error:
  assumes "claim_preparation reg x s = Inl e"
  shows "precondition_failure e"
proof -
  have "precondition_failure e" if "require_provider_operation p op = Inl e" for p op
    using required_operation_error [OF that] by (auto simp: precondition_failure_def)
  then show ?thesis
    using assms registry_error prepare_error
    by (auto simp: claim_preparation_def andThen_def guard_def precondition_failure_def
        split: option.splits sum.splits if_splits)
qed

text \<open>A claim takes the oldest pending scan and either starts or fails it; it never raises.\<close>

lemma claim_succeeds:
  assumes "\<And>x. next_pending s = Some x \<Longrightarrow> collection_run_for_scan s (sc_id x) = None"
  shows "\<exists>r t. claim_scan reg s = Inr (r, t)"
proof (cases "next_pending s")
  case None
  then show ?thesis by (simp add: claim_scan_def)
next
  case (Some x)
  let ?x = "running x (fst (utcnow s))" and ?s = "put_scan (running x (fst (utcnow s))) (snd (utcnow s))"
  show ?thesis
  proof (cases "claim_preparation reg ?x ?s")
    case (Inl e)
    with claim_error [OF Inl] show ?thesis
      by (simp add: claim_scan_def Some Let_def case_prod_beta flip: running_def)
  next
    case (Inr ap)
    have "collection_run_for_scan ?s (sc_id ?x) = None"
      using assms [OF Some] by (simp add: collection_run_for_scan_def running_def)
    then obtain t where "add_run ?x (fst ap) (pr_scope (snd ap)) (fst (utcnow s)) ?s = Inr t"
      by (simp add: add_run_def Let_def case_prod_beta)
    then show ?thesis using Inr
      by (simp add: claim_scan_def Some Let_def case_prod_beta flip: running_def)
  qed
qed

end

lemma prepared_errors:
  "aws_prepare a sc s = Inl e \<Longrightarrow> precondition_failure e"
  "oci_prepare a sc s = Inl e \<Longrightarrow> precondition_failure e"
  by (auto simp: aws_prepare_def oci_prepare_def aws_configuration_def oci_configuration_of_def
      precondition_failure_def andThen_def guard_def Let_def split: sum.splits option.splits if_splits)

lemma collection_executors_cases:
  assumes "registry_get (collection_executors aws_io oci_io) p = Inr x"
  shows "(normalize_provider p = Inr ''aws'' \<and> x = aws_executor aws_io) \<or>
    (normalize_provider p = Inr ''oci'' \<and> x = oci_executor oci_io)"
  using assms
  by (auto simp: registry_get_def collection_executors_def split: sum.splits if_splits)

interpretation standard: executor_contract "collection_executors aws_io oci_io" for aws_io oci_io
proof
  fix p x a sc s e
  assume x: "registry_get (collection_executors aws_io oci_io) p = Inr x"
    and e: "ex_prepare x a sc s = Inl e"
  from collection_executors_cases [OF x] e prepared_errors show "precondition_failure e"
    by (auto simp: aws_executor_def oci_executor_def)
qed

lemma registered: "executor_registry [aws_executor aws_io, oci_executor oci_io] =
    Inr (collection_executors aws_io oci_io)"
proof -
  have "normalize_provider ''aws'' = Inr ''aws''" "normalize_provider ''oci'' = Inr ''oci''"
    by code_simp+
  then show ?thesis
    by (simp add: executor_registry_def register_def collection_executors_def aws_executor_def
        oci_executor_def)
qed

lemma claim_preparation_ok:
  assumes "claim_preparation reg x s = Inr (acc, p)"
  shows "get_account (sc_cloud_account_id x) s = Some acc \<and> ca_enabled acc \<and>
    (\<exists>ex. registry_get reg (ca_provider acc) = Inr ex \<and> ex_prepare ex acc (Some x) s = Inr p)"
  using assms by (auto simp: claim_preparation_def andThen_eq_Inr split: option.splits)

text \<open>The outcome of a claim, for the scan it takes.\<close>

lemma claim_effect:
  assumes "claim_scan reg s = Inr (Some y, t)"
  obtains x where "next_pending s = Some x" "sc_id y = sc_id x" "scans t = put_row sc_id y (scans s)"
    "uuids_grow s t"
    "(sc_status y = ScanRunning \<and> (\<exists>acc run. get_account (sc_cloud_account_id x) s = Some acc \<and>
        ca_enabled acc \<and> collection_runs t = collection_runs s @ [run] \<and>
        cr_scan_id run = Some (sc_id x) \<and> cr_status run = RUNNING \<and>
        cr_provider run = ca_provider acc \<and> cr_account_id run = ca_native_account_id acc)) \<or>
     (sc_status y = ScanFailed \<and> collection_runs t = collection_runs s \<and>
        (\<exists>m \<in> set public_messages. sc_error y = Some m))"
  using assms
proof (cases rule: claim_cases)
  case (2 x acc p)
  from claim_preparation_ok [OF 2(3)] have acc: "get_account (sc_cloud_account_id x) s = Some acc"
    "ca_enabled acc" by (auto simp: get_account_def running_def)
  obtain run where run: "t = (put_scan (running x (fst (utcnow s))) (snd (utcnow s)))
      \<lparr>uuids := Suc (uuids s), collection_runs := collection_runs s @ [run]\<rparr>"
    "cr_scan_id run = Some (sc_id x)" "cr_provider run = ca_provider acc"
    "cr_account_id run = ca_native_account_id acc" "cr_status run = RUNNING"
    by (rule add_run_effect [OF 2(4)]) (simp add: running_def)
  have y: "y = running x (fst (utcnow s))" using 2(2) by simp
  show ?thesis
    by (rule that [OF 2(1)]) (use acc run in \<open>simp_all add: y running_def uuids_grow_def\<close>)
next
  case (3 x e)
  let ?x = "running x (fst (utcnow s))" and ?s = "snd (utcnow s)"
  let ?y = "?x\<lparr>sc_status := ScanFailed, sc_completed_at := Some (fst (utcnow (put_scan ?x ?s))),
      sc_error := Some (public_error e ''Collection precondition failed'')\<rparr>"
  have y: "y = ?y" and t: "t = put_scan ?y (snd (utcnow (put_scan ?x ?s)))"
    using 3(4) unfolding fail_claimed_precondition_def case_prod_beta Let_def prod.inject option.sel
    by (rule sym [OF conjunct1], rule sym [OF conjunct2])
  have "scans t = put_row sc_id y (scans s)" "collection_runs t = collection_runs s" "uuids_grow s t"
    unfolding y t by (simp_all add: row_simps running_def uuids_grow_def)
  moreover have "sc_id y = sc_id x" "sc_status y = ScanFailed"
    "sc_error y = Some (public_error e ''Collection precondition failed'')"
    unfolding y by (simp_all add: running_def)
  ultimately show ?thesis using public_error_listed by (intro that [OF 3(1)]) auto
qed simp

text \<open>
  C38: The worker takes the oldest pending scan and settles it at once if it cannot start.  With
  the registered executors and no run recorded for a pending scan, a claim never raises: without
  a pending scan it changes nothing; otherwise it takes one no other pending scan is older than,
  and either starts it, with exactly one new run in state RUNNING for the identity of the
  enabled account, or fails it without a run and with a message of the public list.
\<close>

theorem claim_outcome:
  assumes "\<And>x. next_pending s = Some x \<Longrightarrow> collection_run_for_scan s (sc_id x) = None"
  shows "\<exists>r t. claim_scan (collection_executors aws_io oci_io) s = Inr (r, t) \<and>
    (case r of
       None \<Rightarrow> t = s \<and> (\<forall>x \<in> set (scans s). sc_status x \<noteq> ScanPending)
     | Some y \<Rightarrow> (\<exists>x \<in> set (scans s). sc_status x = ScanPending \<and> sc_id y = sc_id x \<and>
         (\<forall>z \<in> set (scans s). sc_status z = ScanPending \<longrightarrow> no_later (sc_created_at x) (sc_created_at z)) \<and>
         ((sc_status y = ScanRunning \<and> scans t = put_row sc_id y (scans s) \<and>
           (\<exists>acc run. get_account (sc_cloud_account_id x) s = Some acc \<and> ca_enabled acc \<and>
              collection_runs t = collection_runs s @ [run] \<and> cr_scan_id run = Some (sc_id x) \<and>
              cr_status run = RUNNING \<and> cr_provider run = ca_provider acc \<and>
              cr_account_id run = ca_native_account_id acc)) \<or>
          (sc_status y = ScanFailed \<and> scans t = put_row sc_id y (scans s) \<and>
           collection_runs t = collection_runs s \<and>
           (\<exists>m \<in> set public_messages. sc_error y = Some m)))))"
proof -
  from standard.claim_succeeds [OF assms] obtain r t where
    claim: "claim_scan (collection_executors aws_io oci_io) s = Inr (r, t)" by blast
  show ?thesis
  proof (cases r)
    case None
    have "next_pending s = None \<and> t = s" using claim [unfolded None] by (cases rule: claim_cases) auto
    with None claim next_pending_None [of s] show ?thesis by auto
  next
    case (Some y)
    obtain x where x: "next_pending s = Some x"
      and e: "sc_id y = sc_id x" "scans t = put_row sc_id y (scans s)"
      "(sc_status y = ScanRunning \<and> (\<exists>acc run. get_account (sc_cloud_account_id x) s = Some acc \<and>
        ca_enabled acc \<and> collection_runs t = collection_runs s @ [run] \<and>
        cr_scan_id run = Some (sc_id x) \<and> cr_status run = RUNNING \<and>
        cr_provider run = ca_provider acc \<and> cr_account_id run = ca_native_account_id acc)) \<or>
       (sc_status y = ScanFailed \<and> collection_runs t = collection_runs s \<and>
        (\<exists>m \<in> set public_messages. sc_error y = Some m))"
      by (rule claim_effect [OF claim [unfolded Some]]) (rule that)
    note xs = next_pending_Some [OF x]
    show ?thesis
      by (rule exI [of _ r], rule exI [of _ t], rule conjI [OF claim], unfold Some option.case,
          rule bexI [OF _ xs(1)], intro conjI)
         (use e(3) xs(3) in \<open>simp_all only: xs(2) e(1,2) simp_thms\<close>)
  qed
qed

lemma enqueue_account_effect:
  "cloud_accounts (enqueue_account now a s) = put_row ca_id
     (a\<lparr>ca_next_scan_at := Some (plus_delta now (timedelta_hours (ca_scan_interval_hours a)))\<rparr>)
     (cloud_accounts s)"
  "\<exists>new. scans (enqueue_account now a s) = scans s @ new \<and>
     map sc_cloud_account_id new = (if active_scan_of a s = None then [ca_id a] else []) \<and>
     (\<forall>x \<in> set new. sc_status x = ScanPending \<and> sc_trigger x = ''scheduled'')"
proof -
  obtain x t where x: "add_scan (ca_aws_configuration a) (ca_id a) ''scheduled'' s = (x, t)"
    by fastforce
  from add_scan_fields [OF x] x
  show "cloud_accounts (enqueue_account now a s) = put_row ca_id
     (a\<lparr>ca_next_scan_at := Some (plus_delta now (timedelta_hours (ca_scan_interval_hours a)))\<rparr>)
     (cloud_accounts s)"
    "\<exists>new. scans (enqueue_account now a s) = scans s @ new \<and>
     map sc_cloud_account_id new = (if active_scan_of a s = None then [ca_id a] else []) \<and>
     (\<forall>x \<in> set new. sc_status x = ScanPending \<and> sc_trigger x = ''scheduled'')"
    by (auto simp: enqueue_account_def Let_def split: option.split intro: exI [of _ "[x]"])
qed

definition rescheduled :: "datetime \<Rightarrow> cloud_account \<Rightarrow> cloud_account" where
  "rescheduled now a =
     a\<lparr>ca_next_scan_at := Some (plus_delta now (timedelta_hours (ca_scan_interval_hours a)))\<rparr>"

lemma put_row_map:
  assumes "distinct (map key rows)" "r \<in> set rows" "key (g r) = key r"
  shows "put_row key (g r) rows = map (\<lambda>x. if x = r then g r else x) rows"
  using assms unfolding put_row_def
  by (intro map_cong) (auto simp: distinct_map inj_on_def)

lemma enqueue_fold:
  assumes "distinct (map ca_id (cloud_accounts s))" "set accs \<subseteq> set (cloud_accounts s)" "distinct accs"
  shows "cloud_accounts (fold (enqueue_account now) accs s) =
      map (\<lambda>a. if a \<in> set accs then rescheduled now a else a) (cloud_accounts s) \<and>
    (\<exists>new. scans (fold (enqueue_account now) accs s) = scans s @ new \<and>
       map sc_cloud_account_id new = map ca_id (filter (\<lambda>a. active_scan_of a s = None) accs) \<and>
       (\<forall>x \<in> set new. sc_status x = ScanPending \<and> sc_trigger x = ''scheduled''))"
  using assms
proof (induction accs arbitrary: s)
  case (Cons a accs)
  let ?t = "enqueue_account now a s"
  obtain new where new: "scans ?t = scans s @ new"
    "map sc_cloud_account_id new = (if active_scan_of a s = None then [ca_id a] else [])"
    "\<forall>x \<in> set new. sc_status x = ScanPending \<and> sc_trigger x = ''scheduled''"
    using enqueue_account_effect(2) [of now a s] by blast
  have a: "a \<in> set (cloud_accounts s)" "a \<notin> set accs" using Cons.prems by auto
  have accounts: "cloud_accounts ?t = map (\<lambda>x. if x = a then rescheduled now a else x) (cloud_accounts s)"
    using put_row_map [OF Cons.prems(1) a(1), of "rescheduled now"] enqueue_account_effect(1) [of now a s]
    by (simp add: rescheduled_def)
  have ids: "distinct (map ca_id (cloud_accounts ?t))"
    using Cons.prems(1) enqueue_account_effect(1) [of now a s] by (simp add: put_row_keys)
  have sub: "set accs \<subseteq> set (cloud_accounts ?t)"
    using Cons.prems(2) a by (force simp: accounts)
  have other: "ca_id b \<noteq> ca_id a" if "b \<in> set accs" for b
    using that Cons.prems a by (auto simp: distinct_map inj_on_def)
  have "sc_cloud_account_id ` set new \<subseteq> {ca_id a}"
    using new(2) by (metis empty_set empty_subsetI list.simps(15) set_map subset_refl)
  then have same: "active_scan_of b ?t = None \<longleftrightarrow> active_scan_of b s = None" if "b \<in> set accs" for b
    using other [OF that] by (auto simp: active_scan_of_None new(1))
  have "distinct accs" using Cons.prems(3) by simp
  from Cons.IH [OF ids sub this] obtain new' where IH:
    "cloud_accounts (fold (enqueue_account now) accs ?t) =
       map (\<lambda>b. if b \<in> set accs then rescheduled now b else b) (cloud_accounts ?t)"
    "scans (fold (enqueue_account now) accs ?t) = scans ?t @ new'"
    "map sc_cloud_account_id new' = map ca_id (filter (\<lambda>b. active_scan_of b ?t = None) accs)"
    "\<forall>x \<in> set new'. sc_status x = ScanPending \<and> sc_trigger x = ''scheduled''" by blast
  have "ca_id (rescheduled now a) = ca_id a" by (simp add: rescheduled_def)
  then have "rescheduled now a \<notin> set accs" using other by metis
  then have "cloud_accounts (fold (enqueue_account now) (a # accs) s) =
      map (\<lambda>b. if b \<in> set (a # accs) then rescheduled now b else b) (cloud_accounts s)"
    using a by (auto simp: IH(1) accounts)
  moreover have "map sc_cloud_account_id (new @ new') =
      map ca_id (filter (\<lambda>b. active_scan_of b s = None) (a # accs))"
    using new(2) IH(3) same by (auto cong: filter_cong)
  ultimately show ?case using IH(2,4) new(1,3) by (auto intro: exI [of _ "new @ new'"])
qed simp

text \<open>
  C39: The scheduler enqueues every due account once.  After a round, the accounts that were due
  are scheduled one interval after the instant of the round and all other accounts are as they
  were; exactly the due accounts without an active scan got one scheduled pending scan each, no
  other scan changed; so every due account has an active scan.
\<close>

theorem scheduling_round:
  assumes "distinct (map ca_id (cloud_accounts s))"
  shows "cloud_accounts (enqueue_due_scans s) =
      map (\<lambda>a. if due_account (fst (utcnow s)) a then rescheduled (fst (utcnow s)) a else a)
        (cloud_accounts s) \<and>
    (\<exists>new. scans (enqueue_due_scans s) = scans s @ new \<and>
       map sc_cloud_account_id new = map ca_id
         (filter (\<lambda>a. due_account (fst (utcnow s)) a \<and> active_scan_of a s = None) (cloud_accounts s)) \<and>
       (\<forall>x \<in> set new. sc_status x = ScanPending \<and> sc_trigger x = ''scheduled'')) \<and>
    (\<forall>a \<in> set (cloud_accounts s). due_account (fst (utcnow s)) a \<longrightarrow>
       active_scan_of a (enqueue_due_scans s) \<noteq> None)"
proof -
  let ?now = "fst (utcnow s)" and ?s = "snd (utcnow s)"
  let ?due = "filter (due_account ?now) (cloud_accounts s)"
  have t: "enqueue_due_scans s = fold (enqueue_account ?now) ?due ?s"
    by (simp add: enqueue_due_scans_def case_prod_beta Let_def)
  have act: "active_scan_of a ?s = active_scan_of a s" for a by (simp add: active_scan_of_def)
  have "distinct ?due" using assms by (simp add: distinct_map)
  with enqueue_fold [of ?s ?due ?now] assms obtain new where
    accounts: "cloud_accounts (enqueue_due_scans s) =
       map (\<lambda>a. if a \<in> set ?due then rescheduled ?now a else a) (cloud_accounts s)"
    and new: "scans (enqueue_due_scans s) = scans s @ new"
      "map sc_cloud_account_id new = map ca_id (filter (\<lambda>a. active_scan_of a s = None) ?due)"
      "\<forall>x \<in> set new. sc_status x = ScanPending \<and> sc_trigger x = ''scheduled''"
    unfolding t act by auto
  have covered: "active_scan_of a (enqueue_due_scans s) \<noteq> None" if "a \<in> set ?due" for a
  proof (cases "active_scan_of a s = None")
    case True
    then have "ca_id a \<in> sc_cloud_account_id ` set new"
      using that new(2) by (metis (mono_tags, lifting) imageI mem_Collect_eq set_filter set_map)
    with new(1,3) show ?thesis by (auto simp: active_scan_of_None active_scan_def)
  next
    case False
    with new(1) show ?thesis by (auto simp: active_scan_of_None)
  qed
  have "map (\<lambda>a. if a \<in> set ?due then rescheduled ?now a else a) (cloud_accounts s) =
      map (\<lambda>a. if due_account ?now a then rescheduled ?now a else a) (cloud_accounts s)"
    by (rule map_cong) auto
  with accounts new covered show ?thesis
    by (auto simp: conj_commute intro: exI [of _ new])
qed

text \<open>Witnesses: an account that is due, and a scan that waits for it.\<close>

definition due_sample :: cloud_account where
  "due_sample = \<lparr>ca_id = 1, ca_provider = ''aws'', ca_native_account_id = ''123456789012'',
     ca_name = ''A'', ca_enabled = True, ca_connection_status = ''untested'', ca_last_error = None,
     ca_schedule_enabled = True, ca_scan_interval_hours = 24, ca_next_scan_at = Some (Aware (-5) 0),
     ca_aws_configuration = Some 7\<rparr>"

definition queue_db :: db where
  "queue_db = empty_db\<lparr>cloud_accounts := [due_sample],
     aws_accounts := [\<lparr>aa_id = 7, aa_cloud_account_id = 1, aa_aws_account_id = ''123456789012'',
       aa_regions = [''us-east-1'']\<rparr>]\<rparr>"

definition no_io :: provider_io where
  "no_io acc x s = (Inl (ProviderExecutionError ''aws'' False ''unreachable''), s)"

lemma scheduling_witness:
  "map sc_cloud_account_id (scans (enqueue_due_scans queue_db)) = [1] \<and>
   active_scan_of due_sample (enqueue_due_scans queue_db) \<noteq> None"
proof -
  have d: "distinct (map ca_id (cloud_accounts queue_db))" by code_simp
  have "map ca_id (filter (\<lambda>a. due_account (fst (utcnow queue_db)) a \<and>
      active_scan_of a queue_db = None) (cloud_accounts queue_db)) = [1]"
    "scans queue_db = []" "list_all (\<lambda>a. due_account (fst (utcnow queue_db)) a) (cloud_accounts queue_db)"
    "cloud_accounts queue_db = [due_sample]"
    by code_simp+
  with scheduling_round [OF d] show ?thesis by auto
qed

lemma claim_witness:
  "\<exists>r t. claim_scan (collection_executors no_io no_io) (enqueue_due_scans queue_db) = Inr (r, t) \<and>
     r \<noteq> None"
proof -
  let ?s = "enqueue_due_scans queue_db"
  have none: "collection_runs ?s = []" by code_simp
  have "collection_run_for_scan ?s i = None" for i by (simp add: collection_run_for_scan_def none)
  from claim_outcome [of ?s no_io no_io, OF this] obtain r t where
    rt: "claim_scan (collection_executors no_io no_io) ?s = Inr (r, t)"
      "r = None \<longrightarrow> (\<forall>x \<in> set (scans ?s). sc_status x \<noteq> ScanPending)" by (auto split: option.splits)
  have "list_ex (\<lambda>x. sc_status x = ScanPending) (scans ?s)" by code_simp
  with rt show ?thesis by (auto simp: list_ex_iff)
qed

lemma one_active_scan_witness:
  "queue_ok (empty_db\<lparr>uuid4 := \<lambda>n. replicate n CHR ''x'', cloud_accounts := [due_sample]\<rparr>) \<and>
   queue_ok (enqueue_due_scans (empty_db\<lparr>uuid4 := \<lambda>n. replicate n CHR ''x'', cloud_accounts := [due_sample]\<rparr>))"
proof -
  let ?s = "empty_db\<lparr>uuid4 := \<lambda>n. replicate n CHR ''x'', cloud_accounts := [due_sample]\<rparr>"
  have "inj (\<lambda>n. replicate n CHR ''x'')" by (auto intro!: injI dest: arg_cong [where f = length])
  then have ok: "queue_ok ?s" by (simp add: queue_ok_def empty_db_def)
  from one_active_scan [OF ok r_into_rtranclp [of "queue_request []", OF scheduled]] ok
  show ?thesis by blast
qed

end
