(* ===== verification/Saving.thy ===== *)
theory Saving
  imports Ledger
begin

text \<open>
  The recognition of a saving when a human treats an opportunity
  (backend/app/services/opportunity_saving_recognition.py): which observation counts, what an
  earlier treatment cycle forbids, and the ledger entry that results.
\<close>

section \<open>Inputs\<close>

datatype recognition_reason =
  NO_MONETARY_SAVING | ZERO_SAVING | NEGATIVE_SAVING | NO_CURRENCY | INVALID_CURRENCY |
  NO_NEW_FINANCIAL_EVENT | CREATED

record recognition =
  rg_entry :: "ledger_entry option"
  rg_reason :: recognition_reason
  rg_observation_id :: "string option"

text \<open>The first row of \<open>ORDER BY k DESC\<close>.\<close>

definition latest_by :: "('r \<Rightarrow> 'k :: linorder) \<Rightarrow> 'r list \<Rightarrow> 'r option" where
  "latest_by k rows = (case rev (sort_key k rows) of [] \<Rightarrow> None | r # _ \<Rightarrow> Some r)"

definition latest_observation :: "db \<Rightarrow> string \<Rightarrow> observation option" where
  "latest_observation s i =
     latest_by (\<lambda>ob. (instant (o_observed_at ob), o_id ob))
       (filter (\<lambda>ob. o_opportunity_id ob = i) (observations s))"

definition event_order :: "status_event \<Rightarrow> int \<times> string" where
  "event_order e = (instant (se_changed_at e), se_id e)"

definition treatment_rows :: "db \<Rightarrow> string \<Rightarrow> string option \<Rightarrow> status_event list" where
  "treatment_rows s i current =
     filter (\<lambda>e. se_opportunity_id e = i \<and> se_action e = ''treat'' \<and> se_to_status e = Treated \<and>
                  Some (se_id e) \<noteq> current) (status_history s)"

definition reopen_rows :: "db \<Rightarrow> string \<Rightarrow> status_event list" where
  "reopen_rows s i =
     filter (\<lambda>e. se_opportunity_id e = i \<and> se_action e = ''reopen'' \<and> se_from_status e = Treated \<and>
                  se_to_status e = Open) (status_history s)"

type_synonym candidate = "finding \<times> status_event"

text \<open>\<open>{finding.id: event.id for finding, event in candidates}\<close>: a later pair wins.\<close>

definition current_event_id :: "candidate list \<Rightarrow> string \<Rightarrow> string option" where
  "current_event_id cs i = map_of (rev (map (\<lambda>(f, ev). (f_id f, se_id ev)) cs)) i"

definition previous_cycle_event :: "db \<Rightarrow> candidate list \<Rightarrow> string \<Rightarrow> status_event option" where
  "previous_cycle_event s cs i =
     (case latest_by event_order (treatment_rows s i (current_event_id cs i)) of
        Some e \<Rightarrow> Some e
      | None \<Rightarrow> latest_by event_order (reopen_rows s i))"

text \<open>The dictionary of the accounts: normalization of an unknown provider raises.\<close>

definition account_for :: "db \<Rightarrow> string \<Rightarrow> string \<Rightarrow> cloud_account option" where
  "account_for s provider account_id =
     find (\<lambda>a. ca_provider a = provider \<and> ca_native_account_id a = account_id)
       (rev (cloud_accounts s))"

definition validate_treatment_event :: "user \<Rightarrow> candidate \<Rightarrow> unit result" where
  "validate_treatment_event actor c = (case c of (f, ev) \<Rightarrow>
     guard (se_opportunity_id ev = f_id f \<and> se_from_status ev = Open \<and>
            se_to_status ev = Treated \<and> se_action ev = ''treat'' \<and>
            se_changed_by ev = Some (u_id actor))
       (FinOpsLedgerError ''Invalid human treatment event for saving recognition''))"

section \<open>Recognition\<close>

definition recognition_call :: "candidate \<Rightarrow> observation option \<Rightarrow> user \<Rightarrow> decimal \<Rightarrow> string \<Rightarrow>
    cloud_account \<Rightarrow> entry_call" where
  "recognition_call c ob actor amount currency acc = (case c of (f, ev) \<Rightarrow>
     \<lparr>ec_entry_type = ''SAVING'', ec_direction = ''CREDIT'', ec_cloud_account_id = ca_id acc,
      ec_amount = Finite amount, ec_currency = currency, ec_effective_at = se_changed_at ev,
      ec_source = ''OPPORTUNITY'', ec_actor = Some actor,
      ec_description = Some (''Saving recognized from opportunity '' @ [CHR 0x22] @ f_title f
                             @ [CHR 0x22]),
      ec_source_reference = Some (f_id f), ec_opportunity_id = Some (f_id f),
      ec_source_event_id = Some (se_id ev),
      ec_idempotency_key = Some (''opportunity-treated:'' @ se_id ev @ '':saving''),
      ec_periodicity = ''MONTHLY'', ec_reference_period_start = None,
      ec_reference_period_end = None,
      ec_context = JObj
        [(''snapshot_source'', JStr (if ob \<noteq> None then ''OPPORTUNITY_OBSERVATION''
                                   else ''FINDING'')),
         (''opportunity_observation_id'', jopt (map_option o_id ob)),
         (''rule_key'', JStr (f_rule_key f)), (''resource_id'', JStr (f_resource_id f)),
         (''service'', JStr (f_service f)), (''region'', jopt (f_region f))]\<rparr>)"

text \<open>One iteration of the loop; observation and previous cycle were read before it began.\<close>

definition snapshot_savings :: "finding \<Rightarrow> observation option \<Rightarrow> decimal option" where
  "snapshot_savings f ob = (case ob of None \<Rightarrow> f_estimated_monthly_savings f
                            | Some x \<Rightarrow> o_estimated_monthly_savings x)"

definition snapshot_currency :: "finding \<Rightarrow> observation option \<Rightarrow> string" where
  "snapshot_currency f ob = upper (strip (case ob of None \<Rightarrow> f_currency f | Some x \<Rightarrow> o_currency x))"

definition no_new_event :: "observation option \<Rightarrow> status_event option \<Rightarrow> bool" where
  "no_new_event ob previous \<longleftrightarrow>
     (case previous of None \<Rightarrow> False
      | Some p \<Rightarrow> (case ob of None \<Rightarrow> True
                  | Some x \<Rightarrow> no_later (aware (o_observed_at x)) (aware (se_changed_at p))))"

definition recognize_one :: "user \<Rightarrow> candidate \<Rightarrow> observation option \<Rightarrow> status_event option \<Rightarrow>
    db \<Rightarrow> (recognition \<times> db) result" where
  "recognize_one actor c ob previous s =
     (let skip = (\<lambda>why. Inr (\<lparr>rg_entry = None, rg_reason = why,
                              rg_observation_id = map_option o_id ob\<rparr>, s))
      in if no_new_event ob previous then skip NO_NEW_FINANCIAL_EVENT
         else case snapshot_savings (fst c) ob of
           None \<Rightarrow> skip NO_MONETARY_SAVING
         | Some amount \<Rightarrow>
             if amount = 0 then skip ZERO_SAVING
             else if amount < 0 then skip NEGATIVE_SAVING
             else let currency = snapshot_currency (fst c) ob
                  in if currency = [] then skip NO_CURRENCY
                     else if length currency \<noteq> 3 \<or> \<not> isalpha currency then skip INVALID_CURRENCY
                     else andThen (normalize_provider (f_provider (fst c))) (\<lambda>provider.
                          case account_for s provider (f_account_id (fst c)) of
                            None \<Rightarrow> Inl (FinOpsLedgerError
                              (''Cloud account for opportunity saving recognition '' @
                               ''was not found''))
                          | Some acc \<Rightarrow>
                              andThen (create_entry
                                (recognition_call c ob actor amount currency acc) s)
                              (\<lambda>(e, t). Inr (\<lparr>rg_entry = Some e, rg_reason = CREATED,
                                 rg_observation_id = map_option o_id ob\<rparr>, t))))"

definition recognize_many ::
  "candidate list \<Rightarrow> user \<Rightarrow> db \<Rightarrow> (recognition list \<times> db) result" where
  "recognize_many cs actor s =
     (if cs = [] then Inr ([], s)
      else
        andThen (map_result (validate_treatment_event actor) cs) (\<lambda>_.
        andThen (map_result (\<lambda>(f, ev). normalize_provider (f_provider f)) cs) (\<lambda>_.
        fold_result (\<lambda>c (results, t).
            let i = f_id (fst c)
            in andThen (recognize_one actor c (latest_observation s i)
                 (previous_cycle_event s cs i) t) (\<lambda>(r, t'). Inr (results @ [r], t')))
          cs ([], s))))"

definition recognize :: "candidate \<Rightarrow> user \<Rightarrow> db \<Rightarrow> (recognition \<times> db) result" where
  "recognize c actor s =
     andThen (recognize_many [c] actor s) (\<lambda>(rs, t). Inr (hd rs, t))"

definition list_recognized_savings :: "db \<Rightarrow> string \<Rightarrow> ledger_entry list" where
  "list_recognized_savings s i =
     sort_key (\<lambda>e. (instant (le_effective_at e), instant (le_created_at e), le_id e))
       (filter (\<lambda>e. le_source e = OPPORTUNITY \<and> le_opportunity_id e = Some i \<and>
                     le_entry_type e = SAVING) (ledger s))"

section \<open>Correctness\<close>

lemma latest_by_None [simp]: "latest_by k rows = None \<longleftrightarrow> rows = []"
proof -
  have a: "(case xs of [] \<Rightarrow> None | x # _ \<Rightarrow> Some x) = None \<longleftrightarrow> xs = []" for xs :: "'a list"
    by (cases xs) simp_all
  have b: "rev (sort_key k rows) = [] \<longleftrightarrow> rows = []"
    by (metis length_0_conv length_rev length_sort)
  show ?thesis unfolding latest_by_def by (rule trans [OF a b])
qed

lemma latest_by_Some:
  assumes "latest_by k rows = Some r"
  shows "r \<in> set rows" "\<And>x. x \<in> set rows \<Longrightarrow> k x \<le> k r"
proof -
  have find: "(case xs of [] \<Rightarrow> None | x # _ \<Rightarrow> Some x) = find (\<lambda>_. True) xs" for xs :: "'a list"
    by (cases xs) simp_all
  have f: "find (\<lambda>_. True) (rev (sort_key k rows)) = Some r"
    using assms unfolding latest_by_def find .
  show "r \<in> set rows" using found_in_rev_sort [OF f] by blast
  show "k x \<le> k r" if "x \<in> set rows" for x
    using sorted_rev_find_max [OF f that] by simp
qed

text \<open>The fields of a new entry, as the call states them.\<close>

lemma create_entry_fields:
  assumes "create_entry c s = Inr (e, t)"
    and "normalized_idempotency_key (ec_idempotency_key c) = Some k" "find_by_key s k = None"
    and "source_value (ec_source c) = Inr OPPORTUNITY" "ec_amount c = Finite a"
  shows "ledger t = ledger s @ [e]"
    and "entry_type_value (ec_entry_type c) = Inr (le_entry_type e)"
    and "direction_value (ec_direction c) = Inr (le_direction e)"
    and "periodicity_value (ec_periodicity c) = Inr (le_periodicity e)"
    and "le_source e = OPPORTUNITY" "le_amount e = numeric8 a"
    and "currency_value (ec_currency c) = Inr (le_currency e)"
    and "le_effective_at e = aware (ec_effective_at c)"
    and "le_opportunity_id e = ec_opportunity_id c" "le_source_event_id e = ec_source_event_id c"
proof -
  obtain ty dir src per amount currency where
    v: "validate_entry_call c = Inr (ty, dir, src, per, amount, currency)"
    using assms(1) by (auto simp: create_entry_def andThen_eq_Inr)
  obtain provider acc where acc: "entry_account s (ec_cloud_account_id c) = Inr (provider, acc)"
    using assms(1) by (auto simp: create_entry_def andThen_eq_Inr)
  obtain o_id e_id reference where
    r: "entry_source s c src provider acc = Inr (o_id, e_id, reference)"
    using assms(1) v acc by (auto simp: create_entry_def andThen_eq_Inr)
  have vs: "entry_type_value (ec_entry_type c) = Inr ty" "direction_value (ec_direction c) = Inr dir"
    "src = OPPORTUNITY" "periodicity_value (ec_periodicity c) = Inr per" "amount = a"
    "currency_value (ec_currency c) = Inr currency"
    using v assms(4,5) unfolding validate_entry_call_def andThen_eq_Inr
    by (auto split: if_splits)
  have ids: "o_id = ec_opportunity_id c" "e_id = ec_source_event_id c"
    using r vs(3)
    by (auto simp: entry_source_def validate_opportunity_source_def andThen_eq_Inr truthy_def
        split: option.splits)
  let ?s = "s\<lparr>uuids := Suc (uuids s), ticks := Suc (ticks s)\<rparr>"
  obtain x where x: "insert_or_existing x ?s = Inr (e, t)" "le_entry_type x = ty"
    "le_direction x = dir" "le_periodicity x = per" "le_source x = src" "le_amount x = a"
    "le_currency x = currency" "le_effective_at x = aware (ec_effective_at c)"
    "le_opportunity_id x = o_id" "le_source_event_id x = e_id" "le_idempotency_key x = Some k"
    using assms(1,2) v acc r vs(5)
    by (auto simp: create_entry_def andThen_eq_Inr env_defs Let_def)
  have "insert_entry x ?s = Inr (e, t)"
    using x(1)
  proof (rule insert_or_existing_cases)
    assume e: "e \<in> set (ledger ?s)" "le_idempotency_key e = Some k"
    then have "find_by_key s k \<noteq> None" by (auto simp: find_by_key_def find_None_iff)
    with assms(3) show ?thesis by simp
  qed (use x in simp_all)
  note i = insert_entry_Inr [OF this]
  show "ledger t = ledger s @ [e]" by (simp add: i(2))
  show "entry_type_value (ec_entry_type c) = Inr (le_entry_type e)"
    "direction_value (ec_direction c) = Inr (le_direction e)"
    "periodicity_value (ec_periodicity c) = Inr (le_periodicity e)"
    "le_source e = OPPORTUNITY" "le_amount e = numeric8 a"
    "currency_value (ec_currency c) = Inr (le_currency e)"
    "le_effective_at e = aware (ec_effective_at c)"
    "le_opportunity_id e = ec_opportunity_id c" "le_source_event_id e = ec_source_event_id c"
    using x vs ids by (simp_all add: i(1))
qed

lemma strip_id:
  assumes "s \<noteq> []" "\<not> py_space (hd s)" "\<not> py_space (last s)"
  shows "strip s = s"
proof -
  have "dropWhile py_space s = s" using assms by (intro dropWhile_idle) simp
  moreover have "dropWhile py_space (rev s) = rev s"
    using assms by (intro dropWhile_idle) (simp add: hd_rev)
  ultimately show ?thesis by (simp add: strip_def)
qed

definition recognition_key :: "status_event \<Rightarrow> string" where
  "recognition_key ev = ''opportunity-treated:'' @ se_id ev @ '':saving''"

lemma recognition_call_key [simp]:
  "normalized_idempotency_key (ec_idempotency_key (recognition_call c ob actor a cur acc)) =
     Some (recognition_key (snd c))"
proof -
  have "strip (recognition_key (snd c)) = recognition_key (snd c)"
    by (rule strip_id) (simp_all add: recognition_key_def py_space_def)
  then show ?thesis
    by (cases c) (simp add: recognition_call_def normalized_idempotency_key_def recognition_key_def)
qed

lemma letter_not_space: "is_letter c \<Longrightarrow> \<not> py_space c"
proof -
  have "list_all (\<lambda>c. \<not> py_space c) (upper_letters @ lower_letters)" by code_simp
  then show "is_letter c \<Longrightarrow> \<not> py_space c" by (auto simp: list_all_iff is_letter_def)
qed

lemma currency_value_snapshot:
  assumes "isalpha (snapshot_currency f ob)" "length (snapshot_currency f ob) = 3"
  shows "currency_value (snapshot_currency f ob) = Inr (snapshot_currency f ob)"
proof -
  let ?c = "snapshot_currency f ob"
  have ne: "?c \<noteq> []" using assms(2) by auto
  have "is_letter x" if "x \<in> set ?c" for x
    using that assms(1) by (simp add: isalpha_def list_all_iff)
  then have "\<not> py_space (hd ?c)" "\<not> py_space (last ?c)"
    using ne letter_not_space by simp_all
  then have "strip ?c = ?c" by (rule strip_id [OF ne])
  moreover have "upper ?c = ?c" by (simp add: snapshot_currency_def)
  ultimately show ?thesis using assms by (simp add: currency_value_def)
qed

text \<open>
  What the policy recognizes: nothing after an earlier cycle without a newer observation, and
  otherwise the positive savings of the latest observation (of the finding when it was never
  observed), if its currency is a three-letter code.
\<close>

definition eligible_saving ::
  "finding \<Rightarrow> observation option \<Rightarrow> status_event option \<Rightarrow> (decimal \<times> string) option" where
  "eligible_saving f ob previous =
     (case snapshot_savings f ob of
        None \<Rightarrow> None
      | Some a \<Rightarrow>
          if \<not> no_new_event ob previous \<and> 0 < a \<and> length (snapshot_currency f ob) = 3 \<and>
             isalpha (snapshot_currency f ob)
          then Some (a, snapshot_currency f ob) else None)"

lemma recognize_one_cases:
  assumes "recognize_one actor c ob previous s = Inr (r, t)"
  shows "(eligible_saving (fst c) ob previous = None \<and> t = s \<and> rg_reason r \<noteq> CREATED \<and>
           rg_entry r = None) \<or>
         (\<exists>a cur acc e. eligible_saving (fst c) ob previous = Some (a, cur) \<and>
            create_entry (recognition_call c ob actor a cur acc) s = Inr (e, t) \<and>
            rg_reason r = CREATED \<and> rg_entry r = Some e)"
proof (cases "no_new_event ob previous")
  case True
  with assms show ?thesis
    by (auto simp: recognize_one_def eligible_saving_def split: option.split)
next
  case False
  show ?thesis
  proof (cases "snapshot_savings (fst c) ob")
    case None
    with False assms show ?thesis by (auto simp: recognize_one_def eligible_saving_def)
  next
    case (Some a)
    show ?thesis
    proof (cases "eligible_saving (fst c) ob previous")
      case None
      with False Some assms show ?thesis
        by (auto simp: recognize_one_def eligible_saving_def Let_def split: if_splits)
    next
      case (Some p)
      with False \<open>snapshot_savings (fst c) ob = Some a\<close>
      have "0 < a" "length (snapshot_currency (fst c) ob) = 3" "isalpha (snapshot_currency (fst c) ob)"
        "p = (a, snapshot_currency (fst c) ob)"
        by (auto simp: eligible_saving_def split: if_splits)
      moreover from this have "a \<noteq> 0" "\<not> a < 0" "snapshot_currency (fst c) ob \<noteq> []" by auto
      ultimately show ?thesis
        using False Some \<open>snapshot_savings (fst c) ob = Some a\<close> assms
        by (auto simp: recognize_one_def Let_def andThen_eq_Inr split: option.splits) blast
    qed
  qed
qed

lemma recognize_one_steps:
  assumes "recognize_one actor c ob previous s = Inr (r, t)"
  shows "ledger_step\<^sup>*\<^sup>* s t" "ledger_only s t"
proof -
  from recognize_one_cases [OF assms]
  have "s = t \<or> (\<exists>call e. create_entry call s = Inr (e, t))" by blast
  then show "ledger_step\<^sup>*\<^sup>* s t" "ledger_only s t"
    using step_create create_entry_cases(1) ledger_only_env(4) by blast+
qed

lemma recognize_many_steps:
  assumes "recognize_many cs actor s = Inr (rs, t)"
  shows "ledger_step\<^sup>*\<^sup>* s t \<and> ledger_only s t"
proof (cases "cs = []")
  case True
  with assms show ?thesis by (simp add: recognize_many_def)
next
  case False
  with assms have "fold_result (\<lambda>c (results, u).
            let i = f_id (fst c)
            in andThen (recognize_one actor c (latest_observation s i)
                 (previous_cycle_event s cs i) u) (\<lambda>(r, u'). Inr (results @ [r], u')))
          cs ([], s) = Inr (rs, t)"
    by (auto simp: recognize_many_def andThen_eq_Inr)
  then have "(\<lambda>(rs, u). ledger_step\<^sup>*\<^sup>* s u \<and> ledger_only s u) (rs, t)"
  proof (rule fold_result_invariant)
    show "(\<lambda>(rs, u). ledger_step\<^sup>*\<^sup>* s u \<and> ledger_only s u) ([], s)" by simp
  next
    fix c a b
    assume a: "(\<lambda>(rs, u). ledger_step\<^sup>*\<^sup>* s u \<and> ledger_only s u) a"
      and b:
      "(\<lambda>(results, u). let i = f_id (fst c)
            in andThen (recognize_one actor c (latest_observation s i)
                 (previous_cycle_event s cs i) u) (\<lambda>(r, u'). Inr (results @ [r], u'))) a = Inr b"
    obtain rs u where "a = (rs, u)" by fastforce
    with b obtain r u' where r: "recognize_one actor c (latest_observation s (f_id (fst c)))
        (previous_cycle_event s cs (f_id (fst c))) u = Inr (r, u')" "b = (rs @ [r], u')"
      by (auto simp: Let_def andThen_eq_Inr)
    from a \<open>a = (rs, u)\<close> have "ledger_step\<^sup>*\<^sup>* s u" "ledger_only s u" by simp_all
    with recognize_one_steps [OF r(1)] have "ledger_step\<^sup>*\<^sup>* s u'" "ledger_only s u'"
      by (blast intro: rtranclp_trans ledger_only_trans)+
    then show "(\<lambda>(rs, u). ledger_step\<^sup>*\<^sup>* s u \<and> ledger_only s u) b"
      by (simp add: r(2))
  qed
  then show ?thesis by simp
qed

lemma recognize_single:
  assumes "recognize_many [(f, ev)] actor s = Inr (rs, t)"
  shows "\<exists>r. rs = [r] \<and> se_opportunity_id ev = f_id f \<and>
    recognize_one actor (f, ev) (latest_observation s (f_id f))
      (previous_cycle_event s [(f, ev)] (f_id f)) s = Inr (r, t)"
  using assms
  by (auto simp: recognize_many_def andThen_eq_Inr validate_treatment_event_def Let_def)

text \<open>
  C25: A treatment is credited exactly as the policy says.  Recognizing the saving of a
  treatment event that has no ledger entry yet records a single new entry when the policy finds
  an eligible saving and none otherwise; the entry is a monthly saving, a credit, with the
  amount (to eight decimals) and the currency of the eligible saving, effective at the time of
  the decision, and it names the opportunity and the event.
\<close>

theorem recognized_saving_exact:
  assumes "recognize (f, ev) actor s = Inr (r, t)"
    and "find_by_key s (recognition_key ev) = None"
  shows "(case eligible_saving f (latest_observation s (f_id f))
                (previous_cycle_event s [(f, ev)] (f_id f)) of
      None \<Rightarrow> rg_reason r \<noteq> CREATED \<and> rg_entry r = None \<and> ledger t = ledger s
    | Some (a, cur) \<Rightarrow> rg_reason r = CREATED \<and>
        (\<exists>e. rg_entry r = Some e \<and> ledger t = ledger s @ [e] \<and>
           le_entry_type e = SAVING \<and> le_direction e = CREDIT \<and> le_periodicity e = MONTHLY \<and>
           le_source e = OPPORTUNITY \<and> le_amount e = numeric8 a \<and> le_currency e = cur \<and>
           le_effective_at e = aware (se_changed_at ev) \<and>
           le_opportunity_id e = Some (f_id f) \<and> le_source_event_id e = Some (se_id ev)))"
proof -
  from assms(1) obtain rs where "recognize_many [(f, ev)] actor s = Inr (rs, t)" "r = hd rs"
    by (auto simp: recognize_def andThen_eq_Inr)
  then have one: "recognize_one actor (f, ev) (latest_observation s (f_id f))
      (previous_cycle_event s [(f, ev)] (f_id f)) s = Inr (r, t)"
    using recognize_single by fastforce
  let ?ob = "latest_observation s (f_id f)"
  let ?el = "eligible_saving f ?ob (previous_cycle_event s [(f, ev)] (f_id f))"
  show ?thesis
  proof (cases ?el)
    case None
    with recognize_one_cases [OF one] show ?thesis by simp
  next
    case (Some p)
    then obtain a cur where el: "?el = Some (a, cur)" by (cases p) auto
    then have cur: "cur = snapshot_currency f ?ob" "currency_value cur = Inr cur"
      using currency_value_snapshot [of f ?ob]
      by (auto simp: eligible_saving_def split: option.splits if_splits)
    from recognize_one_cases [OF one] el obtain acc e where
      e: "create_entry (recognition_call (f, ev) ?ob actor a cur acc) s = Inr (e, t)"
      "rg_reason r = CREATED" "rg_entry r = Some e" by auto
    have key: "normalized_idempotency_key
        (ec_idempotency_key (recognition_call (f, ev) ?ob actor a cur acc)) =
      Some (recognition_key ev)" by simp
    have src: "source_value (ec_source (recognition_call (f, ev) ?ob actor a cur acc)) = Inr OPPORTUNITY"
      and am: "ec_amount (recognition_call (f, ev) ?ob actor a cur acc) = Finite a"
      by (simp_all add: recognition_call_def) code_simp
    note new = create_entry_fields [OF e(1) key assms(2) src am]
    have vals: "entry_type_value ''SAVING'' = Inr SAVING" "direction_value ''CREDIT'' = Inr CREDIT"
      "periodicity_value ''MONTHLY'' = Inr MONTHLY" by code_simp+
    show ?thesis
      using e(2,3) new cur(2) by (simp add: el recognition_call_def vals)
  qed
qed

text \<open>An opportunity just treated, with an observation, for the witness.\<close>

definition sample_event :: status_event where
  "sample_event = \<lparr>se_id = ''ev'', se_opportunity_id = ''f'', se_from_status = Open,
     se_to_status = Treated, se_action = ''treat'', se_reason = None, se_note = None,
     se_changed_by = Some ''u'', se_changed_at = Aware 5 0\<rparr>"

definition sample_user :: user where
  "sample_user = \<lparr>u_id = ''u'', u_name = ''User'', u_email = ''u@x''\<rparr>"

definition treated_db :: db where
  "treated_db = empty_db\<lparr>findings := [finding0 ''f''], status_history := [sample_event],
     cloud_accounts := [sample_account]\<rparr>"

lemma recognized_saving_witness:
  "\<exists>r t e. recognize (finding0 ''f'', sample_event) sample_user treated_db = Inr (r, t) \<and>
     rg_entry r = Some e \<and> ledger t = [e] \<and> le_amount e = numeric8 5"
proof -
  have "case recognize (finding0 ''f'', sample_event) sample_user treated_db of
      Inl _ \<Rightarrow> False | Inr (r, t) \<Rightarrow> rg_reason r = CREATED" by code_simp
  then obtain r t where r: "recognize (finding0 ''f'', sample_event) sample_user treated_db = Inr (r, t)"
    by (auto split: sum.splits)
  have none: "find_by_key treated_db (recognition_key sample_event) = None" by code_simp
  have el: "eligible_saving (finding0 ''f'') (latest_observation treated_db (f_id (finding0 ''f'')))
      (previous_cycle_event treated_db [(finding0 ''f'', sample_event)] (f_id (finding0 ''f''))) =
    Some (5, ''USD'')" by code_simp
  have "ledger treated_db = []" by (simp add: treated_db_def empty_db_def)
  with recognized_saving_exact [OF r none, unfolded el] r show ?thesis by auto
qed

end
