(* ===== verification/Lifecycle.thy ===== *)
theory Lifecycle
  imports Archiving Saving
begin

text \<open>
  Human decisions on opportunities (backend/app/services/opportunity_lifecycle.py): treat,
  reject and reopen, for one finding and in bulk, and the legacy status updates.  A decision
  appends one row to the status history; a treatment is handed to the recognition of savings;
  the dashboard summaries of the affected accounts are refreshed in the same transaction.
\<close>

section \<open>One finding\<close>

definition LEGACY_REJECTION_NOTE :: string where
  "LEGACY_REJECTION_NOTE = ''Legacy status update did not provide a rejection reason.''"

definition REJECTION_REASONS :: "string list" where
  "REJECTION_REASONS = [''FALSE_POSITIVE'', ''OPERATIONAL_EXCEPTION'', ''ACCEPTABLE_COST'',
     ''RESOURCE_REQUIRED'', ''RISK_ACCEPTED'', ''OTHER'']"

definition lifecycle_snapshot :: "db \<Rightarrow> finding \<Rightarrow> json" where
  "lifecycle_snapshot s f = audit_snapshot s
     [(''status'', JStr (status_text (f_status f))),
      (''rejection_reason'', jopt (f_rejection_reason f)),
      (''needs_review'', JBool (f_needs_review f))]"

definition record_lifecycle_audit ::
  "finding \<Rightarrow> user \<Rightarrow> string \<Rightarrow> json \<Rightarrow> json option \<Rightarrow> db \<Rightarrow> db result" where
  "record_lifecycle_audit f actor action before metadata s =
     record_audit (archive_audit (''opportunity.'' @ action) f (Some actor) before
       (lifecycle_snapshot s f) ''API'' metadata) s"

text \<open>\<open>_history\<close>: the event of a transition, with its identifier and time.\<close>

definition status_log :: "finding \<Rightarrow> user \<Rightarrow> opp_status \<Rightarrow> string \<Rightarrow> string option \<Rightarrow>
    string option \<Rightarrow> db \<Rightarrow> status_event \<times> db" where
  "status_log f actor to_status action reason note s =
     (let (now, s1) = utcnow s;
          (i, s2) = new_uuid s1;
          ev = \<lparr>se_id = i, se_opportunity_id = f_id f, se_from_status = f_status f,
            se_to_status = to_status, se_action = action, se_reason = reason, se_note = note,
            se_changed_by = Some (u_id actor), se_changed_at = now\<rparr>
      in (ev, s2\<lparr>status_history := status_history s2 @ [ev]\<rparr>))"

definition apply_treat ::
  "finding \<Rightarrow> user \<Rightarrow> string option \<Rightarrow> db \<Rightarrow> (finding \<times> status_event \<times> db) result" where
  "apply_treat f actor note s =
     andThen (guard (f_status f = Open)
       (HTTPException 409 ''Only open opportunities can be treated'')) (\<lambda>_.
     let (ev, s1) = status_log f actor Treated ''treat'' None note s;
         f' = f\<lparr>f_status := Treated, f_treated_at := Some (se_changed_at ev),
                f_treated_by := Some (u_id actor), f_treatment_note := note,
                f_needs_review := False\<rparr>
     in Inr (f', ev, put_finding f' s1))"

definition apply_reject ::
  "finding \<Rightarrow> user \<Rightarrow> string \<Rightarrow> string option \<Rightarrow> db \<Rightarrow> (finding \<times> db) result" where
  "apply_reject f actor reason note s =
     andThen (guard (f_status f = Open)
       (HTTPException 409 ''Only open opportunities can be rejected'')) (\<lambda>_.
     let (ev, s1) = status_log f actor Rejected ''reject'' (Some reason) note s;
         (now, s2) = utcnow s1;
         f' = f\<lparr>f_status := Rejected, f_rejected_at := Some now,
                f_rejected_by := Some (u_id actor), f_rejection_reason := Some reason,
                f_rejection_note := note, f_needs_review := False\<rparr>
     in Inr (f', put_finding f' s2))"

definition apply_reopen ::
  "finding \<Rightarrow> user \<Rightarrow> string option \<Rightarrow> db \<Rightarrow> (finding \<times> bool \<times> db) result" where
  "apply_reopen f actor note s =
     andThen (guard (f_status f \<in> {Treated, Rejected})
       (HTTPException 409 ''Only treated or rejected opportunities can be reopened'')) (\<lambda>_.
     let reopened_archived = (f_status f = Rejected \<and> f_archived_at f \<noteq> None)
     in andThen (if reopened_archived then unarchive_for_reopen f actor s else Inr (f, False, s))
          (\<lambda>(f1, _, s1).
        let (ev, s2) = status_log f1 actor Open ''reopen'' None note s1;
            f' = f1\<lparr>f_status := Open, f_needs_review := False\<rparr>
        in Inr (f', reopened_archived, put_finding f' s2)))"

definition recognize_treatments :: "candidate list \<Rightarrow> user \<Rightarrow> db \<Rightarrow> db result" where
  "recognize_treatments cs actor s =
     (if cs = [] then Inr s
      else andThen (recognize_many cs actor s) (\<lambda>(_, t). Inr t))"

definition treat :: "string \<Rightarrow> user \<Rightarrow> string option \<Rightarrow> db \<Rightarrow> (finding \<times> db) result" where
  "treat i actor note s =
     andThen (locked i s) (\<lambda>f.
     andThen (apply_treat f actor note s) (\<lambda>(f', ev, s1).
     andThen (recognize_treatments [(f', ev)] actor s1) (\<lambda>s2.
     andThen (refresh_summaries_for_findings [f'] s2) (\<lambda>(_, s3).
     andThen (record_lifecycle_audit f' actor ''treat'' (lifecycle_snapshot s f) None s3) (\<lambda>s4.
     Inr (f', s4))))))"

definition validate_rejection :: "string option \<Rightarrow> string option \<Rightarrow> unit result" where
  "validate_rejection reason note =
     andThen (guard (\<exists>r \<in> set REJECTION_REASONS. reason = Some r)
       (HTTPException 422 ''Unsupported rejection reason'')) (\<lambda>_.
     guard (\<not> (reason = Some ''OTHER'' \<and> strip (or_text note []) = []))
       (HTTPException 422 ''A note is required for OTHER''))"

definition reject :: "string \<Rightarrow> user \<Rightarrow> string \<Rightarrow> string option \<Rightarrow> db \<Rightarrow> (finding \<times> db) result" where
  "reject i actor reason note s =
     andThen (validate_rejection (Some reason) note) (\<lambda>_.
     andThen (locked i s) (\<lambda>f.
     andThen (apply_reject f actor reason note s) (\<lambda>(f', s1).
     andThen (refresh_summaries_for_findings [f'] s1) (\<lambda>(_, s2).
     andThen (record_lifecycle_audit f' actor ''reject'' (lifecycle_snapshot s f)
                (Some (JObj [(''reason'', JStr reason)])) s2) (\<lambda>s3.
     Inr (f', s3))))))"

definition reopen :: "string \<Rightarrow> user \<Rightarrow> string option \<Rightarrow> db \<Rightarrow> (finding \<times> db) result" where
  "reopen i actor note s =
     andThen (locked i s) (\<lambda>f.
     andThen (apply_reopen f actor note s) (\<lambda>(f', reopened_archived, s1).
     andThen (refresh_summaries_for_findings [f'] s1) (\<lambda>(_, s2).
     andThen (record_lifecycle_audit f' actor ''reopen'' (lifecycle_snapshot s f)
                (if reopened_archived
                 then Some (JObj [(''reopened_archived'', JBool True)]) else None) s2) (\<lambda>s3.
     Inr (f', s3)))))"

section \<open>Many findings\<close>

text \<open>The rows of the requested identifiers, in the order of the request.\<close>

definition load_all :: "string list \<Rightarrow> db \<Rightarrow> finding list result" where
  "load_all ids s =
     andThen (guard (list_all (\<lambda>i. get_finding i s \<noteq> None) ids)
       (HTTPException 404 ''Uma ou mais oportunidades nao existem.'')) (\<lambda>_.
     Inr (map (\<lambda>i. the (get_finding i s)) ids))"

text \<open>
  The state of the loop: the updated rows, the treatment candidates, the number of findings
  that a reopen took out of the archive, and the database.
\<close>

type_synonym bulk_state = "finding list \<times> candidate list \<times> nat \<times> db"

definition bulk_step :: "string \<Rightarrow> user \<Rightarrow> string option \<Rightarrow> string option \<Rightarrow> finding \<Rightarrow>
    bulk_state \<Rightarrow> bulk_state result" where
  "bulk_step action actor reason note f st = (case st of (done, cands, n, s) \<Rightarrow>
     if action = ''treat'' then
       andThen (apply_treat f actor note s) (\<lambda>(f', ev, s').
       Inr (done @ [f'], cands @ [(f', ev)], n, s'))
     else if action = ''reject'' then
       andThen (apply_reject f actor (or_text reason []) note s) (\<lambda>(f', s').
       Inr (done @ [f'], cands, n, s'))
     else
       andThen (apply_reopen f actor note s) (\<lambda>(f', reopened, s').
       Inr (done @ [f'], cands, n + (if reopened then 1 else 0), s')))"

definition bulk_metadata :: "string list \<Rightarrow> finding list \<Rightarrow> string option \<Rightarrow> nat \<Rightarrow> json" where
  "bulk_metadata ids ordered reason reopened =
     JObj ([(''requested'', JInt (int (length ids))),
            (''updated'', JInt (int (length ordered))),
            (''sample_ids'', JList (map (\<lambda>f. JStr (f_id f)) (take 20 ordered))),
            (''ids_truncated'', JBool (length (take 20 ordered) < length ordered))]
           @ (if truthy reason then [(''reason'', JStr (the reason))] else [])
           @ (if reopened \<noteq> 0 then [(''reopened_archived'', JInt (int reopened))] else []))"

definition bulk_audit :: "string \<Rightarrow> user \<Rightarrow> finding list \<Rightarrow> json \<Rightarrow> string \<Rightarrow> audit_call" where
  "bulk_audit action actor ordered metadata correlation =
     audit_call0\<lparr>ac_actor := Some actor, ac_module := ''opportunities'',
       ac_action := ''opportunity.bulk_'' @ action, ac_entity_type := ''opportunity_bulk'',
       ac_entity_label := Some (show_nat (length ordered) @ '' oportunidades''),
       ac_source := ''API'', ac_metadata := Some metadata,
       ac_correlation_id := Some correlation\<rparr>"

text \<open>What both bulk operations do after their loop.\<close>

definition bulk_finish :: "string \<Rightarrow> user \<Rightarrow> string option \<Rightarrow> string list \<Rightarrow> bulk_state \<Rightarrow>
    (finding list \<times> db) result" where
  "bulk_finish action actor reason ids st = (case st of (ordered, cands, reopened, s) \<Rightarrow>
     andThen (recognize_treatments cands actor s) (\<lambda>s1.
     andThen (refresh_summaries_for_findings ordered s1) (\<lambda>(_, s2).
     let (correlation, s3) = new_uuid s2
     in andThen (record_audit (bulk_audit action actor ordered
          (bulk_metadata ids ordered reason reopened) correlation) s3) (\<lambda>s4.
        Inr (ordered, s4)))))"

definition bulk_transition :: "string list \<Rightarrow> user \<Rightarrow> string \<Rightarrow> string option \<Rightarrow>
    string option \<Rightarrow> db \<Rightarrow> (finding list \<times> db) result" where
  "bulk_transition opportunity_ids actor action reason note s =
     (let ids = dedup opportunity_ids
      in andThen (if action = ''reject'' then validate_rejection reason note else Inr ()) (\<lambda>_.
         andThen (guard (action \<in> {''treat'', ''reject'', ''reopen''})
           (HTTPException 422 ''Unsupported opportunity action'')) (\<lambda>_.
         andThen (load_all ids s) (\<lambda>ordered.
         andThen (fold_result (bulk_step action actor reason note) ordered ([], [], 0, s))
           (bulk_finish action actor reason ids)))))"

section \<open>Legacy status updates\<close>

definition legacy_target :: "string \<Rightarrow> opp_status result" where
  "legacy_target st =
     (if st = ''accepted'' \<or> st = ''treated'' then Inr Treated
      else if st = ''dismissed'' \<or> st = ''rejected'' then Inr Rejected
      else if st = ''open'' then Inr Open
      else Inl (KeyError st))"

definition legacy_action :: "opp_status \<Rightarrow> string" where
  "legacy_action target =
     (if target = Open then ''reopen'' else if target = Treated then ''treat'' else ''reject'')"

definition apply_legacy_status :: "finding \<Rightarrow> user \<Rightarrow> string \<Rightarrow> string option \<Rightarrow>
    string option \<Rightarrow> db \<Rightarrow> (finding \<times> status_event option \<times> db) result" where
  "apply_legacy_status f actor st reason note s =
     andThen (legacy_target st) (\<lambda>target.
     if f_status f = target then Inr (f, None, s)
     else if target = Open then
       andThen (apply_reopen f actor note s) (\<lambda>(f', _, s'). Inr (f', None, s'))
     else if target = Treated then
       andThen (apply_treat f actor note s) (\<lambda>(f', ev, s'). Inr (f', Some ev, s'))
     else
       let (rejection_reason, rejection_note) =
             (case reason of
                Some r \<Rightarrow> (r, note)
              | None \<Rightarrow> (''OTHER'', Some (or_text note LEGACY_REJECTION_NOTE)))
       in andThen (validate_rejection (Some rejection_reason) rejection_note) (\<lambda>_.
          andThen (apply_reject f actor rejection_reason rejection_note s) (\<lambda>(f', s').
          Inr (f', None, s'))))"

definition reason_metadata :: "string option \<Rightarrow> json option" where
  "reason_metadata reason =
     (if truthy reason then Some (JObj [(''reason'', JStr (the reason))]) else None)"

definition set_legacy_status :: "string \<Rightarrow> user \<Rightarrow> string \<Rightarrow> string option \<Rightarrow> string option \<Rightarrow>
    db \<Rightarrow> (finding \<times> db) result" where
  "set_legacy_status i actor st reason note s =
     andThen (locked i s) (\<lambda>f.
     let before = lifecycle_snapshot s f
     in andThen (apply_legacy_status f actor st reason note s) (\<lambda>(f', event, s1).
        andThen (case event of None \<Rightarrow> Inr s1
                 | Some ev \<Rightarrow> recognize_treatments [(f', ev)] actor s1) (\<lambda>s2.
        andThen (refresh_summaries_for_findings [f'] s2) (\<lambda>(_, s3).
        if before = lifecycle_snapshot s3 f' then Inr (f', s3)
        else andThen (legacy_target st) (\<lambda>target.
             andThen (record_lifecycle_audit f' actor (legacy_action target) before
                        (reason_metadata reason) s3) (\<lambda>s4.
             Inr (f', s4)))))))"

definition legacy_step :: "opp_status \<Rightarrow> user \<Rightarrow> string \<Rightarrow> string option \<Rightarrow> string option \<Rightarrow>
    finding \<Rightarrow> bulk_state \<Rightarrow> bulk_state result" where
  "legacy_step target actor st reason note f bs = (case bs of (done, cands, n, s) \<Rightarrow>
     let was_rejected_archived =
           (target = Open \<and> f_status f = Rejected \<and> f_archived_at f \<noteq> None)
     in andThen (apply_legacy_status f actor st reason note s) (\<lambda>(f', event, s').
        Inr (done @ [f'],
             cands @ (case event of None \<Rightarrow> [] | Some ev \<Rightarrow> [(f', ev)]),
             n + (if was_rejected_archived then 1 else 0), s')))"

definition bulk_set_legacy_status :: "string list \<Rightarrow> user \<Rightarrow> string \<Rightarrow> string option \<Rightarrow>
    string option \<Rightarrow> db \<Rightarrow> (finding list \<times> db) result" where
  "bulk_set_legacy_status opportunity_ids actor st reason note s =
     (let ids = dedup opportunity_ids
      in andThen (load_all ids s) (\<lambda>ordered.
         andThen (legacy_target st) (\<lambda>target.
         andThen (fold_result (legacy_step target actor st reason note) ordered ([], [], 0, s))
           (bulk_finish (legacy_action target) actor reason ids))))"

section \<open>Decisions\<close>

text \<open>The tables that bookkeeping (ledger, summaries, audit, environment) leaves alone.\<close>

definition core_eq :: "db \<Rightarrow> db \<Rightarrow> bool" where
  "core_eq s t \<longleftrightarrow> findings t = findings s \<and> status_history t = status_history s \<and>
     observations t = observations s \<and> collection_runs t = collection_runs s \<and>
     presence_history t = presence_history s \<and> scope_executions t = scope_executions s \<and>
     cloud_accounts t = cloud_accounts s"

lemma core_eq_refl [simp]: "core_eq s s"
  by (simp add: core_eq_def)

lemma core_eq_trans: "core_eq s t \<Longrightarrow> core_eq t u \<Longrightarrow> core_eq s u"
  by (simp add: core_eq_def)

lemma core_eq_source: "same_source s t \<Longrightarrow> core_eq s t"
  by (simp add: core_eq_def same_source_tables)

lemma core_eq_audit: "record_audit c s = Inr t \<Longrightarrow> core_eq s t"
  by (simp add: core_eq_def)

lemma ledger_onlyD:
  assumes "ledger_only s t"
  shows "core_eq s t" "archive_history t = archive_history s" "summaries t = summaries s"
    "audit_events t = audit_events s"
proof -
  have s: "s = t\<lparr>ledger := ledger s, ticks := ticks s, uuids := uuids s\<rparr>"
    using assms by (simp add: ledger_only_def)
  show "core_eq s t" "archive_history t = archive_history s" "summaries t = summaries s"
    "audit_events t = audit_events s"
    by (subst s, simp add: core_eq_def)+
qed

text \<open>
  One decision: the row of the finding is replaced, one event records who changed its status
  from what to what, and the fields a decision does not own stay as they were.
\<close>

definition same_observed_data :: "finding \<Rightarrow> finding \<Rightarrow> bool" where
  "same_observed_data f g \<longleftrightarrow>
     g\<lparr>f_status := f_status f, f_treated_at := f_treated_at f, f_treated_by := f_treated_by f,
       f_treatment_note := f_treatment_note f, f_rejected_at := f_rejected_at f,
       f_rejected_by := f_rejected_by f, f_rejection_reason := f_rejection_reason f,
       f_rejection_note := f_rejection_note f, f_needs_review := f_needs_review f,
       f_archived_at := f_archived_at f, f_archived_by := f_archived_by f,
       f_archive_reason := f_archive_reason f\<rparr> = f"

fun transition :: "opp_status \<Rightarrow> opp_status \<Rightarrow> string \<Rightarrow> bool" where
  "transition Open Treated a \<longleftrightarrow> a = ''treat''"
| "transition Open Rejected a \<longleftrightarrow> a = ''reject''"
| "transition Treated Open a \<longleftrightarrow> a = ''reopen''"
| "transition Rejected Open a \<longleftrightarrow> a = ''reopen''"
| "transition _ _ _ \<longleftrightarrow> False"

definition event_of_decision :: "user \<Rightarrow> finding \<Rightarrow> finding \<Rightarrow> status_event \<Rightarrow> bool" where
  "event_of_decision actor f f' ev \<longleftrightarrow>
     se_opportunity_id ev = f_id f \<and> se_from_status ev = f_status f \<and>
     se_to_status ev = f_status f' \<and> se_changed_by ev = Some (u_id actor) \<and>
     transition (f_status f) (f_status f') (se_action ev)"

definition archive_kept :: "finding \<Rightarrow> finding \<Rightarrow> bool" where
  "archive_kept f f' \<longleftrightarrow>
     (f_archived_at f' = f_archived_at f \<and> f_archived_by f' = f_archived_by f \<and>
      f_archive_reason f' = f_archive_reason f) \<or>
     (f_status f = Rejected \<and> f_status f' = Open \<and> f_archived_at f' = None \<and>
      f_archived_by f' = None \<and> f_archive_reason f' = None)"

definition decision :: "user \<Rightarrow> finding \<Rightarrow> finding \<Rightarrow> db \<Rightarrow> db \<Rightarrow> bool" where
  "decision actor f f' s t \<longleftrightarrow>
     f_id f' = f_id f \<and> same_observed_data f f' \<and> archive_kept f f' \<and>
     \<not> f_needs_review f' \<and> findings t = put_row f_id f' (findings s) \<and>
     (\<exists>ev. status_history t = status_history s @ [ev] \<and> event_of_decision actor f f' ev) \<and>
     observations t = observations s \<and> collection_runs t = collection_runs s \<and>
     presence_history t = presence_history s \<and> scope_executions t = scope_executions s \<and>
     cloud_accounts t = cloud_accounts s"

lemma decision_core:
  "decision actor f f' s t \<Longrightarrow> core_eq t u \<Longrightarrow> decision actor f f' s u"
  "core_eq s r \<Longrightarrow> decision actor f f' r t \<Longrightarrow> decision actor f f' s t"
  by (simp_all add: decision_def core_eq_def)

lemma status_log_effect:
  assumes "status_log f actor to_status action reason note s = (ev, t)"
  shows "status_history t = status_history s @ [ev]" "se_opportunity_id ev = f_id f"
    "se_from_status ev = f_status f" "se_to_status ev = to_status" "se_action ev = action"
    "se_changed_by ev = Some (u_id actor)" "se_id ev = uuid4 s (uuids s)"
    "findings t = findings s" "observations t = observations s"
    "collection_runs t = collection_runs s" "presence_history t = presence_history s"
    "scope_executions t = scope_executions s" "cloud_accounts t = cloud_accounts s"
    "ledger t = ledger s" "archive_history t = archive_history s" "audit_events t = audit_events s"
    "summaries t = summaries s"
  using assms by (auto simp: status_log_def env_defs Let_def)

lemma put_finding_more [simp]:
  "scope_executions (put_finding f s) = scope_executions s"
  "cloud_accounts (put_finding f s) = cloud_accounts s"
  by (simp_all add: put_finding_def)

lemma apply_treat_effect:
  assumes "apply_treat f actor note s = Inr (f', ev, t)"
  shows "decision actor f f' s t" "f_status f = Open" "f_status f' = Treated"
    "status_history t = status_history s @ [ev]" "event_of_decision actor f f' ev"
    "se_action ev = ''treat''" "se_id ev = uuid4 s (uuids s)" "ledger t = ledger s"
    "archive_history t = archive_history s" "observations t = observations s"
proof -
  let ?log = "status_log f actor Treated ''treat'' None note s"
  obtain ev1 s1 where l: "?log = (ev1, s1)" by fastforce
  note e = status_log_effect [OF l]
  from assms l have st: "f_status f = Open"
    and f': "f' = f\<lparr>f_status := Treated, f_treated_at := Some (se_changed_at ev),
                f_treated_by := Some (u_id actor), f_treatment_note := note,
                f_needs_review := False\<rparr>"
    and t: "t = put_finding f' s1" and ev: "ev = ev1"
    by (auto simp: apply_treat_def andThen_eq_Inr Let_def)
  show "f_status f = Open" by (rule st)
  show to: "f_status f' = Treated" by (simp add: f')
  show evd: "event_of_decision actor f f' ev"
    using e st by (simp add: event_of_decision_def ev to)
  show "status_history t = status_history s @ [ev]" using e by (simp add: t ev)
  show "se_action ev = ''treat''" "se_id ev = uuid4 s (uuids s)" "ledger t = ledger s"
    "archive_history t = archive_history s" "observations t = observations s"
    using e by (simp_all add: t ev)
  show "decision actor f f' s t"
    using e evd by (auto simp: decision_def t ev same_observed_data_def archive_kept_def f')
qed

lemma apply_reject_effect:
  assumes "apply_reject f actor reason note s = Inr (f', t)"
  shows "decision actor f f' s t" "f_status f = Open" "f_status f' = Rejected"
    "f_rejection_reason f' = Some reason" "ledger t = ledger s" "archive_history t = archive_history s"
proof -
  obtain ev s1 where l: "status_log f actor Rejected ''reject'' (Some reason) note s = (ev, s1)"
    by fastforce
  note e = status_log_effect [OF l]
  from assms l have st: "f_status f = Open"
    and f': "f' = f\<lparr>f_status := Rejected, f_rejected_at := Some (fst (utcnow s1)),
                f_rejected_by := Some (u_id actor), f_rejection_reason := Some reason,
                f_rejection_note := note, f_needs_review := False\<rparr>"
    and t: "t = put_finding f' (snd (utcnow s1))"
    by (auto simp: apply_reject_def andThen_eq_Inr Let_def case_prod_beta)
  show "f_status f = Open" by (rule st)
  show to: "f_status f' = Rejected" "f_rejection_reason f' = Some reason" by (simp_all add: f')
  have evd: "event_of_decision actor f f' ev"
    using e st by (simp add: event_of_decision_def to)
  show "ledger t = ledger s" "archive_history t = archive_history s"
    using e by (simp_all add: t utcnow_def)
  show "decision actor f f' s t"
    using e evd by (auto simp: decision_def t utcnow_def same_observed_data_def archive_kept_def f')
qed

lemma unarchive_for_reopen_effect:
  assumes "unarchive_for_reopen f actor s = Inr (f1, b, t)" "f_archived_at f \<noteq> None"
  shows "f1 = unarchived f" "findings t = put_row f_id f1 (findings s)"
    "status_history t = status_history s" "observations t = observations s"
    "collection_runs t = collection_runs s" "presence_history t = presence_history s"
    "scope_executions t = scope_executions s" "cloud_accounts t = cloud_accounts s"
    "ledger t = ledger s" "length (archive_history t) = Suc (length (archive_history s))"
    "\<exists>ev. archive_history t = archive_history s @ [ev]"
proof -
  let ?s1 = "archive_log (unarchived f) UNARCHIVE MANUAL (Some (u_id actor)) None
    (archived_state f [(''trigger'', JStr ''reopen'')]) None (put_finding (unarchived f) s)"
  from assms(1) obtain c where c: "record_audit c ?s1 = Inr t" and f1: "f1 = unarchived f"
    unfolding unarchive_for_reopen_def Let_def if_not_P [OF assms(2)] andThen_eq_Inr
      sum.inject prod.inject
    by blast
  show "f1 = unarchived f" by (rule f1)
  have "scope_executions ?s1 = scope_executions s" "cloud_accounts ?s1 = cloud_accounts s"
    by (simp_all add: archive_log_def utcnow_def)
  then show "findings t = put_row f_id f1 (findings s)"
    "status_history t = status_history s" "observations t = observations s"
    "collection_runs t = collection_runs s" "presence_history t = presence_history s"
    "scope_executions t = scope_executions s" "cloud_accounts t = cloud_accounts s"
    "ledger t = ledger s"
    using record_audit_frame [OF c] f1 by simp_all
  show "\<exists>ev. archive_history t = archive_history s @ [ev]"
    using archive_log_history [of "unarchived f" UNARCHIVE MANUAL "Some (u_id actor)" None
        "archived_state f [(''trigger'', JStr ''reopen'')]" None "put_finding (unarchived f) s"]
    unfolding record_audit_frame(3) [OF c] put_finding_simps by blast
  then show "length (archive_history t) = Suc (length (archive_history s))" by auto
qed

lemma apply_reopen_effect:
  assumes "apply_reopen f actor note s = Inr (f', b, t)"
  shows "decision actor f f' s t" "f_status f \<in> {Treated, Rejected}" "f_status f' = Open"
    "ledger t = ledger s" "b \<longleftrightarrow> f_status f = Rejected \<and> f_archived_at f \<noteq> None"
    "f_status f = Rejected \<Longrightarrow> f_archived_at f' = None"
    "\<exists>evs. archive_history t = archive_history s @ evs \<and> length evs = (if b then 1 else 0)"
proof -
  let ?arch = "f_status f = Rejected \<and> f_archived_at f \<noteq> None"
  from assms have st: "f_status f \<in> {Treated, Rejected}" by (auto simp: apply_reopen_def andThen_eq_Inr)
  from assms obtain f1 b1 s1 where
    u: "(if ?arch then unarchive_for_reopen f actor s else Inr (f, False, s)) = Inr (f1, b1, s1)"
    and rest: "(let (ev, s2) = status_log f1 actor Open ''reopen'' None note s1;
            f' = f1\<lparr>f_status := Open, f_needs_review := False\<rparr>
        in Inr (f', ?arch, put_finding f' s2)) = (Inr (f', b, t) :: (finding \<times> bool \<times> db) result)"
    unfolding apply_reopen_def Let_def andThen_eq_Inr by auto
  obtain ev s2 where l: "status_log f1 actor Open ''reopen'' None note s1 = (ev, s2)" by fastforce
  note e = status_log_effect [OF l]
  from rest l have f': "f' = f1\<lparr>f_status := Open, f_needs_review := False\<rparr>"
    and t: "t = put_finding f' s2" and b: "b \<longleftrightarrow> ?arch" by (auto simp: Let_def)
  show "f_status f \<in> {Treated, Rejected}" by (rule st)
  show "f_status f' = Open" by (simp add: f')
  show "b \<longleftrightarrow> ?arch" by (rule b)
  have u': "(?arch \<and> unarchive_for_reopen f actor s = Inr (f1, b1, s1)) \<or>
      (\<not> ?arch \<and> f1 = f \<and> s1 = s)"
    using u by (cases ?arch) (simp_all only: if_True if_False sum.inject prod.inject simp_thms)
  then have cases: "(?arch \<and> f1 = unarchived f \<and> findings s1 = put_row f_id f1 (findings s)) \<or>
      (\<not> ?arch \<and> f1 = f \<and> findings s1 = findings s)"
    using unarchive_for_reopen_effect(1,2) by blast
  from u' have same: "status_history s1 = status_history s" "observations s1 = observations s"
    "collection_runs s1 = collection_runs s" "presence_history s1 = presence_history s"
    "scope_executions s1 = scope_executions s" "cloud_accounts s1 = cloud_accounts s"
    "ledger s1 = ledger s"
    using unarchive_for_reopen_effect(3-9) [of f actor s f1 b1 s1] by blast+
  have arch: "\<exists>evs. archive_history s1 = archive_history s @ evs \<and> length evs = (if ?arch then 1 else 0)"
  proof (cases ?arch)
    case True
    then obtain ev where "archive_history s1 = archive_history s @ [ev]"
      using u' unarchive_for_reopen_effect(11) by blast
    then show ?thesis using True by (intro exI [of _ "[ev]"]) simp
  next
    case False
    then have "s1 = s" using u' by blast
    then show ?thesis using False by (intro exI [of _ "[]"]) simp
  qed
  show "ledger t = ledger s" using e same by (simp add: t)
  show "\<exists>evs. archive_history t = archive_history s @ evs \<and> length evs = (if b then 1 else 0)"
    using arch e by (simp add: t b)
  show "f_archived_at f' = None" if "f_status f = Rejected"
    using cases that by (auto simp: f' unarchived_def)
  have evd: "event_of_decision actor f f' ev"
    using e st cases by (auto simp: event_of_decision_def f' unarchived_def)
  have "findings t = put_row f_id f' (findings s)"
    using cases e by (auto simp: t f' unarchived_def put_row_put_row)
  moreover have "archive_kept f f'" using cases by (auto simp: archive_kept_def f' unarchived_def)
  moreover have "same_observed_data f f'" "f_id f' = f_id f"
    using cases by (auto simp: same_observed_data_def f' unarchived_def)
  moreover have "status_history t = status_history s @ [ev]" using e same by (simp add: t)
  ultimately show "decision actor f f' s t"
    using e same evd by (auto simp: decision_def t f')
qed

section \<open>Sequences of decisions\<close>

inductive decisions :: "user \<Rightarrow> (finding \<times> finding) list \<Rightarrow> db \<Rightarrow> db \<Rightarrow> bool" for actor where
  none_decided: "core_eq s t \<Longrightarrow> decisions actor [] s t"
| one_decided: "decision actor f f' s t \<Longrightarrow> decisions actor ps t u \<Longrightarrow>
    decisions actor ((f, f') # ps) s u"

inductive_simps decisions_Nil [simp]: "decisions actor [] s t"
inductive_simps decisions_Cons: "decisions actor ((f, f') # ps) s u"

lemma decisions_core: "decisions actor ps s t \<Longrightarrow> core_eq t u \<Longrightarrow> decisions actor ps s u"
  by (induction rule: decisions.induct) (auto intro: decisions.intros core_eq_trans)

lemma decisions_snoc:
  "decisions actor ps s t \<Longrightarrow> decision actor f f' t u \<Longrightarrow> decisions actor (ps @ [(f, f')]) s u"
proof (induction rule: decisions.induct)
  case (none_decided s t)
  then have "decision actor f f' s u" by (blast intro: decision_core)
  then show ?case by (simp add: decisions_Cons) (blast intro: core_eq_refl)
next
  case (one_decided g g' s t ps u')
  then show ?case by (auto intro: decisions.one_decided)
qed

text \<open>What a sequence of decisions on different findings does to the two tables.\<close>

lemma decisions_keys: "decisions actor ps s t \<Longrightarrow> map f_id (findings t) = map f_id (findings s)"
  by (induction rule: decisions.induct) (simp_all add: core_eq_def decision_def put_row_keys)

lemma get_after_decision:
  assumes "decision actor f f' s t"
  shows "get_finding i t =
    (if i = f_id f then map_option (\<lambda>_. f') (get_finding i s) else get_finding i s)"
  using assms by (simp add: decision_def get_finding_def find_row_put_row)

lemma decisions_rows:
  assumes "decisions actor ps s t" "distinct (map (f_id \<circ> fst) ps)"
    and "\<forall>(f, f') \<in> set ps. get_finding (f_id f) s = Some f"
  shows "(\<forall>(f, f') \<in> set ps. get_finding (f_id f) t = Some f') \<and>
    (\<forall>i. i \<notin> (f_id \<circ> fst) ` set ps \<longrightarrow> get_finding i t = get_finding i s)"
  using assms
proof (induction rule: decisions.induct)
  case (none_decided s t)
  then show ?case by (simp add: core_eq_def get_finding_def)
next
  case (one_decided f f' s t ps u)
  note get = get_after_decision [OF one_decided.hyps(1)]
  have "\<forall>(g, g') \<in> set ps. get_finding (f_id g) t = Some g"
  proof safe
    fix g g' assume g: "(g, g') \<in> set ps"
    then have "f_id g \<in> (f_id \<circ> fst) ` set ps" by (metis comp_apply fst_conv image_eqI)
    moreover have "f_id f \<notin> (f_id \<circ> fst) ` set ps"
      using one_decided.prems(1) by (simp add: comp_def)
    ultimately have "f_id g \<noteq> f_id f" by metis
    moreover have "get_finding (f_id g) s = Some g" using one_decided.prems(2) g by auto
    ultimately show "get_finding (f_id g) t = Some g" by (simp add: get)
  qed
  moreover have dist: "distinct (map (f_id \<circ> fst) ps)" and new: "f_id f \<notin> (f_id \<circ> fst) ` set ps"
    using one_decided.prems(1) by (simp_all add: comp_def)
  ultimately have rows: "\<forall>(g, g') \<in> set ps. get_finding (f_id g) u = Some g'"
    and other: "\<forall>i. i \<notin> (f_id \<circ> fst) ` set ps \<longrightarrow> get_finding i u = get_finding i t"
    using one_decided.IH by blast+
  have "get_finding (f_id f) s = Some f" using one_decided.prems(2) by simp
  then have "get_finding (f_id f) u = Some f'" using other new by (simp add: get)
  moreover have "get_finding i u = get_finding i s" if "i \<notin> (f_id \<circ> fst) ` set ((f, f') # ps)" for i
    using that other by (simp add: get)
  ultimately show ?case using rows by simp
qed

lemma decisions_events:
  assumes "decisions actor ps s t"
  shows "\<exists>evs. status_history t = status_history s @ evs \<and>
    list_all2 (\<lambda>(f, f') ev. event_of_decision actor f f' ev) ps evs"
  using assms
proof (induction rule: decisions.induct)
  case (none_decided s t)
  then show ?case by (simp add: core_eq_def)
next
  case (one_decided f f' s t ps u)
  from one_decided.hyps(1) obtain ev where "status_history t = status_history s @ [ev]"
    "event_of_decision actor f f' ev" by (auto simp: decision_def)
  with one_decided.IH show ?case by auto
qed

text \<open>The steps after the decisions leave the decided tables alone.\<close>

lemma recognize_treatments_steps:
  assumes "recognize_treatments cs actor s = Inr t"
  shows "core_eq s t" "archive_history t = archive_history s" "ledger_step\<^sup>*\<^sup>* s t"
    "audit_events t = audit_events s" "summaries t = summaries s"
proof -
  from assms have "s = t \<or> (\<exists>rs. recognize_many cs actor s = Inr (rs, t))"
    by (auto simp: recognize_treatments_def andThen_eq_Inr split: if_splits)
  then have "ledger_step\<^sup>*\<^sup>* s t \<and> ledger_only s t"
    using recognize_many_steps by auto
  then show "core_eq s t" "archive_history t = archive_history s" "ledger_step\<^sup>*\<^sup>* s t"
    "audit_events t = audit_events s" "summaries t = summaries s"
    using ledger_onlyD by blast+
qed

lemma refresh_steps:
  assumes "refresh_summaries_for_findings fs s = Inr (n, t)"
  shows "same_source s t" "core_eq s t"
proof -
  from refresh_exists obtain m u where
    "refresh_summaries_for_findings fs s = Inr (m, u)" "same_source s u" by blast
  with assms show "same_source s t" "core_eq s t" by (auto intro: core_eq_source)
qed

lemma treat_effect:
  assumes "treat i actor note s = Inr (f', t)"
  obtains f s1 ev s2 where "get_finding i s = Some f" "apply_treat f actor note s = Inr (f', ev, s1)"
    "recognize_treatments [(f', ev)] actor s1 = Inr s2"
    "core_eq s2 t" "ledger t = ledger s2" "archive_history t = archive_history s2"
    "\<exists>e. audit_events t = audit_events s2 @ [e]" "decisions actor [(f, f')] s t"
proof -
  from assms obtain f ev s1 s2 n s3 where
    f: "locked i s = Inr f" and a: "apply_treat f actor note s = Inr (f', ev, s1)"
    and r: "recognize_treatments [(f', ev)] actor s1 = Inr s2"
    and q: "refresh_summaries_for_findings [f'] s2 = Inr (n, s3)"
    and u: "record_lifecycle_audit f' actor ''treat'' (lifecycle_snapshot s f) None s3 = Inr t"
    by (auto simp: treat_def andThen_eq_Inr)
  note u' = u [unfolded record_lifecycle_audit_def]
  have st: "core_eq s2 t" using refresh_steps(2) [OF q] core_eq_audit [OF u'] by (rule core_eq_trans)
  have led: "ledger t = ledger s2" "archive_history t = archive_history s2"
    using same_source_tables(3,4) [OF refresh_steps(1) [OF q]] record_audit_frame [OF u'] by simp_all
  have aud: "\<exists>e. audit_events t = audit_events s2 @ [e]"
    using record_audit_appends [OF u'] same_source_tables(7) [OF refresh_steps(1) [OF q]] by auto
  have "decisions actor [(f, f')] s s1"
    using apply_treat_effect(1) [OF a] by (auto simp: decisions_Cons)
  then have "decisions actor [(f, f')] s t"
    using recognize_treatments_steps(1) [OF r] st by (blast intro: decisions_core)
  with f a r st led aud that show thesis by (auto simp: locked_eq)
qed

lemma reject_effect:
  assumes "reject i actor reason note s = Inr (f', t)"
  obtains f where "get_finding i s = Some f" "f_status f = Open" "f_status f' = Rejected"
    "f_rejection_reason f' = Some reason" "decisions actor [(f, f')] s t" "ledger t = ledger s"
    "archive_history t = archive_history s" "\<exists>e. audit_events t = audit_events s @ [e]"
proof -
  from assms obtain f s1 n s2 where
    f: "locked i s = Inr f" and a: "apply_reject f actor reason note s = Inr (f', s1)"
    and q: "refresh_summaries_for_findings [f'] s1 = Inr (n, s2)"
    and u: "record_lifecycle_audit f' actor ''reject'' (lifecycle_snapshot s f)
      (Some (JObj [(''reason'', JStr reason)])) s2 = Inr t"
    by (auto simp: reject_def andThen_eq_Inr)
  note u' = u [unfolded record_lifecycle_audit_def]
  note e = apply_reject_effect [OF a]
  have "core_eq s1 t" using refresh_steps(2) [OF q] core_eq_audit [OF u'] by (rule core_eq_trans)
  moreover have "decisions actor [(f, f')] s s1" using e(1) by (auto simp: decisions_Cons)
  ultimately have "decisions actor [(f, f')] s t" by (blast intro: decisions_core)
  moreover have "ledger t = ledger s" "archive_history t = archive_history s"
    using e same_source_tables(3,4) [OF refresh_steps(1) [OF q]] record_audit_frame [OF u']
    by simp_all
  moreover have "audit_events s1 = audit_events s"
    using a by (auto simp: apply_reject_def andThen_eq_Inr Let_def case_prod_beta utcnow_def
        status_log_def new_uuid_def)
  then have "\<exists>e. audit_events t = audit_events s @ [e]"
    using record_audit_appends [OF u'] same_source_tables(7) [OF refresh_steps(1) [OF q]] by auto
  ultimately show thesis using f e that by (auto simp: locked_eq)
qed

lemma reopen_effect:
  assumes "reopen i actor note s = Inr (f', t)"
  obtains f b s1 where "get_finding i s = Some f" "apply_reopen f actor note s = Inr (f', b, s1)"
    "core_eq s1 t" "ledger t = ledger s" "archive_history t = archive_history s1"
    "\<exists>e. audit_events t = audit_events s1 @ [e]" "decisions actor [(f, f')] s t"
proof -
  from assms obtain f b s1 n s2 where
    f: "locked i s = Inr f" and a: "apply_reopen f actor note s = Inr (f', b, s1)"
    and q: "refresh_summaries_for_findings [f'] s1 = Inr (n, s2)"
    and u: "record_lifecycle_audit f' actor ''reopen'' (lifecycle_snapshot s f)
      (if b then Some (JObj [(''reopened_archived'', JBool True)]) else None) s2 = Inr t"
    by (auto simp: reopen_def andThen_eq_Inr)
  note u' = u [unfolded record_lifecycle_audit_def]
  note e = apply_reopen_effect [OF a]
  have st: "core_eq s1 t" using refresh_steps(2) [OF q] core_eq_audit [OF u'] by (rule core_eq_trans)
  moreover have "decisions actor [(f, f')] s s1" using e(1) by (auto simp: decisions_Cons)
  ultimately have "decisions actor [(f, f')] s t" by (blast intro: decisions_core)
  moreover have "ledger t = ledger s" "archive_history t = archive_history s1"
    using e same_source_tables(3,4) [OF refresh_steps(1) [OF q]] record_audit_frame [OF u']
    by simp_all
  moreover have "\<exists>e. audit_events t = audit_events s1 @ [e]"
    using record_audit_appends [OF u'] same_source_tables(7) [OF refresh_steps(1) [OF q]] by auto
  ultimately show thesis using f a st that by (auto simp: locked_eq)
qed

section \<open>Bulk decisions\<close>

text \<open>The logs a step may extend.\<close>

definition logs_extend :: "db \<Rightarrow> db \<Rightarrow> bool" where
  "logs_extend s t \<longleftrightarrow> (\<exists>a. archive_history t = archive_history s @ a) \<and>
     (\<exists>a. audit_events t = audit_events s @ a)"

lemma logs_extend_refl [simp]: "logs_extend s s"
  by (simp add: logs_extend_def)

lemma logs_extend_trans: "logs_extend s t \<Longrightarrow> logs_extend t u \<Longrightarrow> logs_extend s u"
  by (fastforce simp: logs_extend_def)

lemma decision_changes: "decision actor f f' s t \<Longrightarrow> f_status f' \<noteq> f_status f"
proof -
  have "transition a b x \<Longrightarrow> b \<noteq> a" for a b x by (induction a b x rule: transition.induct) auto
  then show "decision actor f f' s t \<Longrightarrow> f_status f' \<noteq> f_status f"
    by (force simp: decision_def event_of_decision_def)
qed

lemma apply_logs:
  "apply_treat f actor note s = Inr (f', ev, t) \<Longrightarrow> logs_extend s t"
  "apply_reject f actor reason note s = Inr (f', t) \<Longrightarrow> logs_extend s t"
  "apply_reopen f actor note s = Inr (f', b, t) \<Longrightarrow> logs_extend s t"
proof -
  assume "apply_treat f actor note s = Inr (f', ev, t)"
  then show "logs_extend s t"
    by (auto simp: apply_treat_def andThen_eq_Inr Let_def case_prod_beta status_log_def env_defs
        logs_extend_def)
next
  assume "apply_reject f actor reason note s = Inr (f', t)"
  then show "logs_extend s t"
    by (auto simp: apply_reject_def andThen_eq_Inr Let_def case_prod_beta status_log_def env_defs
        logs_extend_def)
next
  assume a: "apply_reopen f actor note s = Inr (f', b, t)"
  let ?arch = "f_status f = Rejected \<and> f_archived_at f \<noteq> None"
  from a obtain f1 b1 s1 where
    u: "(if ?arch then unarchive_for_reopen f actor s else Inr (f, False, s)) = Inr (f1, b1, s1)"
    and rest: "(let (ev, s2) = status_log f1 actor Open ''reopen'' None note s1;
            f' = f1\<lparr>f_status := Open, f_needs_review := False\<rparr>
        in Inr (f', ?arch, put_finding f' s2)) = (Inr (f', b, t) :: (finding \<times> bool \<times> db) result)"
    unfolding apply_reopen_def Let_def andThen_eq_Inr by auto
  from rest have t: "archive_history t = archive_history s1" "audit_events t = audit_events s1"
    by (auto simp: Let_def case_prod_beta status_log_def env_defs)
  have "logs_extend s s1"
  proof (cases "f_status f = Rejected \<and> f_archived_at f \<noteq> None")
    case False
    have "s1 = s" using u unfolding if_not_P [OF False] by simp
    then show ?thesis by simp
  next
    case True
    note un = u [unfolded if_P [OF True]]
    let ?s1 = "archive_log (unarchived f) UNARCHIVE MANUAL (Some (u_id actor)) None
      (archived_state f [(''trigger'', JStr ''reopen'')]) None (put_finding (unarchived f) s)"
    have ne: "f_archived_at f \<noteq> None" using True by blast
    from un obtain c where "record_audit c ?s1 = Inr s1"
      unfolding unarchive_for_reopen_def Let_def if_not_P [OF ne] andThen_eq_Inr
        sum.inject prod.inject by blast
    then have "\<exists>e. audit_events s1 = audit_events s @ [e]"
      using record_audit_appends by fastforce
    then show ?thesis
      using unarchive_for_reopen_effect(11) [OF un ne] by (auto simp: logs_extend_def)
  qed
  then show "logs_extend s t" by (simp add: logs_extend_def t)
qed

text \<open>
  One iteration of a bulk loop either leaves the finding alone or decides it; the loop as a
  whole decides the findings that change, in order.
\<close>

definition bulk_loop_step :: "user \<Rightarrow> opp_status \<Rightarrow> (finding \<Rightarrow> bulk_state \<Rightarrow> bulk_state result) \<Rightarrow> bool" where
  "bulk_loop_step actor target step \<longleftrightarrow> (\<forall>f dn cs n s st. step f (dn, cs, n, s) = Inr st \<longrightarrow>
     (\<exists>f' cs' n' t. st = (dn @ [f'], cs', n', t) \<and> f_status f' = target \<and>
        ((f' = f \<and> t = s) \<or> decision actor f f' s t) \<and> ledger t = ledger s \<and> logs_extend s t))"

lemma bulk_step_loop:
  "bulk_loop_step actor (if action = ''treat'' then Treated else if action = ''reject'' then Rejected
     else Open) (bulk_step action actor reason note)"
  unfolding bulk_loop_step_def
proof (intro allI impI)
  fix f dn cs n s st
  assume st: "bulk_step action actor reason note f (dn, cs, n, s) = Inr st"
  consider "action = ''treat''" | "action \<noteq> ''treat''" "action = ''reject''"
    | "action \<noteq> ''treat''" "action \<noteq> ''reject''" by blast
  then show "\<exists>f' cs' n' t. st = (dn @ [f'], cs', n', t) \<and>
      f_status f' = (if action = ''treat'' then Treated else if action = ''reject'' then Rejected
        else Open) \<and>
      ((f' = f \<and> t = s) \<or> decision actor f f' s t) \<and> ledger t = ledger s \<and> logs_extend s t"
  proof cases
    case 1
    with st obtain f' ev t where a: "apply_treat f actor note s = Inr (f', ev, t)"
      "st = (dn @ [f'], cs @ [(f', ev)], n, t)"
      by (auto simp: bulk_step_def andThen_eq_Inr)
    show ?thesis
      using apply_treat_effect [OF a(1)] apply_logs(1) [OF a(1)] a(2) 1 by simp
  next
    case 2
    with st obtain f' t where a: "apply_reject f actor (or_text reason []) note s = Inr (f', t)"
      "st = (dn @ [f'], cs, n, t)"
      unfolding bulk_step_def by (auto simp: andThen_eq_Inr)
    show ?thesis
      using apply_reject_effect [OF a(1)] apply_logs(2) [OF a(1)] a(2) 2 by simp
  next
    case 3
    with st obtain f' b t where a: "apply_reopen f actor note s = Inr (f', b, t)"
      "st = (dn @ [f'], cs, n + (if b then 1 else 0), t)"
      unfolding bulk_step_def by (auto simp: andThen_eq_Inr)
    show ?thesis
      using apply_reopen_effect(1,3,4) [OF a(1)] apply_logs(3) [OF a(1)] a(2) 3 by simp
  qed
qed

lemma bulk_step_decides:
  assumes "bulk_step action actor reason note f (dn, cs, n, s) = Inr st"
  shows "\<exists>g cs1 n1 u. st = (dn @ [g], cs1, n1, u) \<and> decision actor f g s u"
  using assms apply_treat_effect(1) apply_reject_effect(1) apply_reopen_effect(1)
  by (fastforce simp: bulk_step_def andThen_eq_Inr split: if_splits)

lemma legacy_target_cases: "legacy_target st = Inr target \<Longrightarrow> target \<in> {Open, Treated, Rejected}"
  by (auto simp: legacy_target_def split: if_splits)

lemma legacy_effect:
  assumes "apply_legacy_status f actor st reason note s = Inr (f', event, t)"
    and "legacy_target st = Inr target"
  shows "f_status f' = target \<and> ((f' = f \<and> t = s) \<or> decision actor f f' s t) \<and>
    ledger t = ledger s \<and> logs_extend s t"
proof (cases "f_status f = target")
  case True
  with assms show ?thesis by (simp add: apply_legacy_status_def)
next
  case False
  from legacy_target_cases [OF assms(2)] consider "target = Open" | "target = Treated" | "target = Rejected"
    by blast
  then show ?thesis
  proof cases
    case 1
    with assms False obtain b where a: "apply_reopen f actor note s = Inr (f', b, t)"
      by (auto simp: apply_legacy_status_def andThen_eq_Inr)
    show ?thesis using apply_reopen_effect(1,3,4) [OF a] apply_logs(3) [OF a] 1 by simp
  next
    case 2
    with assms False obtain ev where a: "apply_treat f actor note s = Inr (f', ev, t)"
      by (auto simp: apply_legacy_status_def andThen_eq_Inr)
    show ?thesis using apply_treat_effect [OF a] apply_logs(1) [OF a] 2 by simp
  next
    case 3
    with assms False obtain r n where a: "apply_reject f actor r n s = Inr (f', t)"
      by (cases reason) (auto simp: apply_legacy_status_def andThen_eq_Inr Let_def)
    show ?thesis using apply_reject_effect [OF a] apply_logs(2) [OF a] 3 by simp
  qed
qed

lemma legacy_step_loop:
  assumes "legacy_target st = Inr target"
  shows "bulk_loop_step actor target (legacy_step target actor st reason note)"
  unfolding bulk_loop_step_def
proof (intro allI impI)
  fix f dn cs n s bs
  assume bs: "legacy_step target actor st reason note f (dn, cs, n, s) = Inr bs"
  then obtain f' event t where a: "apply_legacy_status f actor st reason note s = Inr (f', event, t)"
    and out: "\<exists>cs' n'. bs = (dn @ [f'], cs', n', t)"
    by (auto simp: legacy_step_def andThen_eq_Inr Let_def)
  have "f_status f' = target \<and> ((f' = f \<and> t = s) \<or> decision actor f f' s t) \<and>
      ledger t = ledger s \<and> logs_extend s t"
    using legacy_effect [OF a assms] .
  with out show "\<exists>f' cs' n' t. bs = (dn @ [f'], cs', n', t) \<and> f_status f' = target \<and>
      ((f' = f \<and> t = s) \<or> decision actor f f' s t) \<and> ledger t = ledger s \<and> logs_extend s t"
    by blast
qed

lemma bulk_loop:
  assumes "bulk_loop_step actor target step"
    and "fold_result step fs (dn, cs, n, s) = Inr (out, cs', n', t)"
  shows "\<exists>fs'. out = dn @ fs' \<and> length fs' = length fs \<and> (\<forall>f' \<in> set fs'. f_status f' = target) \<and>
    decisions actor (filter (\<lambda>(f, f'). f' \<noteq> f) (zip fs fs')) s t \<and>
    (\<forall>(f, f') \<in> set (zip fs fs'). f_id f' = f_id f) \<and>
    ledger t = ledger s \<and> logs_extend s t"
  using assms(2)
proof (induction fs arbitrary: dn cs n s)
  case Nil
  then show ?case by simp
next
  case (Cons f fs)
  from Cons.prems obtain st where st: "step f (dn, cs, n, s) = Inr st"
    and rest: "fold_result step fs st = Inr (out, cs', n', t)" by (auto simp: andThen_eq_Inr)
  from assms(1) st obtain f' cs1 n1 u where u: "st = (dn @ [f'], cs1, n1, u)"
    "f_status f' = target" "(f' = f \<and> u = s) \<or> decision actor f f' s u" "ledger u = ledger s"
    "logs_extend s u"
    unfolding bulk_loop_step_def by blast
  from Cons.IH [OF rest [unfolded u(1)]] obtain fs' where
    out: "out = (dn @ [f']) @ fs'" and l: "length fs' = length fs"
    and all: "\<forall>f' \<in> set fs'. f_status f' = target"
    and d: "decisions actor (filter (\<lambda>(f, f'). f' \<noteq> f) (zip fs fs')) u t"
    and ids: "\<forall>(f, f') \<in> set (zip fs fs'). f_id f' = f_id f"
    and led: "ledger t = ledger u" "logs_extend u t" by blast
  have "decisions actor (filter (\<lambda>(f, f'). f' \<noteq> f) (zip (f # fs) (f' # fs'))) s t"
  proof (cases "f' = f \<and> u = s")
    case True
    with d show ?thesis by simp
  next
    case False
    with u(3) have dec: "decision actor f f' s u" by blast
    with decision_changes [OF dec] have "f' \<noteq> f" by auto
    with dec d show ?thesis by (auto intro: one_decided)
  qed
  moreover have "f_id f' = f_id f" using u(3) by (auto simp: decision_def)
  ultimately show ?case
    using out l all ids led u(2,4,5) logs_extend_trans [OF u(5) led(2)]
    by (intro exI [of _ "f' # fs'"]) simp
qed

lemma bulk_finish_effect:
  assumes "bulk_finish action actor reason ids (fs, cs, n, s) = Inr (out, t)"
  shows "out = fs" "core_eq s t" "logs_extend s t"
    and "\<exists>u. recognize_treatments cs actor s = Inr u \<and> ledger t = ledger u"
proof -
  from assms obtain s1 m s2 c where r: "recognize_treatments cs actor s = Inr s1"
    and q: "refresh_summaries_for_findings fs s1 = Inr (m, s2)"
    and a: "record_audit c (snd (new_uuid s2)) = Inr t" and out: "out = fs"
    unfolding bulk_finish_def by (auto simp: andThen_eq_Inr case_prod_beta)
  show "out = fs" by (rule out)
  have u: "core_eq s2 (snd (new_uuid s2))" "ledger (snd (new_uuid s2)) = ledger s2"
    "archive_history (snd (new_uuid s2)) = archive_history s2"
    "audit_events (snd (new_uuid s2)) = audit_events s2"
    by (simp_all add: core_eq_def new_uuid_def)
  show "core_eq s t"
    using recognize_treatments_steps(1) [OF r] refresh_steps(2) [OF q] u(1) core_eq_audit [OF a]
    by (blast intro: core_eq_trans)
  note ss = same_source_tables [OF refresh_steps(1) [OF q]]
  show "logs_extend s t"
    using recognize_treatments_steps(2,4) [OF r] ss u record_audit_appends [OF a]
    by (auto simp: logs_extend_def)
  have "ledger t = ledger s1" using ss u record_audit_frame [OF a] by simp
  with r show "\<exists>u. recognize_treatments cs actor s = Inr u \<and> ledger t = ledger u" by blast
qed

lemma load_all_Inr:
  assumes "load_all ids s = Inr fs"
  shows "map f_id fs = ids" "\<forall>f \<in> set fs. get_finding (f_id f) s = Some f"
proof -
  from assms have all: "\<forall>i \<in> set ids. get_finding i s \<noteq> None"
    and fs: "fs = map (\<lambda>i. the (get_finding i s)) ids"
    by (auto simp: load_all_def andThen_eq_Inr list_all_iff)
  have row: "get_finding i s = Some (the (get_finding i s)) \<and> f_id (the (get_finding i s)) = i"
    if "i \<in> set ids" for i
    using all that get_finding_Some [of i s] by fastforce
  show "map f_id fs = ids" unfolding fs using row by (induction ids) auto
  show "\<forall>f \<in> set fs. get_finding (f_id f) s = Some f" unfolding fs using row by auto
qed

text \<open>
  The loop over loaded rows with distinct identifiers: every row that is different afterwards
  was decided, and the table holds the returned rows.
\<close>

lemma bulk_rows:
  assumes "bulk_loop_step actor target step" "load_all ids s = Inr fs" "distinct ids"
    and "fold_result step fs ([], [], 0, s) = Inr (out, cs, n, t)"
  shows "map f_id out = ids" "\<forall>f' \<in> set out. f_status f' = target"
    and "decisions actor (filter (\<lambda>(f, f'). f' \<noteq> f) (zip fs out)) s t" "ledger t = ledger s"
    and "\<forall>f' \<in> set out. get_finding (f_id f') t = Some f'"
    and "\<forall>i. i \<notin> set ids \<longrightarrow> get_finding i t = get_finding i s" "length out = length fs"
proof -
  note l = load_all_Inr [OF assms(2)]
  from bulk_loop [OF assms(1,4)] have len: "length out = length fs"
    and st: "\<forall>f' \<in> set out. f_status f' = target"
    and d: "decisions actor (filter (\<lambda>(f, f'). f' \<noteq> f) (zip fs out)) s t"
    and id: "\<forall>(f, f') \<in> set (zip fs out). f_id f' = f_id f"
    and led: "ledger t = ledger s" by auto
  let ?ps = "filter (\<lambda>(f, f'). f' \<noteq> f) (zip fs out)"
  show "map f_id out = ids"
  proof -
    have "list_all2 (\<lambda>f f'. f_id f' = f_id f) fs out" using len id by (simp add: list_all2_iff)
    then have "map f_id out = map f_id fs" by (induction rule: list_all2_induct) simp_all
    with l(1) show ?thesis by simp
  qed
  show "\<forall>f' \<in> set out. f_status f' = target" "decisions actor ?ps s t" "ledger t = ledger s"
    "length out = length fs"
    using st d led len by simp_all
  have "map (f_id \<circ> fst) (zip fs out) = ids"
    using len l(1) by (metis map_fst_zip map_map)
  then have dist: "distinct (map (f_id \<circ> fst) (zip fs out))" using assms(3) by simp
  have rows: "\<forall>(f, f') \<in> set (zip fs out). get_finding (f_id f) s = Some f"
    using l(2) by (auto dest: set_zip_leftD)
  have r: "(\<forall>(f, f') \<in> set ?ps. get_finding (f_id f) t = Some f') \<and>
    (\<forall>i. i \<notin> (f_id \<circ> fst) ` set ?ps \<longrightarrow> get_finding i t = get_finding i s)"
    using rows by (intro decisions_rows [OF d distinct_map_filter [OF dist]]) auto
  show "\<forall>i. i \<notin> set ids \<longrightarrow> get_finding i t = get_finding i s"
  proof (intro allI impI)
    fix i assume "i \<notin> set ids"
    have "i \<notin> (f_id \<circ> fst) ` set ?ps"
    proof
      assume "i \<in> (f_id \<circ> fst) ` set ?ps"
      then obtain g g' where "(g, g') \<in> set (zip fs out)" "f_id g = i" by auto
      then have "i \<in> set (map f_id fs)" by (auto dest: set_zip_leftD)
      with \<open>i \<notin> set ids\<close> l(1) show False by simp
    qed
    with r show "get_finding i t = get_finding i s" by blast
  qed
  show "\<forall>f' \<in> set out. get_finding (f_id f') t = Some f'"
  proof
    fix f' assume "f' \<in> set out"
    then obtain f where z: "(f, f') \<in> set (zip fs out)"
      using len by (metis in_set_impl_in_set_zip2)
    have e: "f_id f' = f_id f" using id z by auto
    show "get_finding (f_id f') t = Some f'"
    proof (cases "f' = f")
      case False
      with z r e show ?thesis by auto
    next
      case True
      have "f_id f \<notin> (f_id \<circ> fst) ` set ?ps"
      proof
        assume "f_id f \<in> (f_id \<circ> fst) ` set ?ps"
        then obtain g g' where g: "(g, g') \<in> set (zip fs out)" "g' \<noteq> g" "f_id g = f_id f" by auto
        have "(g, g') = (f, f')"
        proof (rule inj_onD [of "f_id \<circ> fst" "set (zip fs out)"])
          show "inj_on (f_id \<circ> fst) (set (zip fs out))" using dist by (simp add: distinct_map)
        qed (use g(1,3) z in simp_all)
        with g(2) True show False by simp
      qed
      with r have "get_finding (f_id f) t = get_finding (f_id f) s" by blast
      moreover have "get_finding (f_id f) s = Some f" using rows z by auto
      ultimately show ?thesis using True by simp
    qed
  qed
qed

section \<open>Properties of decisions\<close>

lemma list_all2_right: "list_all2 P xs ys \<Longrightarrow> y \<in> set ys \<Longrightarrow> \<exists>x \<in> set xs. P x y"
  by (induction rule: list_all2_induct) auto

lemma decisions_pair:
  "decisions actor ps s t \<Longrightarrow> (f, f') \<in> set ps \<Longrightarrow>
     f_id f' = f_id f \<and> same_observed_data f f' \<and> (\<exists>ev. event_of_decision actor f f' ev)"
  by (induction rule: decisions.induct) (auto simp: decision_def)

text \<open>The decisions of a bulk transition change every finding: their statuses differ.\<close>

lemma bulk_step_changes:
  assumes "action \<in> {''treat'', ''reject'', ''reopen''}"
    and "fold_result (bulk_step action actor reason note) fs (dn, cs, n, s) = Inr (dn @ out, cs', n', t)"
    and "length out = length fs"
  shows "\<forall>(f, f') \<in> set (zip fs out). f' \<noteq> f"
  using assms(2,3)
proof (induction fs arbitrary: dn cs n s out)
  case (Cons f fs)
  from Cons.prems obtain f' out' where out: "out = f' # out'" by (cases out) auto
  from Cons.prems(1) obtain st where st: "bulk_step action actor reason note f (dn, cs, n, s) = Inr st"
    and rest: "fold_result (bulk_step action actor reason note) fs st = Inr (dn @ out, cs', n', t)"
    by (auto simp: andThen_eq_Inr)
  obtain g cs1 n1 u where g: "st = (dn @ [g], cs1, n1, u)" "decision actor f g s u"
    using bulk_step_decides [OF st] by blast
  from bulk_loop [OF bulk_step_loop rest [unfolded g(1)]] have "f' = g" by (auto simp: out)
  with Cons.IH [of "dn @ [g]" cs1 n1 u out'] rest g Cons.prems(2) decision_changes [OF g(2)]
  show ?case by (auto simp: out)
qed simp

text \<open>
  C2: A bulk decision is all or nothing.  If it succeeds, then each requested finding (once,
  whatever the duplicates in the request) was stored in the status the action starts from, is
  returned in the order of the request and stored in the status the action leads to, and has
  exactly one new history event, written in that order; every other finding is untouched.  If
  one finding is missing or in another status, the whole operation is an error.
\<close>

theorem bulk_transition_all_or_nothing:
  assumes "bulk_transition opportunity_ids actor action reason note s = Inr (out, t)"
  shows "map f_id out = dedup opportunity_ids \<and>
    (\<forall>f' \<in> set out. get_finding (f_id f') t = Some f' \<and>
       (\<exists>f. get_finding (f_id f') s = Some f \<and> same_observed_data f f' \<and>
          transition (f_status f) (f_status f') action)) \<and>
    (\<forall>i. i \<notin> set opportunity_ids \<longrightarrow> get_finding i t = get_finding i s) \<and>
    (\<exists>evs. status_history t = status_history s @ evs \<and>
       map se_opportunity_id evs = dedup opportunity_ids \<and>
       list_all (\<lambda>ev. se_changed_by ev = Some (u_id actor) \<and> se_action ev = action) evs)"
proof -
  let ?ids = "dedup opportunity_ids"
  let ?target = "if action = ''treat'' then Treated else if action = ''reject'' then Rejected else Open"
  let ?step = "bulk_step action actor reason note"
  from assms obtain fs bs where act: "action \<in> {''treat'', ''reject'', ''reopen''}"
    and l: "load_all ?ids s = Inr fs" and loop: "fold_result ?step fs ([], [], 0, s) = Inr bs"
    and fin: "bulk_finish action actor reason ?ids bs = Inr (out, t)"
    unfolding bulk_transition_def Let_def andThen_eq_Inr guard_eq_Inr by blast
  obtain out' cs n u where bs: "bs = (out', cs, n, u)" by (cases bs)
  note f = bulk_finish_effect [OF fin [unfolded bs]]
  note b = bulk_rows [OF bulk_step_loop l distinct_dedup loop [unfolded bs]]
  let ?ps = "zip fs out"
  have changed: "filter (\<lambda>(f, f'). f' \<noteq> f) (zip fs out) = zip fs out"
    using bulk_step_changes [of action actor reason "note" fs "[]" "[]" "0" s out'] act loop bs f(1) b(7)
    by (simp add: filter_id_conv case_prod_beta)
  have d: "decisions actor ?ps s t"
    using decisions_core [OF b(3) f(2)] f(1) changed by simp
  have look: "get_finding i t = get_finding i u" for i
    using f(2) by (simp add: core_eq_def get_finding_def)
  obtain evs where evs: "status_history t = status_history s @ evs"
    "list_all2 (\<lambda>(f, f') ev. event_of_decision actor f f' ev) ?ps evs"
    using decisions_events [OF d] by blast
  have len: "length out = length fs" using b(7) f(1) by simp
  note lids = load_all_Inr [OF l]
  have trans: "transition (f_status f) (f_status f') action \<and> same_observed_data f f'"
    if "(f, f') \<in> set ?ps" for f f'
  proof -
    from decisions_pair [OF d that] obtain ev where ev: "event_of_decision actor f f' ev"
      and same: "same_observed_data f f'" by blast
    have "f_status f' = ?target" using b(2) that f(1) by (auto dest: set_zip_rightD)
    then have "se_action ev = action"
      using ev act by (cases "f_status f") (auto simp: event_of_decision_def split: if_splits)
    with ev same show ?thesis by (simp add: event_of_decision_def)
  qed
  have acts: "se_action ev = action"
    if "event_of_decision actor f f' ev" "(f, f') \<in> set ?ps" for f f' ev
    using that(1) trans [OF that(2)]
    by (cases "f_status f"; cases "f_status f'") (auto simp: event_of_decision_def)
  show ?thesis
  proof (intro conjI)
    show "map f_id out = ?ids" using b(1) f(1) by simp
    show "\<forall>i. i \<notin> set opportunity_ids \<longrightarrow> get_finding i t = get_finding i s"
      using b(6) look by simp
    show "\<forall>f' \<in> set out. get_finding (f_id f') t = Some f' \<and>
       (\<exists>f. get_finding (f_id f') s = Some f \<and> same_observed_data f f' \<and>
          transition (f_status f) (f_status f') action)"
    proof
      fix f' assume f': "f' \<in> set out"
      then obtain g where z: "(g, f') \<in> set ?ps" using len by (metis in_set_impl_in_set_zip2)
      then have "g \<in> set fs" by (rule set_zip_leftD)
      then have "get_finding (f_id g) s = Some g" using lids(2) by blast
      moreover have "f_id f' = f_id g" using decisions_pair [OF d z] by blast
      ultimately show "get_finding (f_id f') t = Some f' \<and>
       (\<exists>f. get_finding (f_id f') s = Some f \<and> same_observed_data f f' \<and>
          transition (f_status f) (f_status f') action)"
        using b(5) f' f(1) look trans [OF z] by auto
    qed
    have "map se_opportunity_id evs = map f_id fs"
    proof -
      have "map se_opportunity_id evs = map (f_id \<circ> fst) ?ps"
        using evs(2)
        by (induction rule: list_all2_induct) (auto simp: event_of_decision_def)
      then show ?thesis using len by (metis map_fst_zip map_map)
    qed
    moreover have "\<forall>ev \<in> set evs. se_changed_by ev = Some (u_id actor) \<and> se_action ev = action"
    proof
      fix ev assume "ev \<in> set evs"
      then obtain p where "p \<in> set ?ps" "(\<lambda>(f, f') ev. event_of_decision actor f f' ev) p ev"
        using list_all2_right [OF evs(2)] by blast
      then show "se_changed_by ev = Some (u_id actor) \<and> se_action ev = action"
        using acts by (auto simp: event_of_decision_def)
    qed
    ultimately show "\<exists>evs. status_history t = status_history s @ evs \<and>
       map se_opportunity_id evs = ?ids \<and>
       list_all (\<lambda>ev. se_changed_by ev = Some (u_id actor) \<and> se_action ev = action) evs"
      using evs(1) lids(1) by (auto simp: list_all_iff)
  qed
qed

text \<open>One finding at a time.\<close>

lemma lifecycle_audit_recorded:
  assumes "action \<in> {''treat'', ''reject'', ''reopen''}"
  shows "\<exists>e. record_lifecycle_audit f actor action before metadata s =
    Inr (s\<lparr>audit_events := audit_events s @ [e]\<rparr>)"
proof -
  have "required_text (''opportunity.'' @ ''treat'') 120 = Inr (''opportunity.'' @ ''treat'')"
    "required_text (''opportunity.'' @ ''reject'') 120 = Inr (''opportunity.'' @ ''reject'')"
    "required_text (''opportunity.'' @ ''reopen'') 120 = Inr (''opportunity.'' @ ''reopen'')"
    by code_simp+
  then have act: "required_text (''opportunity.'' @ action) 120 = Inr (''opportunity.'' @ action)"
    using assms by blast
  have req: "required_text ''opportunities'' 80 = Inr ''opportunities''"
    "required_text ''opportunity'' 120 = Inr ''opportunity''" by code_simp+
  show ?thesis
    unfolding record_lifecycle_audit_def
    by (rule record_audit_ok) (use act req in \<open>simp_all add: archive_audit_def\<close>)
qed


text \<open>
  C30: A rejection is decided by its request and the stored row alone.  An unsupported reason,
  or OTHER without a note, is refused with 422 before anything is read; an unknown finding is a
  404; one that is not open a 409; in all other cases the rejection succeeds, is recorded as one
  history event and one audit event, keeps the observed data and the archive state of the row,
  records no saving, and the summary of the account is exact afterwards.
\<close>

theorem reject_outcome:
  "(case validate_rejection (Some reason) note of
      Inl e \<Rightarrow> reject i actor reason note s = Inl e \<and> (\<exists>m. e = HTTPException 422 m)
    | Inr _ \<Rightarrow>
        (case get_finding i s of
           None \<Rightarrow> reject i actor reason note s = Inl (HTTPException 404 ''Opportunity not found'')
         | Some f \<Rightarrow>
             if f_status f \<noteq> Open
             then reject i actor reason note s =
               Inl (HTTPException 409 ''Only open opportunities can be rejected'')
             else \<exists>f' t. reject i actor reason note s = Inr (f', t) \<and>
               decisions actor [(f, f')] s t \<and> f_status f' = Rejected \<and>
               f_rejection_reason f' = Some reason \<and> ledger t = ledger s \<and>
               (\<exists>e. audit_events t = audit_events s @ [e]) \<and>
               (latest_successful_run t (f_provider f) (f_account_id f) \<noteq> None \<longrightarrow>
                  summary_matches_source t (f_provider f) (f_account_id f) = Inr True)))"
proof (cases "validate_rejection (Some reason) note")
  case (Inl e)
  then have "\<exists>m. e = HTTPException 422 m"
    by (auto simp: validate_rejection_def andThen_eq_Inl)
  with Inl show ?thesis by (simp add: reject_def)
next
  case (Inr x)
  show ?thesis
  proof (cases "get_finding i s")
    case None
    with Inr show ?thesis by (simp add: reject_def locked_def)
  next
    case (Some f)
    then have l: "locked i s = Inr f" by (simp add: locked_eq)
    show ?thesis
    proof (cases "f_status f = Open")
      case False
      with Inr l Some show ?thesis by (simp add: reject_def apply_reject_def)
    next
      case True
      obtain f' s1 where a: "apply_reject f actor reason note s = Inr (f', s1)"
        using True by (simp add: apply_reject_def case_prod_beta Let_def)
      obtain n s2 where q: "refresh_summaries_for_findings [f'] s1 = Inr (n, s2)" "same_source s1 s2"
        by (rule refresh_total)
      obtain e where u: "record_lifecycle_audit f' actor ''reject'' (lifecycle_snapshot s f)
          (Some (JObj [(''reason'', JStr reason)])) s2 = Inr (s2\<lparr>audit_events := audit_events s2 @ [e]\<rparr>)"
        using lifecycle_audit_recorded by blast
      let ?t = "s2\<lparr>audit_events := audit_events s2 @ [e]\<rparr>"
      have res: "reject i actor reason note s = Inr (f', ?t)"
        using Inr l a q(1) u by (simp add: reject_def)
      have same: "f_provider f' = f_provider f" "f_account_id f' = f_account_id f"
        using apply_reject_effect(1) [OF a]
        by (auto simp: decision_def same_observed_data_def dest: arg_cong [of _ _ f_provider]
            arg_cong [of _ _ f_account_id])
      have exact: "summary_matches_source ?t (f_provider f) (f_account_id f) = Inr True"
        if "latest_successful_run ?t (f_provider f) (f_account_id f) \<noteq> None"
        using refresh_exact [OF q(1), of f'] that same
        by (simp add: source_frame)
      from res show ?thesis
      proof (rule reject_effect)
        fix g assume "get_finding i s = Some g" "f_status f' = Rejected"
          "f_rejection_reason f' = Some reason" "decisions actor [(g, f')] s ?t"
          "ledger ?t = ledger s" "\<exists>e. audit_events ?t = audit_events s @ [e]"
        with Inr Some True res exact show ?thesis by simp
      qed
    qed
  qed
qed

text \<open>
  C27: Treating an opportunity again does not credit it again.  If an earlier treatment of the
  finding is on record and nothing was observed since (every observation of the finding is no
  later than that treatment), then a successful treatment leaves the ledger as it is, whatever
  happened in between.  The identifier of the new event is fresh, as \<open>uuid4\<close> promises.
\<close>

theorem retreatment_needs_new_observation:
  assumes treat: "treat i actor note s = Inr (f', t)"
    and ev: "ev \<in> set (status_history s)" "se_opportunity_id ev = i" "se_action ev = ''treat''"
      "se_to_status ev = Treated"
    and fresh: "uuid4 s (uuids s) \<notin> se_id ` set (status_history s)"
    and old: "\<forall>ob \<in> set (observations s). o_opportunity_id ob = i \<longrightarrow>
      instant (o_observed_at ob) \<le> instant (se_changed_at ev)"
  shows "ledger t = ledger s"
proof -
  from treat obtain f s1 ev1 s2 where
    f: "get_finding i s = Some f" and a: "apply_treat f actor note s = Inr (f', ev1, s1)"
    and r: "recognize_treatments [(f', ev1)] actor s1 = Inr s2" and led: "ledger t = ledger s2"
    by (rule treat_effect)
  note e = apply_treat_effect [OF a]
  have id: "f_id f' = i" using e(1) get_finding_Some [OF f] by (simp add: decision_def)
  from r obtain rs where "recognize_many [(f', ev1)] actor s1 = Inr (rs, s2)"
    by (auto simp: recognize_treatments_def andThen_eq_Inr)
  then obtain rg where one: "recognize_one actor (f', ev1) (latest_observation s1 i)
      (previous_cycle_event s1 [(f', ev1)] i) s1 = Inr (rg, s2)"
    using recognize_single id by metis
  let ?rows = "treatment_rows s1 i (current_event_id [(f', ev1)] i)"
  have "se_id ev \<noteq> uuid4 s (uuids s)" using ev(1) fresh by (metis imageI)
  then have "ev \<in> set ?rows"
    using ev e(4,7) id by (auto simp: treatment_rows_def current_event_id_def)
  then obtain p where p: "latest_by event_order ?rows = Some p"
    using latest_by_None [of event_order ?rows] by (cases "latest_by event_order ?rows") auto
  have "event_order ev \<le> event_order p" using latest_by_Some(2) [OF p \<open>ev \<in> set ?rows\<close>] .
  then have le: "instant (se_changed_at ev) \<le> instant (se_changed_at p)"
    by (auto simp: event_order_def less_eq_prod_def)
  have "no_new_event (latest_observation s1 i) (Some p)"
  proof (cases "latest_observation s1 i")
    case None
    then show ?thesis by (simp add: no_new_event_def)
  next
    case (Some ob)
    then have "ob \<in> set (observations s)" "o_opportunity_id ob = i"
      using latest_by_Some(1) [of _ _ ob] e(10) by (fastforce simp: latest_observation_def)+
    with old le Some show ?thesis by (fastforce simp: no_new_event_def no_later_def)
  qed
  then have "eligible_saving f' (latest_observation s1 i)
      (previous_cycle_event s1 [(f', ev1)] i) = None"
    using p by (simp add: previous_cycle_event_def eligible_saving_def split: option.split)
  with recognize_one_cases [OF one] have "s2 = s1" by simp
  with led e(8) show ?thesis by simp
qed

text \<open>The steps of a legacy status update.\<close>

lemma set_legacy_steps:
  assumes "set_legacy_status i actor st reason note s = Inr (f', t)"
  obtains f event s1 s2 n s3 where "locked i s = Inr f"
    "apply_legacy_status f actor st reason note s = Inr (f', event, s1)"
    "(case event of None \<Rightarrow> Inr s1 | Some ev \<Rightarrow> recognize_treatments [(f', ev)] actor s1) = Inr s2"
    "refresh_summaries_for_findings [f'] s2 = Inr (n, s3)"
    "t = s3 \<or> (\<exists>c. record_audit c s3 = Inr t)"
proof -
  from assms obtain f g event s1 s2 n s3 where l: "locked i s = Inr f"
    and a': "apply_legacy_status f actor st reason note s = Inr (g, event, s1)"
    and r': "(case event of None \<Rightarrow> Inr s1 | Some ev \<Rightarrow> recognize_treatments [(g, ev)] actor s1) =
      Inr s2"
    and q': "refresh_summaries_for_findings [g] s2 = Inr (n, s3)"
    and fin': "(if lifecycle_snapshot s f = lifecycle_snapshot s3 g then Inr (g, s3)
      else andThen (legacy_target st) (\<lambda>target.
           andThen (record_lifecycle_audit g actor (legacy_action target)
                      (lifecycle_snapshot s f) (reason_metadata reason) s3) (\<lambda>s4.
           Inr (g, s4)))) = (Inr (f', t) :: (finding \<times> db) result)"
    unfolding set_legacy_status_def Let_def andThen_eq_Inr split_paired_Ex prod.case by blast
  have "g = f' \<and> (t = s3 \<or> (\<exists>c. record_audit c s3 = Inr t))"
  proof (cases "lifecycle_snapshot s f = lifecycle_snapshot s3 g")
    case True
    then show ?thesis using fin' by simp
  next
    case False
    show ?thesis
      using fin' unfolding if_not_P [OF False] andThen_eq_Inr record_lifecycle_audit_def
        sum.inject prod.inject by blast
  qed
  then have g: "g = f'" and fin: "t = s3 \<or> (\<exists>c. record_audit c s3 = Inr t)" by blast+
  show thesis using l a' r' q' fin unfolding g by (rule that)
qed

text \<open>
  A legacy status update reaches the status it names and is idempotent.  After a successful
  update the stored finding has the target status (accepted and treated mean treated,
  dismissed and rejected mean rejected), and repeating the same update succeeds and changes
  neither findings, history, ledger nor audit trail.
\<close>

theorem legacy_status_idempotent:
  assumes "set_legacy_status i actor st reason note s = Inr (f', t)"
  shows "get_finding i t = Some f' \<and> legacy_target st = Inr (f_status f') \<and>
    (\<exists>u. set_legacy_status i actor st reason note t = Inr (f', u) \<and>
       findings u = findings t \<and> status_history u = status_history t \<and>
       ledger u = ledger t \<and> archive_history u = archive_history t \<and>
       audit_events u = audit_events t)"
proof -
  from assms obtain f event s1 s2 n s3 where l: "locked i s = Inr f"
    and a: "apply_legacy_status f actor st reason note s = Inr (f', event, s1)"
    and r: "(case event of None \<Rightarrow> Inr s1 | Some ev \<Rightarrow> recognize_treatments [(f', ev)] actor s1) =
      Inr s2"
    and q: "refresh_summaries_for_findings [f'] s2 = Inr (n, s3)"
    and fin: "t = s3 \<or> (\<exists>c. record_audit c s3 = Inr t)"
    by (rule set_legacy_steps)
  from a obtain target where target: "legacy_target st = Inr target"
    by (auto simp: apply_legacy_status_def andThen_eq_Inr)
  note e = legacy_effect [OF a target]
  have f: "get_finding i s = Some f" "f_id f = i" using l get_finding_Some by (simp_all add: locked_eq)
  have "core_eq s1 s2"
    using r recognize_treatments_steps(1) by (cases event) auto
  moreover have "core_eq s3 t" using fin core_eq_audit by auto
  ultimately have core: "core_eq s1 t"
    using refresh_steps(2) [OF q] by (blast intro: core_eq_trans)
  have "get_finding i s1 = Some f'"
    using e f get_after_decision [of actor f f' s s1 i] by auto
  then have get: "get_finding i t = Some f'"
    using core by (simp add: core_eq_def get_finding_def)
  have same: "apply_legacy_status f' actor st reason note t = Inr (f', None, t)"
    using target e by (simp add: apply_legacy_status_def)
  obtain m u where u: "refresh_summaries_for_findings [f'] t = Inr (m, u)" "same_source t u"
    by (rule refresh_total)
  have "lifecycle_snapshot u f' = lifecycle_snapshot t f'"
    using u(2) by (auto elim: same_sourceD simp: lifecycle_snapshot_def audit_snapshot_def)
  then have "set_legacy_status i actor st reason note t = Inr (f', u)"
    using same u(1) get by (simp add: set_legacy_status_def locked_eq [THEN iffD2, OF get])
  with get target e same_source_tables [OF u(2)] show ?thesis by auto
qed

text \<open>Witnesses, on a treated and an open finding.\<close>

definition decision_db :: db where
  "decision_db = empty_db\<lparr>findings := [finding0 ''f'', finding0 ''g''],
     cloud_accounts := [sample_account]\<rparr>"

lemma bulk_transition_witness:
  "\<exists>out t. bulk_transition [''g'', ''f'', ''g''] sample_user ''reject'' (Some ''RISK_ACCEPTED'')
       None decision_db = Inr (out, t) \<and> map f_id out = [''g'', ''f'']"
proof -
  have "case bulk_transition [''g'', ''f'', ''g''] sample_user ''reject'' (Some ''RISK_ACCEPTED'')
      None decision_db of Inl _ \<Rightarrow> False | Inr (out, t) \<Rightarrow> length out = 2" by code_simp
  then obtain out t where b: "bulk_transition [''g'', ''f'', ''g''] sample_user ''reject''
      (Some ''RISK_ACCEPTED'') None decision_db = Inr (out, t)"
    by (auto split: sum.splits)
  have "dedup [''g'', ''f'', ''g''] = [''g'', ''f'']" by code_simp
  with bulk_transition_all_or_nothing [OF b] b show ?thesis by auto
qed

lemma reject_outcome_witness:
  "reject ''f'' sample_user ''OTHER'' None decision_db =
     Inl (HTTPException 422 ''A note is required for OTHER'')"
proof -
  have v: "validate_rejection (Some ''OTHER'') None =
      Inl (HTTPException 422 ''A note is required for OTHER'')" by code_simp
  from reject_outcome [of "''f''" sample_user "''OTHER''" None decision_db] show ?thesis
    unfolding v by simp
qed

definition treated_again_db :: db where
  "treated_again_db = decision_db\<lparr>status_history := [sample_event]\<rparr>"

lemma retreatment_witness:
  "\<exists>f' t. treat ''f'' sample_user None treated_again_db = Inr (f', t) \<and> ledger t = []"
proof -
  have "case treat ''f'' sample_user None treated_again_db of
      Inl _ \<Rightarrow> False | Inr (f', t) \<Rightarrow> f_status f' = Treated" by code_simp
  then obtain f' t where t: "treat ''f'' sample_user None treated_again_db = Inr (f', t)"
    by (auto split: sum.splits)
  have "ledger t = ledger treated_again_db"
    by (rule retreatment_needs_new_observation [OF t, of sample_event])
       (simp_all add: treated_again_db_def sample_event_def decision_db_def empty_db_def show_nat.simps)
  with t show ?thesis by (simp add: treated_again_db_def decision_db_def empty_db_def)
qed

lemma legacy_status_witness:
  "\<exists>f' t. set_legacy_status ''f'' sample_user ''dismissed'' None None decision_db = Inr (f', t) \<and>
     get_finding ''f'' t = Some f'"
proof -
  have "case set_legacy_status ''f'' sample_user ''dismissed'' None None decision_db of
      Inl _ \<Rightarrow> False | Inr (f', t) \<Rightarrow> f_status f' = Rejected" by code_simp
  then obtain f' t where
    "set_legacy_status ''f'' sample_user ''dismissed'' None None decision_db = Inr (f', t)"
    by (auto split: sum.splits)
  then show ?thesis using legacy_status_idempotent by blast
qed

end
