(* ===== verification/Histories.thy ===== *)
theory Histories
  imports Presence Lifecycle
begin

text \<open>
  Every operation on opportunities is a sequence of audited steps: whatever it does to the row of
  a finding it records in the three histories, and it keeps rows coherent and rejections
  respected.  The lemmas go from the single-row operations of archiving and of human decisions
  to the requests that use them.
\<close>

named_theorems audited \<open>operations as sequences of audited steps\<close>

section \<open>Steps that leave findings and histories alone\<close>

definition quiet :: "db \<Rightarrow> db \<Rightarrow> bool" where
  "quiet s t \<longleftrightarrow> findings t = findings s \<and> same_logs s t"

lemma quiet_refl [simp]: "quiet s s"
  by (simp add: quiet_def same_logs_def)

lemma quiet_trans [trans]: "quiet s t \<Longrightarrow> quiet t u \<Longrightarrow> quiet s u"
  by (simp add: quiet_def same_logs_def)

lemma quiet_audited: "quiet s t \<Longrightarrow> audited_step\<^sup>*\<^sup>* s t"
  by (auto simp: quiet_def intro: audited_other)

lemma quiet_core: "core_eq s t \<Longrightarrow> archive_history t = archive_history s \<Longrightarrow> quiet s t"
  by (simp add: quiet_def same_logs_def core_eq_def)

lemma quiet_refresh: "refresh_summaries_for_findings fs s = Inr (n, t) \<Longrightarrow> quiet s t"
  using refresh_steps(1) [of fs s n t] by (simp add: quiet_def same_logs_def same_source_tables)

lemma quiet_audit: "record_audit c s = Inr t \<Longrightarrow> quiet s t"
  by (simp add: quiet_def same_logs_def)

lemma quiet_recognize: "recognize_treatments cs actor s = Inr t \<Longrightarrow> quiet s t"
  using recognize_treatments_steps(1,2) quiet_core by blast

lemma quiet_uuid: "quiet s (snd (new_uuid s))"
  by (simp add: quiet_def same_logs_def new_uuid_def)

lemma log_grows_right: "log_grows events subject before after state f f' s t \<Longrightarrow>
    events u = events t \<Longrightarrow> log_grows events subject before after state f f' s u"
  by (simp add: log_grows_def)

lemma logged_change_quiet: "logged_change f f' s t \<Longrightarrow> quiet t u \<Longrightarrow> logged_change f f' s u"
  unfolding logged_change_def row_replaced_def quiet_def same_logs_def log_grows_def by simp

lemma logged_audited: "logged_change f f' s t \<Longrightarrow> quiet t u \<Longrightarrow> audited_step\<^sup>*\<^sup>* s u"
  by (blast intro: changed logged_change_quiet)

section \<open>Archiving\<close>

lemma coherent_archived: "coherent f \<Longrightarrow>
    coherent (f\<lparr>f_archived_at := Some x, f_archived_by := b, f_archive_reason := Some r\<rparr>)"
  by (simp add: coherent_def presence_coherent_def archive_coherent_def decision_coherent_def
      cong: presence.case_cong)

lemma coherent_unarchived: "coherent f \<Longrightarrow> coherent (unarchived f)"
  by (simp add: coherent_def presence_coherent_def archive_coherent_def decision_coherent_def
      unarchived_def cong: presence.case_cong)

lemma archive_effect_logged:
  assumes "archive_effect s t f' a reason by" "f \<in> set (findings s)" "f_id f' = f_id f"
    and "is_archived f \<longleftrightarrow> a = UNARCHIVE" "is_archived f' \<longleftrightarrow> a = ARCHIVE"
    and "f_status f' = f_status f" "f_presence_status f' = f_presence_status f"
    and "same_identity f f'" "coherent f \<longrightarrow> coherent f'"
    and "a = UNARCHIVE \<longrightarrow> f_status f \<noteq> Rejected"
  shows "logged_change f f' s t"
proof -
  from assms(1) obtain ev where ev: "archive_history t = archive_history s @ [ev]"
    "ae_opportunity_id ev = f_id f'" "ae_action ev = a" by (auto simp: archive_effect_def)
  have "log_grows archive_history ae_opportunity_id archived_before archived_after is_archived f f' s t"
    by (rule log_grows_one [of _ _ _ ev])
       (use ev assms(3-5) in \<open>auto simp: archived_before_def archived_after_def\<close>)
  moreover have "log_grows status_history se_opportunity_id se_from_status se_to_status f_status f f' s t"
    by (rule log_grows_same) (use assms(1,6) in \<open>auto simp: archive_effect_def\<close>)
  moreover have "log_grows presence_history pe_opportunity_id pe_from_status pe_to_status
      f_presence_status f f' s t"
    by (rule log_grows_same) (use assms(1,7) in \<open>auto simp: archive_effect_def\<close>)
  moreover have "row_replaced f f' s t"
    using assms(1-3) by (simp add: row_replaced_def archive_effect_def)
  moreover have "rejection_respected f f'"
    using assms(4,5,10) by (cases a) (auto simp: rejection_respected_def)
  ultimately show ?thesis using assms(8,9) by (simp add: logged_change_def)
qed

lemma archive_logged:
  assumes "archive i actor s = Inr (f', t)"
  shows "quiet s t \<or> (\<exists>f. logged_change f f' s t)"
proof -
  from assms obtain f where f: "get_finding i s = Some f"
    by (auto simp: archive_def andThen_eq_Inr locked_eq)
  show ?thesis
  proof (cases "f_archived_at f = None")
    case False
    with assms f show ?thesis by (auto simp: archive_def andThen_eq_Inr locked_eq)
  next
    case True
    from archive_cases [OF f True, of actor] assms obtain now where
      e: "f' = f\<lparr>f_archived_at := Some now, f_archived_by := Some (u_id actor),
            f_archive_reason := Some MANUAL\<rparr>"
        "archive_effect s t f' ARCHIVE MANUAL (Some (u_id actor))" by auto
    have "logged_change f f' s t"
      by (rule archive_effect_logged [OF e(2)])
         (use True get_finding_Some [OF f] in \<open>simp_all add: e(1) is_archived_def same_identity_def
           coherent_archived\<close>)
    then show ?thesis by blast
  qed
qed

lemma unarchive_logged:
  assumes "unarchive i actor s = Inr (f', t)"
  shows "quiet s t \<or> (\<exists>f. logged_change f f' s t)"
proof -
  from assms obtain f where f: "get_finding i s = Some f"
    by (auto simp: unarchive_def andThen_eq_Inr locked_eq)
  then have l: "locked i s = Inr f" by (simp add: locked_eq)
  show ?thesis
  proof (cases "f_archived_at f = None")
    case True
    with assms l show ?thesis by (simp add: unarchive_def)
  next
    case False
    then obtain x where x: "f_archived_at f = Some x" by blast
    have st: "f_status f \<noteq> Rejected" using assms l x by (auto simp: unarchive_def)
    from unarchive_cases [OF f False st, of actor] assms have
      e: "f' = unarchived f" "archive_effect s t f' UNARCHIVE MANUAL (Some (u_id actor))" by auto
    have "logged_change f f' s t"
      by (rule archive_effect_logged [OF e(2)])
         (use x st get_finding_Some [OF f] in \<open>simp_all add: e(1) is_archived_def same_identity_def
           coherent_unarchived, simp_all add: unarchived_def\<close>)
    then show ?thesis by blast
  qed
qed

lemma archive_audited [audited]: "archive i actor s = Inr (f', t) \<Longrightarrow> audited_step\<^sup>*\<^sup>* s t"
  using archive_logged quiet_audited changed by blast

lemma unarchive_audited [audited]: "unarchive i actor s = Inr (f', t) \<Longrightarrow> audited_step\<^sup>*\<^sup>* s t"
  using unarchive_logged quiet_audited changed by blast

lemma retention_archive_logged:
  assumes "archive_retention_locked f now policy days reference version False s = Inr (b, t)"
    and "f \<in> set (findings s)"
  shows "(\<not> b \<and> is_archived f \<and> t = s) \<or>
    (b \<and> \<not> is_archived f \<and> (\<exists>f'. f' = f\<lparr>f_archived_at := Some now, f_archived_by := None,
        f_archive_reason := Some RETENTION_POLICY\<rparr> \<and> logged_change f f' s t \<and>
       (\<exists>ev. archive_history t = archive_history s @ [ev] \<and> ae_occurred_at ev = now \<and>
          ae_reason ev = RETENTION_POLICY)))"
proof (cases "f_archived_at f = None")
  case False
  with assms(1) show ?thesis by (simp add: archive_retention_locked_def is_archived_def)
next
  case True
  let ?f = "f\<lparr>f_archived_at := Some now, f_archived_by := None,
    f_archive_reason := Some RETENTION_POLICY\<rparr>"
  from assms(1) True obtain ctx where b: "b" and
    t: "t = archive_log ?f ARCHIVE RETENTION_POLICY None None ctx (Some now) (put_finding ?f s)"
    by (auto simp: archive_retention_locked_def Let_def)
  obtain ev where ev: "archive_history t = archive_history s @ [ev]" "ae_opportunity_id ev = f_id f"
    "ae_action ev = ARCHIVE" "ae_reason ev = RETENTION_POLICY" "ae_occurred_at ev = now"
    using archive_log_history [of ?f ARCHIVE RETENTION_POLICY None None ctx "Some now" "put_finding ?f s"]
    by (auto simp: t)
  have "logged_change f ?f s t"
    unfolding logged_change_def
  proof (intro conjI)
    show "row_replaced f ?f s t" using assms(2) by (simp add: row_replaced_def t)
    show "log_grows archive_history ae_opportunity_id archived_before archived_after is_archived f ?f s t"
      by (rule log_grows_one [of _ _ _ ev])
         (use ev True in \<open>simp_all add: archived_before_def archived_after_def is_archived_def\<close>)
  qed (auto intro!: log_grows_same simp: t rejection_respected_def is_archived_def
      same_identity_def coherent_archived)
  with b True ev show ?thesis by (auto simp: is_archived_def)
qed

section \<open>Human decisions\<close>

lemma same_observed_fields:
  assumes "same_observed_data f g"
  shows "f_presence_status g = f_presence_status f" "f_missing_count g = f_missing_count f"
    "f_missing_since_at g = f_missing_since_at f"
    "f_resolved_externally_at g = f_resolved_externally_at f"
    "f_fingerprint g = f_fingerprint f" "f_provider g = f_provider f"
    "f_account_id g = f_account_id f" "f_rule_key g = f_rule_key f"
    "f_resource_id g = f_resource_id f" "f_id g = f_id f"
  by (subst assms [unfolded same_observed_data_def, symmetric], simp)+

lemma archive_kept_coherent: "archive_kept f f' \<Longrightarrow> archive_coherent f \<Longrightarrow> archive_coherent f'"
  by (auto simp: archive_kept_def archive_coherent_def)

lemma archive_kept_respected: "archive_kept f f' \<Longrightarrow> rejection_respected f f'"
  by (auto simp: archive_kept_def rejection_respected_def is_archived_def)

lemma decision_logged:
  assumes d: "decision actor f f' s t" and f: "f \<in> set (findings s)"
    and a: "log_grows archive_history ae_opportunity_id archived_before archived_after is_archived
      f f' s t"
    and c: "decision_coherent f'"
  shows "logged_change f f' s t"
  unfolding logged_change_def
proof (intro conjI)
  from d have same: "same_observed_data f f'" and kept: "archive_kept f f'"
    by (simp_all add: decision_def)
  note fields = same_observed_fields [OF same]
  from d obtain ev where ev: "status_history t = status_history s @ [ev]"
    "event_of_decision actor f f' ev" by (auto simp: decision_def)
  show "row_replaced f f' s t" using d f by (simp add: decision_def row_replaced_def)
  show "log_grows status_history se_opportunity_id se_from_status se_to_status f_status f f' s t"
    by (rule log_grows_one [OF ev(1)]) (use ev(2) in \<open>simp_all add: event_of_decision_def\<close>)
  show "log_grows presence_history pe_opportunity_id pe_from_status pe_to_status
      f_presence_status f f' s t"
    by (rule log_grows_same) (use d fields in \<open>simp_all add: decision_def\<close>)
  show "same_identity f f'" by (simp add: same_identity_def fields)
  show "rejection_respected f f'" using kept by (rule archive_kept_respected)
  show "coherent f \<longrightarrow> coherent f'"
    using archive_kept_coherent [OF kept] c fields
    by (simp add: coherent_def presence_coherent_def cong: presence.case_cong)
qed (rule a)

lemma archive_log_same:
  "decision actor f f' s t \<Longrightarrow> archive_history t = archive_history s \<Longrightarrow>
   is_archived f' = is_archived f \<Longrightarrow>
   log_grows archive_history ae_opportunity_id archived_before archived_after is_archived f f' s t"
  by (rule log_grows_same)

lemma apply_treat_logged:
  assumes "apply_treat f actor note s = Inr (f', ev, t)" "f \<in> set (findings s)"
  shows "logged_change f f' s t"
proof -
  note e = apply_treat_effect [OF assms(1)]
  have f': "f' = f\<lparr>f_status := Treated, f_treated_at := Some (se_changed_at ev),
      f_treated_by := Some (u_id actor), f_treatment_note := note, f_needs_review := False\<rparr>"
    using assms(1) by (auto simp: apply_treat_def andThen_eq_Inr Let_def split: prod.splits)
  show ?thesis
    by (rule decision_logged [OF e(1) assms(2) archive_log_same [OF e(1) e(9)]])
       (simp_all add: f' is_archived_def decision_coherent_def)
qed

lemma apply_reject_logged:
  assumes "apply_reject f actor reason note s = Inr (f', t)" "f \<in> set (findings s)"
  shows "logged_change f f' s t"
proof -
  note e = apply_reject_effect [OF assms(1)]
  have f': "\<exists>now. f' = f\<lparr>f_status := Rejected, f_rejected_at := Some now,
      f_rejected_by := Some (u_id actor), f_rejection_reason := Some reason,
      f_rejection_note := note, f_needs_review := False\<rparr>"
    using assms(1) by (auto simp: apply_reject_def andThen_eq_Inr Let_def case_prod_beta)
  then show ?thesis
    by (intro decision_logged [OF e(1) assms(2) archive_log_same [OF e(1) e(6)]])
       (auto simp: is_archived_def decision_coherent_def)
qed

lemma unarchive_for_reopen_event:
  assumes "unarchive_for_reopen f actor s = Inr (f1, b, t)" "f_archived_at f \<noteq> None"
  shows "\<exists>ev. archive_history t = archive_history s @ [ev] \<and> ae_opportunity_id ev = f_id f \<and>
    ae_action ev = UNARCHIVE"
proof -
  let ?s1 = "archive_log (unarchived f) UNARCHIVE MANUAL (Some (u_id actor)) None
    (archived_state f [(''trigger'', JStr ''reopen'')]) None (put_finding (unarchived f) s)"
  from assms(1) obtain c where c: "record_audit c ?s1 = Inr t"
    unfolding unarchive_for_reopen_def Let_def if_not_P [OF assms(2)] andThen_eq_Inr
      sum.inject prod.inject
    by blast
  then show ?thesis
    using archive_log_history [of "unarchived f" UNARCHIVE MANUAL "Some (u_id actor)" None
        "archived_state f [(''trigger'', JStr ''reopen'')]" None "put_finding (unarchived f) s"]
    by auto
qed

lemma apply_reopen_logged:
  assumes "apply_reopen f actor note s = Inr (f', b, t)" "f \<in> set (findings s)"
  shows "logged_change f f' s t"
proof -
  note e = apply_reopen_effect [OF assms(1)]
  let ?arch = "f_status f = Rejected \<and> f_archived_at f \<noteq> None"
  from assms(1) obtain f1 b1 s1 where
    u: "(if ?arch then unarchive_for_reopen f actor s else Inr (f, False, s)) = Inr (f1, b1, s1)"
    and rest: "(let (ev, s2) = status_log f1 actor Open ''reopen'' None note s1;
            f' = f1\<lparr>f_status := Open, f_needs_review := False\<rparr>
        in Inr (f', ?arch, put_finding f' s2)) = (Inr (f', b, t) :: (finding \<times> bool \<times> db) result)"
    unfolding apply_reopen_def Let_def andThen_eq_Inr by auto
  from rest have t: "archive_history t = archive_history s1"
    and f': "f' = f1\<lparr>f_status := Open, f_needs_review := False\<rparr>"
    by (auto simp: Let_def case_prod_beta status_log_def env_defs)
  have "log_grows archive_history ae_opportunity_id archived_before archived_after is_archived f f' s t"
  proof (cases "f_status f = Rejected \<and> f_archived_at f \<noteq> None")
    case False
    then have "s1 = s" "f1 = f" using u unfolding if_not_P [OF False] by simp_all
    then show ?thesis by (intro log_grows_same) (simp_all add: t f' is_archived_def)
  next
    case True
    note un = u [unfolded if_P [OF True]]
    have ne: "f_archived_at f \<noteq> None" using True by blast
    from unarchive_for_reopen_event [OF un ne] obtain ev where ev:
      "archive_history t = archive_history s @ [ev]" "ae_opportunity_id ev = f_id f"
      "ae_action ev = UNARCHIVE" by (auto simp: t)
    show ?thesis
      by (rule log_grows_one [of _ _ _ ev])
         (use ev e(6) True ne in \<open>simp_all add: archived_before_def archived_after_def is_archived_def\<close>)
  qed
  then show ?thesis
    by (rule decision_logged [OF e(1) assms(2)]) (simp add: decision_coherent_def e(3))
qed

lemma legacy_logged:
  assumes "apply_legacy_status f actor st reason note s = Inr (f', ev, t)" "f \<in> set (findings s)"
  shows "f' = f \<and> t = s \<or> logged_change f f' s t"
proof -
  from assms(1) obtain target where "legacy_target st = Inr target"
    by (auto simp: apply_legacy_status_def andThen_eq_Inr)
  with assms show ?thesis
    using apply_treat_logged apply_reject_logged apply_reopen_logged
    by (auto simp: apply_legacy_status_def andThen_eq_Inr Let_def case_prod_beta
        split: if_splits option.splits)
qed

section \<open>Requests\<close>

lemma treat_audited [audited]:
  assumes "treat i actor note s = Inr (f', t)"
  shows "audited_step\<^sup>*\<^sup>* s t"
proof -
  from assms obtain f s1 ev s2 where f: "get_finding i s = Some f"
    and a: "apply_treat f actor note s = Inr (f', ev, s1)"
    and r: "recognize_treatments [(f', ev)] actor s1 = Inr s2"
    and c: "core_eq s2 t" "archive_history t = archive_history s2"
    by (rule treat_effect)
  have "f \<in> set (findings s)" using get_finding_Some [OF f] by simp
  from apply_treat_logged [OF a this] quiet_trans [OF quiet_recognize [OF r] quiet_core [OF c]]
  show ?thesis by (rule logged_audited)
qed

lemma reject_audited [audited]:
  assumes "reject i actor reason note s = Inr (f', t)"
  shows "audited_step\<^sup>*\<^sup>* s t"
proof -
  from assms obtain f s1 n s2 c where f: "locked i s = Inr f"
    and a: "apply_reject f actor reason note s = Inr (f', s1)"
    and q: "refresh_summaries_for_findings [f'] s1 = Inr (n, s2)" and u: "record_audit c s2 = Inr t"
    by (auto simp: reject_def record_lifecycle_audit_def andThen_eq_Inr)
  have "f \<in> set (findings s)" using get_finding_Some f by (auto simp: locked_eq)
  from apply_reject_logged [OF a this] quiet_trans [OF quiet_refresh [OF q] quiet_audit [OF u]]
  show ?thesis by (rule logged_audited)
qed

lemma reopen_audited [audited]:
  assumes "reopen i actor note s = Inr (f', t)"
  shows "audited_step\<^sup>*\<^sup>* s t"
proof -
  from assms obtain f b s1 where f: "get_finding i s = Some f"
    and a: "apply_reopen f actor note s = Inr (f', b, s1)"
    and c: "core_eq s1 t" "archive_history t = archive_history s1"
    by (rule reopen_effect)
  have "f \<in> set (findings s)" using get_finding_Some [OF f] by simp
  from apply_reopen_logged [OF a this] quiet_core [OF c] show ?thesis by (rule logged_audited)
qed

text \<open>
  Loops over stored rows: each iteration may change the row it is given, and the rows still to
  come are the stored ones because identifiers are distinct.
\<close>

lemma loop_audited:
  assumes "fold_result step fs st = Inr st'" "distinct (map f_id fs)"
    and "set fs \<subseteq> set (findings (proj st))"
    and "\<And>f st st'. f \<in> set fs \<Longrightarrow> step f st = Inr st' \<Longrightarrow> f \<in> set (findings (proj st)) \<Longrightarrow>
      quiet (proj st) (proj st') \<or> (\<exists>f'. logged_change f f' (proj st) (proj st'))"
  shows "audited_step\<^sup>*\<^sup>* (proj st) (proj st')"
  using assms
proof (induction fs arbitrary: st)
  case Nil
  then show ?case by simp
next
  case (Cons f fs)
  from Cons.prems(1) obtain u where u: "step f st = Inr u" and rest: "fold_result step fs u = Inr st'"
    by (auto simp: andThen_eq_Inr)
  have f: "f \<in> set (findings (proj st))" using Cons.prems(3) by simp
  have one: "audited_step\<^sup>*\<^sup>* (proj st) (proj u) \<and> set fs \<subseteq> set (findings (proj u))"
    using Cons.prems(4) [OF list.set_intros(1) u f]
  proof
    assume "quiet (proj st) (proj u)"
    then show ?thesis using quiet_audited Cons.prems(3) by (auto simp: quiet_def)
  next
    assume "\<exists>f'. logged_change f f' (proj st) (proj u)"
    then obtain f' where c: "logged_change f f' (proj st) (proj u)" ..
    then have "findings (proj u) = put_row f_id f' (findings (proj st))" "f_id f' = f_id f"
      by (simp_all add: logged_change_def row_replaced_def)
    moreover have "f_id f \<notin> f_id ` set fs" using Cons.prems(2) by simp
    then have "f_id g \<noteq> f_id f" if "g \<in> set fs" for g using that by (metis imageI)
    ultimately have "set fs \<subseteq> set (findings (proj u))"
      using Cons.prems(3) by (auto simp: in_put_row)
    then show ?thesis using c by (auto intro: changed)
  qed
  moreover from one have "audited_step\<^sup>*\<^sup>* (proj u) (proj st')"
    using Cons.prems(2) by (intro Cons.IH [OF rest]) (simp_all add: Cons.prems(4))
  ultimately show ?case by (blast intro: rtranclp_trans)
qed

abbreviation bulk_db :: "bulk_state \<Rightarrow> db" where
  "bulk_db st \<equiv> snd (snd (snd st))"

lemma bulk_step_logged:
  assumes "bulk_step action actor reason note f st = Inr st'" "f \<in> set (findings (bulk_db st))"
  shows "\<exists>f'. logged_change f f' (bulk_db st) (bulk_db st')"
proof -
  obtain fs cands n s where st: "st = (fs, cands, n, s)" by (cases st)
  have "(\<exists>f' ev. apply_treat f actor note s = Inr (f', ev, bulk_db st')) \<or>
      (\<exists>f'. apply_reject f actor (or_text reason []) note s = Inr (f', bulk_db st')) \<or>
      (\<exists>f' b. apply_reopen f actor note s = Inr (f', b, bulk_db st'))"
    using assms(1) unfolding st bulk_step_def prod.case
    by (auto simp: andThen_eq_Inr split: if_splits)
  then show ?thesis
    using assms(2) unfolding st snd_conv
    by (elim disjE exE) (metis apply_treat_logged, metis apply_reject_logged,
        metis apply_reopen_logged)
qed

lemma legacy_step_logged:
  assumes "legacy_step target actor stat reason note f st = Inr st'"
    "f \<in> set (findings (bulk_db st))"
  shows "quiet (bulk_db st) (bulk_db st') \<or> (\<exists>f'. logged_change f f' (bulk_db st) (bulk_db st'))"
proof -
  obtain fs cands n s where st: "st = (fs, cands, n, s)" by (cases st)
  have "\<exists>f' ev. apply_legacy_status f actor stat reason note s = Inr (f', ev, bulk_db st')"
    using assms(1) unfolding st legacy_step_def prod.case
    by (auto simp: andThen_eq_Inr Let_def)
  then show ?thesis
    using assms(2) legacy_logged quiet_refl unfolding st snd_conv by metis
qed

lemma bulk_finish_quiet:
  assumes "bulk_finish action actor reason ids st = Inr (out, t)"
  shows "quiet (bulk_db st) t"
proof -
  obtain fs cands n s where st: "st = (fs, cands, n, s)" by (cases st)
  from assms obtain s1 m s2 c where "recognize_treatments cands actor s = Inr s1"
    "refresh_summaries_for_findings fs s1 = Inr (m, s2)" "record_audit c (snd (new_uuid s2)) = Inr t"
    unfolding bulk_finish_def st by (auto simp: andThen_eq_Inr case_prod_beta)
  then show ?thesis
    using quiet_recognize quiet_refresh quiet_uuid quiet_audit quiet_trans by (metis snd_conv st)
qed

lemma loaded_rows:
  assumes "load_all (dedup ids) s = Inr fs"
  shows "distinct (map f_id fs)" "set fs \<subseteq> set (findings s)"
  using load_all_Inr [OF assms] get_finding_Some by force+

lemma bulk_transition_audited [audited]:
  assumes "bulk_transition ids actor action reason note s = Inr (out, t)"
  shows "audited_step\<^sup>*\<^sup>* s t"
proof -
  from assms obtain fs st where l: "load_all (dedup ids) s = Inr fs"
    and loop: "fold_result (bulk_step action actor reason note) fs ([], [], 0, s) = Inr st"
    and fin: "bulk_finish action actor reason (dedup ids) st = Inr (out, t)"
    by (auto simp: bulk_transition_def Let_def andThen_eq_Inr)
  have "audited_step\<^sup>*\<^sup>* (bulk_db ([], [], 0, s)) (bulk_db st)"
    by (rule loop_audited [OF loop loaded_rows(1) [OF l]])
       (use loaded_rows(2) [OF l] bulk_step_logged in \<open>auto\<close>)
  then show ?thesis using quiet_audited [OF bulk_finish_quiet [OF fin]] by simp
qed

lemma set_legacy_status_audited [audited]:
  assumes "set_legacy_status i actor st reason note s = Inr (f', t)"
  shows "audited_step\<^sup>*\<^sup>* s t"
proof -
  from assms obtain f event s1 s2 n s3 where l: "locked i s = Inr f"
    and a: "apply_legacy_status f actor st reason note s = Inr (f', event, s1)"
    and r: "(case event of None \<Rightarrow> Inr s1 | Some ev \<Rightarrow> recognize_treatments [(f', ev)] actor s1) =
      Inr s2"
    and q: "refresh_summaries_for_findings [f'] s2 = Inr (n, s3)"
    and fin: "t = s3 \<or> (\<exists>c. record_audit c s3 = Inr t)"
    by (rule set_legacy_steps)
  have "f \<in> set (findings s)" using l get_finding_Some by (auto simp: locked_eq)
  from legacy_logged [OF a this] have "audited_step\<^sup>*\<^sup>* s s1" by (auto intro: changed)
  moreover have "quiet s1 s2" using r quiet_recognize by (cases event) auto
  then have "quiet s1 t" using quiet_refresh [OF q] fin quiet_audit quiet_trans by metis
  ultimately show ?thesis using quiet_audited rtranclp_trans by metis
qed

lemma bulk_set_legacy_status_audited [audited]:
  assumes "bulk_set_legacy_status ids actor st reason note s = Inr (out, t)"
  shows "audited_step\<^sup>*\<^sup>* s t"
proof -
  from assms obtain fs target bs where l: "load_all (dedup ids) s = Inr fs"
    and loop: "fold_result (legacy_step target actor st reason note) fs ([], [], 0, s) = Inr bs"
    and fin: "bulk_finish (legacy_action target) actor reason (dedup ids) bs = Inr (out, t)"
    by (auto simp: bulk_set_legacy_status_def Let_def andThen_eq_Inr)
  have "audited_step\<^sup>*\<^sup>* (bulk_db ([], [], 0, s)) (bulk_db bs)"
    by (rule loop_audited [OF loop loaded_rows(1) [OF l]])
       (use loaded_rows(2) [OF l] legacy_step_logged in \<open>auto\<close>)
  then show ?thesis using quiet_audited [OF bulk_finish_quiet [OF fin]] by simp
qed

end
