(* ===== verification/Fingerprint.thy ===== *)
theory Fingerprint
  imports AuditTrail
begin

text \<open>
  The identity of an opportunity (backend/app/services/opportunity_fingerprint.py): the SHA-256
  digest of a canonical JSON list of its normalized coordinates.  The digest function is that
  of the state (\<open>sha256\<close>); text is ASCII, so its UTF-8 encoding is the text itself.
\<close>

section \<open>The fingerprint\<close>

definition normalize :: "string option \<Rightarrow> string \<Rightarrow> bool \<Rightarrow> bool \<Rightarrow> string result" where
  "normalize v field lowercase allow_empty =
     (let stripped = (case v of None \<Rightarrow> [] | Some t \<Rightarrow> strip t);
          normalized = (if lowercase then lower stripped else stripped)
      in andThen (guard (normalized \<noteq> [] \<or> allow_empty)
           (ValueError (field @ '' must not be empty''))) (\<lambda>_. Inr normalized))"

record coordinates =
  co_provider :: string
  co_account_id :: string
  co_region :: "string option"
  co_resource_id :: string
  co_rule_id :: string
  co_scope :: "string option"

definition fingerprint_payload :: "coordinates \<Rightarrow> string list result" where
  "fingerprint_payload c =
     andThen (normalize (Some (co_provider c)) ''provider'' True False) (\<lambda>provider.
     andThen (normalize (Some (co_account_id c)) ''account_id'' False False) (\<lambda>account.
     andThen (normalize (co_region c) ''region'' True True) (\<lambda>region.
     andThen (normalize (co_scope c) ''scope'' True True) (\<lambda>scope.
     andThen (normalize (Some (co_resource_id c)) ''resource_id'' False False) (\<lambda>resource.
     andThen (normalize (Some (co_rule_id c)) ''rule_id'' True False) (\<lambda>rule_id.
     Inr [''opportunity-fingerprint:v1'', provider, account, region, scope, resource,
          rule_id]))))))"

text \<open>\<open>json.dumps(payload, ensure_ascii=False, separators=(",", ":"))\<close>.\<close>

definition canonical_text :: "string list \<Rightarrow> string" where
  "canonical_text payload = dumps (JList (map JStr payload))"

definition build_opportunity_fingerprint_v1 :: "(string \<Rightarrow> string) \<Rightarrow> coordinates \<Rightarrow> string result" where
  "build_opportunity_fingerprint_v1 digest c =
     andThen (fingerprint_payload c) (\<lambda>payload. Inr (digest (canonical_text payload)))"

definition build_opportunity_fingerprint :: "(string \<Rightarrow> string) \<Rightarrow> coordinates \<Rightarrow> string result" where
  "build_opportunity_fingerprint digest c = build_opportunity_fingerprint_v1 digest c"

section \<open>The canonical text is a code\<close>

text \<open>The character an escape sequence at the start of a JSON text stands for.\<close>

definition hex_value :: "char \<Rightarrow> nat" where
  "hex_value c = (if of_char c < (58 :: nat) then of_char c - 48 else of_char c - 87)"

fun read_char :: "string \<Rightarrow> (char \<times> string) option" where
  "read_char [] = None"
| "read_char (c # s) =
     (if c \<noteq> CHR 0x5C then (if c = CHR 0x22 then None else Some (c, s))
      else case s of
        [] \<Rightarrow> None
      | e # t \<Rightarrow>
          if e = CHR ''n'' then Some (CHR 0x0A, t)
          else if e = CHR ''r'' then Some (CHR 0x0D, t)
          else if e = CHR ''t'' then Some (CHR 0x09, t)
          else if e = CHR ''b'' then Some (CHR 0x08, t)
          else if e = CHR ''f'' then Some (CHR 0x0C, t)
          else if e = CHR ''u''
               then Some (char_of (16 * hex_value (t ! 2) + hex_value (t ! 3)), drop 4 t)
          else Some (e, t))"

lemma hex_digit: "k < 16 \<Longrightarrow> hex_value (''0123456789abcdef'' ! k) = k"
proof -
  have "list_all (\<lambda>k. hex_value (''0123456789abcdef'' ! k) = k) [0..<16]" by code_simp
  then show "k < 16 \<Longrightarrow> ?thesis" by (simp add: list_all_iff)
qed

lemma read_escape: "read_char (escape_char c @ s) = Some (c, s)"
proof -
  have "of_char c < (256 :: nat)" by simp
  then have div: "of_char c div 16 < (16 :: nat)" and mod: "of_char c mod 16 < (16 :: nat)"
    by linarith+
  have "char_of (16 * hex_value (''0123456789abcdef'' ! (of_char c div 16)) +
      hex_value (''0123456789abcdef'' ! (of_char c mod 16))) = c"
    unfolding hex_digit [OF div] hex_digit [OF mod] by simp
  then show ?thesis by (simp add: escape_char_def numeral_2_eq_2 numeral_3_eq_3)
qed

lemma quoted_prefix: "quoted a @ x = quoted b @ y \<Longrightarrow> a = b \<and> x = y"
proof -
  have stop: "concat (map escape_char a) @ CHR 0x22 # x = concat (map escape_char b) @ CHR 0x22 # y \<Longrightarrow>
      a = b \<and> x = y"
  proof (induction a arbitrary: b)
    case Nil
    have none: "read_char (CHR 0x22 # x) = None" by simp
    show ?case
    proof (cases b)
      case (Cons d b')
      with Nil have "CHR 0x22 # x = escape_char d @ (concat (map escape_char b') @ CHR 0x22 # y)"
        by simp
      then show ?thesis using none by (metis option.distinct(1) read_escape)
    qed (use Nil in simp)
  next
    case (Cons c a)
    from Cons.prems have l: "read_char (concat (map escape_char b) @ CHR 0x22 # y) =
        Some (c, concat (map escape_char a) @ CHR 0x22 # x)"
      by (metis append_assoc concat.simps(2) list.simps(9) read_escape)
    show ?case
    proof (cases b)
      case Nil
      with l show ?thesis by simp
    next
      case (Cons d b')
      with l have "c = d \<and> concat (map escape_char a) @ CHR 0x22 # x =
          concat (map escape_char b') @ CHR 0x22 # y"
        by (simp add: read_escape)
      with Cons Cons.IH [of b'] show ?thesis by simp
    qed
  qed
  assume "quoted a @ x = quoted b @ y"
  then show ?thesis using stop by (simp add: quoted_def)
qed

lemma join_quoted: "join '','' (map quoted (x # xs)) @ '']'' =
    quoted x @ (if xs = [] then '']'' else '','' @ join '','' (map quoted xs) @ '']'')"
  by (cases xs) simp_all

lemma join_quoted_inject:
  "join '','' (map quoted xs) @ '']'' = join '','' (map quoted ys) @ '']'' \<Longrightarrow> xs = ys"
proof (induction xs arbitrary: ys)
  case Nil
  show ?case
  proof (cases ys)
    case (Cons y ys')
    with Nil show ?thesis unfolding Cons join_quoted by (simp add: quoted_def)
  qed simp
next
  case (Cons x xs)
  show ?case
  proof (cases ys)
    case Nil
    with Cons.prems show ?thesis unfolding join_quoted by (simp add: quoted_def)
  next
    case (Cons y ys')
    from Cons.prems [unfolded Cons join_quoted] have
      "x = y \<and> (if xs = [] then '']'' else '','' @ join '','' (map quoted xs) @ '']'') =
        (if ys' = [] then '']'' else '','' @ join '','' (map quoted ys') @ '']'')"
      by (rule quoted_prefix)
    then show ?thesis using Cons.IH [of ys'] Cons by (auto split: if_splits)
  qed
qed

lemma canonical_text_inject: "canonical_text xs = canonical_text ys \<longleftrightarrow> xs = ys"
proof
  assume "canonical_text xs = canonical_text ys"
  then have "join '','' (map quoted xs) @ '']'' = join '','' (map quoted ys) @ '']''"
    by (simp add: canonical_text_def comp_def)
  then show "xs = ys" by (rule join_quoted_inject)
qed simp

section \<open>Identity\<close>

text \<open>What makes two reports the same opportunity: the coordinates up to blanks and, but for the
  account and the resource, letter case.\<close>

definition same_opportunity :: "coordinates \<Rightarrow> coordinates \<Rightarrow> bool" where
  "same_opportunity c d \<longleftrightarrow>
     lower (strip (co_provider c)) = lower (strip (co_provider d)) \<and>
     strip (co_account_id c) = strip (co_account_id d) \<and>
     lower (strip (or_text (co_region c) [])) = lower (strip (or_text (co_region d) [])) \<and>
     lower (strip (or_text (co_scope c) [])) = lower (strip (or_text (co_scope d) [])) \<and>
     strip (co_resource_id c) = strip (co_resource_id d) \<and>
     lower (strip (co_rule_id c)) = lower (strip (co_rule_id d))"

definition complete :: "coordinates \<Rightarrow> bool" where
  "complete c \<longleftrightarrow> strip (co_provider c) \<noteq> [] \<and> strip (co_account_id c) \<noteq> [] \<and>
     strip (co_resource_id c) \<noteq> [] \<and> strip (co_rule_id c) \<noteq> []"

lemma strip_or_text: "(case v of None \<Rightarrow> [] | Some t \<Rightarrow> strip t) = strip (or_text v [])"
  by (cases v) (auto simp: or_text_def strip_def)

lemma lower_Nil [simp]: "lower s = [] \<longleftrightarrow> s = []"
  by (simp add: lower_def)

lemma fingerprint_payload_eq:
  "complete c \<Longrightarrow> fingerprint_payload c = Inr [''opportunity-fingerprint:v1'',
     lower (strip (co_provider c)), strip (co_account_id c), lower (strip (or_text (co_region c) [])),
     lower (strip (or_text (co_scope c) [])), strip (co_resource_id c), lower (strip (co_rule_id c))]"
  by (simp add: fingerprint_payload_def normalize_def strip_or_text complete_def Let_def)

lemma fingerprint_payload_incomplete: "\<not> complete c \<Longrightarrow> \<exists>m. fingerprint_payload c = Inl (ValueError m)"
  by (auto simp: fingerprint_payload_def normalize_def strip_or_text complete_def Let_def guard_def)

lemma fingerprint_unfold: "build_opportunity_fingerprint digest c =
    andThen (fingerprint_payload c) (\<lambda>payload. Inr (digest (canonical_text payload)))"
  by (simp add: build_opportunity_fingerprint_def build_opportunity_fingerprint_v1_def)

definition no_collision :: "(string \<Rightarrow> string) \<Rightarrow> coordinates \<Rightarrow> coordinates \<Rightarrow> bool" where
  "no_collision digest c d \<longleftrightarrow> (\<forall>p q. fingerprint_payload c = Inr p \<longrightarrow> fingerprint_payload d = Inr q \<longrightarrow>
     digest (canonical_text p) = digest (canonical_text q) \<longrightarrow> canonical_text p = canonical_text q)"

lemma same_fingerprint:
  assumes "no_collision digest c d" "complete c" "complete d"
  shows "build_opportunity_fingerprint digest c = build_opportunity_fingerprint digest d \<longleftrightarrow>
    same_opportunity c d"
  using assms(1) fingerprint_payload_eq [OF assms(2)] fingerprint_payload_eq [OF assms(3)]
  by (auto simp: fingerprint_unfold no_collision_def canonical_text_inject same_opportunity_def)

text \<open>
  C40: The fingerprint identifies an opportunity.  It can be built exactly for complete
  coordinates (a provider, account, resource and rule that are not blank) and fails with a
  ValueError otherwise; and as long as the digest does not collide on the two canonical texts,
  two complete coordinates have the same fingerprint exactly if they are the same opportunity.
\<close>

theorem fingerprint_identity:
  assumes "no_collision digest c d"
  shows "(complete c \<longleftrightarrow> (\<exists>h. build_opportunity_fingerprint digest c = Inr h)) \<and>
    (\<not> complete c \<longrightarrow> (\<exists>m. build_opportunity_fingerprint digest c = Inl (ValueError m))) \<and>
    (complete c \<longrightarrow> complete d \<longrightarrow>
      (build_opportunity_fingerprint digest c = build_opportunity_fingerprint digest d \<longleftrightarrow>
       same_opportunity c d))"
proof -
  have bad: "\<not> complete c \<Longrightarrow> \<exists>m. build_opportunity_fingerprint digest c = Inl (ValueError m)"
    using fingerprint_payload_incomplete [of c] by (auto simp: fingerprint_unfold)
  have good: "complete c \<Longrightarrow> \<exists>h. build_opportunity_fingerprint digest c = Inr h"
    by (simp add: fingerprint_unfold fingerprint_payload_eq)
  from bad good same_fingerprint [OF assms] show ?thesis by (metis sum.distinct(1))
qed

definition sample_coordinates :: coordinates where
  "sample_coordinates = \<lparr>co_provider = '' AWS'', co_account_id = ''1'', co_region = None,
     co_resource_id = ''vol-1'', co_rule_id = ''Ebs'', co_scope = Some ''ebs''\<rparr>"

lemma fingerprint_identity_witness:
  "build_opportunity_fingerprint (\<lambda>t. t) sample_coordinates =
   build_opportunity_fingerprint (\<lambda>t. t)
     (sample_coordinates\<lparr>co_provider := ''aws'', co_region := Some '' ''\<rparr>)"
proof -
  have "complete sample_coordinates"
    "complete (sample_coordinates\<lparr>co_provider := ''aws'', co_region := Some '' ''\<rparr>)"
    "same_opportunity sample_coordinates
       (sample_coordinates\<lparr>co_provider := ''aws'', co_region := Some '' ''\<rparr>)"
    by code_simp+
  moreover have "no_collision (\<lambda>t. t) sample_coordinates d" for d by (simp add: no_collision_def)
  ultimately show ?thesis using fingerprint_identity [of "\<lambda>t. t" sample_coordinates] by blast
qed

end
