(* ===== verification/Collection.thy ===== *)
theory Collection
  imports Scans Histories Fingerprint "HOL-Library.AList"
begin

text \<open>
  What the worker does with the result of a collection (backend/app/worker.py): opportunities are
  found or created by fingerprint, one observation is kept per opportunity and run, and the row
  of an opportunity follows its latest observation.  \<open>NUMERIC(14, 2)\<close> rounds on writing; a
  savings estimate that is not a number is \<open>None\<close>.
\<close>

section \<open>Reported items\<close>

definition numeric2 :: "decimal \<Rightarrow> decimal result" where
  "numeric2 x =
     (let r = of_int \<lfloor>\<bar>x\<bar> * 100 + 1 / 2\<rfloor> / 100
      in andThen (guard (r < 1000000000000) DataError) (\<lambda>_. Inr (if x < 0 then - r else r)))"

text \<open>An item as the columns of findings and observations store its amounts.\<close>

definition stored_item :: "collected_finding \<Rightarrow> collected_finding result" where
  "stored_item item =
     andThen (numeric2 (ci_current_monthly_cost item)) (\<lambda>cost.
     andThen (case ci_estimated_monthly_savings item of None \<Rightarrow> Inr None
              | Some x \<Rightarrow> andThen (numeric2 x) (\<lambda>y. Inr (Some y))) (\<lambda>savings.
     Inr (item\<lparr>ci_current_monthly_cost := cost, ci_estimated_monthly_savings := savings\<rparr>)))"

definition item_coordinates :: "collection_run \<Rightarrow> collected_finding \<Rightarrow> coordinates" where
  "item_coordinates run item =
     \<lparr>co_provider = cr_provider run, co_account_id = cr_account_id run, co_region = ci_region item,
      co_resource_id = ci_resource_id item, co_rule_id = ci_rule_key item,
      co_scope = Some (ci_service item)\<rparr>"

definition item_fingerprint :: "(string \<Rightarrow> string) \<Rightarrow> collection_run \<Rightarrow> collected_finding \<Rightarrow>
    string result" where
  "item_fingerprint digest run item = build_opportunity_fingerprint digest (item_coordinates run item)"

text \<open>\<open>by_fingerprint\<close>: the last item of a fingerprint wins, at the place of the first.\<close>

definition index_item :: "(string \<Rightarrow> string) \<Rightarrow> collection_run \<Rightarrow> collected_finding \<Rightarrow>
    (string \<times> collected_finding) list \<Rightarrow> (string \<times> collected_finding) list result" where
  "index_item digest run item idx =
     andThen (item_fingerprint digest run item) (\<lambda>fp. Inr (AList.update fp item idx))"

definition by_fingerprint :: "(string \<Rightarrow> string) \<Rightarrow> collection_run \<Rightarrow> collected_finding list \<Rightarrow>
    (string \<times> collected_finding) list result" where
  "by_fingerprint digest run collected = fold_result (index_item digest run) collected []"

section \<open>Opportunities\<close>

definition finding_by_fingerprint :: "string \<Rightarrow> db \<Rightarrow> finding option" where
  "finding_by_fingerprint fp s = find_row f_fingerprint fp (findings s)"

definition new_finding :: "string \<Rightarrow> string \<Rightarrow> scan \<Rightarrow> collection_run \<Rightarrow> collected_finding \<Rightarrow>
    datetime \<Rightarrow> finding" where
  "new_finding i fp scan run item observed_at =
     \<lparr>f_id = i, f_fingerprint = fp, f_scan_id = Some (sc_id scan),
      f_first_seen_collection_run_id = Some (cr_id run),
      f_last_seen_collection_run_id = Some (cr_id run), f_provider = cr_provider run,
      f_account_id = cr_account_id run, f_rule_key = ci_rule_key item,
      f_service = ci_service item, f_region = ci_region item, f_resource_id = ci_resource_id item,
      f_resource_name = ci_resource_name item, f_resource_type = ci_resource_type item,
      f_provider_metadata = ci_provider_metadata item, f_title = ci_title item,
      f_description = ci_description item, f_evidence = ci_evidence item,
      f_current_monthly_cost = ci_current_monthly_cost item,
      f_estimated_monthly_savings = ci_estimated_monthly_savings item,
      f_currency = ci_currency item, f_confidence = ci_confidence item,
      f_severity = ci_severity item, f_status = Open, f_presence_status = Active,
      f_missing_count = 0, f_missing_since_at = None, f_resolved_externally_at = None,
      f_presence_reconciled_run_id = None, f_presence_reconciled_at = None,
      f_total_occurrence_count = 0, f_first_seen_at = observed_at, f_last_seen_at = observed_at,
      f_treated_at = None, f_treated_by = None, f_treatment_note = None, f_rejected_at = None,
      f_rejected_by = None, f_rejection_reason = None, f_rejection_note = None,
      f_needs_review = False, f_archived_at = None, f_archived_by = None,
      f_archive_reason = None\<rparr>"

text \<open>
  The insert runs in a savepoint; an integrity error (the fingerprint or the primary key is
  taken) falls back to the row with the fingerprint.
\<close>

definition create_finding_race_safe :: "string \<Rightarrow> scan \<Rightarrow> collection_run \<Rightarrow> collected_finding \<Rightarrow>
    datetime \<Rightarrow> db \<Rightarrow> (finding \<times> db) result" where
  "create_finding_race_safe fp scan run item observed_at s =
     (let (i, s1) = new_uuid s;
          candidate = new_finding i fp scan run item observed_at
      in if finding_by_fingerprint fp s1 = None \<and> get_finding i s1 = None
         then Inr (candidate, s1\<lparr>findings := findings s1 @ [candidate]\<rparr>)
         else case finding_by_fingerprint fp s1 of
                None \<Rightarrow> Inl IntegrityError
              | Some f \<Rightarrow> Inr (f, s1))"

definition create_missing :: "scan \<Rightarrow> collection_run \<Rightarrow> datetime \<Rightarrow> string \<times> collected_finding \<Rightarrow>
    db \<Rightarrow> db result" where
  "create_missing scan run observed_at entry s = (case entry of (fp, item) \<Rightarrow>
     if finding_by_fingerprint fp s \<noteq> None then Inr s
     else andThen (stored_item item) (\<lambda>item.
          andThen (create_finding_race_safe fp scan run item observed_at s) (\<lambda>(_, s1). Inr s1)))"

section \<open>Observations\<close>

definition observation_for_run :: "db \<Rightarrow> string \<Rightarrow> string \<Rightarrow> observation option" where
  "observation_for_run s opportunity run =
     find (\<lambda>x. o_opportunity_id x = opportunity \<and> o_collection_run_id x = run) (observations s)"

definition put_observation :: "observation \<Rightarrow> db \<Rightarrow> db" where
  "put_observation x s = s\<lparr>observations := put_row o_id x (observations s)\<rparr>"

definition new_observation :: "string \<Rightarrow> finding \<Rightarrow> collection_run \<Rightarrow> collected_finding \<Rightarrow>
    datetime \<Rightarrow> observation" where
  "new_observation i f run item observed_at =
     \<lparr>o_id = i, o_opportunity_id = f_id f, o_collection_run_id = cr_id run,
      o_observed_at = observed_at, o_severity = ci_severity item,
      o_current_monthly_cost = ci_current_monthly_cost item,
      o_estimated_monthly_savings = ci_estimated_monthly_savings item,
      o_currency = ci_currency item, o_confidence = ci_confidence item,
      o_provider_metadata = ci_provider_metadata item, o_evidence = ci_evidence item\<rparr>"

definition create_observation_race_safe :: "finding \<Rightarrow> collection_run \<Rightarrow> collected_finding \<Rightarrow>
    datetime \<Rightarrow> db \<Rightarrow> (observation \<times> bool \<times> db) result" where
  "create_observation_race_safe f run item observed_at s =
     (let (i, s1) = new_uuid s;
          candidate = new_observation i f run item observed_at
      in if observation_for_run s1 (f_id f) (cr_id run) = None \<and> i \<notin> o_id ` set (observations s1)
         then Inr (candidate, True, s1\<lparr>observations := observations s1 @ [candidate]\<rparr>)
         else case observation_for_run s1 (f_id f) (cr_id run) of
                None \<Rightarrow> Inl IntegrityError
              | Some x \<Rightarrow> Inr (x, False, s1))"

definition refreshed_observation :: "observation \<Rightarrow> collected_finding \<Rightarrow> observation" where
  "refreshed_observation x item =
     x\<lparr>o_severity := ci_severity item, o_current_monthly_cost := ci_current_monthly_cost item,
       o_estimated_monthly_savings := ci_estimated_monthly_savings item,
       o_currency := ci_currency item, o_confidence := ci_confidence item,
       o_provider_metadata := ci_provider_metadata item, o_evidence := ci_evidence item\<rparr>"

definition is_latest_observation :: "db \<Rightarrow> finding \<Rightarrow> observation \<Rightarrow> collection_run \<Rightarrow> bool" where
  "is_latest_observation s f x run =
     (let observed_at = utc (o_observed_at x); last_seen_at = utc (f_last_seen_at f)
      in if earlier last_seen_at observed_at then True
         else if earlier observed_at last_seen_at then False
         else case f_last_seen_collection_run_id f of
                None \<Rightarrow> True
              | Some previous \<Rightarrow>
                  if previous = cr_id run then True
                  else case find_row cr_id previous (collection_runs s) of
                         None \<Rightarrow> True
                       | Some previous_run \<Rightarrow>
                           (instant (cr_started_at previous_run),
                            case observation_for_run s (f_id f) (cr_id previous_run) of
                              None \<Rightarrow> [] | Some y \<Rightarrow> o_id y)
                           \<le> (instant (cr_started_at run), o_id x))"

definition refreshed_snapshot :: "finding \<Rightarrow> scan \<Rightarrow> collected_finding \<Rightarrow> finding" where
  "refreshed_snapshot f scan item =
     f\<lparr>f_scan_id := Some (sc_id scan), f_resource_name := ci_resource_name item,
       f_resource_type := ci_resource_type item, f_provider_metadata := ci_provider_metadata item,
       f_title := ci_title item, f_description := ci_description item,
       f_evidence := ci_evidence item, f_current_monthly_cost := ci_current_monthly_cost item,
       f_estimated_monthly_savings := ci_estimated_monthly_savings item,
       f_currency := ci_currency item, f_confidence := ci_confidence item,
       f_severity := ci_severity item\<rparr>"

definition counted_occurrence :: "finding \<Rightarrow> collection_run \<Rightarrow> finding" where
  "counted_occurrence f run =
     (let f' = f\<lparr>f_total_occurrence_count := f_total_occurrence_count f + 1\<rparr>
      in if f_first_seen_collection_run_id f' = None \<and> f_total_occurrence_count f' = 1
         then f'\<lparr>f_first_seen_collection_run_id := Some (cr_id run)\<rparr> else f')"

text \<open>A treated opportunity that is observed again after its treatment needs a review.\<close>

definition reviewed_again :: "finding \<Rightarrow> observation \<Rightarrow> finding" where
  "reviewed_again f x =
     (if f_status f = Treated \<and> (case f_treated_at f of None \<Rightarrow> False
           | Some t \<Rightarrow> earlier (utc t) (utc (o_observed_at x)))
      then f\<lparr>f_needs_review := True\<rparr> else f)"

text \<open>One round of the second loop, for the opportunity of a fingerprint.\<close>

definition observation_of_item :: "collection_run \<Rightarrow> datetime \<Rightarrow> finding \<Rightarrow> collected_finding \<Rightarrow> db \<Rightarrow>
    (observation \<times> bool \<times> db) result" where
  "observation_of_item run observed_at f item s =
     (case observation_for_run s (f_id f) (cr_id run) of
        Some x \<Rightarrow> Inr (x, False, s)
      | None \<Rightarrow> create_observation_race_safe f run item observed_at s)"

text \<open>The row with the reported values, and whether it follows this observation.\<close>

definition observed_snapshot :: "scan \<Rightarrow> collection_run \<Rightarrow> finding \<Rightarrow> collected_finding \<Rightarrow> observation \<Rightarrow>
    bool \<Rightarrow> db \<Rightarrow> finding \<times> bool" where
  "observed_snapshot scan run f item x created s =
     (let f1 = (if created then counted_occurrence f run else f);
          latest = (created \<and> is_latest_observation s f1 x run)
      in (if f_scan_id f1 = Some (sc_id scan) \<or> latest
          then refreshed_snapshot f1 scan item else f1, latest))"

definition follow_observation :: "collection_run \<Rightarrow> finding \<Rightarrow> observation \<Rightarrow> db \<Rightarrow> db result" where
  "follow_observation run f x s =
     (let f' = f\<lparr>f_last_seen_at := o_observed_at x, f_last_seen_collection_run_id := Some (cr_id run)\<rparr>
      in andThen (reactivate_presence_from_observation f' run (put_finding f' s))
           (\<lambda>(g, _, s'). Inr (put_finding (reviewed_again g x) s')))"

definition observe_finding :: "scan \<Rightarrow> collection_run \<Rightarrow> finding \<Rightarrow> collected_finding \<Rightarrow> observation \<Rightarrow>
    bool \<Rightarrow> db \<Rightarrow> db result" where
  "observe_finding scan run f item x created s =
     (case observed_snapshot scan run f item x created s of (g, latest) \<Rightarrow>
        if latest then follow_observation run g x s else Inr (put_finding g s))"

definition persist_item :: "scan \<Rightarrow> collection_run \<Rightarrow> datetime \<Rightarrow> string \<times> collected_finding \<Rightarrow> db \<Rightarrow>
    db result" where
  "persist_item scan run observed_at entry s = (case entry of (fp, raw) \<Rightarrow>
     andThen (stored_item raw) (\<lambda>item.
     case finding_by_fingerprint fp s of
       None \<Rightarrow> Inl (KeyError fp)
     | Some f \<Rightarrow>
         andThen (observation_of_item run observed_at f item s) (\<lambda>(x, created, s1).
         let x' = refreshed_observation x item
         in observe_finding scan run f item x' created (put_observation x' s1))))"

definition persist_findings :: "scan \<Rightarrow> collection_run \<Rightarrow> collected_finding list \<Rightarrow> datetime option \<Rightarrow>
    db \<Rightarrow> (nat \<times> db) result" where
  "persist_findings scan run collected observed_at s =
     (let (at_time, s1) = given_or_now observed_at s
      in andThen (by_fingerprint (sha256 s1) run collected) (\<lambda>idx.
         andThen (fold_result (create_missing scan run at_time) idx s1) (\<lambda>s2.
         andThen (fold_result (persist_item scan run at_time) idx s2) (\<lambda>s3.
         Inr (length idx, s3)))))"

section \<open>The invariant of the collected tables\<close>

text \<open>
  Primary keys come from the source of UUIDs, fingerprints are unique, and there is at most
  one observation of a stored opportunity per run.
\<close>

definition observation_key :: "observation \<Rightarrow> string \<times> string" where
  "observation_key x = (o_opportunity_id x, o_collection_run_id x)"

definition collected_ok :: "db \<Rightarrow> bool" where
  "collected_ok s \<longleftrightarrow> inj (uuid4 s) \<and>
     f_id ` set (findings s) \<subseteq> issued s \<and> o_id ` set (observations s) \<subseteq> issued s \<and>
     distinct (map f_id (findings s)) \<and> distinct (map f_fingerprint (findings s)) \<and>
     distinct (map o_id (observations s)) \<and> distinct (map observation_key (observations s)) \<and>
     o_opportunity_id ` set (observations s) \<subseteq> f_id ` set (findings s)"

lemma next_uuid_fresh:
  assumes "collected_ok s"
  shows "uuid4 s (uuids s) \<notin> f_id ` set (findings s)" "uuid4 s (uuids s) \<notin> o_id ` set (observations s)"
  using assms new_uuid_not_issued [of s] by (auto simp: collected_ok_def)

lemma collected_ok_logs:
  assumes "collected_ok s" "uuids_grow s t" "observations t = observations s"
    and "map f_id (findings t) = map f_id (findings s)"
    and "map f_fingerprint (findings t) = map f_fingerprint (findings s)"
  shows "collected_ok t"
proof -
  have "f_id ` set (findings t) = f_id ` set (findings s)" using assms(4) by (metis set_map)
  with assms issued_grow [OF assms(2)] show ?thesis
    by (auto simp: collected_ok_def uuids_grow_def)
qed

section \<open>The index of a collection\<close>

lemma by_fingerprint_index:
  assumes "by_fingerprint digest run items = Inr idx"
  shows "distinct (map fst idx)"
    "fst ` set idx = {fp. \<exists>item \<in> set items. item_fingerprint digest run item = Inr fp}"
    "\<forall>(fp, item) \<in> set idx. item \<in> set items \<and> item_fingerprint digest run item = Inr fp"
proof -
  have "distinct (map fst idx) \<and>
      fst ` set idx = fst ` set acc \<union> {fp. \<exists>item \<in> set items. item_fingerprint digest run item = Inr fp} \<and>
      (\<forall>(fp, item) \<in> set idx. (fp, item) \<in> set acc \<or> item \<in> set items \<and> item_fingerprint digest run item = Inr fp)"
    if "fold_result (index_item digest run) items acc = Inr idx" "distinct (map fst acc)" for acc
    using that
  proof (induction items arbitrary: acc)
    case (Cons item items)
    from Cons.prems(1) obtain u where "index_item digest run item acc = Inr u"
      and rest: "fold_result (index_item digest run) items u = Inr idx"
      by (auto simp: andThen_eq_Inr)
    then obtain fp where fp: "item_fingerprint digest run item = Inr fp"
      and u: "u = AList.update fp item acc" by (auto simp: index_item_def andThen_eq_Inr)
    note fp = fp rest [unfolded u]
    have acc': "distinct (map fst (AList.update fp item acc))"
      using Cons.prems(2) by (rule distinct_update)
    have keys: "fst ` set (AList.update fp item acc) = insert fp (fst ` set acc)"
      by (simp add: dom_map_of_conv_image_fst [symmetric] update_conv')
    have vals: "set (AList.update fp item acc) \<subseteq> insert (fp, item) (set acc)"
      by (induction acc) auto
    from Cons.IH [OF fp(2) acc'] fp(1) keys vals show ?case by auto
  qed simp
  from this [of "[]"] assms show "distinct (map fst idx)"
    "fst ` set idx = {fp. \<exists>item \<in> set items. item_fingerprint digest run item = Inr fp}"
    "\<forall>(fp, item) \<in> set idx. item \<in> set items \<and> item_fingerprint digest run item = Inr fp"
    by (simp_all add: by_fingerprint_def)
qed

lemma by_fingerprint_total:
  assumes "\<forall>item \<in> set items. complete (item_coordinates run item)"
  shows "\<exists>idx. by_fingerprint digest run items = Inr idx"
proof -
  have "\<exists>idx. fold_result (index_item digest run) items acc = Inr idx" for acc
    using assms
  proof (induction items arbitrary: acc)
    case (Cons item items)
    then obtain fp where "item_fingerprint digest run item = Inr fp"
      by (auto simp: item_fingerprint_def fingerprint_unfold fingerprint_payload_eq)
    with Cons show ?case by (simp add: index_item_def)
  qed simp
  then show ?thesis by (simp add: by_fingerprint_def)
qed

section \<open>Creating the missing opportunities\<close>

lemma finding_by_fingerprint_Some:
  "finding_by_fingerprint fp s = Some f \<Longrightarrow> f \<in> set (findings s) \<and> f_fingerprint f = fp"
  unfolding finding_by_fingerprint_def using find_row_Some by fastforce

lemma finding_by_fingerprint_None:
  "finding_by_fingerprint fp s = None \<longleftrightarrow> fp \<notin> f_fingerprint ` set (findings s)"
  by (simp add: finding_by_fingerprint_def find_row_None_iff)

definition with_finding :: "finding \<Rightarrow> db \<Rightarrow> db" where
  "with_finding f s = s\<lparr>uuids := Suc (uuids s), findings := findings s @ [f]\<rparr>"

lemma create_missing_absent:
  assumes "collected_ok s" "finding_by_fingerprint fp s = None"
  shows "create_missing scan run t0 (fp, raw) s = andThen (stored_item raw) (\<lambda>item.
    Inr (with_finding (new_finding (uuid4 s (uuids s)) fp scan run item t0) s))"
proof -
  let ?s = "s\<lparr>uuids := Suc (uuids s)\<rparr>"
  have u: "new_uuid s = (uuid4 s (uuids s), ?s)" by (simp add: new_uuid_def)
  have "get_finding (uuid4 s (uuids s)) ?s = None"
    using next_uuid_fresh(1) [OF assms(1)] by (simp add: get_finding_def find_row_None_iff)
  moreover have "finding_by_fingerprint fp ?s = None"
    using assms(2) by (simp add: finding_by_fingerprint_def)
  ultimately have "create_finding_race_safe fp scan run item t0 s =
      Inr (new_finding (uuid4 s (uuids s)) fp scan run item t0,
           with_finding (new_finding (uuid4 s (uuids s)) fp scan run item t0) s)" for item
    unfolding create_finding_race_safe_def u Let_def prod.case
    by (simp only: simp_thms if_True with_finding_def) simp
  then show ?thesis using assms(2) by (simp add: create_missing_def)
qed

lemma create_missing_present:
  "finding_by_fingerprint fp s \<noteq> None \<Longrightarrow> create_missing scan run t0 (fp, raw) s = Inr s"
  by (simp add: create_missing_def)

lemma create_missing_cases:
  assumes "create_missing scan run t0 (fp, raw) s = Inr t" "collected_ok s"
  obtains "finding_by_fingerprint fp s \<noteq> None" "t = s"
  | item where "finding_by_fingerprint fp s = None" "stored_item raw = Inr item"
      "t = with_finding (new_finding (uuid4 s (uuids s)) fp scan run item t0) s"
proof (cases "finding_by_fingerprint fp s = None")
  case True
  from assms(1) [unfolded create_missing_absent [OF assms(2) True] andThen_eq_Inr] obtain item where
    "stored_item raw = Inr item"
    "t = with_finding (new_finding (uuid4 s (uuids s)) fp scan run item t0) s" by auto
  with True show ?thesis by (rule that(2))
next
  case False
  have "t = s" using assms(1) [unfolded create_missing_present [OF False]] by simp
  with False show ?thesis by (rule that(1))
qed

lemma create_missing_total:
  "stored_item raw = Inr item \<Longrightarrow> collected_ok s \<Longrightarrow> \<exists>t. create_missing scan run t0 (fp, raw) s = Inr t"
  by (cases "finding_by_fingerprint fp s = None")
     (simp_all add: create_missing_absent create_missing_present)

lemma new_finding_born: "born (new_finding i fp scan run item t0)"
  by (simp add: born_def new_finding_def is_archived_def coherent_def presence_coherent_def
      archive_coherent_def decision_coherent_def)

lemma with_finding_step:
  assumes "collected_ok s" "f = new_finding (uuid4 s (uuids s)) fp scan run item t0"
    and "finding_by_fingerprint fp s = None"
  shows "collected_ok (with_finding f s)" "audited_step s (with_finding f s)"
proof -
  have id: "f_id f = uuid4 s (uuids s)" "f_fingerprint f = fp"
    by (simp_all add: assms(2) new_finding_def)
  have new: "f_id f \<notin> f_id ` set (findings s)" using next_uuid_fresh(1) [OF assms(1)] by (simp add: id)
  have grow: "uuids_grow s (with_finding f s)" by (simp add: uuids_grow_def with_finding_def)
  have "f_id f \<in> issued (with_finding f s)"
    by (auto simp: issued_def with_finding_def id intro!: imageI)
  then show "collected_ok (with_finding f s)"
    using assms(1,3) new issued_grow [OF grow]
    by (auto simp: collected_ok_def with_finding_def finding_by_fingerprint_None id issued_def)
  show "audited_step s (with_finding f s)"
    by (rule created [of "[f]"])
       (use new in \<open>simp_all add: rows_added_def with_finding_def same_logs_def assms(2) new_finding_born\<close>)
qed

text \<open>What the first loop leaves alone.\<close>

definition outside_findings :: "db \<Rightarrow> db" where
  "outside_findings s = s\<lparr>findings := [], uuids := 0\<rparr>"

lemma create_missing_effect:
  assumes "fold_result (create_missing scan run t0) idx s = Inr t" "collected_ok s"
  shows "collected_ok t \<and> audited_step\<^sup>*\<^sup>* s t \<and> uuids_grow s t \<and>
    outside_findings t = outside_findings s \<and>
    (\<exists>new. findings t = findings s @ new \<and> (\<forall>f \<in> set new. f_fingerprint f \<in> fst ` set idx \<and>
       f_scan_id f = Some (sc_id scan) \<and> f_total_occurrence_count f = 0 \<and> f_status f = Open)) \<and>
    fst ` set idx \<subseteq> f_fingerprint ` set (findings t)"
  using assms
proof (induction idx arbitrary: s)
  case (Cons e idx)
  obtain fp raw where e: "e = (fp, raw)" by fastforce
  from Cons.prems(1) obtain u where u: "create_missing scan run t0 (fp, raw) s = Inr u"
    and rest: "fold_result (create_missing scan run t0) idx u = Inr t" by (auto simp: e andThen_eq_Inr)
  from u Cons.prems(2) have step: "collected_ok u \<and> audited_step\<^sup>*\<^sup>* s u \<and> uuids_grow s u \<and>
    outside_findings u = outside_findings s \<and>
    (\<exists>new. findings u = findings s @ new \<and> (\<forall>f \<in> set new. f_fingerprint f = fp \<and>
       f_scan_id f = Some (sc_id scan) \<and> f_total_occurrence_count f = 0 \<and> f_status f = Open)) \<and>
    fp \<in> f_fingerprint ` set (findings u)"
  proof (cases rule: create_missing_cases)
    case 1
    with Cons.prems(2) show ?thesis by (auto simp: finding_by_fingerprint_None)
  next
    case (2 item)
    with with_finding_step [OF Cons.prems(2) refl 2(1), of scan run item t0] show ?thesis
      by (auto simp: uuids_grow_def outside_findings_def with_finding_def new_finding_def)
  qed
  then have "collected_ok u" by blast
  note IH = Cons.IH [OF rest this]
  from step IH obtain new new' where "findings u = findings s @ new" "findings t = findings u @ new'"
    "\<forall>f \<in> set new. f_fingerprint f = fp \<and> f_scan_id f = Some (sc_id scan) \<and>
       f_total_occurrence_count f = 0 \<and> f_status f = Open"
    "\<forall>f \<in> set new'. f_fingerprint f \<in> fst ` set idx \<and> f_scan_id f = Some (sc_id scan) \<and>
       f_total_occurrence_count f = 0 \<and> f_status f = Open" by blast
  then have "\<exists>new. findings t = findings s @ new \<and> (\<forall>f \<in> set new. f_fingerprint f \<in> fst ` set (e # idx) \<and>
       f_scan_id f = Some (sc_id scan) \<and> f_total_occurrence_count f = 0 \<and> f_status f = Open)"
    "f_fingerprint ` set (findings u) \<subseteq> f_fingerprint ` set (findings t)"
    by (auto simp: e intro: exI [of _ "new @ new'"])
  with step IH show ?case
    by (auto simp: e intro: rtranclp_trans uuids_grow_trans)
qed simp

lemma create_missing_loop_total:
  assumes "collected_ok s" "\<forall>(fp, raw) \<in> set idx. \<exists>item. stored_item raw = Inr item"
  shows "\<exists>t. fold_result (create_missing scan run t0) idx s = Inr t"
  using assms
proof (induction idx arbitrary: s)
  case (Cons e idx)
  obtain fp raw where e: "e = (fp, raw)" by fastforce
  with Cons.prems obtain item where item: "stored_item raw = Inr item" by auto
  from create_missing_total [OF item Cons.prems(1)] obtain u where
    u: "create_missing scan run t0 (fp, raw) s = Inr u" by blast
  then have "fold_result (create_missing scan run t0) [e] s = Inr u" by (simp add: e)
  from create_missing_effect [OF this Cons.prems(1)] have "collected_ok u" by blast
  from Cons.IH [OF this] Cons.prems(2) u show ?case by (auto simp: e)
qed simp

section \<open>Observations\<close>

lemma observation_for_run_key:
  "observation_for_run s i r = find_row observation_key (i, r) (observations s)"
  by (simp add: observation_for_run_def find_row_def observation_key_def)

lemma refreshed_observation_fields [simp]:
  "o_id (refreshed_observation x item) = o_id x"
  "observation_key (refreshed_observation x item) = observation_key x"
  "o_opportunity_id (refreshed_observation x item) = o_opportunity_id x"
  "o_observed_at (refreshed_observation x item) = o_observed_at x"
  by (simp_all add: refreshed_observation_def observation_key_def)

lemma refreshed_observation_idem [simp]:
  "refreshed_observation (refreshed_observation x item) item = refreshed_observation x item"
  by (simp add: refreshed_observation_def)

definition outside_observations :: "db \<Rightarrow> db" where
  "outside_observations s = s\<lparr>observations := [], uuids := 0\<rparr>"

lemma outside_observationsD:
  assumes "outside_observations t = outside_observations s"
  shows "findings t = findings s" "status_history t = status_history s"
    "archive_history t = archive_history s" "presence_history t = presence_history s"
    "collection_runs t = collection_runs s" "ledger t = ledger s" "scans t = scans s"
    "cloud_accounts t = cloud_accounts s" "uuid4 t = uuid4 s" "scope_executions t = scope_executions s"
    "sha256 t = sha256 s" "ticks t = ticks s"
  using assms by (auto simp: outside_observations_def dest: arg_cong [where f = findings]
      arg_cong [where f = status_history] arg_cong [where f = archive_history]
      arg_cong [where f = presence_history] arg_cong [where f = collection_runs]
      arg_cong [where f = ledger] arg_cong [where f = scans] arg_cong [where f = cloud_accounts]
      arg_cong [where f = uuid4] arg_cong [where f = scope_executions] arg_cong [where f = sha256]
      arg_cong [where f = ticks])

definition with_observation :: "observation \<Rightarrow> db \<Rightarrow> db" where
  "with_observation x s = s\<lparr>uuids := Suc (uuids s), observations := observations s @ [x]\<rparr>"

lemma observation_of_item_absent:
  assumes "collected_ok s" "observation_for_run s (f_id f) (cr_id run) = None"
  shows "observation_of_item run t0 f item s =
    (let x = new_observation (uuid4 s (uuids s)) f run item t0 in Inr (x, True, with_observation x s))"
proof -
  let ?s = "s\<lparr>uuids := Suc (uuids s)\<rparr>"
  have u: "new_uuid s = (uuid4 s (uuids s), ?s)" by (simp add: new_uuid_def)
  have "observation_for_run ?s (f_id f) (cr_id run) = None"
    "uuid4 s (uuids s) \<notin> o_id ` set (observations ?s)"
    using assms next_uuid_fresh(2) [OF assms(1)] by (simp_all add: observation_for_run_def)
  then have "create_observation_race_safe f run item t0 s =
    (let x = new_observation (uuid4 s (uuids s)) f run item t0 in Inr (x, True, with_observation x s))"
    unfolding create_observation_race_safe_def u Let_def prod.case
    by (simp only: simp_thms if_True with_observation_def) simp
  then show ?thesis by (simp add: observation_of_item_def assms(2))
qed

lemma put_observation_same:
  assumes "collected_ok s" "x \<in> set (observations s)" "o_id x' = o_id x" "observation_key x' = observation_key x"
  shows "put_row o_id x' (observations s) = put_row observation_key x' (observations s)"
proof -
  have "put_row o_id x' (observations s) = map (\<lambda>y. if y = x then x' else y) (observations s)"
    "put_row observation_key x' (observations s) = map (\<lambda>y. if y = x then x' else y) (observations s)"
    using assms put_row_map [of o_id "observations s" x "\<lambda>_. x'"]
      put_row_map [of observation_key "observations s" x "\<lambda>_. x'"]
    by (simp_all add: collected_ok_def)
  then show ?thesis by simp
qed

lemma collected_ok_with_observation:
  assumes "collected_ok s" "f \<in> set (findings s)" "observation_for_run s (f_id f) (cr_id run) = None"
    and "x = new_observation (uuid4 s (uuids s)) f run item t0"
  shows "collected_ok (with_observation x s)"
proof -
  have x: "o_id x = uuid4 s (uuids s)" "o_opportunity_id x = f_id f"
    "observation_key x = (f_id f, cr_id run)"
    by (simp_all add: assms(4) new_observation_def observation_key_def)
  have "observation_key x \<notin> observation_key ` set (observations s)"
    using assms(3) by (simp add: observation_for_run_key find_row_None_iff x)
  moreover have "o_id x \<notin> o_id ` set (observations s)" using next_uuid_fresh(2) [OF assms(1)] by (simp add: x)
  moreover have "o_id x \<in> issued (with_observation x s)"
    by (auto simp: x issued_def with_observation_def intro!: imageI)
  moreover have "issued s \<subseteq> issued (with_observation x s)"
    by (rule issued_grow) (simp add: uuids_grow_def with_observation_def)
  ultimately show ?thesis using assms(1,2)
    by (auto simp: collected_ok_def x with_observation_def)
qed

lemma collected_ok_put_observation:
  assumes "collected_ok s" "x \<in> set (observations s)" "o_id x' = o_id x"
    "observation_key x' = observation_key x"
  shows "collected_ok (put_observation x' s)"
proof -
  let ?rows = "put_row o_id x' (observations s)"
  have "map o_id ?rows = map o_id (observations s)" by (simp add: row_simps)
  moreover have "map observation_key ?rows = map observation_key (observations s)"
    using put_observation_same [OF assms] by (simp add: row_simps)
  moreover from this have "map (fst \<circ> observation_key) ?rows = map (fst \<circ> observation_key) (observations s)"
    by (metis map_map)
  then have "map o_opportunity_id ?rows = map o_opportunity_id (observations s)"
    by (simp add: observation_key_def comp_def)
  ultimately show ?thesis using assms(1)
    unfolding collected_ok_def put_observation_def issued_def by (simp flip: set_map)
qed

text \<open>The observation phase of an item: one observation of the run, with the values reported.\<close>

lemma observation_phase:
  assumes "observation_of_item run t0 f item s = Inr (x, created, s1)" "collected_ok s"
    and "f \<in> set (findings s)"
  defines "t \<equiv> put_observation (refreshed_observation x item) s1"
  shows "collected_ok t" "outside_observations t = outside_observations s" "uuids_grow s t"
    "created \<longleftrightarrow> observation_for_run s (f_id f) (cr_id run) = None"
    "observation_for_run t (f_id f) (cr_id run) = Some (refreshed_observation x item)"
    "\<And>i r. (i, r) \<noteq> (f_id f, cr_id run) \<Longrightarrow> observation_for_run t i r = observation_for_run s i r"
    "created \<Longrightarrow> o_observed_at x = t0"
    "map observation_key (observations t) = map observation_key (observations s) @
       (if created then [(f_id f, cr_id run)] else [])"
proof -
  have main: "collected_ok t \<and> outside_observations t = outside_observations s \<and> uuids_grow s t \<and>
    (created \<longleftrightarrow> observation_for_run s (f_id f) (cr_id run) = None) \<and>
    observation_for_run t (f_id f) (cr_id run) = Some (refreshed_observation x item) \<and>
    (\<forall>i r. (i, r) \<noteq> (f_id f, cr_id run) \<longrightarrow> observation_for_run t i r = observation_for_run s i r) \<and>
    (created \<longrightarrow> o_observed_at x = t0) \<and>
    map observation_key (observations t) = map observation_key (observations s) @
       (if created then [(f_id f, cr_id run)] else [])"
  proof (cases "observation_for_run s (f_id f) (cr_id run)")
    case None
    with assms(1) observation_of_item_absent [OF assms(2) None, of t0 item]
    have x: "x = new_observation (uuid4 s (uuids s)) f run item t0" "created"
      and s1: "s1 = with_observation x s" by (auto simp: Let_def)
    have key: "observation_key x = (f_id f, cr_id run)" "o_observed_at x = t0"
      by (simp_all add: x new_observation_def observation_key_def)
    have ok: "collected_ok s1"
      unfolding s1 by (rule collected_ok_with_observation [OF assms(2,3) None x(1)])
    have mem: "x \<in> set (observations s1)" by (simp add: s1 with_observation_def)
    have rows: "observations t = put_row observation_key (refreshed_observation x item) (observations s1)"
      using put_observation_same [OF ok mem, of "refreshed_observation x item"]
      by (simp add: t_def put_observation_def)
    show ?thesis
      using collected_ok_put_observation [OF ok mem, of "refreshed_observation x item"] None x(2) key
      by (auto simp: t_def [symmetric] observation_for_run_key rows row_simps find_row_append)
         (auto simp: t_def s1 put_observation_def with_observation_def outside_observations_def
           uuids_grow_def find_row_append row_simps split: option.split)
  next
    case (Some y)
    with assms(1) have x: "x = y" "\<not> created" "s1 = s" by (simp_all add: observation_of_item_def)
    have mem: "x \<in> set (observations s)" and key: "observation_key x = (f_id f, cr_id run)"
      using Some find_row_Some [of observation_key "(f_id f, cr_id run)" "observations s" y]
      by (simp_all add: observation_for_run_key x)
    have rows: "observations t = put_row observation_key (refreshed_observation x item) (observations s)"
      using put_observation_same [OF assms(2) mem, of "refreshed_observation x item"]
      by (simp add: t_def put_observation_def x)
    show ?thesis
      using collected_ok_put_observation [OF assms(2) mem, of "refreshed_observation x item"] Some x key
      by (auto simp: t_def [symmetric] observation_for_run_key rows row_simps)
         (auto simp: t_def x put_observation_def outside_observations_def uuids_grow_def)
  qed
  then show "collected_ok t" "outside_observations t = outside_observations s" "uuids_grow s t"
    "created \<longleftrightarrow> observation_for_run s (f_id f) (cr_id run) = None"
    "observation_for_run t (f_id f) (cr_id run) = Some (refreshed_observation x item)"
    "\<And>i r. (i, r) \<noteq> (f_id f, cr_id run) \<Longrightarrow> observation_for_run t i r = observation_for_run s i r"
    "created \<Longrightarrow> o_observed_at x = t0"
    "map observation_key (observations t) = map observation_key (observations s) @
       (if created then [(f_id f, cr_id run)] else [])" by blast+
qed

section \<open>The row of an observed opportunity\<close>

text \<open>The snapshot of an item: the fields a refresh writes hold the item's values.\<close>

definition shows_item :: "scan \<Rightarrow> collected_finding \<Rightarrow> finding \<Rightarrow> bool" where
  "shows_item scan item f \<longleftrightarrow> f_scan_id f = Some (sc_id scan) \<and>
     f_resource_name f = ci_resource_name item \<and> f_resource_type f = ci_resource_type item \<and>
     f_provider_metadata f = ci_provider_metadata item \<and> f_title f = ci_title item \<and>
     f_description f = ci_description item \<and> f_evidence f = ci_evidence item \<and>
     f_current_monthly_cost f = ci_current_monthly_cost item \<and>
     f_estimated_monthly_savings f = ci_estimated_monthly_savings item \<and>
     f_currency f = ci_currency item \<and> f_confidence f = ci_confidence item \<and>
     f_severity f = ci_severity item"

lemma shows_item_refreshed: "shows_item scan item (refreshed_snapshot f scan item)"
  by (simp add: shows_item_def refreshed_snapshot_def)

lemma refreshed_snapshot_idle: "shows_item scan item f \<Longrightarrow> refreshed_snapshot f scan item = f"
  by (cases f) (simp add: shows_item_def refreshed_snapshot_def)

text \<open>What a refresh of the row may change: nothing a history, the identity or a decision is about.\<close>

definition row_refreshed :: "finding \<Rightarrow> finding \<Rightarrow> bool" where
  "row_refreshed f g \<longleftrightarrow> same_identity f g \<and> f_status g = f_status f \<and>
     f_presence_status g = f_presence_status f \<and> f_missing_count g = f_missing_count f \<and>
     f_missing_since_at g = f_missing_since_at f \<and>
     f_resolved_externally_at g = f_resolved_externally_at f \<and>
     f_archived_at g = f_archived_at f \<and> f_archived_by g = f_archived_by f \<and>
     f_archive_reason g = f_archive_reason f \<and> f_treated_at g = f_treated_at f \<and>
     f_treated_by g = f_treated_by f \<and> f_rejected_at g = f_rejected_at f \<and>
     f_rejected_by g = f_rejected_by f \<and> f_rejection_reason g = f_rejection_reason f"

lemma row_refreshed_steps:
  "row_refreshed f (counted_occurrence f run)" "row_refreshed f (refreshed_snapshot f scan item)"
  "row_refreshed f (f\<lparr>f_last_seen_at := a, f_last_seen_collection_run_id := b\<rparr>)"
  "row_refreshed f (reviewed_again f x)" "row_refreshed f f"
  by (simp_all add: row_refreshed_def same_identity_def counted_occurrence_def refreshed_snapshot_def
      reviewed_again_def Let_def)

lemma row_refreshed_trans: "row_refreshed f g \<Longrightarrow> row_refreshed g h \<Longrightarrow> row_refreshed f h"
  by (simp add: row_refreshed_def same_identity_def)

lemma row_refreshed_coherent: "row_refreshed f g \<Longrightarrow> coherent f \<Longrightarrow> coherent g"
  unfolding row_refreshed_def coherent_def presence_coherent_def archive_coherent_def decision_coherent_def
  by (simp cong: presence.case_cong)

lemma put_refreshed_step:
  assumes "f \<in> set (findings s)" "row_refreshed f g"
  shows "audited_step s (put_finding g s)"
proof (rule changed [of f g])
  have eq: "f_id g = f_id f" "f_status g = f_status f" "is_archived g = is_archived f"
    "f_presence_status g = f_presence_status f" "same_identity f g"
    using assms(2) by (simp_all add: row_refreshed_def is_archived_def same_identity_def)
  show "logged_change f g s (put_finding g s)"
    unfolding logged_change_def
    using assms eq row_refreshed_coherent [OF assms(2)]
    by (auto simp: row_replaced_def rejection_respected_def intro!: log_grows_same)
qed

text \<open>The tables the persistence of a collection may write, blanked.\<close>

definition outside_persistence :: "db \<Rightarrow> db" where
  "outside_persistence s = s\<lparr>findings := [], archive_history := [], presence_history := [],
     observations := [], scope_executions := [], audit_events := [], ticks := 0, uuids := 0\<rparr>"

definition persists :: "db \<Rightarrow> db \<Rightarrow> bool" where
  "persists s t \<longleftrightarrow> outside_persistence t = outside_persistence s \<and> uuids_grow s t"

lemma persists_refl [simp]: "persists s s"
  by (simp add: persists_def)

lemma persists_trans [trans]: "persists s t \<Longrightarrow> persists t u \<Longrightarrow> persists s u"
  by (auto simp: persists_def intro: uuids_grow_trans)

lemma persistsD:
  assumes "persists s t"
  shows "scans t = scans s" "cloud_accounts t = cloud_accounts s" "collection_runs t = collection_runs s"
    "status_history t = status_history s" "ledger t = ledger s" "uuid4 t = uuid4 s" "sha256 t = sha256 s"
    "summaries t = summaries s"
  using assms unfolding persists_def outside_persistence_def
  by (auto dest: arg_cong [where f = scans] arg_cong [where f = cloud_accounts]
      arg_cong [where f = collection_runs] arg_cong [where f = status_history]
      arg_cong [where f = ledger] arg_cong [where f = uuid4] arg_cong [where f = sha256]
      arg_cong [where f = summaries])

lemma persists_put_finding [simp]: "persists s (put_finding f s)"
  by (simp add: persists_def outside_persistence_def uuids_grow_def put_finding_def)

lemma persists_record_presence:
  "record_presence f run a b r n th sc m s = Inr t \<Longrightarrow> persists s t"
  using record_presence_effect [of f run a b r n th sc m s t]
  by (auto simp: persists_def outside_persistence_def uuids_grow_def)

lemma persists_unarchive_reappeared:
  assumes "unarchive_reappeared f run s = Inr (g, b, t)"
  shows "persists s t"
proof (cases "f_status f = Rejected \<or> f_archived_at f = None")
  case True
  with assms show ?thesis by (auto simp: unarchive_reappeared_def split: if_splits)
next
  case False
  then have n: "f_status f \<noteq> Rejected" "\<not> f_archived_at f = None" by blast+
  let ?ctx = "archived_state f [(''provider'', JStr (f_provider f)),
    (''account_id'', JStr (f_account_id f))]"
  let ?s1 = "archive_log (unarchived f) UNARCHIVE REAPPEARED None (Some (cr_id run)) ?ctx None
    (put_finding (unarchived f) s)"
  from assms obtain c where c: "record_audit c ?s1 = Inr t"
    unfolding unarchive_reappeared_def Let_def if_not_P [OF n(1)] if_not_P [OF n(2)] andThen_eq_Inr
      sum.inject prod.inject
    by blast
  have "persists s ?s1"
    by (simp add: persists_def outside_persistence_def uuids_grow_def archive_log_def utcnow_def
        put_finding_def)
  moreover from record_audit_appends [OF c] have "persists ?s1 t"
    by (auto simp: persists_def outside_persistence_def uuids_grow_def)
  ultimately show ?thesis by (rule persists_trans)
qed

lemma persists_reactivation:
  assumes "reactivate_presence_from_observation f run s = Inr (g, b, t)"
  shows "persists s t"
proof (cases "out_of_date f run")
  case True
  with assms show ?thesis by (simp add: reactivate_presence_from_observation_def)
next
  case False
  let ?f = "reactivated f run"
  from assms obtain s1 where
    p: "(if f_presence_status f \<noteq> Active
      then record_presence f run (f_presence_status f) Active OBSERVED_AGAIN 0 None None
        (f_missing_count f) s else Inr s) = Inr s1"
    and rest: "(if f_status f = Rejected then Inr (?f, True, put_finding ?f s1)
      else andThen (unarchive_reappeared ?f run (put_finding ?f s1)) (\<lambda>(f'', _, s3).
        Inr (f'', True, s3))) = Inr (g, b, t)"
    unfolding reactivate_presence_from_observation_def if_not_P [OF False] andThen_eq_Inr Let_def
    by blast
  have "persists s s1" using p persists_record_presence by (auto split: if_splits)
  also have "persists s1 (put_finding ?f s1)" by simp
  also have "persists (put_finding ?f s1) t"
    using rest persists_unarchive_reappeared
    by (cases "f_status f = Rejected") (auto simp: andThen_eq_Inr)
  finally show ?thesis .
qed

text \<open>What an observation does to the row, and to the tables around it.\<close>

definition follows_observation :: "finding \<Rightarrow> finding \<Rightarrow> bool" where
  "follows_observation f g \<longleftrightarrow> same_identity f g \<and> f_status g = f_status f \<and>
     no_later (f_last_seen_at f) (f_last_seen_at g) \<and>
     (f_status f = Rejected \<longrightarrow> f_archived_at g = f_archived_at f)"

lemma put_row_chain:
  assumes "findings t = put_row f_id g (findings s)" "f_id h = f_id g"
  shows "findings (put_finding h t) = put_row f_id h (findings s)"
  using assms by (simp add: put_row_put_row)

lemma latest_not_earlier:
  "is_latest_observation s f x run \<Longrightarrow> no_later (f_last_seen_at f) (o_observed_at x)"
  by (auto simp: is_latest_observation_def Let_def earlier_def no_later_def split: if_splits)

lemma observed_snapshot_effect:
  assumes "observed_snapshot scan run f item x created s = (g, latest)"
  shows "row_refreshed f g" "f_last_seen_at g = f_last_seen_at f"
    "f_total_occurrence_count g = f_total_occurrence_count f + (if created then 1 else 0)"
    "f_scan_id g = Some (sc_id scan) \<longrightarrow> shows_item scan item g"
    "latest \<Longrightarrow> created \<and> no_later (f_last_seen_at f) (o_observed_at x)"
proof -
  define f1 where f1: "f1 = (if created then counted_occurrence f run else f)"
  have f1': "row_refreshed f f1" "f_last_seen_at f1 = f_last_seen_at f"
    "f_total_occurrence_count f1 = f_total_occurrence_count f + (if created then 1 else 0)"
    using row_refreshed_steps by (simp_all add: f1 counted_occurrence_def Let_def)
  have l: "latest \<longleftrightarrow> created \<and> is_latest_observation s f1 x run"
    and g: "g = (if f_scan_id f1 = Some (sc_id scan) \<or> latest then refreshed_snapshot f1 scan item else f1)"
    using assms unfolding observed_snapshot_def Let_def prod.inject f1 by blast+
  have f2: "f_last_seen_at (refreshed_snapshot f1 scan item) = f_last_seen_at f1"
    "f_total_occurrence_count (refreshed_snapshot f1 scan item) = f_total_occurrence_count f1"
    by (simp_all add: refreshed_snapshot_def)
  have "row_refreshed f (refreshed_snapshot f1 scan item)"
    by (rule row_refreshed_trans [OF f1'(1) row_refreshed_steps(2)])
  then show "row_refreshed f g" unfolding g using f1'(1) by (metis (full_types))
  show "f_last_seen_at g = f_last_seen_at f"
    "f_total_occurrence_count g = f_total_occurrence_count f + (if created then 1 else 0)"
    unfolding g using f1'(2,3) f2 by simp_all
  show "f_scan_id g = Some (sc_id scan) \<longrightarrow> shows_item scan item g"
    unfolding g using shows_item_refreshed by simp
  show "latest \<Longrightarrow> created \<and> no_later (f_last_seen_at f) (o_observed_at x)"
    unfolding l using latest_not_earlier f1'(2) by metis
qed

lemma follow_observation_effect:
  assumes o: "follow_observation run g x s = Inr t"
    and f: "f \<in> set (findings s)" "row_refreshed f g"
  shows "\<exists>h. findings t = put_row f_id h (findings s) \<and> same_identity f h \<and> f_status h = f_status f \<and>
    f_last_seen_at h = o_observed_at x \<and> f_scan_id h = f_scan_id g \<and>
    (shows_item scan item g \<longrightarrow> shows_item scan item h) \<and>
    f_total_occurrence_count h = f_total_occurrence_count g \<and>
    (f_status f = Rejected \<longrightarrow> f_archived_at h = f_archived_at f) \<and>
    observations t = observations s \<and> persists s t \<and> audited_step\<^sup>*\<^sup>* s t \<and>
    (\<exists>es. presence_history t = presence_history s @ es \<and> (\<forall>e \<in> set es.
       pe_collection_run_id e = Some (cr_id run) \<and> pe_opportunity_id e = f_id f))"
proof -
  let ?g = "g\<lparr>f_last_seen_at := o_observed_at x, f_last_seen_collection_run_id := Some (cr_id run)\<rparr>"
  let ?s = "put_finding ?g s"
  from o obtain h0 b u where r: "reactivate_presence_from_observation ?g run ?s = Inr (h0, b, u)"
    and t: "t = put_finding (reviewed_again h0 x) u"
    unfolding follow_observation_def Let_def andThen_eq_Inr by (auto split: prod.splits)
  let ?h = "reviewed_again h0 x"
  have rg: "row_refreshed f ?g" using f(2) row_refreshed_trans row_refreshed_steps(3) by blast
  have id: "f_id g = f_id f" using f(2) by (simp add: row_refreshed_def same_identity_def)
  have g: "?g \<in> set (findings ?s)" using f(1) id by (auto simp: in_put_row)
  have step1: "audited_step s ?s" by (rule put_refreshed_step [OF f(1) rg])
  from reactivation_effect [OF r g] have
    eff: "h0 = ?g \<and> u = ?s \<or> h0 = observed_row ?g run \<and> logged_change ?g h0 ?s u \<and>
      observations u = observations ?s \<and> (\<exists>es. presence_history u = presence_history ?s @ es \<and>
        (\<forall>e \<in> set es. pe_collection_run_id e = Some (cr_id run) \<and> pe_opportunity_id e = f_id ?g))"
    by blast
  have h0: "f_id h0 = f_id f" "same_identity ?g h0" "f_status h0 = f_status g"
    "f_last_seen_at h0 = o_observed_at x" "f_scan_id h0 = f_scan_id g"
    "shows_item scan item g \<longrightarrow> shows_item scan item h0"
    "f_total_occurrence_count h0 = f_total_occurrence_count g"
    "f_status g = Rejected \<longrightarrow> f_archived_at h0 = f_archived_at g"
    using eff id
    by (auto simp: observed_row_def reactivated_def unarchived_def same_identity_def shows_item_def)
  have step2: "audited_step\<^sup>*\<^sup>* ?s u" using eff by (auto intro: changed)
  have rows: "findings u = put_row f_id h0 (findings ?s)" "h0 \<in> set (findings u)"
  proof -
    have "findings u = put_row f_id h0 (findings ?s)"
    proof (cases "h0 = ?g \<and> u = ?s")
      case True
      then show ?thesis by (simp add: put_row_put_row)
    next
      case False
      with eff show ?thesis by (auto simp: logged_change_def row_replaced_def)
    qed
    moreover have "f_id ?g = f_id h0" using h0(1) id by simp
    then have "f_id h0 \<in> f_id ` set (findings ?s)" using g by (metis imageI)
    ultimately show "findings u = put_row f_id h0 (findings ?s)" "h0 \<in> set (findings u)"
      by (simp_all only: in_put_row simp_thms)
  qed
  have step3: "audited_step u t"
    unfolding t by (rule put_refreshed_step [OF rows(2) row_refreshed_steps(4)])
  have "findings t = put_row f_id ?h (findings s)"
    using h0(1) id by (simp add: t rows(1) put_row_put_row reviewed_again_def)
  moreover have "same_identity f ?h" "f_status ?h = f_status f" "f_last_seen_at ?h = o_observed_at x"
    "f_scan_id ?h = f_scan_id g" "shows_item scan item g \<longrightarrow> shows_item scan item ?h"
    "f_total_occurrence_count ?h = f_total_occurrence_count g"
    "f_status f = Rejected \<longrightarrow> f_archived_at ?h = f_archived_at f"
    using h0 rg by (auto simp: reviewed_again_def row_refreshed_def same_identity_def shows_item_def)
  moreover have "observations t = observations s" using eff by (auto simp: t)
  moreover have "\<exists>es. presence_history t = presence_history s @ es \<and> (\<forall>e \<in> set es.
       pe_collection_run_id e = Some (cr_id run) \<and> pe_opportunity_id e = f_id f)"
    using eff id by (auto simp: t)
  moreover have "persists s t"
    using persists_trans [OF persists_trans [OF persists_put_finding persists_reactivation [OF r]]
        persists_put_finding] by (simp add: t)
  moreover have "audited_step\<^sup>*\<^sup>* s t" using step1 step2 step3 by (meson rtranclp.simps rtranclp_trans r_into_rtranclp)
  ultimately show ?thesis by (intro exI [of _ ?h] conjI) assumption+
qed

lemma observe_finding_effect:
  assumes o: "observe_finding scan run f item x created s = Inr t"
    and f: "f \<in> set (findings s)"
  shows "\<exists>g. findings t = put_row f_id g (findings s) \<and> follows_observation f g \<and>
    (f_scan_id g = Some (sc_id scan) \<longrightarrow> shows_item scan item g) \<and>
    f_total_occurrence_count g = f_total_occurrence_count f + (if created then 1 else 0) \<and>
    observations t = observations s \<and> persists s t \<and> audited_step\<^sup>*\<^sup>* s t \<and>
    (\<exists>es. presence_history t = presence_history s @ es \<and> (\<forall>e \<in> set es. created \<and>
       pe_collection_run_id e = Some (cr_id run) \<and> pe_opportunity_id e = f_id f))"
proof -
  obtain g latest where g: "observed_snapshot scan run f item x created s = (g, latest)" by fastforce
  note e = observed_snapshot_effect [OF g]
  show ?thesis
  proof (cases latest)
    case False
    with o g have t: "t = put_finding g s" by (simp add: observe_finding_def)
    have "audited_step s t" unfolding t by (rule put_refreshed_step [OF f e(1)])
    then show ?thesis using e
      by (intro exI [of _ g]) (auto simp: t follows_observation_def row_refreshed_def no_later_def)
  next
    case True
    with o g have "follow_observation run g x s = Inr t" by (simp add: observe_finding_def)
    from follow_observation_effect [OF this f e(1), of scan item] e(3,4) e(5) [OF True] True
    show ?thesis unfolding follows_observation_def by (elim exE conjE, intro exI conjI) auto
  qed
qed

section \<open>One item\<close>

lemma persists_outside: "outside_observations t = outside_observations s \<Longrightarrow> uuids_grow s t \<Longrightarrow> persists s t"
proof -
  assume a: "outside_observations t = outside_observations s" "uuids_grow s t"
  have "outside_persistence s = (outside_observations s)\<lparr>findings := [], archive_history := [],
      presence_history := [], scope_executions := [], audit_events := [], ticks := 0\<rparr>" for s
    by (simp add: outside_persistence_def outside_observations_def)
  with a show ?thesis by (simp add: persists_def)
qed

lemma put_row_keyed:
  assumes "distinct (map key rows)" "distinct (map key' rows)" "r \<in> set rows" "key g = key r" "key' g = key' r"
  shows "put_row key g rows = put_row key' g rows"
  using put_row_map [of key rows r "\<lambda>_. g"] put_row_map [of key' rows r "\<lambda>_. g"] assms by simp

lemma persist_item_effect:
  assumes p: "persist_item scan run t0 (fp, raw) s = Inr t" and ok: "collected_ok s"
  shows "\<exists>item f g x. stored_item raw = Inr item \<and> finding_by_fingerprint fp s = Some f \<and>
    findings t = put_row f_fingerprint g (findings s) \<and> follows_observation f g \<and>
    (f_scan_id g = Some (sc_id scan) \<longrightarrow> shows_item scan item g) \<and>
    f_total_occurrence_count g = f_total_occurrence_count f +
      (if observation_for_run s (f_id f) (cr_id run) = None then 1 else 0) \<and>
    observation_for_run t (f_id f) (cr_id run) = Some x \<and> refreshed_observation x item = x \<and>
    (\<forall>i r. (i, r) \<noteq> (f_id f, cr_id run) \<longrightarrow> observation_for_run t i r = observation_for_run s i r) \<and>
    collected_ok t \<and> persists s t \<and> audited_step\<^sup>*\<^sup>* s t \<and>
    (\<exists>es. presence_history t = presence_history s @ es \<and> (\<forall>e \<in> set es.
       pe_collection_run_id e = Some (cr_id run) \<and> pe_opportunity_id e = f_id f))"
proof -
  from p obtain item where item: "stored_item raw = Inr item"
    by (auto simp: persist_item_def andThen_eq_Inr)
  with p obtain f where f: "finding_by_fingerprint fp s = Some f"
    by (auto simp: persist_item_def split: option.splits)
  with p item obtain x created s1 where
    ob: "observation_of_item run t0 f item s = Inr (x, created, s1)"
    and o: "observe_finding scan run f item (refreshed_observation x item) created
      (put_observation (refreshed_observation x item) s1) = Inr t"
    by (auto simp: persist_item_def andThen_eq_Inr Let_def split: prod.splits)
  from finding_by_fingerprint_Some [OF f] have fs: "f \<in> set (findings s)" "f_fingerprint f = fp" by simp_all
  let ?x = "refreshed_observation x item"
  let ?u = "put_observation ?x s1"
  note ph = observation_phase [OF ob ok fs(1)]
  note out = outside_observationsD [OF ph(2)]
  have "f \<in> set (findings ?u)" using fs(1) out(1) by simp
  from observe_finding_effect [OF o this] obtain g where g:
    "findings t = put_row f_id g (findings ?u)" "follows_observation f g"
    "f_scan_id g = Some (sc_id scan) \<longrightarrow> shows_item scan item g"
    "f_total_occurrence_count g = f_total_occurrence_count f + (if created then 1 else 0)"
    "observations t = observations ?u" "persists ?u t" "audited_step\<^sup>*\<^sup>* ?u t"
    "\<exists>es. presence_history t = presence_history ?u @ es \<and> (\<forall>e \<in> set es. created \<and>
       pe_collection_run_id e = Some (cr_id run) \<and> pe_opportunity_id e = f_id f)"
    by blast
  have ids: "f_id g = f_id f" "f_fingerprint g = f_fingerprint f"
    using g(2) by (simp_all add: follows_observation_def same_identity_def)
  have rows: "findings t = put_row f_fingerprint g (findings s)"
    using put_row_keyed [of f_id "findings s" f_fingerprint f g] ok fs(1) ids out(1) g(1)
    by (simp add: collected_ok_def)
  have same_obs: "observation_for_run t i r = observation_for_run ?u i r" for i r
    using g(5) by (simp add: observation_for_run_def)
  have "audited_step\<^sup>*\<^sup>* s ?u"
    by (rule quiet_audited) (simp add: quiet_def same_logs_def out)
  then have aud: "audited_step\<^sup>*\<^sup>* s t" using g(7) by (rule rtranclp_trans)
  have ok': "collected_ok t"
  proof (rule collected_ok_logs [OF ph(1)])
    show "map f_id (findings t) = map f_id (findings ?u)" by (simp add: g(1) row_simps)
    show "map f_fingerprint (findings t) = map f_fingerprint (findings ?u)"
      by (simp add: rows out(1) row_simps)
  qed (use g(5,6) in \<open>simp_all add: persists_def\<close>)
  have pers: "persists s t" using persists_trans [OF persists_outside [OF ph(2,3)] g(6)] .
  show ?thesis
    using item f rows g(2,3) ph(4,5,6) same_obs g(4) ok' pers aud g(8) out(4)
    by (intro exI [of _ item] exI [of _ f] exI [of _ g] exI [of _ ?x]) auto
qed

text \<open>An item whose values the opportunity and its observation of the run hold already.\<close>

definition settled :: "scan \<Rightarrow> collection_run \<Rightarrow> string \<times> collected_finding \<Rightarrow> db \<Rightarrow> bool" where
  "settled scan run e s \<longleftrightarrow> (\<exists>item f x. stored_item (snd e) = Inr item \<and>
     finding_by_fingerprint (fst e) s = Some f \<and>
     observation_for_run s (f_id f) (cr_id run) = Some x \<and> refreshed_observation x item = x \<and>
     (f_scan_id f = Some (sc_id scan) \<longrightarrow> shows_item scan item f))"

lemma find_put_row:
  "find_row key k (put_row key r rows) =
    (if k = key r \<and> k \<in> key ` set rows then Some r else find_row key k rows)"
  by (auto simp: row_simps find_row_None_iff [symmetric] map_option_case split: option.split)

lemma persist_item_settles:
  assumes "persist_item scan run t0 e s = Inr t" "collected_ok s"
  shows "settled scan run e t"
proof -
  obtain fp raw where e: "e = (fp, raw)" by fastforce
  from persist_item_effect [OF assms(1) [unfolded e] assms(2)] obtain item f g x where
    "stored_item raw = Inr item" "finding_by_fingerprint fp s = Some f"
    "findings t = put_row f_fingerprint g (findings s)" "follows_observation f g"
    "f_scan_id g = Some (sc_id scan) \<longrightarrow> shows_item scan item g"
    "observation_for_run t (f_id f) (cr_id run) = Some x" "refreshed_observation x item = x"
    by blast
  moreover from this finding_by_fingerprint_Some [of fp s f] have "finding_by_fingerprint fp t = Some g"
    by (auto simp: finding_by_fingerprint_def find_put_row follows_observation_def same_identity_def)
  ultimately show ?thesis
    unfolding settled_def by (auto simp: e follows_observation_def same_identity_def)
qed

lemma persist_item_keeps_settled:
  assumes "persist_item scan run t0 e' s = Inr t" "collected_ok s" "settled scan run e s" "fst e \<noteq> fst e'"
  shows "settled scan run e t"
proof -
  obtain fp raw where e': "e' = (fp, raw)" by fastforce
  from persist_item_effect [OF assms(1) [unfolded e'] assms(2)] obtain f g where
    f: "finding_by_fingerprint fp s = Some f"
    "findings t = put_row f_fingerprint g (findings s)" "follows_observation f g"
    "\<forall>i r. (i, r) \<noteq> (f_id f, cr_id run) \<longrightarrow> observation_for_run t i r = observation_for_run s i r"
    by blast
  from assms(3) obtain item h x where h: "stored_item (snd e) = Inr item"
    "finding_by_fingerprint (fst e) s = Some h"
    "observation_for_run s (f_id h) (cr_id run) = Some x" "refreshed_observation x item = x"
    "f_scan_id h = Some (sc_id scan) \<longrightarrow> shows_item scan item h"
    unfolding settled_def by blast
  note fh = finding_by_fingerprint_Some [OF f(1)] finding_by_fingerprint_Some [OF h(2)]
  have "f_id h \<noteq> f_id f"
    using fh assms(2,4) by (auto simp: collected_ok_def distinct_map inj_on_def e')
  with f(4) h(3) have "observation_for_run t (f_id h) (cr_id run) = Some x" by simp
  moreover have "f_fingerprint g = fp" using f(3) fh by (simp add: follows_observation_def same_identity_def)
  then have "finding_by_fingerprint (fst e) t = Some h"
    using h(2) assms(4) by (simp add: finding_by_fingerprint_def f(2) find_put_row e')
  ultimately show ?thesis using h unfolding settled_def by blast
qed

lemma settled_idle:
  assumes "settled scan run e s" "collected_ok s"
  shows "persist_item scan run t0 e s = Inr s"
proof -
  from assms(1) obtain item f x where h: "stored_item (snd e) = Inr item"
    "finding_by_fingerprint (fst e) s = Some f"
    "observation_for_run s (f_id f) (cr_id run) = Some x" "refreshed_observation x item = x"
    "f_scan_id f = Some (sc_id scan) \<longrightarrow> shows_item scan item f"
    unfolding settled_def by blast
  from h(3) have x: "x \<in> set (observations s)"
    using find_row_Some by (fastforce simp: observation_for_run_key)
  have f: "f \<in> set (findings s)" using finding_by_fingerprint_Some [OF h(2)] by simp
  have "put_observation x s = s"
    using put_row_same [OF _ x, of o_id] assms(2) by (simp add: put_observation_def collected_ok_def)
  moreover have "put_finding f s = s"
    using put_row_same [OF _ f, of f_id] assms(2) by (simp add: put_finding_def collected_ok_def)
  moreover have "(if f_scan_id f = Some (sc_id scan) then refreshed_snapshot f scan item else f) = f"
    using h(5) refreshed_snapshot_idle by simp
  ultimately have "observe_finding scan run f item x False (put_observation x s) = Inr s"
    unfolding observe_finding_def observed_snapshot_def Let_def by (simp only: simp_thms if_False prod.case)
  then show ?thesis using h
    by (cases e) (simp add: persist_item_def observation_of_item_def)
qed

text \<open>Nothing of the run was noted about an opportunity it has not observed.\<close>

definition unobserved_silent :: "collection_run \<Rightarrow> db \<Rightarrow> bool" where
  "unobserved_silent run s \<longleftrightarrow> (\<forall>e \<in> set (presence_history s).
     pe_collection_run_id e = Some (cr_id run) \<longrightarrow>
     observation_for_run s (pe_opportunity_id e) (cr_id run) \<noteq> None)"

lemma follow_observation_total:
  assumes "\<forall>e \<in> set (presence_history s). \<not> (pe_opportunity_id e = f_id f \<and>
      pe_collection_run_id e = Some (cr_id run))"
  shows "\<exists>t. follow_observation run f x s = Inr t"
proof -
  let ?f = "f\<lparr>f_last_seen_at := o_observed_at x, f_last_seen_collection_run_id := Some (cr_id run)\<rparr>"
  from reactivation_total [of "put_finding ?f s" ?f run] assms obtain r where
    "reactivate_presence_from_observation ?f run (put_finding ?f s) = Inr r" by auto
  then show ?thesis by (cases r) (simp add: follow_observation_def Let_def)
qed

lemma persist_item_total:
  assumes "stored_item raw = Inr item" "finding_by_fingerprint fp s = Some f" "collected_ok s"
    and "unobserved_silent run s"
  shows "\<exists>t. persist_item scan run t0 (fp, raw) s = Inr t"
proof -
  have f: "f \<in> set (findings s)" using finding_by_fingerprint_Some [OF assms(2)] by simp
  obtain x created s1 where ob: "observation_of_item run t0 f item s = Inr (x, created, s1)"
    using observation_of_item_absent [OF assms(3), of f run t0 item]
    by (cases "observation_for_run s (f_id f) (cr_id run)") (auto simp: observation_of_item_def Let_def)
  let ?x = "refreshed_observation x item"
  let ?u = "put_observation ?x s1"
  note ph = observation_phase [OF ob assms(3) f]
  obtain g latest where g: "observed_snapshot scan run f item ?x created ?u = (g, latest)" by fastforce
  note e = observed_snapshot_effect [OF g]
  have "\<exists>t. observe_finding scan run f item ?x created ?u = Inr t"
  proof (cases latest)
    case True
    with e(5) ph(4) have "observation_for_run s (f_id f) (cr_id run) = None" by simp
    then have "\<forall>e \<in> set (presence_history ?u). \<not> (pe_opportunity_id e = f_id g \<and>
        pe_collection_run_id e = Some (cr_id run))"
      using assms(4) e(1) outside_observationsD(4) [OF ph(2)]
      by (auto simp: unobserved_silent_def row_refreshed_def same_identity_def)
    from follow_observation_total [OF this] True g show ?thesis by (simp add: observe_finding_def)
  qed (simp add: observe_finding_def g)
  with assms(1,2) ob show ?thesis by (simp add: persist_item_def Let_def)
qed

lemma persist_item_silent:
  assumes "persist_item scan run t0 e s = Inr t" "collected_ok s" "unobserved_silent run s"
  shows "unobserved_silent run t"
proof -
  obtain fp raw where e: "e = (fp, raw)" by fastforce
  from persist_item_effect [OF assms(1) [unfolded e] assms(2)] obtain f :: finding and x :: observation and es where
    f: "observation_for_run t (f_id f) (cr_id run) = Some x"
    "\<forall>i r. (i, r) \<noteq> (f_id f, cr_id run) \<longrightarrow> observation_for_run t i r = observation_for_run s i r"
    "presence_history t = presence_history s @ es"
    "\<forall>e \<in> set es. pe_collection_run_id e = Some (cr_id run) \<and> pe_opportunity_id e = f_id f"
    by blast
  show ?thesis
    unfolding unobserved_silent_def
  proof (intro ballI impI)
    fix e assume "e \<in> set (presence_history t)" "pe_collection_run_id e = Some (cr_id run)"
    then show "observation_for_run t (pe_opportunity_id e) (cr_id run) \<noteq> None"
      using f assms(3) by (cases "pe_opportunity_id e = f_id f") (auto simp: unobserved_silent_def)
  qed
qed

section \<open>The whole persistence\<close>

lemma follows_observation_refl: "follows_observation f f"
  by (simp add: follows_observation_def same_identity_def no_later_def)

lemma persisted_before:
  assumes "collected_ok s" "fold_result (persist_item scan run t0) idx s = Inr t" "distinct (map fst idx)"
    and "settled scan run e s" "fst e \<notin> fst ` set idx"
  shows "settled scan run e t"
  using assms
proof (induction idx arbitrary: s)
  case (Cons e' idx)
  from Cons.prems(2) obtain u where u: "persist_item scan run t0 e' s = Inr u"
    and rest: "fold_result (persist_item scan run t0) idx u = Inr t" by (auto simp: andThen_eq_Inr)
  have "collected_ok u" using persist_item_effect [of scan run t0 "fst e'" "snd e'" s u] u Cons.prems(1)
    by auto
  moreover have "settled scan run e u"
    using persist_item_keeps_settled [OF u Cons.prems(1,4)] Cons.prems(5) by auto
  ultimately show ?case using Cons.IH [OF _ rest] Cons.prems(3,5) by auto
qed simp

text \<open>What becomes of a row: reported ones follow the observation, the others stay.\<close>

definition row_persisted :: "collection_run \<Rightarrow> string set \<Rightarrow> db \<Rightarrow> finding \<Rightarrow> finding \<Rightarrow> bool" where
  "row_persisted run fps s f g \<longleftrightarrow>
     (if f_fingerprint f \<in> fps
      then follows_observation f g \<and> f_total_occurrence_count g = f_total_occurrence_count f +
        (if observation_for_run s (f_id f) (cr_id run) = None then 1 else 0)
      else g = f)"

lemma list_all2_put_row:
  assumes "distinct (map key rows)" "f \<in> set rows" "key g = key f" "P f g"
    and "\<And>r. r \<in> set rows \<Longrightarrow> key r \<noteq> key f \<Longrightarrow> P r r"
  shows "list_all2 P rows (put_row key g rows)"
proof -
  have "P r (if r = f then g else r)" if "r \<in> set rows" for r
    using assms that by (auto simp: distinct_map inj_on_def)
  then have "list_all2 P rows (map (\<lambda>r. if r = f then g else r) rows)"
    by (simp add: list_all2_map2 list_all2_same)
  with put_row_map [of key rows f "\<lambda>_. g"] assms show ?thesis by simp
qed

lemma persist_items_effect:
  assumes "fold_result (persist_item scan run t0) idx s = Inr t" "collected_ok s" "distinct (map fst idx)"
  shows "collected_ok t \<and> persists s t \<and> audited_step\<^sup>*\<^sup>* s t \<and> (\<forall>e \<in> set idx. settled scan run e t) \<and>
    list_all2 (row_persisted run (fst ` set idx) s) (findings s) (findings t)"
  using assms
proof (induction idx arbitrary: s)
  case Nil
  then show ?case by (simp add: list_all2_same row_persisted_def)
next
  case (Cons e idx)
  from Cons.prems(1) obtain u where u: "persist_item scan run t0 e s = Inr u"
    and rest: "fold_result (persist_item scan run t0) idx u = Inr t" by (auto simp: andThen_eq_Inr)
  obtain fp raw where e: "e = (fp, raw)" by fastforce
  from persist_item_effect [OF u [unfolded e] Cons.prems(2)] obtain f g where
    f: "finding_by_fingerprint fp s = Some f"
    and g: "findings u = put_row f_fingerprint g (findings s)" "follows_observation f g"
    "f_total_occurrence_count g = f_total_occurrence_count f +
      (if observation_for_run s (f_id f) (cr_id run) = None then 1 else 0)"
    and obs: "\<forall>i r. (i, r) \<noteq> (f_id f, cr_id run) \<longrightarrow> observation_for_run u i r = observation_for_run s i r"
    and u': "collected_ok u" "persists s u" "audited_step\<^sup>*\<^sup>* s u" by blast
  note fs = finding_by_fingerprint_Some [OF f]
  have key: "f_fingerprint g = f_fingerprint f" using g(2) by (simp add: follows_observation_def same_identity_def)
  have idx: "fp \<notin> fst ` set idx" "distinct (map fst idx)" using Cons.prems(3) e by auto
  note IH = Cons.IH [OF rest u'(1) idx(2)]
  have "list_all2 (row_persisted run {fp} s) (findings s) (findings u)"
    unfolding g(1)
    by (rule list_all2_put_row [of _ _ f])
       (use Cons.prems(2) fs key g(2,3) in \<open>auto simp: collected_ok_def row_persisted_def\<close>)
  then have "list_all2 (row_persisted run (fst ` set (e # idx)) s) (findings s) (findings t)"
    using IH unfolding list_all2_conv_all_nth
  proof (elim conjE, intro conjI allI impI)
    fix n assume n: "n < length (findings s)" "length (findings s) = length (findings u)"
      and steps: "\<forall>i<length (findings s). row_persisted run {fp} s (findings s ! i) (findings u ! i)"
      "\<forall>i<length (findings u). row_persisted run (fst ` set idx) u (findings u ! i) (findings t ! i)"
    let ?a = "findings s ! n"
    from n steps have ab: "row_persisted run {fp} s ?a (findings u ! n)"
      "row_persisted run (fst ` set idx) u (findings u ! n) (findings t ! n)" by simp_all
    show "row_persisted run (fst ` set (e # idx)) s ?a (findings t ! n)"
    proof (cases "f_fingerprint ?a = fp")
      case True
      with ab idx(1) show ?thesis
        by (simp add: row_persisted_def e follows_observation_def same_identity_def)
    next
      case False
      have "?a \<in> set (findings s)" using n(1) by simp
      with False fs Cons.prems(2) have "f_id ?a \<noteq> f_id f"
        by (auto simp: collected_ok_def distinct_map inj_on_def)
      with obs have "observation_for_run u (f_id ?a) (cr_id run) = observation_for_run s (f_id ?a) (cr_id run)"
        by simp
      with ab False show ?thesis by (simp add: row_persisted_def e)
    qed
  qed simp
  moreover have "settled scan run e t"
    using persisted_before [OF u'(1) rest idx(2) persist_item_settles [OF u Cons.prems(2)]] idx(1) e by simp
  ultimately show ?case
    using IH u' persists_trans [OF u'(2)] rtranclp_trans [OF u'(3)] by simp
qed

text \<open>A collection that was persisted: its index, and every entry held by its opportunity.\<close>

definition reported :: "db \<Rightarrow> collection_run \<Rightarrow> collected_finding list \<Rightarrow> string set" where
  "reported s run items = {fp. \<exists>item \<in> set items. item_fingerprint (sha256 s) run item = Inr fp}"

text \<open>An item the tables can hold: it names an opportunity and its amounts fit their columns.\<close>

definition storable :: "collection_run \<Rightarrow> collected_finding \<Rightarrow> bool" where
  "storable run item \<longleftrightarrow> complete (item_coordinates run item) \<and>
     (case stored_item item of Inl _ \<Rightarrow> False | Inr _ \<Rightarrow> True)"

lemma persist_items_total:
  assumes "collected_ok s" "unobserved_silent run s"
    and "\<forall>(fp, raw) \<in> set idx. \<exists>item. stored_item raw = Inr item"
    and "fst ` set idx \<subseteq> f_fingerprint ` set (findings s)"
  shows "\<exists>t. fold_result (persist_item scan run t0) idx s = Inr t"
  using assms
proof (induction idx arbitrary: s)
  case (Cons e idx)
  obtain fp raw where e: "e = (fp, raw)" by fastforce
  with Cons.prems obtain item f where "stored_item raw = Inr item" "finding_by_fingerprint fp s = Some f"
    by (auto simp: finding_by_fingerprint_None dest!: not_None_eq [THEN iffD1, rotated])
       (metis finding_by_fingerprint_None imageI not_None_eq)
  from persist_item_total [OF this Cons.prems(1,2)] obtain u where u: "persist_item scan run t0 e s = Inr u"
    by (auto simp: e)
  from persist_item_effect [OF u [unfolded e] Cons.prems(1)] obtain g where
    ok: "collected_ok u" and g: "findings u = put_row f_fingerprint g (findings s)" by blast
  have "map f_fingerprint (findings u) = map f_fingerprint (findings s)" by (simp add: g row_simps)
  then have "f_fingerprint ` set (findings u) = f_fingerprint ` set (findings s)" by (metis set_map)
  with Cons.IH [OF ok persist_item_silent [OF u Cons.prems(1,2)]] Cons.prems(3,4) u show ?case by simp
qed simp

lemma given_or_now_frame:
  assumes "given_or_now ob s = (t0, s1)"
  shows "findings s1 = findings s" "observations s1 = observations s" "uuids s1 = uuids s"
    "uuid4 s1 = uuid4 s" "sha256 s1 = sha256 s" "presence_history s1 = presence_history s"
    "persists s s1" "audited_step\<^sup>*\<^sup>* s s1"
proof -
  have s1: "s1 = s \<or> s1 = snd (utcnow s)" using assms by (auto simp: given_or_now_def split: option.splits)
  then show "findings s1 = findings s" "observations s1 = observations s" "uuids s1 = uuids s"
    "uuid4 s1 = uuid4 s" "sha256 s1 = sha256 s" "presence_history s1 = presence_history s"
    "persists s s1"
    by (auto simp: utcnow_def persists_def outside_persistence_def uuids_grow_def)
  show "audited_step\<^sup>*\<^sup>* s s1"
    using s1 by (intro quiet_audited) (auto simp: quiet_def same_logs_def utcnow_def)
qed

lemma collected_ok_given:
  "given_or_now ob s = (t0, s1) \<Longrightarrow> collected_ok s1 \<longleftrightarrow> collected_ok s"
  "given_or_now ob s = (t0, s1) \<Longrightarrow> observation_for_run s1 i r = observation_for_run s i r"
  "given_or_now ob s = (t0, s1) \<Longrightarrow> unobserved_silent run s1 \<longleftrightarrow> unobserved_silent run s"
  using given_or_now_frame [of ob s t0 s1]
  by (simp_all add: collected_ok_def issued_def observation_for_run_def unobserved_silent_def)

lemma outside_findingsD:
  assumes "outside_findings t = outside_findings s"
  shows "observations t = observations s" "presence_history t = presence_history s" "sha256 t = sha256 s"
    "outside_persistence t = outside_persistence s"
proof -
  have "outside_persistence s = outside_persistence (outside_findings s)" for s
    by (simp add: outside_persistence_def outside_findings_def)
  then show "outside_persistence t = outside_persistence s" by (metis assms)
  show "observations t = observations s" "presence_history t = presence_history s" "sha256 t = sha256 s"
    using assms by (auto simp: outside_findings_def dest: arg_cong [where f = observations]
      arg_cong [where f = presence_history] arg_cong [where f = sha256])
qed

text \<open>The two loops one after the other.\<close>

lemma persist_findings_cases:
  assumes "persist_findings scan run items ob s = Inr (n, t)"
  obtains t0 s1 idx s2 where "given_or_now ob s = (t0, s1)" "by_fingerprint (sha256 s1) run items = Inr idx"
    "fold_result (create_missing scan run t0) idx s1 = Inr s2"
    "fold_result (persist_item scan run t0) idx s2 = Inr t" "n = length idx"
  using assms unfolding persist_findings_def Let_def
  by (cases "given_or_now ob s") (auto simp: andThen_eq_Inr)

lemma persist_findings_total:
  assumes "collected_ok s" "unobserved_silent run s" "\<forall>item \<in> set items. storable run item"
  shows "\<exists>n t. persist_findings scan run items ob s = Inr (n, t)"
proof -
  obtain t0 s1 where g: "given_or_now ob s = (t0, s1)" by fastforce
  note ok = collected_ok_given [OF g]
  from by_fingerprint_total [of items run "sha256 s1"] assms(3) obtain idx where
    idx: "by_fingerprint (sha256 s1) run items = Inr idx" by (auto simp: storable_def)
  have st: "\<forall>(fp, raw) \<in> set idx. \<exists>item. stored_item raw = Inr item"
    using by_fingerprint_index(3) [OF idx] assms(3) by (fastforce simp: storable_def split: sum.splits)
  from create_missing_loop_total [of s1 idx scan run t0] ok(1) assms(1) st obtain s2 where
    s2: "fold_result (create_missing scan run t0) idx s1 = Inr s2" by blast
  note c = create_missing_effect [OF s2 ok(1) [THEN iffD2, OF assms(1)]]
  have "unobserved_silent run s2"
    using ok(3) assms(2) outside_findingsD [of s2 s1] c
    by (simp add: unobserved_silent_def observation_for_run_def)
  with persist_items_total [of s2 run idx scan t0] c st obtain t where
    "fold_result (persist_item scan run t0) idx s2 = Inr t" by blast
  with g idx s2 show ?thesis by (simp add: persist_findings_def)
qed

lemma reported_index:
  assumes "by_fingerprint (sha256 s) run items = Inr idx"
  shows "fst ` set idx = reported s run items" "length idx = card (reported s run items)"
proof -
  note i = by_fingerprint_index [OF assms]
  show f: "fst ` set idx = reported s run items" using i(2) by (simp add: reported_def)
  have "length idx = card (set (map fst idx))" using distinct_card [OF i(1)] by simp
  with f show "length idx = card (reported s run items)" by simp
qed

text \<open>The effect of a persistence, created rows apart.\<close>

lemma persist_findings_effect:
  assumes p: "persist_findings scan run items ob s = Inr (n, t)" and ok: "collected_ok s"
  shows "n = card (reported s run items) \<and> collected_ok t \<and> persists s t \<and> audited_step\<^sup>*\<^sup>* s t \<and>
    (\<forall>fp \<in> reported s run items. \<exists>item \<in> set items. item_fingerprint (sha256 s) run item = Inr fp \<and>
       settled scan run (fp, item) t) \<and>
    (\<exists>old new. findings t = old @ new \<and>
       list_all2 (row_persisted run (reported s run items) s) (findings s) old \<and>
       (\<forall>g \<in> set new. f_fingerprint g \<in> reported s run items \<and> f_status g = Open \<and>
          f_total_occurrence_count g = 1))"
  using p
proof (cases rule: persist_findings_cases)
  case (1 t0 s1 idx s2)
  note g = given_or_now_frame [OF 1(1)]
  have idx: "by_fingerprint (sha256 s) run items = Inr idx" using 1(2) g by simp
  note r = reported_index [OF idx]
  have ok1: "collected_ok s1" using collected_ok_given [OF 1(1)] ok by simp
  note c = create_missing_effect [OF 1(3) ok1]
  then have ok2: "collected_ok s2" and out: "outside_findings s2 = outside_findings s1" by blast+
  note e = persist_items_effect [OF 1(4) ok2 by_fingerprint_index(1) [OF idx]]
  have obs: "observation_for_run s2 i j = observation_for_run s i j" for i j
    using outside_findingsD [OF out] g by (simp add: observation_for_run_def)
  from c g(1) obtain new where new: "findings s2 = findings s @ new"
    "\<forall>f \<in> set new. f_fingerprint f \<in> fst ` set idx \<and> f_total_occurrence_count f = 0 \<and> f_status f = Open"
    by auto
  have rows: "list_all2 (row_persisted run (reported s run items) s) (findings s @ new) (findings t)"
  proof -
    have "row_persisted run (fst ` set idx) s2 = row_persisted run (reported s run items) s"
      by (intro ext) (simp only: row_persisted_def r(1) obs)
    with e new(1) show ?thesis by simp
  qed
  then obtain old new' where old: "findings t = old @ new'"
    "list_all2 (row_persisted run (reported s run items) s) (findings s) old"
    "list_all2 (row_persisted run (reported s run items) s) new new'"
    by (auto simp: list_all2_append1)
  have fresh: "observation_for_run s (f_id f) j = None" if "f \<in> set new" for f j
  proof -
    have "f_id f \<notin> f_id ` set (findings s)" using ok2 that by (auto simp: collected_ok_def new(1))
    moreover have "o_opportunity_id ` set (observations s) \<subseteq> f_id ` set (findings s)"
      using ok by (simp add: collected_ok_def)
    ultimately have "f_id f \<notin> o_opportunity_id ` set (observations s)" by blast
    then show ?thesis by (auto simp: observation_for_run_key find_row_None_iff observation_key_def)
  qed
  have "\<forall>g \<in> set new'. f_fingerprint g \<in> reported s run items \<and> f_status g = Open \<and>
      f_total_occurrence_count g = 1"
  proof
    fix g assume "g \<in> set new'"
    from list_all2_right [OF old(3) this] obtain f where
      f: "f \<in> set new" "row_persisted run (reported s run items) s f g" by blast
    with new(2) fresh [OF f(1)] show "f_fingerprint g \<in> reported s run items \<and> f_status g = Open \<and>
        f_total_occurrence_count g = 1"
      by (auto simp: row_persisted_def r(1) follows_observation_def same_identity_def)
  qed
  moreover have "\<forall>fp \<in> reported s run items. \<exists>item \<in> set items.
      item_fingerprint (sha256 s) run item = Inr fp \<and> settled scan run (fp, item) t"
    using e by_fingerprint_index(3) [OF idx] by (fastforce simp: r(1) [symmetric])
  moreover have "persists s t"
    using g(7) outside_findingsD(4) [OF out] c e by (auto simp: persists_def intro: uuids_grow_trans)
  moreover have "audited_step\<^sup>*\<^sup>* s t" using g(8) c e by (meson rtranclp_trans)
  ultimately show ?thesis using 1(5) r(2) e old(1,2) by blast
qed

text \<open>
  C5: A collection is recorded exactly.  If the tables are in order, nothing of the run was noted
  yet about an opportunity it has not observed, and every reported item names an opportunity and
  fits the columns, persisting never fails.  Afterwards every reported fingerprint belongs to
  exactly one opportunity, which has one observation of the run holding the values of a reported
  item; the opportunities that were not reported are as they were; a reported one keeps its
  identity and its status, its last sighting never moves back, it counts one more occurrence
  exactly when the run had not observed it before, and a rejected one stays archived as it was;
  and the rows that are new are open, reported and counted once.  The result is the number of
  distinct fingerprints, and every table but findings, observations, presence and archive history,
  coverage and audit trail is untouched.
\<close>

theorem persistence_exact:
  assumes "collected_ok s" "unobserved_silent run s" "\<forall>item \<in> set items. storable run item"
  shows "\<exists>t. persist_findings scan run items ob s = Inr (card (reported s run items), t) \<and>
    collected_ok t \<and> outside_persistence t = outside_persistence s \<and>
    (\<forall>fp \<in> reported s run items. \<exists>item \<in> set items. item_fingerprint (sha256 s) run item = Inr fp \<and>
       settled scan run (fp, item) t) \<and>
    (\<exists>old new. findings t = old @ new \<and>
       list_all2 (\<lambda>f g. if f_fingerprint f \<in> reported s run items
         then follows_observation f g \<and> f_total_occurrence_count g = f_total_occurrence_count f +
           (if observation_for_run s (f_id f) (cr_id run) = None then 1 else 0)
         else g = f) (findings s) old \<and>
       (\<forall>g \<in> set new. f_fingerprint g \<in> reported s run items \<and> f_status g = Open \<and>
          f_total_occurrence_count g = 1))"
proof -
  from persist_findings_total [OF assms] obtain n t where
    p: "persist_findings scan run items ob s = Inr (n, t)" by blast
  from persist_findings_effect [OF p assms(1)] p show ?thesis
    unfolding row_persisted_def [abs_def] persists_def by blast
qed

text \<open>
  A collection is recorded once.  Recording the items of a run a second time, at whatever
  instant, succeeds, counts the same number of opportunities and changes no table.
\<close>

theorem persistence_repeatable:
  assumes "persist_findings scan run items ob s = Inr (n, t)" "collected_ok s"
  shows "persist_findings scan run items ob' t = Inr (n, snd (given_or_now ob' t))"
  using assms(1)
proof (cases rule: persist_findings_cases)
  case (1 t0 s1 idx s2)
  note g = given_or_now_frame [OF 1(1)]
  obtain t1 u where g': "given_or_now ob' t = (t1, u)" by fastforce
  note gu = given_or_now_frame [OF g'] and oku = collected_ok_given [OF g']
  note e = persist_findings_effect [OF assms]
  then have ok: "collected_ok t" and sha: "sha256 t = sha256 s" using persistsD [of s t] by simp_all
  have ok1: "collected_ok s1" using collected_ok_given [OF 1(1)] assms(2) by simp
  have ok2: "collected_ok s2" using create_missing_effect [OF 1(3) ok1] by blast
  have "distinct (map fst idx)" using by_fingerprint_index(1) [OF 1(2)] .
  from persist_items_effect [OF 1(4) ok2 this] have st: "settled scan run e u" if "e \<in> set idx" for e
    using that by (simp add: settled_def finding_by_fingerprint_def gu(1) oku(2))
  have idle: "create_missing scan run t1 e u = Inr u" "persist_item scan run t1 e u = Inr u"
    if "e \<in> set idx" for e
  proof -
    have "finding_by_fingerprint (fst e) u \<noteq> None" using st [OF that] by (auto simp: settled_def)
    then show "create_missing scan run t1 e u = Inr u" by (cases e) (simp add: create_missing_def)
    show "persist_item scan run t1 e u = Inr u"
      using settled_idle [OF st [OF that]] oku(1) ok by simp
  qed
  have "fold_result f xs u = Inr u" if "\<And>e. e \<in> set xs \<Longrightarrow> f e u = Inr u"
    for f :: "string \<times> collected_finding \<Rightarrow> db \<Rightarrow> db result" and xs
    using that by (induction xs) auto
  from this [of idx] idle 1(2,5) g' gu(5) g(5) sha show ?thesis by (simp add: persist_findings_def)
qed

section \<open>The tables a collection writes\<close>

lemma persists_observation_of_item:
  "observation_of_item run t0 f item s = Inr (x, c, t) \<Longrightarrow> persists s t"
  by (auto simp: observation_of_item_def create_observation_race_safe_def env_defs Let_def
      persists_def outside_persistence_def uuids_grow_def split: option.splits if_splits)

lemma persists_put_observation [simp]: "persists s (put_observation x s)"
  by (simp add: persists_def outside_persistence_def uuids_grow_def put_observation_def)

lemma persists_observe_finding:
  assumes "observe_finding scan run f item x c s = Inr t"
  shows "persists s t"
proof -
  obtain g latest where g: "observed_snapshot scan run f item x c s = (g, latest)" by fastforce
  show ?thesis
  proof (cases latest)
    case True
    let ?g = "g\<lparr>f_last_seen_at := o_observed_at x, f_last_seen_collection_run_id := Some (cr_id run)\<rparr>"
    from assms g True obtain h b u where
      r: "reactivate_presence_from_observation ?g run (put_finding ?g s) = Inr (h, b, u)"
      and t: "t = put_finding (reviewed_again h x) u"
      by (auto simp: observe_finding_def follow_observation_def andThen_eq_Inr Let_def)
    show ?thesis
      using persists_trans [OF persists_trans [OF persists_put_finding persists_reactivation [OF r]]
        persists_put_finding] by (simp add: t)
  next
    case False
    with assms g have "t = put_finding g s" by (simp add: observe_finding_def)
    then show ?thesis by simp
  qed
qed

lemma persists_item:
  assumes "persist_item scan run t0 e s = Inr t"
  shows "persists s t"
proof -
  obtain fp raw where e: "e = (fp, raw)" by fastforce
  from assms obtain item where item: "stored_item raw = Inr item"
    by (auto simp: persist_item_def e andThen_eq_Inr)
  with assms obtain f where f: "finding_by_fingerprint fp s = Some f"
    by (auto simp: persist_item_def e split: option.splits)
  from assms item f obtain x c s1 where ob: "observation_of_item run t0 f item s = Inr (x, c, s1)"
    and o: "observe_finding scan run f item (refreshed_observation x item) c
      (put_observation (refreshed_observation x item) s1) = Inr t"
    by (auto simp: persist_item_def e andThen_eq_Inr Let_def)
  show ?thesis
    using persists_trans [OF persists_trans [OF persists_observation_of_item [OF ob]
      persists_put_observation] persists_observe_finding [OF o]] .
qed

lemma persists_missing:
  assumes "create_missing scan run t0 e s = Inr t"
  shows "persists s t"
  using assms
  by (cases e) (auto simp: create_missing_def create_finding_race_safe_def env_defs Let_def andThen_eq_Inr
      persists_def outside_persistence_def uuids_grow_def split: option.splits if_splits)

lemma persists_fold:
  assumes "fold_result f xs s = Inr t" "\<And>x s t. x \<in> set xs \<Longrightarrow> f x s = Inr t \<Longrightarrow> persists s t"
  shows "persists s t"
  using assms(1) persists_refl
  by (rule fold_result_invariant [where P = "persists s"]) (blast intro: persists_trans assms(2))

lemma persists_findings:
  assumes "persist_findings scan run items ob s = Inr (n, t)"
  shows "persists s t"
  using assms
proof (cases rule: persist_findings_cases)
  case (1 t0 s1 idx s2)
  have "persists s s1" by (rule given_or_now_frame(7) [OF 1(1)])
  also have "persists s1 s2" using 1(3) persists_missing by (rule persists_fold)
  also have "persists s2 t" using 1(4) persists_item by (rule persists_fold)
  finally show ?thesis .
qed

text \<open>An unattached volume that the collection of the sample account reports.\<close>

definition volume_item :: collected_finding where
  "volume_item = \<lparr>ci_rule_key = ''ebs_unattached'', ci_service = ''EBS'', ci_region = Some ''us-east-1'',
     ci_resource_id = ''vol-1'', ci_resource_name = None, ci_resource_type = Some ''volume'',
     ci_provider_metadata = JObj [], ci_title = ''Unattached volume'', ci_description = ''d'',
     ci_evidence = JObj [], ci_current_monthly_cost = 10, ci_estimated_monthly_savings = Some 8,
     ci_currency = ''USD'', ci_confidence = ''high'', ci_severity = ''medium''\<rparr>"

definition volume_result :: collection_result where
  "volume_result = \<lparr>cx_findings = [volume_item], cx_active_rule_keys = [''ebs_unattached''],
     cx_collector_errors = [], cx_resources_analyzed = 1\<rparr>"

definition volume_io :: provider_io where
  "volume_io acc x s = (Inr volume_result, s)"

definition claimed_scan :: scan where
  "claimed_scan = \<lparr>sc_id = ''scan'', sc_account_id = Some 7, sc_cloud_account_id = 1,
     sc_status = ScanRunning, sc_trigger = ''manual'', sc_created_at = Aware 0 0,
     sc_started_at = Some (Aware 1 0), sc_completed_at = None, sc_findings_count = 0,
     sc_error = None\<rparr>"

definition claimed_run :: collection_run where
  "claimed_run = (sample_run ''run'' 1)\<lparr>cr_scan_id := Some ''scan'', cr_account_id := ''123456789012''\<rparr>"

definition collect_db :: db where
  "collect_db = queue_db\<lparr>uuid4 := \<lambda>n. replicate n CHR ''x'', scans := [claimed_scan],
     collection_runs := [claimed_run]\<rparr>"

lemma collect_db_ok: "collected_ok collect_db" "unobserved_silent claimed_run collect_db"
proof -
  have "inj (\<lambda>n. replicate n CHR ''x'')" by (auto intro!: injI dest: arg_cong [where f = length])
  then show "collected_ok collect_db" "unobserved_silent claimed_run collect_db"
    by (simp_all add: collected_ok_def unobserved_silent_def collect_db_def queue_db_def empty_db_def)
qed

lemma volume_storable: "storable claimed_run volume_item"
proof -
  have "stored_item volume_item = Inr volume_item"
    by (simp add: stored_item_def numeric2_def volume_item_def floor_eq_iff)
  moreover have "complete (item_coordinates claimed_run volume_item)" by code_simp
  ultimately show ?thesis by (simp add: storable_def)
qed

lemma persistence_exact_witness:
  "\<exists>t. persist_findings claimed_scan claimed_run [volume_item] None collect_db =
    Inr (card (reported collect_db claimed_run [volume_item]), t)"
  using persistence_exact [OF collect_db_ok, of "[volume_item]" claimed_scan None] volume_storable by auto

lemma persistence_repeatable_witness:
  "\<exists>n t. persist_findings claimed_scan claimed_run [volume_item] None collect_db = Inr (n, t) \<and>
    persist_findings claimed_scan claimed_run [volume_item] (Some (Aware 5 0)) t = Inr (n, t)"
proof -
  from persist_findings_total [OF collect_db_ok, of "[volume_item]" claimed_scan None] volume_storable
  obtain n t where p: "persist_findings claimed_scan claimed_run [volume_item] None collect_db = Inr (n, t)"
    by auto
  from persistence_repeatable [OF this collect_db_ok(1), of "Some (Aware 5 0)"] p show ?thesis
    by (simp add: given_or_now_def)
qed

end
