(* ===== verification/Worker.thy ===== *)
theory Worker
  imports Collection
begin

text \<open>
  The worker (backend/app/worker.py): the execution of a claimed scan, from the checks before the
  cloud I/O to the transaction that persists the result and closes run, scan and account, and one
  round of its loop.  The effective policies of an account and the cloud I/O are parameters.
\<close>

section \<open>The execution of a scan\<close>

definition identity_matches :: "collection_run \<Rightarrow> cloud_account \<Rightarrow> bool" where
  "identity_matches run acc \<longleftrightarrow>
     cr_provider run = ca_provider acc \<and> cr_account_id run = ca_native_account_id acc"

definition begin_collection :: "registry \<Rightarrow> scan \<Rightarrow> db \<Rightarrow>
    (cloud_account \<times> executor \<times> collection_run) result" where
  "begin_collection reg scan s =
     andThen (guard (sc_status scan = ScanRunning)
       (CollectionPreconditionError ''Scan is not running'')) (\<lambda>_.
     case get_account (sc_cloud_account_id scan) s of
       None \<Rightarrow> Inl (CollectionPreconditionError ''CloudAccount for scan does not exist'')
     | Some acc \<Rightarrow>
         andThen (guard (ca_enabled acc)
           (CollectionPreconditionError ''Cloud account is disabled'')) (\<lambda>_.
         andThen (require_provider_operation (ca_provider acc) (scan_operation scan)) (\<lambda>_.
         andThen (registry_get reg (ca_provider acc)) (\<lambda>ex.
         andThen (ex_prepare ex acc (Some scan) s) (\<lambda>_.
         case collection_run_for_scan s (sc_id scan) of
           None \<Rightarrow> Inl (CollectionPreconditionError ''CollectionRun missing for claimed scan'')
         | Some run \<Rightarrow>
             andThen (guard (identity_matches run acc) (CollectionPreconditionError
               ''CollectionRun identity does not match the scan CloudAccount'')) (\<lambda>_.
             Inr (acc, ex, run)))))))"

text \<open>The rows as they are after the cloud I/O.\<close>

definition reload_collection :: "scan \<Rightarrow> collection_run \<Rightarrow> cloud_account \<Rightarrow> db \<Rightarrow>
    (scan \<times> collection_run \<times> cloud_account) result" where
  "reload_collection scan run acc s =
     (case (get_scan (sc_id scan) s, find_row cr_id (cr_id run) (collection_runs s),
            get_account (ca_id acc) s) of
        (Some scan', Some run', Some acc') \<Rightarrow>
          andThen (guard (identity_matches run' acc') (CollectionPreconditionError
            ''CloudAccount identity changed during provider execution'')) (\<lambda>_.
          Inr (scan', run', acc'))
      | _ \<Rightarrow> Inl (CollectionPreconditionError
          ''Collection state was removed during provider execution''))"

definition scan_warnings :: "reported list \<Rightarrow> string option" where
  "scan_warnings errors =
     (if errors = [] then None
      else Some (take 4000 (join [CHR 0x0A]
        (map (\<lambda>e. or_text (sanitize_collection_error (Some e)) []) errors))))"

definition close_collection :: "scan \<Rightarrow> collection_run \<Rightarrow> cloud_account \<Rightarrow> collection_result \<Rightarrow> nat \<Rightarrow>
    datetime \<Rightarrow> db \<Rightarrow> db" where
  "close_collection scan run acc res n completed_at s =
     (let scan' = scan\<lparr>sc_findings_count := int n,
            sc_status := (if cx_collector_errors res \<noteq> [] then ScanCompletedWithWarnings
                          else ScanCompleted),
            sc_completed_at := Some completed_at,
            sc_error := scan_warnings (cx_collector_errors res)\<rparr>;
          run' = run\<lparr>cr_status := SUCCESS, cr_finished_at := Some completed_at,
            cr_opportunities_found := int n, cr_resources_analyzed := cx_resources_analyzed res,
            cr_error_detail := None\<rparr>
      in put_account (mark_connection_success acc) (put_run run' (put_scan scan' s)))"

text \<open>The persistence transaction; \<open>policies\<close> are the effective policies of the account.\<close>

definition persist_collection :: "effective_policy list \<Rightarrow> int \<Rightarrow> scan \<Rightarrow> collection_run \<Rightarrow>
    cloud_account \<Rightarrow> collection_result \<Rightarrow> db \<Rightarrow> db result" where
  "persist_collection policies threshold scan run acc res s =
     andThen (persist_findings scan run (cx_findings res) None s) (\<lambda>(n, s1).
     let (completed_at, s2) = utcnow s1;
         (rows, s3) = persist_collection_scope_executions run
           (build_collection_scope_executions policies acc run res completed_at) s2
     in andThen (reconcile_opportunity_presence run rows threshold s3) (\<lambda>(_, s4).
        Inr (close_collection scan run acc res n completed_at s4)))"

text \<open>The dashboard aggregate is repaired apart: its failure leaves the collection as it is.\<close>

definition rebuild_or_keep :: "collection_run \<Rightarrow> db \<Rightarrow> db" where
  "rebuild_or_keep run s =
     (case rebuild_account_summary (cr_provider run) (cr_account_id run) (Some (cr_id run)) s of
        Inl _ \<Rightarrow> s | Inr (_, s') \<Rightarrow> s')"

text \<open>The outcome and the state at the last commit.\<close>

definition execute_scan :: "registry \<Rightarrow> (db \<Rightarrow> cloud_account \<Rightarrow> effective_policy list) \<Rightarrow> int \<Rightarrow>
    scan \<Rightarrow> db \<Rightarrow> unit result \<times> db" where
  "execute_scan reg policies threshold scan s =
     (case begin_collection reg scan s of
        Inl e \<Rightarrow> (Inl e, s)
      | Inr (acc, ex, run) \<Rightarrow>
          (case ex_execute ex acc scan s of
             (Inl e, s1) \<Rightarrow> (Inl e, s1)
           | (Inr res, s1) \<Rightarrow>
               (case andThen (reload_collection scan run acc s1) (\<lambda>(scan', run', acc').
                       andThen (persist_collection (policies s1 acc') threshold scan' run' acc' res s1)
                         (\<lambda>s2. Inr (run', s2))) of
                  Inl e \<Rightarrow> (Inl e, s1)
                | Inr (run', s2) \<Rightarrow> (Inr (), rebuild_or_keep run' s2))))"

definition process_once :: "registry \<Rightarrow> (db \<Rightarrow> cloud_account \<Rightarrow> effective_policy list) \<Rightarrow> int \<Rightarrow>
    db \<Rightarrow> bool result \<times> db" where
  "process_once reg policies threshold s =
     (let s1 = enqueue_due_scans s
      in case claim_scan reg s1 of
           Inl e \<Rightarrow> (Inl e, s1)
         | Inr (None, s2) \<Rightarrow> (Inr False, s2)
         | Inr (Some scan, s2) \<Rightarrow>
             if sc_status scan \<noteq> ScanRunning then (Inr True, s2)
             else (case execute_scan reg policies threshold scan s2 of
                     (Inr _, s3) \<Rightarrow> (Inr True, s3)
                   | (Inl e, s3) \<Rightarrow> (Inr True, fail_scan reg (sc_id scan) e s3)))"

section \<open>What a collection leaves alone\<close>

lemma persists_scope_rows: "persists s (snd (persist_collection_scope_executions run rows s))"
proof -
  have "persists s0 (snd (fold (persist_scope_row i) rows (ids, s)))" if "persists s0 s" for s0 ids s i
    using that
  proof (induction rows arbitrary: ids s)
    case (Cons x rows)
    have "persists s (snd (persist_scope_row i x (ids, s)))"
      by (simp add: persist_scope_row_def env_defs Let_def persists_def outside_persistence_def
          uuids_grow_def put_scope_execution_def split: option.split)
    with Cons.prems have "persists s0 (snd (persist_scope_row i x (ids, s)))" by (rule persists_trans)
    from Cons.IH [of "snd (persist_scope_row i x (ids, s))" "fst (persist_scope_row i x (ids, s))"] this
    show ?case by simp
  qed simp
  from this [of s s "cr_id run" "[]"] show ?thesis
    by (simp add: persist_collection_scope_executions_def case_prod_beta)
qed

lemma persists_reconcile_one:
  assumes "reconcile_one run rows obs th f (st, s) = Inr (st', t)"
  shows "persists s t"
proof (cases "lost run rows obs f")
  case True
  let ?f = "gone_missing f run th"
  from True assms obtain x where
    "record_presence f run (f_presence_status f) (f_presence_status ?f) (missing_reason ?f)
       (f_missing_count ?f) (Some th) (Some x) (f_missing_count f) (put_finding ?f s) = Inr t"
    by (auto simp: reconcile_one_def lost_def Let_def andThen_eq_Inr split: option.splits)
  from persists_trans [OF persists_put_finding persists_record_presence [OF this]] show ?thesis .
next
  case False
  with assms show ?thesis
    by (auto simp: reconcile_one_def lost_def split: option.splits if_splits)
qed

lemma persists_reconcile:
  assumes "reconcile_opportunity_presence run rows th s = Inr (st, t)"
  shows "persists s t"
proof -
  have loop: "persists s (snd r)" if "fold_result (reconcile_one run rows obs th) fs (st0, s) = Inr r"
    for obs fs st0 r
    using that
  proof (rule fold_result_invariant [where P = "\<lambda>r. persists s (snd r)"])
    fix f a b assume "persists s (snd a)" "reconcile_one run rows obs th f a = Inr b"
    then show "persists s (snd b)"
      using persists_reconcile_one [of run rows obs th f "fst a" "snd a" "fst b" "snd b"]
      by (auto intro: persists_trans)
  qed simp
  from assms show ?thesis
    unfolding reconcile_opportunity_presence_def andThen_eq_Inr
    using loop [of "observed_ids run s" _ no_stats "(st, t)"] by (auto split: if_splits)
qed

lemma persist_collection_effect:
  assumes "persist_collection policies th scan run acc res s = Inr t"
  obtains n u now where "persists s u" "t = close_collection scan run acc res n now u"
proof -
  from assms obtain n s1 where p: "persist_findings scan run (cx_findings res) None s = Inr (n, s1)"
    by (auto simp: persist_collection_def andThen_eq_Inr)
  obtain now s2 where u: "utcnow s1 = (now, s2)" by fastforce
  obtain rows s3 where r: "persist_collection_scope_executions run
      (build_collection_scope_executions policies acc run res now) s2 = (rows, s3)" by fastforce
  from assms p u r obtain st s4 where c: "reconcile_opportunity_presence run rows th s3 = Inr (st, s4)"
    and t: "t = close_collection scan run acc res n now s4"
    by (auto simp: persist_collection_def andThen_eq_Inr)
  have "persists s1 s2" using given_or_now_frame(7) [of None s1 now s2] u by (simp add: given_or_now_def)
  with persists_findings [OF p] have "persists s s2" by (rule persists_trans)
  moreover have "persists s2 s3" using persists_scope_rows [of s2 run] r by (metis snd_conv)
  ultimately have "persists s s4" using persists_reconcile [OF c] persists_trans by blast
  with t show ?thesis by (rule that [rotated])
qed

lemma rebuild_or_keep_same_source: "same_source s (rebuild_or_keep run s)"
proof -
  have "same_source s t" if "rebuild_account_summary p a i s = Inr (b, t)" for p a i b t
    using that
    by (auto simp: rebuild_account_summary_def Let_def andThen_eq_Inr persist_def utcnow_def
        put_summary_def delete_summary_def same_source_def split: option.splits if_splits)
  then show ?thesis by (auto simp: rebuild_or_keep_def split: sum.split)
qed

section \<open>The worker\<close>

text \<open>Every run belongs to a scan that was claimed.\<close>

definition runs_claimed :: "db \<Rightarrow> bool" where
  "runs_claimed s \<longleftrightarrow> (\<forall>r \<in> set (collection_runs s). \<forall>i. cr_scan_id r = Some i \<longrightarrow>
     (\<exists>x \<in> set (scans s). sc_id x = i \<and> sc_status x \<noteq> ScanPending))"

text \<open>What the cloud I/O of an executor may not touch: the queue and the runs.\<close>

definition io_contract :: "provider_io \<Rightarrow> bool" where
  "io_contract io \<longleftrightarrow> (\<forall>acc x s. let t = snd (io acc x s) in
     scans t = scans s \<and> collection_runs t = collection_runs s \<and> uuids_grow s t)"

lemma claimed_kept_step:
  assumes "queue_step s t" "x \<in> set (scans s)" "sc_status x \<noteq> ScanPending"
  shows "\<exists>x' \<in> set (scans t). sc_id x' = sc_id x \<and> sc_status x' \<noteq> ScanPending"
  using assms(1)
proof (cases rule: queue_step.cases)
  case (moved y y')
  have "sc_status y' \<noteq> ScanPending" using moved(6) by (cases "(sc_status y, sc_status y')" rule: scan_move.cases) auto
  moreover have "y' \<in> set (scans t)" using moved(2,3,4) by (metis imageI in_put_row)
  moreover have "x \<in> set (scans t)" if "sc_id x \<noteq> sc_id y'" using moved(3) assms(2) that by (simp add: in_put_row)
  ultimately show ?thesis using assms(3) by (cases "sc_id x = sc_id y'") auto
qed (use assms(2,3) in auto)

lemma runs_claimed_steps:
  assumes "queue_step\<^sup>*\<^sup>* s t" "runs_claimed s"
    and "\<forall>r \<in> set (collection_runs t). cr_scan_id r \<in> cr_scan_id ` set (collection_runs s)"
  shows "runs_claimed t"
proof -
  have kept: "\<exists>x' \<in> set (scans t). sc_id x' = i \<and> sc_status x' \<noteq> ScanPending"
    if "\<exists>x \<in> set (scans s). sc_id x = i \<and> sc_status x \<noteq> ScanPending" for i
    using assms(1)
  proof (induction rule: rtranclp_induct)
    case (step y z)
    then obtain x where "x \<in> set (scans y)" "sc_id x = i" "sc_status x \<noteq> ScanPending" by blast
    with claimed_kept_step [OF step(2)] show ?case by blast
  qed (rule that)
  show ?thesis unfolding runs_claimed_def
  proof (intro ballI allI impI)
    fix r i assume r: "r \<in> set (collection_runs t)" "cr_scan_id r = Some i"
    then obtain r' where "r' \<in> set (collection_runs s)" "cr_scan_id r' = Some i" using assms(3) by force
    with assms(2) kept show "\<exists>x \<in> set (scans t). sc_id x = i \<and> sc_status x \<noteq> ScanPending"
      by (auto simp: runs_claimed_def)
  qed
qed

lemma enqueue_runs: "collection_runs (enqueue_due_scans s) = collection_runs s"
proof -
  have "collection_runs (enqueue_account now a s) = collection_runs s" for now a s
    by (simp add: enqueue_account_def add_scan_def env_defs Let_def split: option.split)
  then have "collection_runs (fold (enqueue_account now) accs s) = collection_runs s" for now accs s
    by (induction accs arbitrary: s) simp_all
  then show ?thesis by (simp add: enqueue_due_scans_def case_prod_beta Let_def)
qed

lemma runs_claimed_pending:
  assumes "queue_ok s" "runs_claimed s" "next_pending s = Some x"
  shows "collection_run_for_scan s (sc_id x) = None"
proof -
  note x = next_pending_Some [OF assms(3)]
  have "cr_scan_id r \<noteq> Some (sc_id x)" if r: "r \<in> set (collection_runs s)" for r
  proof
    assume "cr_scan_id r = Some (sc_id x)"
    with assms(2) r obtain y where "y \<in> set (scans s)" "sc_id y = sc_id x" "sc_status y \<noteq> ScanPending"
      by (auto simp: runs_claimed_def)
    with assms(1) x show False by (auto simp: queue_ok_def distinct_map inj_on_def)
  qed
  then show ?thesis by (auto simp: collection_run_for_scan_def find_None_iff)
qed

lemma same_source_queue:
  "same_source s t \<Longrightarrow> scans t = scans s \<and> collection_runs t = collection_runs s \<and> uuids_grow s t"
  by (erule same_sourceD) (simp add: uuids_grow_def)

text \<open>What \<open>execute_scan\<close> leaves of the queue.\<close>

lemma begin_collection_executor:
  assumes "begin_collection reg x s = Inr (acc, ex, run)"
  shows "registry_get reg (ca_provider acc) = Inr ex"
  using assms by (auto simp: begin_collection_def andThen_eq_Inr split: option.splits)

lemma executed_io:
  assumes "registry_get (collection_executors aws_io oci_io) p = Inr ex"
    and "io_contract aws_io" "io_contract oci_io" "ex_execute ex acc x s = (r, t)"
  shows "scans t = scans s \<and> collection_runs t = collection_runs s \<and> uuids_grow s t"
proof -
  have "io_contract (aws_execute io)" "io_contract (oci_execute io)" if "io_contract io" for io
    using that unfolding io_contract_def aws_execute_def oci_execute_def
    by (auto simp: Let_def split: sum.split)
  with assms(2,3) have "io_contract (aws_execute aws_io)" "io_contract (oci_execute oci_io)" by blast+
  moreover have "ex_execute ex = aws_execute aws_io \<or> ex_execute ex = oci_execute oci_io"
    using collection_executors_cases [OF assms(1)] by (auto simp: aws_executor_def oci_executor_def)
  ultimately have "io_contract (ex_execute ex)" by auto
  with assms(4) show ?thesis unfolding io_contract_def Let_def by (metis snd_conv)
qed

text \<open>How an execution can end: refused, failed during or after the cloud I/O, or persisted.\<close>

lemma execute_scan_cases:
  assumes e: "execute_scan reg policies th x s = (r, t)"
  obtains (refused) e where "r = Inl e" "t = s"
  | (failed) acc ex e where "registry_get reg (ca_provider acc) = Inr ex" "r = Inl e"
      "t = snd (ex_execute ex acc x s)"
  | (persisted) acc ex run res s1 x' run' acc' s2 where
      "registry_get reg (ca_provider acc) = Inr ex" "ex_execute ex acc x s = (Inr res, s1)"
      "reload_collection x run acc s1 = Inr (x', run', acc')"
      "persist_collection (policies s1 acc') th x' run' acc' res s1 = Inr s2"
      "r = Inr ()" "t = rebuild_or_keep run' s2"
proof (cases "begin_collection reg x s")
  case (Inl err)
  with e show ?thesis by (intro refused [of err]) (simp_all add: execute_scan_def)
next
  case (Inr aer)
  obtain acc ex run where aer: "aer = (acc, ex, run)" by (cases aer) auto
  note reg = begin_collection_executor [OF Inr [unfolded aer]]
  obtain ri s1 where ex: "ex_execute ex acc x s = (ri, s1)" by fastforce
  show ?thesis
  proof (cases ri)
    case Inl': (Inl err)
    with e Inr aer ex show ?thesis by (intro failed [OF reg, of err]) (simp_all add: execute_scan_def)
  next
    case Inr': (Inr res)
    let ?persist = "andThen (reload_collection x run acc s1) (\<lambda>(x', run', acc').
      andThen (persist_collection (policies s1 acc') th x' run' acc' res s1) (\<lambda>s2. Inr (run', s2)))"
    have e': "(case ?persist of Inl e \<Rightarrow> (Inl e, s1)
        | Inr (run', s2) \<Rightarrow> (Inr (), rebuild_or_keep run' s2)) = (r, t)"
      using e by (simp add: execute_scan_def Inr aer ex Inr')
    show ?thesis
    proof (cases ?persist)
      case Inl'': (Inl err)
      have "r = Inl err" "t = snd (ex_execute ex acc x s)" using e' unfolding Inl'' by (simp_all add: ex)
      then show ?thesis by (rule failed [OF reg])
    next
      case Inr'': (Inr rs)
      obtain run' s2 where rs: "rs = (run', s2)" by fastforce
      have rt: "r = Inr ()" "t = rebuild_or_keep run' s2" using e' unfolding Inr'' rs by simp_all
      from Inr'' obtain x' acc' where rel: "reload_collection x run acc s1 = Inr (x', run', acc')"
        and p: "persist_collection (policies s1 acc') th x' run' acc' res s1 = Inr s2"
        by (auto simp: andThen_eq_Inr rs)
      from ex Inr' have "ex_execute ex acc x s = (Inr res, s1)" by simp
      from persisted [OF reg this rel p rt] show ?thesis .
    qed
  qed
qed

lemma reloaded:
  assumes "reload_collection x run acc s = Inr (x', run', acc')"
  shows "get_scan (sc_id x) s = Some x'" "find_row cr_id (cr_id run) (collection_runs s) = Some run'"
  using assms by (auto simp: reload_collection_def andThen_eq_Inr split: option.splits)

lemma execute_scan_queue:
  assumes e: "execute_scan (collection_executors aws_io oci_io) policies th x s = (r, t)"
    and io: "io_contract aws_io" "io_contract oci_io"
  shows "uuids_grow s t \<and>
    (\<forall>q \<in> set (collection_runs t). cr_scan_id q \<in> cr_scan_id ` set (collection_runs s)) \<and>
    (case r of
       Inl _ \<Rightarrow> scans t = scans s
     | Inr _ \<Rightarrow> \<exists>x' y. get_scan (sc_id x) s = Some x' \<and> scans t = put_row sc_id y (scans s) \<and>
         sc_id y = sc_id x' \<and> sc_cloud_account_id y = sc_cloud_account_id x' \<and>
         sc_status y \<in> {ScanCompleted, ScanCompletedWithWarnings})"
  using e
proof (cases rule: execute_scan_cases)
  case (refused err)
  then show ?thesis by simp
next
  case (failed acc ex err)
  with executed_io [OF failed(1) io prod.collapse [symmetric], of acc x s] show ?thesis by simp
next
  case (persisted acc ex run res s1 x' run' acc' s2)
  note q = executed_io [OF persisted(1) io persisted(2)]
  from reloaded [OF persisted(3)] q have x': "get_scan (sc_id x) s = Some x'"
    and run': "run' \<in> set (collection_runs s)"
    using find_row_Some [OF reloaded(2) [OF persisted(3)]] by (simp_all add: get_scan_def)
  from persist_collection_effect [OF persisted(4)] obtain n u now where
    u: "persists s1 u" and s2: "s2 = close_collection x' run' acc' res n now u" .
  note src = same_source_queue [OF rebuild_or_keep_same_source, of run' s2]
  let ?y = "x'\<lparr>sc_findings_count := int n,
    sc_status := (if cx_collector_errors res \<noteq> [] then ScanCompletedWithWarnings else ScanCompleted),
    sc_completed_at := Some now, sc_error := scan_warnings (cx_collector_errors res)\<rparr>"
  have sc: "scans t = put_row sc_id ?y (scans s)"
    using src q persistsD(1) [OF u] by (simp add: persisted(6) s2 close_collection_def Let_def)
  have "collection_runs t = put_row cr_id (run'\<lparr>cr_status := SUCCESS, cr_finished_at := Some now,
        cr_opportunities_found := int n, cr_resources_analyzed := cx_resources_analyzed res,
        cr_error_detail := None\<rparr>) (collection_runs s)"
    using src q persistsD(3) [OF u]
    by (simp add: persisted(6) s2 close_collection_def Let_def put_run_def)
  then have "\<forall>q \<in> set (collection_runs t). cr_scan_id q \<in> cr_scan_id ` set (collection_runs s)"
    using run' by (auto simp: in_put_row)
  moreover have "uuids_grow s t"
    using q u src by (auto simp: persisted(6) s2 close_collection_def Let_def persists_def uuids_grow_def)
  ultimately show ?thesis using sc x'
    unfolding persisted(5) sum.case by (intro conjI exI [of _ x'] exI [of _ ?y]) simp_all
qed

lemma fail_scan_runs:
  "\<forall>r \<in> set (collection_runs (fail_scan reg i e s)). cr_scan_id r \<in> cr_scan_id ` set (collection_runs s)"
proof -
  have note_runs: "collection_runs (note_connection_failure reg a e m s) = collection_runs s" for a m s
    by (cases e) (simp_all add: note_connection_failure_def split: sum.split)
  have put: "\<forall>r \<in> set (collection_runs (put_run q s)). cr_scan_id r \<in> cr_scan_id ` set (collection_runs s)"
    if "cr_scan_id q \<in> cr_scan_id ` set (collection_runs s)" for q s
    using that by (auto simp: put_run_def in_put_row)
  define m where "m = or_text (sanitize_collection_error (Some (reported_of e))) ''Collection failed''"
  show ?thesis
  proof (cases "get_scan i s")
    case (Some x)
    let ?s = "put_scan (x\<lparr>sc_status := ScanFailed, sc_completed_at := Some (fst (utcnow s)),
      sc_error := Some (take 4000 m)\<rparr>) (snd (utcnow s))"
    let ?u = "case collection_run_for_scan ?s i of None \<Rightarrow> ?s
      | Some r \<Rightarrow> put_run (r\<lparr>cr_status := FAILED, cr_finished_at := Some (fst (utcnow s)),
          cr_error_detail := Some (take 4000 m)\<rparr>) ?s"
    have u: "\<forall>r \<in> set (collection_runs ?u). cr_scan_id r \<in> cr_scan_id ` set (collection_runs s)"
    proof (cases "collection_run_for_scan ?s i")
      case (Some r)
      then have "r \<in> set (collection_runs ?s)"
        unfolding collection_run_for_scan_def by (metis find_Some_iff nth_mem)
      with Some put [of "r\<lparr>cr_status := FAILED, cr_finished_at := Some (fst (utcnow s)),
          cr_error_detail := Some (take 4000 m)\<rparr>" ?s] show ?thesis by simp
    qed simp
    have "collection_runs (fail_scan reg i e s) = collection_runs ?u"
      unfolding fail_scan_def Let_def case_prod_beta Some option.case m_def [symmetric]
      using note_runs by (simp split: option.split)
    with u show ?thesis by simp
  qed (simp add: fail_scan_def)
qed

lemma claimed_runs:
  assumes "claim_scan reg s = Inr (Some y, t)" "runs_claimed s"
  shows "runs_claimed t"
proof -
  obtain x where x: "sc_id y = sc_id x" "next_pending s = Some x" "scans t = put_row sc_id y (scans s)"
    and y: "sc_status y = ScanRunning \<and> (\<exists>run. collection_runs t = collection_runs s @ [run] \<and>
        cr_scan_id run = Some (sc_id x)) \<or>
      sc_status y = ScanFailed \<and> collection_runs t = collection_runs s"
    by (rule claim_effect [OF assms(1)]) blast
  have "y \<in> set (scans t)"
    using next_pending_Some(1) [OF x(2)] x(1,3) by (metis imageI in_put_row)
  have old: "\<exists>z \<in> set (scans t). sc_id z = i \<and> sc_status z \<noteq> ScanPending"
    if "r \<in> set (collection_runs s)" "cr_scan_id r = Some i" for r i
  proof -
    from assms(2) that obtain z where z: "z \<in> set (scans s)" "sc_id z = i" "sc_status z \<noteq> ScanPending"
      unfolding runs_claimed_def by blast
    show ?thesis
    proof (cases "sc_id z = sc_id y")
      case True
      with z(2) y \<open>y \<in> set (scans t)\<close> show ?thesis by (intro bexI [of _ y]) auto
    next
      case False
      with z x(3) show ?thesis by (intro bexI [of _ z]) (auto simp: in_put_row)
    qed
  qed
  show ?thesis
    unfolding runs_claimed_def
  proof (intro ballI allI impI)
    fix r i assume r: "r \<in> set (collection_runs t)" "cr_scan_id r = Some i"
    show "\<exists>z \<in> set (scans t). sc_id z = i \<and> sc_status z \<noteq> ScanPending"
    proof (cases "r \<in> set (collection_runs s)")
      case True
      then show ?thesis using old r(2) by blast
    next
      case False
      with y r have "sc_status y = ScanRunning" "i = sc_id y" by (auto simp: x(1))
      with \<open>y \<in> set (scans t)\<close> show ?thesis by (intro bexI [of _ y]) auto
    qed
  qed
qed

text \<open>What the worker does with a claimed scan.\<close>

lemma claimed_settles:
  assumes ok: "queue_ok t" and rc: "runs_claimed t" and yt: "get_scan (sc_id y) t = Some y"
    and io: "io_contract aws_io" "io_contract oci_io"
    and st: "sc_status y = ScanRunning \<or> sc_status y = ScanFailed"
  defines "reg \<equiv> collection_executors aws_io oci_io"
  shows "\<exists>u z. (if sc_status y \<noteq> ScanRunning then (Inr True, t)
      else case execute_scan reg policies threshold y t of (Inr _, u) \<Rightarrow> (Inr True, u)
        | (Inl e, u) \<Rightarrow> (Inr True, fail_scan reg (sc_id y) e u)) = (Inr True :: bool result, u) \<and>
    queue_ok u \<and> runs_claimed u \<and> scans u = put_row sc_id z (scans t) \<and> sc_id z = sc_id y \<and>
    sc_status z \<in> {ScanCompleted, ScanCompletedWithWarnings, ScanFailed}"
proof (cases "sc_status y = ScanRunning")
  case False
  have "put_row sc_id y (scans t) = scans t"
    using get_scan_Some [OF yt] ok by (intro put_row_same) (simp_all add: queue_ok_def)
  with False st ok rc show ?thesis by (intro exI [of _ t] exI [of _ y]) simp
next
  case True
  obtain r u where e: "execute_scan reg policies threshold y t = (r, u)" by fastforce
  note q = execute_scan_queue [OF e [unfolded reg_def] io]
  have yin: "y \<in> set (scans t)" using get_scan_Some [OF yt] by simp
  show ?thesis
  proof (cases r)
    case (Inr v)
    with q yt obtain z where z: "scans u = put_row sc_id z (scans t)" "sc_id z = sc_id y"
      "sc_cloud_account_id z = sc_cloud_account_id y"
      "sc_status z \<in> {ScanCompleted, ScanCompletedWithWarnings}" by auto
    have "queue_step t u"
      by (rule put_scan_moved [OF yin z(2,3) _ z(1)]) (use z(4) True q in auto)
    then have "queue_step\<^sup>*\<^sup>* t u" by blast
    then have "queue_ok u" "runs_claimed u"
      using scan_queue.steps_inv [OF _ ok] runs_claimed_steps [OF _ rc] q by blast+
    moreover have "sc_status z \<in> {ScanCompleted, ScanCompletedWithWarnings, ScanFailed}" using z(4) by blast
    ultimately show ?thesis using z(1,2)
      by (intro exI [of _ u] exI [of _ z] conjI) (simp only: e Inr True simp_thms if_False prod.case sum.case, assumption+)
  next
    case (Inl err)
    let ?v = "fail_scan reg (sc_id y) err u"
    have sc: "scans u = scans t" using q Inl by simp
    have yu: "get_scan (sc_id y) u = Some y" using yt sc by (simp add: get_scan_def)
    from fail_scan_scans [OF this, of reg err] obtain z where z: "scans ?v = put_row sc_id z (scans u)"
      "sc_id z = sc_id y" "sc_status z = ScanFailed" by blast
    have "queue_step t u" by (rule rests) (use q sc in auto)
    moreover have "queue_step u ?v" by (rule fail_scan_step) (use yu True in \<open>simp add: active_scan_def\<close>)
    ultimately have "queue_step\<^sup>*\<^sup>* t ?v" by (rule converse_rtranclp_into_rtranclp [OF _ r_into_rtranclp])
    moreover have "\<forall>r \<in> set (collection_runs ?v). cr_scan_id r \<in> cr_scan_id ` set (collection_runs t)"
      using q fail_scan_runs [of reg "sc_id y" err u] by (metis (no_types, lifting) image_iff)
    ultimately have "queue_ok ?v" "runs_claimed ?v"
      using scan_queue.steps_inv [OF _ ok] runs_claimed_steps [OF _ rc] by blast+
    with e Inl z sc True show ?thesis by (intro exI [of _ ?v] exI [of _ z]) simp
  qed
qed

lemma worker_settles:
  assumes "queue_ok s" "runs_claimed s" "io_contract aws_io" "io_contract oci_io"
  shows "\<exists>t. process_once (collection_executors aws_io oci_io) policies threshold s =
      (Inr (next_pending (enqueue_due_scans s) \<noteq> None), t) \<and> queue_ok t \<and> runs_claimed t \<and>
    (case next_pending (enqueue_due_scans s) of
       None \<Rightarrow> t = enqueue_due_scans s
     | Some x \<Rightarrow> \<exists>y. scans t = put_row sc_id y (scans (enqueue_due_scans s)) \<and> sc_id y = sc_id x \<and>
         sc_status y \<in> {ScanCompleted, ScanCompletedWithWarnings, ScanFailed})"
proof -
  let ?reg = "collection_executors aws_io oci_io" and ?s = "enqueue_due_scans s"
  have inj: "inj (uuid4 s)" using assms(1) by (simp add: queue_ok_def)
  have ok: "queue_ok ?s" using scan_queue.steps_inv [OF enqueue_steps [OF inj] assms(1)] .
  have rc: "runs_claimed ?s" by (rule runs_claimed_steps [OF enqueue_steps [OF inj] assms(2)]) (simp add: enqueue_runs)
  from standard.claim_succeeds [OF runs_claimed_pending [OF ok rc]] obtain r t where
    claim: "claim_scan ?reg ?s = Inr (r, t)" by blast
  have okt: "queue_ok t" using scan_queue.steps_inv [OF claim_steps [OF claim] ok] .
  show ?thesis
  proof (cases r)
    case None
    have "next_pending ?s = None \<and> t = ?s" using claim [unfolded None] by (cases rule: claim_cases) auto
    with claim None ok rc show ?thesis by (simp add: process_once_def Let_def)
  next
    case (Some y)
    obtain x where x: "next_pending ?s = Some x" "sc_id y = sc_id x"
      and sct: "scans t = put_row sc_id y (scans ?s)" "uuids_grow ?s t"
      and y: "sc_status y = ScanRunning \<and> (\<exists>run. collection_runs t = collection_runs ?s @ [run] \<and>
          cr_scan_id run = Some (sc_id x)) \<or>
        sc_status y = ScanFailed \<and> collection_runs t = collection_runs ?s"
      by (rule claim_effect [OF claim [unfolded Some]]) blast
    have yt: "get_scan (sc_id y) t = Some y"
      using next_pending_Some(1) [OF x(1)] by (simp add: get_scan_def sct(1) row_simps x(2) find_row_None_iff)
        (metis find_row_None_iff imageI option.exhaust)
    have st: "sc_status y = ScanRunning \<or> sc_status y = ScanFailed" using y by blast
    from claimed_settles [OF okt claimed_runs [OF claim [unfolded Some] rc] yt assms(3,4) st,
      of policies threshold] obtain u z where
      u: "(if sc_status y \<noteq> ScanRunning then (Inr True, t)
        else case execute_scan ?reg policies threshold y t of (Inr _, u) \<Rightarrow> (Inr True, u)
          | (Inl e, u) \<Rightarrow> (Inr True, fail_scan ?reg (sc_id y) e u)) = (Inr True :: bool result, u)"
      "queue_ok u" "runs_claimed u" "scans u = put_row sc_id z (scans t)" "sc_id z = sc_id y"
      "sc_status z \<in> {ScanCompleted, ScanCompletedWithWarnings, ScanFailed}"
      by (elim exE conjE) (rule that)
    have "scans u = put_row sc_id z (scans ?s)" using u(4,5) by (simp add: sct(1) row_simps)
    moreover have "process_once ?reg policies threshold s = (Inr True, u)"
      using u(1) by (simp add: process_once_def Let_def claim Some)
    ultimately show ?thesis using u x by auto
  qed
qed

text \<open>
  C19: The worker always finishes what it takes.  Starting from an orderly queue in which every run
  belongs to a scan that was claimed, with cloud I/O that leaves the queue alone, one round of the
  worker never raises and keeps the queue orderly.  It reports False, after nothing but the
  scheduling, exactly if no scan is pending then; otherwise it takes an oldest pending scan and
  leaves it completed, completed with warnings or failed, with every other scan as the scheduling
  left it.
\<close>

theorem worker_round:
  assumes "queue_ok s" "runs_claimed s" "io_contract aws_io" "io_contract oci_io"
  shows "\<exists>t. process_once (collection_executors aws_io oci_io) policies threshold s =
      (Inr (next_pending (enqueue_due_scans s) \<noteq> None), t) \<and> queue_ok t \<and> runs_claimed t \<and>
    (case next_pending (enqueue_due_scans s) of
       None \<Rightarrow> t = enqueue_due_scans s
     | Some x \<Rightarrow> \<exists>y. scans t = put_row sc_id y (scans (enqueue_due_scans s)) \<and> sc_id y = sc_id x \<and>
         sc_status y \<in> {ScanCompleted, ScanCompletedWithWarnings, ScanFailed})"
  using assms by (rule worker_settles)

section \<open>The histories of a collection\<close>

lemma reconcile_one_logged:
  assumes r: "reconcile_one run rows obs th f st = Inr st'" and f: "f \<in> set (findings (snd st))"
    and a: "f_presence_status f \<in> {Active, Missing}"
  shows "quiet (snd st) (snd st') \<or> (\<exists>f'. logged_change f f' (snd st) (snd st'))"
proof (cases "lost run rows obs f")
  case True
  obtain n s where st: "st = (n, s)" by fastforce
  let ?f = "gone_missing f run th"
  from r True obtain x t where
    p: "record_presence f run (f_presence_status f) (f_presence_status ?f) (missing_reason ?f)
       (f_missing_count ?f) (Some th) (Some x) (f_missing_count f) (put_finding ?f s) = Inr t"
    and st': "snd st' = t"
    by (auto simp: st reconcile_one_def lost_def Let_def andThen_eq_Inr split: option.splits)
  from record_presence_effect [OF p] obtain e where
    t: "t = s\<lparr>findings := put_row f_id ?f (findings s),
        presence_history := presence_history s @ [e], uuids := Suc (uuids s)\<rparr>"
    and e: "pe_opportunity_id e = f_id f" "pe_from_status e = f_presence_status f"
      "pe_to_status e = f_presence_status ?f"
    by (auto simp: put_finding_def)
  from lost_row_logged [OF _ a t e] f st st' show ?thesis by auto
next
  case False
  with r have "snd st' = snd st"
    by (auto simp: reconcile_one_def lost_def split: prod.splits option.splits if_splits)
  then show ?thesis by simp
qed

lemma reconcile_audited [audited]:
  assumes "reconcile_opportunity_presence run rows th s = Inr (st, t)" "distinct (map f_id (findings s))"
  shows "audited_step\<^sup>*\<^sup>* s t"
proof -
  have loop: "audited_step\<^sup>*\<^sup>* (snd (no_stats, s)) (snd (st, t))"
    if "fold_result (reconcile_one run rows obs th) (filter (reconcilable run rows) (findings s))
      (no_stats, s) = Inr (st, t)" for obs
    using that
  proof (rule loop_audited)
    show "distinct (map f_id (filter (reconcilable run rows) (findings s)))"
      using assms(2) by (rule distinct_map_filter)
    fix f a b
    assume "f \<in> set (filter (reconcilable run rows) (findings s))"
      "reconcile_one run rows obs th f a = Inr b" "f \<in> set (findings (snd a))"
    then show "quiet (snd a) (snd b) \<or> (\<exists>f'. logged_change f f' (snd a) (snd b))"
      by (intro reconcile_one_logged) (simp_all add: reconcilable_def)
  qed simp
  from assms(1) show ?thesis
    unfolding reconcile_opportunity_presence_def andThen_eq_Inr
    using loop [of "observed_ids run s"] by (auto split: if_splits)
qed

lemma persist_findings_silent:
  assumes p: "persist_findings scan run items ob s = Inr (n, t)"
    and ok: "collected_ok s" "unobserved_silent run s"
  shows "unobserved_silent run t"
  using p
proof (cases rule: persist_findings_cases)
  case (1 t0 s1 idx s2)
  have s1: "collected_ok s1" "unobserved_silent run s1" using collected_ok_given [OF 1(1)] ok by simp_all
  note c = create_missing_effect [OF 1(3) s1(1)]
  then have "collected_ok s2 \<and> unobserved_silent run s2"
    using s1(2) outside_findingsD [of s2 s1] by (simp add: unobserved_silent_def observation_for_run_def)
  with 1(4) have "collected_ok t \<and> unobserved_silent run t"
  proof (rule fold_result_invariant [where P = "\<lambda>s. collected_ok s \<and> unobserved_silent run s"])
    fix e s t assume "collected_ok s \<and> unobserved_silent run s" "persist_item scan run t0 e s = Inr t"
    with persist_item_silent [of scan run t0 e s t] persist_item_effect [of scan run t0 "fst e" "snd e" s t]
    show "collected_ok t \<and> unobserved_silent run t" by auto
  qed
  then show ?thesis by blast
qed

lemma observed_id:
  assumes "observation_for_run s i (cr_id run) = Some x"
  shows "i \<in> set (observed_ids run s)"
proof -
  have "x \<in> set (observations s)" "o_opportunity_id x = i" "o_collection_run_id x = cr_id run"
    using find_row_Some [OF assms [unfolded observation_for_run_key]] by (simp_all add: observation_key_def)
  then show ?thesis by (auto simp: observed_ids_def)
qed

lemma silent_observed:
  assumes "unobserved_silent run s" "e \<in> set (presence_history s)" "pe_collection_run_id e = Some (cr_id run)"
  shows "pe_opportunity_id e \<in> set (observed_ids run s)"
  using assms observed_id by (auto simp: unobserved_silent_def)

lemma scope_rows_quiet:
  assumes "persist_collection_scope_executions run rows s = (xs, t)"
  shows "quiet s t" "observations t = observations s" "uuids_grow s t"
proof -
  have one: "quiet s (snd (persist_scope_row i x (ids, s))) \<and>
      observations (snd (persist_scope_row i x (ids, s))) = observations s" for i x ids s
    by (simp add: persist_scope_row_def env_defs Let_def quiet_def same_logs_def
        put_scope_execution_def split: option.split)
  have "quiet s (snd (fold (persist_scope_row i) rows (ids, s))) \<and>
      observations (snd (fold (persist_scope_row i) rows (ids, s))) = observations s" for i ids s
  proof (induction rows arbitrary: ids s)
    case (Cons x rows)
    from Cons.IH [of "snd (persist_scope_row i x (ids, s))" "fst (persist_scope_row i x (ids, s))"]
      one [of s i x ids] show ?case by (auto intro: quiet_trans)
  qed simp
  from this [of s "cr_id run" "[]"] assms show "quiet s t" "observations t = observations s"
    by (auto simp: persist_collection_scope_executions_def case_prod_beta)
  show "uuids_grow s t" using persists_scope_rows [of s run rows] assms by (simp add: persists_def)
qed

text \<open>The persistence transaction as a whole.\<close>

lemma persist_collection_total:
  assumes ok: "collected_ok s" "unobserved_silent run s"
    and items: "\<forall>item \<in> set (cx_findings res). storable run item" and th: "1 \<le> th"
  defines "fps \<equiv> reported s run (cx_findings res)"
  shows "\<exists>now u rows s1. persist_collection policies th scan run acc res s =
      Inr (close_collection scan run acc res (card fps) now u) \<and>
    persist_findings scan run (cx_findings res) None s = Inr (card fps, s1) \<and>
    observations u = observations s1 \<and> persists s u \<and> audited_step\<^sup>*\<^sup>* s u \<and>
    findings u = map (\<lambda>f. if reconciled_by run rows s1 f then gone_missing f run th else f) (findings s1)"
proof -
  from persist_findings_total [OF ok items] obtain n s1 where
    p: "persist_findings scan run (cx_findings res) None s = Inr (n, s1)" by blast
  note e = persist_findings_effect [OF p ok(1), folded fps_def]
  obtain now s2 where u: "utcnow s1 = (now, s2)" by fastforce
  then have s2: "s2 = s1\<lparr>ticks := Suc (ticks s1)\<rparr>" by (simp add: utcnow_def)
  obtain rows s3 where r: "persist_collection_scope_executions run
      (build_collection_scope_executions policies acc run res now) s2 = (rows, s3)" by fastforce
  note q = scope_rows_quiet [OF r]
  have s3: "findings s3 = findings s1" "presence_history s3 = presence_history s1"
    "observations s3 = observations s1"
    using q by (simp_all add: quiet_def same_logs_def s2)
  have dist: "distinct (map f_id (findings s3))" using e s3(1) by (simp add: collected_ok_def)
  have silent: "\<forall>e \<in> set (presence_history s3). pe_collection_run_id e = Some (cr_id run) \<longrightarrow>
      pe_opportunity_id e \<in> set (observed_ids run s3)"
    using silent_observed [OF persist_findings_silent [OF p ok]] s3 by (simp add: observed_ids_def)
  from reconciliation_total [OF th dist silent, of rows] obtain st s4 where
    c: "reconcile_opportunity_presence run rows th s3 = Inr (st, s4)"
    and rows4: "findings s4 = map (\<lambda>f. if reconciled_by run rows s3 f then gone_missing f run th else f)
      (findings s3)" and only: "presence_only s3 s4" by blast
  have "reconciled_by run rows s3 = reconciled_by run rows s1"
    by (intro ext) (simp add: reconciled_by_def observed_ids_def s3)
  with rows4 have "findings s4 = map (\<lambda>f. if reconciled_by run rows s1 f then gone_missing f run th else f)
      (findings s1)" by (simp add: s3(1))
  moreover have "persist_collection policies th scan run acc res s =
      Inr (close_collection scan run acc res n now s4)"
    by (simp add: persist_collection_def p u r c)
  moreover have "persists s s4"
  proof -
    have "persists s s1" using e by blast
    also have "persists s1 s2" by (simp add: s2 persists_def outside_persistence_def uuids_grow_def)
    also have "persists s2 s3" using persists_scope_rows [of s2 run] r by (metis snd_conv)
    also have "persists s3 s4" by (rule persists_reconcile [OF c])
    finally show ?thesis .
  qed
  moreover have "audited_step\<^sup>*\<^sup>* s s4"
  proof -
    have "quiet s1 s2" by (simp add: s2 quiet_def same_logs_def)
    then have "audited_step\<^sup>*\<^sup>* s1 s3" using q(1) by (blast intro: quiet_audited quiet_trans)
    moreover have "audited_step\<^sup>*\<^sup>* s s1" using e by blast
    ultimately show ?thesis using reconcile_audited [OF c dist] by (blast intro: rtranclp_trans)
  qed
  moreover have "observations s4 = observations s1" using presence_only_tables(1) [OF only] s3(3) by simp
  moreover have "n = card fps" using e by blast
  ultimately show ?thesis using p by blast
qed

lemma find_row_map: "(\<And>r. key (h r) = key r) \<Longrightarrow> find_row key k (map h rows) = map_option h (find_row key k rows)"
  by (induction rows) (simp_all add: row_simps)

text \<open>Reconciliation leaves what the run observed.\<close>

lemma settled_reconciled:
  assumes "settled scan run e s" "observations u = observations s"
    and "findings u = map (\<lambda>f. if reconciled_by run rows s f then gone_missing f run th else f) (findings s)"
  shows "settled scan run e u"
proof -
  let ?h = "\<lambda>f. if reconciled_by run rows s f then gone_missing f run th else f"
  from assms(1) obtain item f x where h: "stored_item (snd e) = Inr item"
    "finding_by_fingerprint (fst e) s = Some f" "observation_for_run s (f_id f) (cr_id run) = Some x"
    "refreshed_observation x item = x" "f_scan_id f = Some (sc_id scan) \<longrightarrow> shows_item scan item f"
    unfolding settled_def by blast
  have "f_id f \<in> set (observed_ids run s)" by (rule observed_id [OF h(3)])
  then have "?h f = f" by (simp add: reconciled_by_def lost_def)
  moreover have "f_fingerprint (?h g) = f_fingerprint g" for g
    using gone_missing_identity by (simp add: same_identity_def)
  ultimately have "finding_by_fingerprint (fst e) u = Some f"
    using h(2) by (simp add: finding_by_fingerprint_def assms(3) find_row_map)
  with h assms(2) show ?thesis unfolding settled_def by (auto simp: observation_for_run_def)
qed

lemma close_collection_simps [simp]:
  "findings (close_collection scan run acc res n now s) = findings s"
  "observations (close_collection scan run acc res n now s) = observations s"
  "same_logs s (close_collection scan run acc res n now s)"
  "uuids (close_collection scan run acc res n now s) = uuids s"
  "uuid4 (close_collection scan run acc res n now s) = uuid4 s"
  "ledger (close_collection scan run acc res n now s) = ledger s"
  by (simp_all add: close_collection_def Let_def put_account_def put_run_def put_scan_def same_logs_def)

text \<open>How a collection ends that was not failed.\<close>

definition closed_scan :: "scan \<Rightarrow> collection_result \<Rightarrow> nat \<Rightarrow> bool" where
  "closed_scan y res n \<longleftrightarrow> sc_findings_count y = int n \<and>
     sc_status y = (if cx_collector_errors res = [] then ScanCompleted else ScanCompletedWithWarnings)"

definition closed_run :: "collection_run \<Rightarrow> collection_result \<Rightarrow> nat \<Rightarrow> bool" where
  "closed_run r res n \<longleftrightarrow> cr_status r = SUCCESS \<and> cr_opportunities_found r = int n \<and>
     cr_resources_analyzed r = cx_resources_analyzed res \<and> cr_finished_at r \<noteq> None \<and>
     cr_error_detail r = None"

lemma close_collection_rows:
  assumes "get_scan i s = Some scan" "find_row cr_id j (collection_runs s) = Some run"
  shows "\<exists>y r. get_scan i (close_collection scan run acc res n now s) = Some y \<and> closed_scan y res n \<and>
    find_row cr_id j (collection_runs (close_collection scan run acc res n now s)) = Some r \<and>
    closed_run r res n"
proof -
  have ids: "sc_id scan = i" "cr_id run = j"
    using get_scan_Some [OF assms(1)] find_row_Some [OF assms(2)] by simp_all
  let ?y = "scan\<lparr>sc_findings_count := int n,
    sc_status := (if cx_collector_errors res \<noteq> [] then ScanCompletedWithWarnings else ScanCompleted),
    sc_completed_at := Some now, sc_error := scan_warnings (cx_collector_errors res)\<rparr>"
  let ?r = "run\<lparr>cr_status := SUCCESS, cr_finished_at := Some now, cr_opportunities_found := int n,
    cr_resources_analyzed := cx_resources_analyzed res, cr_error_detail := None\<rparr>"
  have "get_scan i (close_collection scan run acc res n now s) = Some ?y"
    "find_row cr_id j (collection_runs (close_collection scan run acc res n now s)) = Some ?r"
    using assms
    by (simp_all add: close_collection_def Let_def get_scan_def put_run_def row_simps ids)
  then show ?thesis by (simp add: closed_scan_def closed_run_def)
qed

lemma execute_scan_ok:
  assumes "begin_collection reg scan s = Inr (acc, ex, run)" "ex_execute ex acc scan s = (Inr res, s1)"
    and "reload_collection scan run acc s1 = Inr (scan', run', acc')"
    and "persist_collection (policies s1 acc') threshold scan' run' acc' res s1 = Inr s2"
  shows "execute_scan reg policies threshold scan s = (Inr (), rebuild_or_keep run' s2)"
  by (simp add: execute_scan_def assms)


lemma worker_round_witness:
  "\<exists>t. process_once (collection_executors no_io no_io) (\<lambda>_ _. []) 2 (collect_db\<lparr>scans := []\<rparr>
      \<lparr>collection_runs := []\<rparr>) = (Inr True, t) \<and> queue_ok t"
proof -
  let ?s = "collect_db\<lparr>scans := []\<rparr>\<lparr>collection_runs := []\<rparr>"
  have "inj (uuid4 collect_db)" using collect_db_ok(1) by (simp add: collected_ok_def)
  then have "queue_ok ?s" "runs_claimed ?s" by (simp_all add: queue_ok_def runs_claimed_def)
  moreover have "io_contract no_io" by (simp add: io_contract_def no_io_def)
  moreover have "next_pending (enqueue_due_scans ?s) \<noteq> None" by code_simp
  ultimately show ?thesis
    using worker_round [of ?s no_io no_io "\<lambda>_ _. []" 2] by auto
qed


end
