(* ===== verification/Retention.thy ===== *)
theory Retention
  imports Histories
begin

text \<open>
  Automatic archiving of old opportunities (backend/app/services/opportunity_retention.py): four
  policies in a fixed order, each archiving in batches until no finding is eligible.  The batch
  loop of the code has no bound of its own, so it is a partial function here, and that it
  returns is a theorem.  The message log is left out.
\<close>

section \<open>Policies\<close>

datatype retention_key =
  RejectedRetention | TreatedRetention | ResolvedExternalRetention | OpenRetention

fun retention_key_text :: "retention_key \<Rightarrow> string" where
  "retention_key_text RejectedRetention = ''rejected_retention''"
| "retention_key_text TreatedRetention = ''treated_retention''"
| "retention_key_text ResolvedExternalRetention = ''resolved_external_retention''"
| "retention_key_text OpenRetention = ''open_retention''"

record retention_policy =
  rp_key :: retention_key
  rp_threshold_days :: int
  rp_enabled :: bool

record retention_service =
  rs_policies :: "retention_policy list"
  rs_batch_size :: int
  rs_policy_version :: "int option"

text \<open>The arguments of the constructor, with the defaults of the keyword parameters.\<close>

record retention_call =
  rc_treated_days :: int
  rc_rejected_days :: int
  rc_resolved_externally_days :: int
  rc_open_days :: int
  rc_treated_enabled :: bool
  rc_rejected_enabled :: bool
  rc_resolved_externally_enabled :: bool
  rc_open_enabled :: bool
  rc_batch_size :: int
  rc_policy_version :: "int option"

definition at_least_one :: "string \<Rightarrow> int \<Rightarrow> unit result" where
  "at_least_one name v =
     guard (1 \<le> v) (ValueError (name @ '' must be greater than or equal to 1''))"

definition retention_service_of :: "retention_call \<Rightarrow> retention_service result" where
  "retention_service_of c =
     andThen (at_least_one ''treated_days'' (rc_treated_days c)) (\<lambda>_.
     andThen (at_least_one ''rejected_days'' (rc_rejected_days c)) (\<lambda>_.
     andThen (at_least_one ''resolved_externally_days'' (rc_resolved_externally_days c)) (\<lambda>_.
     andThen (at_least_one ''open_days'' (rc_open_days c)) (\<lambda>_.
     andThen (at_least_one ''batch_size'' (rc_batch_size c)) (\<lambda>_.
     Inr \<lparr>rs_policies =
            [\<lparr>rp_key = RejectedRetention, rp_threshold_days = rc_rejected_days c,
              rp_enabled = rc_rejected_enabled c\<rparr>,
             \<lparr>rp_key = TreatedRetention, rp_threshold_days = rc_treated_days c,
              rp_enabled = rc_treated_enabled c\<rparr>,
             \<lparr>rp_key = ResolvedExternalRetention,
              rp_threshold_days = rc_resolved_externally_days c,
              rp_enabled = rc_resolved_externally_enabled c\<rparr>,
             \<lparr>rp_key = OpenRetention, rp_threshold_days = rc_open_days c,
              rp_enabled = rc_open_enabled c\<rparr>],
          rs_batch_size = rc_batch_size c, rs_policy_version = rc_policy_version c\<rparr>)))))"

text \<open>The environment's settings, as far as the service reads them.\<close>

record retention_settings =
  set_treated_days :: int
  set_rejected_days :: int
  set_resolved_externally_days :: int
  set_treated_enabled :: bool
  set_rejected_enabled :: bool
  set_resolved_externally_enabled :: bool
  set_batch_size :: int

definition retention_from_settings :: "retention_settings \<Rightarrow> retention_service result" where
  "retention_from_settings c = retention_service_of
     \<lparr>rc_treated_days = set_treated_days c, rc_rejected_days = set_rejected_days c,
      rc_resolved_externally_days = set_resolved_externally_days c, rc_open_days = 30,
      rc_treated_enabled = set_treated_enabled c, rc_rejected_enabled = set_rejected_enabled c,
      rc_resolved_externally_enabled = set_resolved_externally_enabled c,
      rc_open_enabled = False, rc_batch_size = set_batch_size c, rc_policy_version = None\<rparr>"

text \<open>\<open>batch_size or settings...\<close>: zero falls back to the setting, too.\<close>

definition retention_from_management_policy ::
  "retention_settings \<Rightarrow> management_policy \<Rightarrow> int option \<Rightarrow> retention_service result" where
  "retention_from_management_policy settings p batch_size = retention_service_of
     \<lparr>rc_treated_days = mp_treated_archive_days p, rc_rejected_days = mp_rejected_archive_days p,
      rc_resolved_externally_days = mp_resolved_external_archive_days p,
      rc_open_days = mp_open_archive_days p,
      rc_treated_enabled = (mp_enabled p \<and> mp_treated_archive_enabled p),
      rc_rejected_enabled = (mp_enabled p \<and> mp_rejected_archive_enabled p),
      rc_resolved_externally_enabled = (mp_enabled p \<and> mp_resolved_external_archive_enabled p),
      rc_open_enabled = (mp_enabled p \<and> mp_open_archive_enabled p),
      rc_batch_size = (case batch_size of Some b \<Rightarrow> if b = 0 then set_batch_size settings else b
                       | None \<Rightarrow> set_batch_size settings),
      rc_policy_version = Some (mp_version p)\<rparr>"

section \<open>Eligibility\<close>

definition cutoff_of :: "retention_policy \<Rightarrow> datetime \<Rightarrow> datetime" where
  "cutoff_of p now = plus_delta now (- timedelta_days (rp_threshold_days p))"

definition by_then :: "datetime option \<Rightarrow> datetime \<Rightarrow> bool" where
  "by_then t cutoff = (case t of None \<Rightarrow> False | Some x \<Rightarrow> no_later x cutoff)"

fun expired :: "retention_key \<Rightarrow> datetime \<Rightarrow> finding \<Rightarrow> bool" where
  "expired TreatedRetention cutoff f \<longleftrightarrow> f_status f = Treated \<and> by_then (f_treated_at f) cutoff"
| "expired RejectedRetention cutoff f \<longleftrightarrow> f_status f = Rejected \<and> by_then (f_rejected_at f) cutoff"
| "expired OpenRetention cutoff f \<longleftrightarrow> f_status f = Open \<and> no_later (f_last_seen_at f) cutoff"
| "expired ResolvedExternalRetention cutoff f \<longleftrightarrow>
     f_presence_status f = ResolvedExternally \<and> by_then (f_resolved_externally_at f) cutoff"

definition some_or_raise :: "datetime option \<Rightarrow> datetime result" where
  "some_or_raise t = (case t of None \<Rightarrow> Inl (AssertionError []) | Some x \<Rightarrow> Inr (utc x))"

fun reference_timestamp :: "retention_key \<Rightarrow> finding \<Rightarrow> datetime result" where
  "reference_timestamp TreatedRetention f = some_or_raise (f_treated_at f)"
| "reference_timestamp RejectedRetention f = some_or_raise (f_rejected_at f)"
| "reference_timestamp OpenRetention f = Inr (utc (f_last_seen_at f))"
| "reference_timestamp ResolvedExternalRetention f = some_or_raise (f_resolved_externally_at f)"

text \<open>A treated finding that is still reported after its treatment is not archived.\<close>

definition treated_activity_guard :: "retention_key \<Rightarrow> finding \<Rightarrow> bool" where
  "treated_activity_guard k f \<longleftrightarrow> k \<noteq> TreatedRetention \<or> f_presence_status f \<noteq> Active \<or>
     (case f_treated_at f of None \<Rightarrow> True | Some t \<Rightarrow> no_later (f_last_seen_at f) t)"

definition recent_unarchive :: "db \<Rightarrow> datetime \<Rightarrow> finding \<Rightarrow> bool" where
  "recent_unarchive s cutoff f \<longleftrightarrow>
     list_ex (\<lambda>e. ae_opportunity_id e = f_id f \<and> ae_action e = UNARCHIVE \<and>
                  earlier cutoff (ae_occurred_at e)) (archive_history s)"

definition eligible :: "db \<Rightarrow> retention_policy \<Rightarrow> datetime \<Rightarrow> finding \<Rightarrow> bool" where
  "eligible s p cutoff f \<longleftrightarrow> f_archived_at f = None \<and> \<not> f_needs_review f \<and>
     expired (rp_key p) cutoff f \<and> treated_activity_guard (rp_key p) f \<and>
     \<not> recent_unarchive s cutoff f"

record retention_preview =
  treated_eligible :: nat
  rejected_eligible :: nat
  resolved_externally_eligible :: nat
  open_eligible :: nat

definition eligible_count :: "retention_service \<Rightarrow> datetime \<Rightarrow> db \<Rightarrow> retention_key \<Rightarrow> nat" where
  "eligible_count svc now s k =
     (case find (\<lambda>p. rp_key p = k) (rs_policies svc) of
        None \<Rightarrow> 0
      | Some p \<Rightarrow> if rp_enabled p
          then count_where (eligible s p (cutoff_of p now)) (findings s) else 0)"

definition preview_counts :: "retention_service \<Rightarrow> datetime option \<Rightarrow> db \<Rightarrow>
    retention_preview \<times> db" where
  "preview_counts svc now s =
     (let (t, s') = given_or_now now s;
          count = eligible_count svc (utc t) s'
      in (\<lparr>treated_eligible = count TreatedRetention, rejected_eligible = count RejectedRetention,
           resolved_externally_eligible = count ResolvedExternalRetention,
           open_eligible = count OpenRetention\<rparr>, s'))"

section \<open>The run\<close>

record retention_result =
  rr_evaluated :: nat
  rr_archived_total :: nat
  rr_archived_treated :: nat
  rr_archived_rejected :: nat
  rr_archived_resolved_externally :: nat
  rr_archived_open :: nat
  rr_skipped_needs_review :: nat
  rr_skipped_active_after_treatment :: nat
  rr_batches :: nat
  rr_errors :: nat
  rr_policy_version :: "int option"

definition no_result :: "int option \<Rightarrow> retention_result" where
  "no_result v = \<lparr>rr_evaluated = 0, rr_archived_total = 0, rr_archived_treated = 0,
     rr_archived_rejected = 0, rr_archived_resolved_externally = 0, rr_archived_open = 0,
     rr_skipped_needs_review = 0, rr_skipped_active_after_treatment = 0, rr_batches = 0,
     rr_errors = 0, rr_policy_version = v\<rparr>"

definition result_json :: "retention_result \<Rightarrow> json" where
  "result_json r = JObj
     [(''evaluated'', JInt (int (rr_evaluated r))),
      (''archived_total'', JInt (int (rr_archived_total r))),
      (''archived_treated'', JInt (int (rr_archived_treated r))),
      (''archived_rejected'', JInt (int (rr_archived_rejected r))),
      (''archived_resolved_externally'', JInt (int (rr_archived_resolved_externally r))),
      (''archived_open'', JInt (int (rr_archived_open r))),
      (''skipped_needs_review'', JInt (int (rr_skipped_needs_review r))),
      (''skipped_active_after_treatment'', JInt (int (rr_skipped_active_after_treatment r))),
      (''batches'', JInt (int (rr_batches r))), (''errors'', JInt (int (rr_errors r))),
      (''policy_version'', case rr_policy_version r of None \<Rightarrow> JNull | Some v \<Rightarrow> JInt v)]"

definition expired_any :: "retention_service \<Rightarrow> datetime \<Rightarrow> finding \<Rightarrow> bool" where
  "expired_any svc now f \<longleftrightarrow>
     list_ex (\<lambda>p. rp_enabled p \<and> expired (rp_key p) (cutoff_of p now) f) (rs_policies svc)"

definition skipped_active :: "retention_service \<Rightarrow> datetime \<Rightarrow> finding \<Rightarrow> bool" where
  "skipped_active svc now f \<longleftrightarrow>
     (case find (\<lambda>p. rp_key p = TreatedRetention) (rs_policies svc) of
        None \<Rightarrow> False
      | Some p \<Rightarrow> rp_enabled p \<and> f_archived_at f = None \<and> \<not> f_needs_review f \<and>
          expired TreatedRetention (cutoff_of p now) f \<and> f_presence_status f = Active \<and>
          (case f_treated_at f of None \<Rightarrow> False | Some t \<Rightarrow> earlier t (f_last_seen_at f)))"

definition preflight_counters :: "retention_service \<Rightarrow> datetime \<Rightarrow> db \<Rightarrow> retention_result \<Rightarrow>
    retention_result" where
  "preflight_counters svc now s r =
     (if \<not> list_ex rp_enabled (rs_policies svc) then r
      else
        let base = (\<lambda>f. f_archived_at f = None \<and> expired_any svc now f)
        in r\<lparr>rr_evaluated := count_where base (findings s),
             rr_skipped_needs_review :=
               count_where (\<lambda>f. base f \<and> f_needs_review f) (findings s),
             rr_skipped_active_after_treatment :=
               (case find (\<lambda>p. rp_key p = TreatedRetention) (rs_policies svc) of
                  None \<Rightarrow> rr_skipped_active_after_treatment r
                | Some p \<Rightarrow> if rp_enabled p
                    then count_where (skipped_active svc now) (findings s)
                    else rr_skipped_active_after_treatment r)\<rparr>)"

definition count_archived :: "retention_key \<Rightarrow> retention_result \<Rightarrow> retention_result" where
  "count_archived k r =
     (let r' = r\<lparr>rr_archived_total := rr_archived_total r + 1\<rparr>
      in case k of
           TreatedRetention \<Rightarrow> r'\<lparr>rr_archived_treated := rr_archived_treated r + 1\<rparr>
         | RejectedRetention \<Rightarrow> r'\<lparr>rr_archived_rejected := rr_archived_rejected r + 1\<rparr>
         | ResolvedExternalRetention \<Rightarrow> r'\<lparr>rr_archived_resolved_externally :=
             rr_archived_resolved_externally r + 1\<rparr>
         | OpenRetention \<Rightarrow> r'\<lparr>rr_archived_open := rr_archived_open r + 1\<rparr>)"

type_synonym retention_state = "retention_result \<times> db"

text \<open>One finding of a batch; the list collects the findings that were archived.\<close>

definition archive_expired :: "retention_service \<Rightarrow> retention_policy \<Rightarrow> datetime \<Rightarrow> finding \<Rightarrow>
    finding list \<times> retention_state \<Rightarrow> (finding list \<times> retention_state) result" where
  "archive_expired svc p now f acc = (case acc of (archived, r, s) \<Rightarrow>
     andThen (reference_timestamp (rp_key p) f) (\<lambda>reference.
     andThen (archive_retention_locked f now (retention_key_text (rp_key p))
                (rp_threshold_days p) reference (rs_policy_version svc) False s) (\<lambda>(b, s').
     Inr (if b then (archived @ [f], count_archived (rp_key p) r, s')
          else (archived, r, s')))))"

definition next_batch :: "retention_service \<Rightarrow> retention_policy \<Rightarrow> datetime \<Rightarrow> db \<Rightarrow>
    finding list" where
  "next_batch svc p now s = take (nat (rs_batch_size svc))
     (sort_key f_id (filter (eligible s p (cutoff_of p now)) (findings s)))"

definition run_batch :: "retention_service \<Rightarrow> retention_policy \<Rightarrow> datetime \<Rightarrow> finding list \<Rightarrow>
    retention_state \<Rightarrow> retention_state result" where
  "run_batch svc p now batch st = (case st of (r, s) \<Rightarrow>
     andThen (fold_result (archive_expired svc p now) batch ([], r, s)) (\<lambda>(archived, r1, s1).
     andThen (if archived = [] then Inr (0, s1)
              else refresh_summaries_for_findings archived s1) (\<lambda>(_, s2).
     Inr (r1\<lparr>rr_batches := rr_batches r1 + 1\<rparr>, s2))))"

text \<open>\<open>_archive_policy\<close>: batches until none is left; \<open>None\<close> would be a loop without end.\<close>

partial_function (option) archive_policy ::
  "retention_service \<Rightarrow> retention_policy \<Rightarrow> datetime \<Rightarrow> retention_state \<Rightarrow>
   retention_state result option" where
  "archive_policy svc p now st =
     (let batch = next_batch svc p now (snd st)
      in if batch = [] then Some (Inr st)
         else (case run_batch svc p now batch st of
                 Inl e \<Rightarrow> Some (Inl e)
               | Inr st' \<Rightarrow> archive_policy svc p now st'))"

fun archive_policies :: "retention_service \<Rightarrow> retention_policy list \<Rightarrow> datetime \<Rightarrow>
    retention_state \<Rightarrow> retention_state result option" where
  "archive_policies svc [] now st = Some (Inr st)"
| "archive_policies svc (p # ps) now st =
     (if \<not> rp_enabled p then archive_policies svc ps now st
      else case archive_policy svc p now st of
             None \<Rightarrow> None
           | Some (Inl e) \<Rightarrow> Some (Inl e)
           | Some (Inr st') \<Rightarrow> archive_policies svc ps now st')"

definition retention_audit :: "retention_result \<Rightarrow> string \<Rightarrow> audit_call" where
  "retention_audit r correlation =
     audit_call0\<lparr>ac_module := ''opportunities'', ac_action := ''opportunity_retention.run'',
       ac_entity_type := ''opportunity_retention_run'', ac_source := ''SYSTEM'',
       ac_metadata := Some (result_json r), ac_correlation_id := Some correlation\<rparr>"

definition finish_retention :: "retention_state \<Rightarrow> retention_state result" where
  "finish_retention st = (case st of (r, s) \<Rightarrow>
     if rr_archived_total r = 0 then Inr (r, s)
     else let (correlation, s') = new_uuid s
          in andThen (record_audit (retention_audit r correlation) s') (\<lambda>t. Inr (r, t)))"

definition run_retention :: "retention_service \<Rightarrow> datetime option \<Rightarrow> db \<Rightarrow>
    retention_state result option" where
  "run_retention svc now s =
     (let (t, s') = given_or_now now s;
          run_at = utc t;
          r = preflight_counters svc run_at s' (no_result (rs_policy_version svc))
      in map_option (\<lambda>res. andThen res finish_retention)
           (archive_policies svc (rs_policies svc) run_at (r, s')))"

section \<open>One batch\<close>

text \<open>The row of a finding that the run archives.\<close>

definition retired :: "datetime \<Rightarrow> finding \<Rightarrow> finding" where
  "retired now f = f\<lparr>f_archived_at := Some now, f_archived_by := None,
     f_archive_reason := Some RETENTION_POLICY\<rparr>"

lemma f_id_retired [simp]: "f_id (retired now f) = f_id f"
  by (simp add: retired_def)

lemma retired_not_eligible [simp]: "\<not> eligible s p c (retired now f)"
  by (simp add: eligible_def retired_def)

definition retention_events :: "datetime \<Rightarrow> archive_event list \<Rightarrow> bool" where
  "retention_events now es \<longleftrightarrow> (\<forall>e \<in> set es. ae_action e = ARCHIVE \<and>
     ae_reason e = RETENTION_POLICY \<and> ae_changed_by e = None \<and> ae_occurred_at e = now)"

text \<open>The tables a run may write, blanked: findings, archive history, summaries and audit trail.\<close>

definition outside_retention :: "db \<Rightarrow> db" where
  "outside_retention s = s\<lparr>findings := [], archive_history := [], summaries := [],
     audit_events := [], ticks := 0, uuids := 0\<rparr>"

lemma outside_same_source: "same_source s t \<Longrightarrow> outside_retention t = outside_retention s"
  by (auto elim!: same_sourceD simp: outside_retention_def)

text \<open>
  What a part of the run does: the findings of the set \<open>R\<close> are retired, each with one event,
  and nothing else is written but the dashboard summaries.
\<close>

definition retires :: "datetime \<Rightarrow> (finding \<Rightarrow> bool) \<Rightarrow> db \<Rightarrow> db \<Rightarrow> bool" where
  "retires now R s t \<longleftrightarrow>
     findings t = map (\<lambda>f. if R f then retired now f else f) (findings s) \<and>
     (\<exists>es. archive_history t = archive_history s @ es \<and> retention_events now es \<and>
        length es = count_where R (findings s)) \<and>
     outside_retention t = outside_retention s \<and> audit_events t = audit_events s \<and>
     audited_step\<^sup>*\<^sup>* s t"

lemma retires_none: "(\<And>f. f \<in> set (findings s) \<Longrightarrow> \<not> R f) \<Longrightarrow> retires now R s s"
  by (auto simp: retires_def retention_events_def count_where_def filter_empty_conv
      intro!: map_idI [symmetric])

lemma retires_cong:
  "(\<And>f. f \<in> set (findings s) \<Longrightarrow> R f = R' f) \<Longrightarrow> retires now R s t \<Longrightarrow> retires now R' s t"
  unfolding retires_def using count_where_cong [of "findings s" R R'] by (simp cong: map_cong)

lemma recent_unarchive_kept:
  assumes "archive_history t = archive_history s @ es" "retention_events now es"
  shows "recent_unarchive t c f = recent_unarchive s c f"
proof -
  have "ae_action e \<noteq> UNARCHIVE" if "e \<in> set es" for e
    using assms(2) that by (simp add: retention_events_def)
  then have "list_ex (\<lambda>e. ae_opportunity_id e = f_id f \<and> ae_action e = UNARCHIVE \<and>
      earlier c (ae_occurred_at e)) es = False"
    by (auto simp: list_ex_iff)
  then show ?thesis by (simp add: recent_unarchive_def assms(1))
qed

lemma retires_eligible: "retires now R s t \<Longrightarrow> eligible t p c f = eligible s p c f"
  using recent_unarchive_kept by (auto simp: retires_def eligible_def)

lemma count_where_map: "count_where P (map g xs) = count_where (\<lambda>x. P (g x)) xs"
  by (simp add: count_where_def filter_map comp_def)

lemma count_where_add:
  "(\<And>x. x \<in> set xs \<Longrightarrow> \<not> (P x \<and> Q x)) \<Longrightarrow>
   count_where P xs + count_where Q xs = count_where (\<lambda>x. P x \<or> Q x) xs"
  unfolding count_where_def by (induction xs) auto

lemma count_where_one:
  "x \<in> set xs \<Longrightarrow> distinct (map key xs) \<Longrightarrow> count_where (\<lambda>y. y = x) xs = 1"
  unfolding count_where_def by (induction xs) (auto simp: filter_empty_conv image_iff)

lemma count_where_members:
  assumes "distinct xs" "distinct ys" "set ys \<subseteq> set xs"
  shows "count_where (\<lambda>x. x \<in> set ys) xs = length ys"
proof -
  have "set (filter (\<lambda>x. x \<in> set ys) xs) = set ys" using assms(3) by auto
  then show ?thesis
    using assms(1,2) by (metis count_where_def distinct_card distinct_filter)
qed

lemma retires_trans:
  assumes "retires now R s t" "retires now Q t u" "\<And>f. \<not> Q (retired now f)"
  shows "retires now (\<lambda>f. R f \<or> Q f) s u"
proof -
  have "count_where R (findings s) + count_where Q (findings t) =
    count_where R (findings s) + count_where (\<lambda>f. \<not> R f \<and> Q f) (findings s)"
    using assms by (auto simp: retires_def count_where_map intro: count_where_cong)
  also have "\<dots> = count_where (\<lambda>f. R f \<or> (\<not> R f \<and> Q f)) (findings s)"
    by (rule count_where_add) simp
  also have "(\<lambda>f. R f \<or> (\<not> R f \<and> Q f)) = (\<lambda>f. R f \<or> Q f)" by auto
  finally have count: "count_where R (findings s) + count_where Q (findings t) =
    count_where (\<lambda>f. R f \<or> Q f) (findings s)" .
  from assms(1) obtain es where es: "archive_history t = archive_history s @ es"
    "retention_events now es" "length es = count_where R (findings s)" by (auto simp: retires_def)
  from assms(2) obtain es' where es': "archive_history u = archive_history t @ es'"
    "retention_events now es'" "length es' = count_where Q (findings t)" by (auto simp: retires_def)
  have "archive_history u = archive_history s @ (es @ es')" "retention_events now (es @ es')"
    "length (es @ es') = count_where (\<lambda>f. R f \<or> Q f) (findings s)"
    using es es' count by (auto simp: retention_events_def)
  moreover have "findings u = map (\<lambda>f. if R f \<or> Q f then retired now f else f) (findings s)"
    using assms by (auto simp: retires_def)
  moreover have "audited_step\<^sup>*\<^sup>* s u" using assms(1,2) by (auto simp: retires_def)
  ultimately show ?thesis using assms(1,2) unfolding retires_def by auto
qed

lemma retires_ids: "retires now R s t \<Longrightarrow> map f_id (findings t) = map f_id (findings s)"
  by (auto simp: retires_def)

lemma retires_other:
  assumes "retires now R s t" "same_source t u"
  shows "retires now R s u"
proof -
  have "audited_step\<^sup>*\<^sup>* t u"
    by (rule quiet_audited) (simp add: quiet_def same_logs_def same_source_tables [OF assms(2)])
  with assms show ?thesis
    by (auto simp: retires_def same_source_tables outside_same_source)
qed

lemma reference_exists: "expired k c f \<Longrightarrow> \<exists>t. reference_timestamp k f = Inr t"
  by (cases k) (auto simp: by_then_def some_or_raise_def split: option.splits)

lemma retention_step:
  assumes "f \<in> set (findings s)" "distinct (map f_id (findings s))" "f_archived_at f = None"
  shows "\<exists>t. archive_retention_locked f now policy days reference version False s = Inr (True, t) \<and>
    retires now (\<lambda>g. g = f) s t"
proof -
  let ?f = "retired now f"
  have upd: "f\<lparr>f_archived_at := Some now, f_archived_by := None,
    f_archive_reason := Some RETENTION_POLICY\<rparr> = ?f" by (simp add: retired_def)
  obtain ctx where run: "archive_retention_locked f now policy days reference version False s =
      Inr (True, archive_log ?f ARCHIVE RETENTION_POLICY None None ctx (Some now) (put_finding ?f s))"
    using assms(3) by (simp add: archive_retention_locked_def Let_def upd)
  let ?t = "archive_log ?f ARCHIVE RETENTION_POLICY None None ctx (Some now) (put_finding ?f s)"
  have "logged_change f ?f s ?t"
    using retention_archive_logged [OF run assms(1)] assms(3) by (auto simp: upd)
  then have aud: "audited_step\<^sup>*\<^sup>* s ?t" by (blast intro: changed)
  have rows: "findings ?t = map (\<lambda>g. if g = f then ?f else g) (findings s)"
    using assms(1,2) by (auto simp: put_row_def distinct_map inj_on_def)
  have one: "count_where (\<lambda>g. g = f) (findings s) = 1"
    using assms(1,2) by (rule count_where_one)
  show ?thesis
    using run aud rows one
    by (auto simp: retires_def retention_events_def archive_log_def outside_retention_def
        put_finding_def)
qed

text \<open>The counters after \<open>n\<close> findings archived under a policy.\<close>

definition archived_count :: "retention_key \<Rightarrow> retention_result \<Rightarrow> nat" where
  "archived_count k r = (case k of TreatedRetention \<Rightarrow> rr_archived_treated r
     | RejectedRetention \<Rightarrow> rr_archived_rejected r
     | ResolvedExternalRetention \<Rightarrow> rr_archived_resolved_externally r
     | OpenRetention \<Rightarrow> rr_archived_open r)"

definition same_preflight :: "retention_result \<Rightarrow> retention_result \<Rightarrow> bool" where
  "same_preflight r r' \<longleftrightarrow> rr_evaluated r' = rr_evaluated r \<and>
     rr_skipped_needs_review r' = rr_skipped_needs_review r \<and>
     rr_skipped_active_after_treatment r' = rr_skipped_active_after_treatment r \<and>
     rr_errors r' = rr_errors r \<and> rr_policy_version r' = rr_policy_version r"

definition counted :: "retention_key \<Rightarrow> nat \<Rightarrow> retention_result \<Rightarrow> retention_result \<Rightarrow> bool" where
  "counted k n r r' \<longleftrightarrow> rr_archived_total r' = rr_archived_total r + n \<and>
     (\<forall>k'. archived_count k' r' = archived_count k' r + (if k' = k then n else 0)) \<and>
     same_preflight r r'"

lemma counted_zero: "counted k 0 r r"
  by (simp add: counted_def same_preflight_def)

lemma counted_trans: "counted k n r r' \<Longrightarrow> counted k m r' r'' \<Longrightarrow> counted k (n + m) r r''"
  by (auto simp: counted_def same_preflight_def)

lemma counted_one: "counted k 1 r (count_archived k r)"
  by (cases k; auto simp: counted_def same_preflight_def count_archived_def archived_count_def
      Let_def split: retention_key.splits)

lemma counted_batches [simp]: "counted k n r (r'\<lparr>rr_batches := m\<rparr>) = counted k n r r'"
  by (auto simp: counted_def same_preflight_def archived_count_def split: retention_key.splits)

lemma batch_fold:
  assumes "distinct (map f_id (findings s))" "set fs \<subseteq> set (findings s)" "distinct fs"
    and "\<forall>f \<in> set fs. eligible s p c f"
  shows "\<exists>r' t. fold_result (archive_expired svc p now) fs (done0, r, s) = Inr (done0 @ fs, r', t) \<and>
    counted (rp_key p) (length fs) r r' \<and> retires now (\<lambda>f. f \<in> set fs) s t"
  using assms
proof (induction fs arbitrary: done0 r s)
  case Nil
  then show ?case by (simp add: counted_zero retires_none)
next
  case (Cons f fs)
  then have f: "f \<in> set (findings s)" "eligible s p c f" "f \<notin> set fs" by auto
  then have "expired (rp_key p) c f" by (simp add: eligible_def)
  from reference_exists [OF this] obtain ref where
    ref: "reference_timestamp (rp_key p) f = Inr ref" by blast
  from f(2) have "f_archived_at f = None" by (simp add: eligible_def)
  from retention_step [OF f(1) Cons.prems(1) this] obtain t where
    t: "archive_retention_locked f now (retention_key_text (rp_key p)) (rp_threshold_days p) ref
          (rs_policy_version svc) False s = Inr (True, t)"
    and rt: "retires now (\<lambda>g. g = f) s t" by blast
  have step: "archive_expired svc p now f (done0, r, s) =
      Inr (done0 @ [f], count_archived (rp_key p) r, t)"
    by (simp add: archive_expired_def ref t)
  have rows: "findings t = map (\<lambda>g. if g = f then retired now g else g) (findings s)"
    using rt by (simp add: retires_def)
  have in_t: "set fs \<subseteq> set (findings t)"
    using Cons.prems(2) f(3) by (force simp: rows)
  have "distinct (map f_id (findings t))" using retires_ids [OF rt] Cons.prems(1) by simp
  moreover have "\<forall>g \<in> set fs. eligible t p c g"
    using Cons.prems(4) retires_eligible [OF rt] by simp
  ultimately obtain r' u where u:
    "fold_result (archive_expired svc p now) fs (done0 @ [f], count_archived (rp_key p) r, t) =
       Inr ((done0 @ [f]) @ fs, r', u)"
    "counted (rp_key p) (length fs) (count_archived (rp_key p) r) r'"
    "retires now (\<lambda>g. g \<in> set fs) t u"
    using Cons.IH [OF _ in_t] Cons.prems(3) by (metis distinct.simps(2))
  have not_again: "retired now g \<notin> set fs" for g
    using Cons.prems(4) retired_not_eligible by (metis list.set_intros(2))
  have "retires now (\<lambda>g. g = f \<or> g \<in> set fs) s u"
    by (rule retires_trans [OF rt u(3) not_again])
  then have "retires now (\<lambda>g. g \<in> set (f # fs)) s u" by simp
  moreover have "counted (rp_key p) (length (f # fs)) r r'"
    using counted_trans [OF counted_one u(2)] by simp
  ultimately show ?case using step u(1) by simp
qed

section \<open>The batches of a policy\<close>

lemma next_batch_rows:
  assumes "distinct (map f_id (findings s))"
  shows "set (next_batch svc p now s) \<subseteq> set (findings s)" "distinct (next_batch svc p now s)"
    "\<forall>f \<in> set (next_batch svc p now s). eligible s p (cutoff_of p now) f"
proof -
  have sub: "set (next_batch svc p now s) \<subseteq> {f \<in> set (findings s). eligible s p (cutoff_of p now) f}"
    using set_take_subset unfolding next_batch_def by fastforce
  then show "set (next_batch svc p now s) \<subseteq> set (findings s)"
    "\<forall>f \<in> set (next_batch svc p now s). eligible s p (cutoff_of p now) f" by auto
  have "distinct (findings s)" using assms by (simp add: distinct_map)
  then show "distinct (next_batch svc p now s)" by (simp add: next_batch_def distinct_take)
qed

lemma run_batch_effect:
  assumes "distinct (map f_id (findings s))" "next_batch svc p now s = b"
  shows "\<exists>r' t. run_batch svc p now b (r, s) = Inr (r', t) \<and> counted (rp_key p) (length b) r r' \<and>
    retires now (\<lambda>f. f \<in> set b) s t"
proof -
  note rows = next_batch_rows [OF assms(1), of svc p now, unfolded assms(2)]
  from batch_fold [OF assms(1) rows, of svc now "[]" r] obtain r1 t where
    t: "fold_result (archive_expired svc p now) b ([], r, s) = Inr (b, r1, t)"
    "counted (rp_key p) (length b) r r1" "retires now (\<lambda>f. f \<in> set b) s t" by auto
  show ?thesis
  proof (cases "b = []")
    case True
    with t show ?thesis by (simp add: run_batch_def)
  next
    case False
    obtain n u where u: "refresh_summaries_for_findings b t = Inr (n, u)" "same_source t u"
      using refresh_exists by blast
    with t False retires_other [OF t(3) u(2)] show ?thesis by (simp add: run_batch_def)
  qed
qed

text \<open>
  The loop of a policy ends: every batch takes at least one finding and a retired finding is
  not eligible again.
\<close>

lemma archive_policy_total:
  assumes "distinct (map f_id (findings s))" "1 \<le> rs_batch_size svc"
  shows "\<exists>r' t. archive_policy svc p now (r, s) = Some (Inr (r', t)) \<and>
    counted (rp_key p) (count_where (eligible s p (cutoff_of p now)) (findings s)) r r' \<and>
    retires now (eligible s p (cutoff_of p now)) s t"
  using assms(1)
proof (induction "count_where (eligible s p (cutoff_of p now)) (findings s)" arbitrary: r s
    rule: less_induct)
  case less
  let ?e = "eligible s p (cutoff_of p now)" and ?b = "next_batch svc p now s"
  note rows = next_batch_rows [OF less.prems, of svc p now]
  show ?case
  proof (cases "?b = []")
    case True
    then have "length (sort_key f_id (filter ?e (findings s))) = 0"
      using assms(2) by (simp add: next_batch_def)
    then have none: "filter ?e (findings s) = []" by simp
    then have "archive_policy svc p now (r, s) = Some (Inr (r, s))"
      using True by (subst archive_policy.simps) simp
    with none show ?thesis
      by (auto simp: count_where_def counted_zero filter_empty_conv intro!: retires_none)
  next
    case False
    from run_batch_effect [OF less.prems refl, of svc p now r] obtain r1 t where
      t: "run_batch svc p now ?b (r, s) = Inr (r1, t)" "counted (rp_key p) (length ?b) r r1"
        "retires now (\<lambda>f. f \<in> set ?b) s t" by blast
    note elig = retires_eligible [OF t(3)]
    have left: "count_where (eligible t p (cutoff_of p now)) (findings t) =
        count_where (\<lambda>f. f \<notin> set ?b \<and> ?e f) (findings s)"
      using t(3) by (auto simp: retires_def count_where_map elig intro: count_where_cong)
    have batch: "count_where (\<lambda>f. f \<in> set ?b) (findings s) = length ?b"
      using less.prems rows(1,2) by (intro count_where_members) (simp_all add: distinct_map)
    have split: "count_where ?e (findings s) = length ?b + count_where (\<lambda>f. f \<notin> set ?b \<and> ?e f) (findings s)"
      using count_where_split [of ?e "findings s" "\<lambda>f. f \<in> set ?b"] rows(3) batch
      by (smt (verit, best) count_where_cong)
    have "distinct (map f_id (findings t))" using retires_ids [OF t(3)] less.prems by simp
    with less.hyps [of t r1] left split False obtain r' u where
      u: "archive_policy svc p now (r1, t) = Some (Inr (r', u))"
      "counted (rp_key p) (count_where (\<lambda>f. f \<notin> set ?b \<and> ?e f) (findings s)) r1 r'"
      "retires now (eligible t p (cutoff_of p now)) t u" by auto
    have "archive_policy svc p now (r, s) = Some (Inr (r', u))"
      using False t(1) u(1) by (subst archive_policy.simps) (simp add: Let_def)
    moreover have "counted (rp_key p) (count_where ?e (findings s)) r r'"
      using counted_trans [OF t(2) u(2)] by (simp only: split)
    moreover have "retires now ?e s u"
      by (rule retires_cong [OF _ retires_trans [OF t(3) u(3) retired_not_eligible]])
         (use rows(3) elig in auto)
    ultimately show ?thesis by blast
  qed
qed

section \<open>The whole run\<close>

text \<open>The policy a finding is archived under: the first enabled one it is eligible for.\<close>

definition due_policy :: "retention_policy list \<Rightarrow> datetime \<Rightarrow> db \<Rightarrow> finding \<Rightarrow> retention_key option" where
  "due_policy ps now s f =
     map_option rp_key (find (\<lambda>p. rp_enabled p \<and> eligible s p (cutoff_of p now) f) ps)"

definition all_counted :: "retention_policy list \<Rightarrow> datetime \<Rightarrow> db \<Rightarrow> retention_result \<Rightarrow>
    retention_result \<Rightarrow> bool" where
  "all_counted ps now s r r' \<longleftrightarrow>
     rr_archived_total r' = rr_archived_total r +
       count_where (\<lambda>f. due_policy ps now s f \<noteq> None) (findings s) \<and>
     (\<forall>k. archived_count k r' = archived_count k r +
       count_where (\<lambda>f. due_policy ps now s f = Some k) (findings s)) \<and>
     same_preflight r r'"

lemma due_policy_simps:
  "due_policy [] now s f = None"
  "due_policy (p # ps) now s f = (if rp_enabled p \<and> eligible s p (cutoff_of p now) f
     then Some (rp_key p) else due_policy ps now s f)"
  by (simp_all add: due_policy_def)

lemma due_policy_retired [simp]: "due_policy ps now s (retired t f) = None"
  by (induction ps) (simp_all add: due_policy_simps)

lemma due_policy_kept: "retires now R s t \<Longrightarrow> due_policy ps d t f = due_policy ps d s f"
  using retires_eligible by (induction ps) (simp_all add: due_policy_simps)

lemma count_where_extra:
  "count_where (\<lambda>f. if E f then P else Q f) xs =
     (if P then count_where E xs else 0) + count_where (\<lambda>f. \<not> E f \<and> Q f) xs"
  unfolding count_where_def by (induction xs) auto

lemma archive_policies_total:
  assumes "distinct (map f_id (findings s))" "1 \<le> rs_batch_size svc"
  shows "\<exists>r' t. archive_policies svc ps now (r, s) = Some (Inr (r', t)) \<and>
    all_counted ps now s r r' \<and> retires now (\<lambda>f. due_policy ps now s f \<noteq> None) s t"
  using assms(1)
proof (induction ps arbitrary: r s)
  case Nil
  then show ?case
    by (simp add: all_counted_def due_policy_simps same_preflight_def retires_none count_where_def)
next
  case (Cons p ps)
  let ?e = "eligible s p (cutoff_of p now)"
  show ?case
  proof (cases "rp_enabled p")
    case False
    with Cons show ?thesis by (simp add: all_counted_def due_policy_simps)
  next
    case True
    from archive_policy_total [OF Cons.prems assms(2), of p now r] obtain r1 t where
      t: "archive_policy svc p now (r, s) = Some (Inr (r1, t))"
      "counted (rp_key p) (count_where ?e (findings s)) r r1" "retires now ?e s t" by blast
    have "distinct (map f_id (findings t))" using retires_ids [OF t(3)] Cons.prems by simp
    from Cons.IH [OF this, of r1] obtain r' u where
      u: "archive_policies svc ps now (r1, t) = Some (Inr (r', u))" "all_counted ps now t r1 r'"
      "retires now (\<lambda>f. due_policy ps now t f \<noteq> None) t u" by blast
    have due: "due_policy ps now t f = due_policy ps now s f" for f
      by (rule due_policy_kept [OF t(3)])
    have rows: "findings t = map (\<lambda>f. if ?e f then retired now f else f) (findings s)"
      using t(3) by (simp add: retires_def)
    have moved: "count_where (\<lambda>f. D (due_policy ps now t f)) (findings t) =
        count_where (\<lambda>f. \<not> ?e f \<and> D (due_policy ps now s f)) (findings s)" if "\<not> D None" for D
      using that by (auto simp: rows count_where_map due intro: count_where_cong)
    have "count_where (\<lambda>f. due_policy (p # ps) now s f = Some k) (findings s) =
        (if k = rp_key p then count_where ?e (findings s) else 0) +
        count_where (\<lambda>f. due_policy ps now t f = Some k) (findings t)" for k
      using moved [of "\<lambda>d. d = Some k"]
        count_where_extra [of ?e "k = rp_key p" "\<lambda>f. due_policy ps now s f = Some k" "findings s"]
      by (simp add: due_policy_simps True if_distrib [of "\<lambda>d. d = Some k"] eq_commute [of k]
          cong: if_cong)
    moreover have "(\<lambda>f. due_policy (p # ps) now s f \<noteq> None) =
        (\<lambda>f. if ?e f then True else due_policy ps now s f \<noteq> None)"
      using True by (auto simp: fun_eq_iff due_policy_simps)
    then have "count_where (\<lambda>f. due_policy (p # ps) now s f \<noteq> None) (findings s) =
        count_where ?e (findings s) + count_where (\<lambda>f. due_policy ps now t f \<noteq> None) (findings t)"
      using moved [of "\<lambda>d. d \<noteq> None"] by (simp only: count_where_extra if_True simp_thms)
    ultimately have "all_counted (p # ps) now s r r'"
      using t(2) u(2) by (auto simp: all_counted_def counted_def same_preflight_def)
    moreover have "retires now (\<lambda>f. due_policy (p # ps) now s f \<noteq> None) s u"
      by (rule retires_cong [OF _ retires_trans [OF t(3) u(3)]])
         (use True due in \<open>auto simp: due_policy_simps\<close>)
    ultimately show ?thesis using True t(1) u(1) by simp
  qed
qed

lemma archive_policy_none:
  assumes "\<forall>f \<in> set (findings s). \<not> eligible s p (cutoff_of p now) f"
  shows "archive_policy svc p now (r, s) = Some (Inr (r, s))"
proof -
  have "filter (eligible s p (cutoff_of p now)) (findings s) = []"
    using assms by (simp add: filter_empty_conv)
  then have "next_batch svc p now s = []" by (simp add: next_batch_def)
  then show ?thesis by (subst archive_policy.simps) simp
qed

lemma archive_policies_none:
  assumes "\<forall>f \<in> set (findings s). due_policy ps now s f = None"
  shows "archive_policies svc ps now (r, s) = Some (Inr (r, s))"
  using assms
proof (induction ps)
  case Nil
  then show ?case by simp
next
  case (Cons p ps)
  then have rest: "\<forall>f \<in> set (findings s). due_policy ps now s f = None"
    by (auto simp: due_policy_simps split: if_splits)
  show ?case
  proof (cases "rp_enabled p")
    case True
    with Cons.prems have "\<forall>f \<in> set (findings s). \<not> eligible s p (cutoff_of p now) f"
      by (auto simp: due_policy_simps split: if_splits)
    with True Cons.IH [OF rest] show ?thesis by (simp add: archive_policy_none)
  qed (simp add: Cons.IH [OF rest])
qed

lemma retention_audit_recorded:
  "\<exists>e. record_audit (retention_audit r c) s = Inr (s\<lparr>audit_events := audit_events s @ [e]\<rparr>)"
proof -
  have "required_text ''opportunity_retention.run'' 120 = Inr ''opportunity_retention.run''"
    "required_text ''opportunities'' 80 = Inr ''opportunities''"
    "required_text ''opportunity_retention_run'' 120 = Inr ''opportunity_retention_run''"
    by code_simp+
  then show ?thesis by (intro record_audit_ok) (simp_all add: retention_audit_def)
qed

definition retention_outcome :: "retention_service \<Rightarrow> datetime \<Rightarrow> db \<Rightarrow> retention_result \<Rightarrow> db \<Rightarrow> bool" where
  "retention_outcome svc now s r t \<longleftrightarrow>
     findings t = map (\<lambda>f. if due_policy (rs_policies svc) now s f \<noteq> None then retired now f else f)
       (findings s) \<and>
     (\<exists>es. archive_history t = archive_history s @ es \<and> retention_events now es \<and>
        length es = rr_archived_total r) \<and>
     rr_archived_total r = count_where (\<lambda>f. due_policy (rs_policies svc) now s f \<noteq> None) (findings s) \<and>
     (\<forall>k. archived_count k r =
        count_where (\<lambda>f. due_policy (rs_policies svc) now s f = Some k) (findings s)) \<and>
     length (audit_events t) = length (audit_events s) + (if rr_archived_total r = 0 then 0 else 1) \<and>
     outside_retention t = outside_retention s \<and> audited_step\<^sup>*\<^sup>* s t"

lemma run_retention_total:
  assumes "distinct (map f_id (findings s))" "1 \<le> rs_batch_size svc"
    and "given_or_now now s = (started, s1)"
  shows "\<exists>r t. run_retention svc now s = Some (Inr (r, t)) \<and>
    retention_outcome svc (utc started) s r t \<and>
    same_preflight (preflight_counters svc (utc started) s (no_result (rs_policy_version svc))) r \<and>
    (rr_archived_total r = 0 \<longrightarrow> t = s1)"
proof -
  let ?ps = "rs_policies svc" and ?now = "utc started"
  let ?r = "preflight_counters svc ?now s1 (no_result (rs_policy_version svc))"
  have s1: "findings s1 = findings s" "archive_history s1 = archive_history s"
    "audit_events s1 = audit_events s" "outside_retention s1 = outside_retention s" "quiet s s1"
    using assms(3) by (auto simp: given_or_now_def env_defs outside_retention_def quiet_def
        same_logs_def split: option.splits)
  have due: "due_policy ?ps ?now s1 f = due_policy ?ps ?now s f" for f
    by (simp add: due_policy_def eligible_def recent_unarchive_def s1)
  have pre: "preflight_counters svc ?now s1 = preflight_counters svc ?now s"
    unfolding preflight_counters_def s1(1) by (rule refl)
  have zero: "rr_archived_total ?r = 0" "archived_count k ?r = 0" for k
    by (auto simp: preflight_counters_def no_result_def archived_count_def Let_def
        split: option.splits retention_key.splits)
  from archive_policies_total [OF _ assms(2), of s1 ?ps ?now ?r] assms(1) obtain r t where
    t: "archive_policies svc ?ps ?now (?r, s1) = Some (Inr (r, t))"
      "all_counted ?ps ?now s1 ?r r" "retires ?now (\<lambda>f. due_policy ?ps ?now s1 f \<noteq> None) s1 t"
    unfolding s1 by blast
  have out: "retention_outcome svc ?now s r u"
    if "findings u = findings t" "archive_history u = archive_history t" "audited_step\<^sup>*\<^sup>* t u"
      "length (audit_events u) = length (audit_events t) + (if rr_archived_total r = 0 then 0 else 1)"
      "outside_retention u = outside_retention t" for u
    using that t(2,3) zero quiet_audited [OF s1(5)]
    by (auto simp: retention_outcome_def all_counted_def retires_def s1 due)
  have same: "same_preflight (preflight_counters svc ?now s (no_result (rs_policy_version svc))) r"
    using t(2) by (simp add: all_counted_def pre)
  have run: "run_retention svc now s = Some (finish_retention (r, t))"
    by (simp add: run_retention_def assms(3) t(1))
  show ?thesis
  proof (cases "rr_archived_total r = 0")
    case True
    then have "count_where (\<lambda>f. due_policy ?ps ?now s1 f \<noteq> None) (findings s1) = 0"
      using t(2) zero by (simp add: all_counted_def)
    then have "\<forall>f \<in> set (findings s1). due_policy ?ps ?now s1 f = None"
      by (simp add: count_where_def filter_empty_conv)
    then have "t = s1" using archive_policies_none t(1) by fastforce
    then show ?thesis
      using out [of t] same run True by (simp add: finish_retention_def)
  next
    case False
    obtain c u where u: "new_uuid t = (c, u)" by fastforce
    obtain e where e: "record_audit (retention_audit r c) u =
        Inr (u\<lparr>audit_events := audit_events u @ [e]\<rparr>)"
      using retention_audit_recorded by blast
    let ?u = "u\<lparr>audit_events := audit_events u @ [e]\<rparr>"
    have "run_retention svc now s = Some (Inr (r, ?u))"
      using False by (simp add: run finish_retention_def u e)
    moreover have "retention_outcome svc ?now s r ?u"
    proof (rule out)
      have "quiet t ?u" using u by (auto simp: new_uuid_def quiet_def same_logs_def)
      then show "audited_step\<^sup>*\<^sup>* t ?u" by (rule quiet_audited)
    qed (use u False in \<open>auto simp: new_uuid_def outside_retention_def\<close>)
    ultimately show ?thesis using same False by (intro exI [of _ r] exI [of _ ?u]) simp
  qed
qed

lemma built_service:
  assumes "retention_service_of c = Inr svc"
  shows "1 \<le> rs_batch_size svc" "map rp_key (rs_policies svc) =
      [RejectedRetention, TreatedRetention, ResolvedExternalRetention, OpenRetention]"
  using assms by (auto simp: retention_service_of_def andThen_eq_Inr at_least_one_def)

text \<open>
  C23: Retention archives exactly what it promises, and it ends.  A run of any service the
  constructor accepts returns, and never with an error; exactly the findings for which an enabled
  policy was due at the start are archived, as of the run's instant; every one is counted under
  the first policy that applies, in the order rejected, treated, resolved, open, and has one
  archive event; human decisions and presence stay, nothing else but summaries and one audit
  event is written, and the counts of the preflight are kept.
\<close>

theorem retention_exact:
  assumes "retention_service_of c = Inr svc" "distinct (map f_id (findings s))"
  shows "\<exists>r t. run_retention svc now s = Some (Inr (r, t)) \<and>
    retention_outcome svc (utc (fst (given_or_now now s))) s r t \<and>
    same_preflight (preflight_counters svc (utc (fst (given_or_now now s))) s
      (no_result (rs_policy_version svc))) r"
  using run_retention_total [OF assms(2) built_service(1) [OF assms(1)], of now]
  by (metis prod.collapse)

text \<open>
  A repeated run changes nothing.  Running the service again for the same instant archives
  no finding and leaves the whole state as it is, so a maintenance job may be retried.
\<close>

theorem retention_idempotent:
  assumes "retention_service_of c = Inr svc" "distinct (map f_id (findings s))"
    and "run_retention svc (Some now) s = Some (Inr (r, t))"
  shows "\<exists>r'. run_retention svc (Some now) t = Some (Inr (r', t)) \<and> rr_archived_total r' = 0"
proof -
  note size = built_service(1) [OF assms(1)]
  have now: "given_or_now (Some now) u = (now, u)" for u by (simp add: given_or_now_def)
  from run_retention_total [OF assms(2) size now] assms(3)
  have o: "retention_outcome svc (utc now) s r t" by auto
  then obtain es where es: "archive_history t = archive_history s @ es"
    "retention_events (utc now) es" by (auto simp: retention_outcome_def)
  have "due_policy (rs_policies svc) d t f = due_policy (rs_policies svc) d s f" for d f
    by (simp add: due_policy_def eligible_def recent_unarchive_kept [OF es])
  then have none: "due_policy (rs_policies svc) (utc now) t f = None" if "f \<in> set (findings t)" for f
    using o that by (auto simp: retention_outcome_def)
  have "distinct (map f_id (findings t))"
    using o assms(2) by (simp add: retention_outcome_def comp_def if_distrib cong: if_cong)
  from run_retention_total [OF this size now] obtain r' u where
    u: "run_retention svc (Some now) t = Some (Inr (r', u))"
      "retention_outcome svc (utc now) t r' u" "rr_archived_total r' = 0 \<longrightarrow> u = t" by (elim exE conjE)
  have "rr_archived_total r' = 0"
    using u(2) none by (auto simp: retention_outcome_def count_where_def filter_empty_conv)
  with u(1,3) show ?thesis by blast
qed

lemma due_found:
  "due_policy ps now s f \<noteq> None \<longleftrightarrow>
     (\<exists>p \<in> set ps. rp_enabled p \<and> eligible s p (cutoff_of p now) f)"
  by (induction ps) (auto simp: due_policy_simps)

lemma due_evaluated:
  assumes "due_policy (rs_policies svc) now s f \<noteq> None"
  shows "f_archived_at f = None \<and> expired_any svc now f"
  using assms unfolding due_found expired_any_def by (auto simp: list_ex_iff eligible_def)

lemma count_where_none [simp]: "count_where (\<lambda>x. False) xs = 0"
  by (simp add: count_where_def)

lemma total_within_evaluated:
  "count_where (\<lambda>f. due_policy (rs_policies svc) now s f \<noteq> None) (findings s) \<le>
   rr_evaluated (preflight_counters svc now s r)"
proof (cases "list_ex rp_enabled (rs_policies svc)")
  case True
  then show ?thesis
    using due_evaluated [of svc now s]
    by (auto simp: preflight_counters_def Let_def intro: count_where_mono)
next
  case False
  then have "due_policy (rs_policies svc) now s f = None" for f
    using due_found [of "rs_policies svc" now s f] by (auto simp: list_ex_iff)
  then show ?thesis by simp
qed

lemma previewed_counts:
  fixes now :: datetime and s :: db
  assumes "retention_service_of c = Inr svc"
  defines "due \<equiv> \<lambda>k. count_where (\<lambda>f. due_policy (rs_policies svc) now s f = Some k) (findings s)"
  shows "due RejectedRetention = eligible_count svc now s RejectedRetention"
    "due TreatedRetention = eligible_count svc now s TreatedRetention"
    "due ResolvedExternalRetention \<le> eligible_count svc now s ResolvedExternalRetention"
    "due OpenRetention \<le> eligible_count svc now s OpenRetention"
proof -
  from built_service(2) [OF assms(1)] obtain pr pt px po where ps: "rs_policies svc = [pr, pt, px, po]"
    and keys: "rp_key pr = RejectedRetention" "rp_key pt = TreatedRetention"
      "rp_key px = ResolvedExternalRetention" "rp_key po = OpenRetention"
    by (auto simp: map_eq_Cons_conv)
  let ?e = "\<lambda>p f. rp_enabled p \<and> eligible s p (cutoff_of p now) f"
  have one_decision: "\<not> (eligible s pr a f \<and> eligible s pt b f)" for a b f
    by (auto simp: eligible_def keys)
  have due_iff: "(due_policy (rs_policies svc) now s f = Some RejectedRetention) = ?e pr f"
    "(due_policy (rs_policies svc) now s f = Some TreatedRetention) = ?e pt f"
    "(due_policy (rs_policies svc) now s f = Some ResolvedExternalRetention) \<longrightarrow> ?e px f"
    "(due_policy (rs_policies svc) now s f = Some OpenRetention) \<longrightarrow> ?e po f" for f
    using one_decision [of _ f] by (auto simp: due_policy_simps ps keys)
  have count: "eligible_count svc now s (rp_key p) = count_where (?e p) (findings s)"
    if "p \<in> {pr, pt, px, po}" for p
    using that by (auto simp: eligible_count_def ps keys)
  note counts = count [of pr, unfolded keys] count [of pt, unfolded keys]
    count [of px, unfolded keys] count [of po, unfolded keys]
  show "due RejectedRetention = eligible_count svc now s RejectedRetention"
    "due TreatedRetention = eligible_count svc now s TreatedRetention"
    using counts by (simp_all add: due_def due_iff)
  show "due ResolvedExternalRetention \<le> eligible_count svc now s ResolvedExternalRetention"
    "due OpenRetention \<le> eligible_count svc now s OpenRetention"
    using counts due_iff by (auto simp: due_def intro!: count_where_mono)
qed

text \<open>
  The preview tells what a run will do.  A run at the instant of the preview archives exactly
  the previewed numbers of rejected and treated findings and at most the previewed numbers of
  resolved and open ones, those already counted under a human decision being left out; and it
  never archives more findings than it reports as evaluated.
\<close>

theorem preview_foretells_run:
  assumes "retention_service_of c = Inr svc" "distinct (map f_id (findings s))"
    and "run_retention svc (Some now) s = Some (Inr (r, t))"
    and "preview_counts svc (Some now) s = (p, s')"
  shows "s' = s \<and> rr_archived_rejected r = rejected_eligible p \<and>
    rr_archived_treated r = treated_eligible p \<and>
    rr_archived_resolved_externally r \<le> resolved_externally_eligible p \<and>
    rr_archived_open r \<le> open_eligible p \<and> rr_archived_total r \<le> rr_evaluated r"
proof -
  have now: "given_or_now (Some now) s = (now, s)" by (simp add: given_or_now_def)
  from run_retention_total [OF assms(2) built_service(1) [OF assms(1)] now] assms(3)
  have o: "retention_outcome svc (utc now) s r t"
    and pre: "same_preflight (preflight_counters svc (utc now) s (no_result (rs_policy_version svc))) r"
    by auto
  note counts = o [unfolded retention_outcome_def archived_count_def, THEN conjunct2, THEN conjunct2,
      THEN conjunct2, THEN conjunct1, rule_format]
  have total: "rr_archived_total r \<le> rr_evaluated r"
    using o pre total_within_evaluated [of svc "utc now" s "no_result (rs_policy_version svc)"]
    by (auto simp: retention_outcome_def same_preflight_def)
  show ?thesis
    using assms(4) previewed_counts [OF assms(1), of "utc now" s] total
      counts [of RejectedRetention] counts [of TreatedRetention]
      counts [of ResolvedExternalRetention] counts [of OpenRetention]
    by (auto simp: preview_counts_def now Let_def)
qed

text \<open>Witnesses: one finding of each kind, and one that still needs a review.\<close>

definition sample_service :: retention_service where
  "sample_service = \<lparr>rs_policies =
      [\<lparr>rp_key = RejectedRetention, rp_threshold_days = 30, rp_enabled = True\<rparr>,
       \<lparr>rp_key = TreatedRetention, rp_threshold_days = 30, rp_enabled = True\<rparr>,
       \<lparr>rp_key = ResolvedExternalRetention, rp_threshold_days = 30, rp_enabled = True\<rparr>,
       \<lparr>rp_key = OpenRetention, rp_threshold_days = 60, rp_enabled = True\<rparr>],
     rs_batch_size = 1, rs_policy_version = Some 3\<rparr>"

definition sample_call :: retention_call where
  "sample_call = \<lparr>rc_treated_days = 30, rc_rejected_days = 30, rc_resolved_externally_days = 30,
     rc_open_days = 60, rc_treated_enabled = True, rc_rejected_enabled = True,
     rc_resolved_externally_enabled = True, rc_open_enabled = True, rc_batch_size = 1,
     rc_policy_version = Some 3\<rparr>"

definition retention_db :: db where
  "retention_db = empty_db\<lparr>findings :=
     [(finding0 ''a'')\<lparr>f_status := Rejected, f_rejected_at := Some (Aware 0 0)\<rparr>,
      (finding0 ''b'')\<lparr>f_status := Treated, f_treated_at := Some (Aware 0 0)\<rparr>,
      (finding0 ''c'')\<lparr>f_needs_review := True\<rparr>, finding0 ''d'']\<rparr>"

lemma sample_service: "retention_service_of sample_call = Inr sample_service"
  by (simp add: retention_service_of_def at_least_one_def sample_call_def sample_service_def guard_def)

lemma retention_db_distinct: "distinct (map f_id (findings retention_db))"
  by code_simp

lemma retention_due_sample:
  "map (due_policy (rs_policies sample_service) (Aware (45 * day) 0) retention_db)
     (findings retention_db) = [Some RejectedRetention, Some TreatedRetention, None, None]"
  by code_simp

lemma retention_witness:
  "\<exists>r t. run_retention sample_service (Some (Aware (45 * day) 0)) retention_db = Some (Inr (r, t)) \<and>
     rr_archived_total r = 2 \<and> map f_archived_at (findings t) =
       [Some (Aware (45 * day) 0), Some (Aware (45 * day) 0), None, None]"
proof -
  have u: "utc (fst (given_or_now (Some (Aware (45 * day) 0)) retention_db)) = Aware (45 * day) 0"
    by code_simp
  from retention_exact [OF sample_service retention_db_distinct, of "Some (Aware (45 * day) 0)",
      unfolded u] obtain r t where
    r: "run_retention sample_service (Some (Aware (45 * day) 0)) retention_db = Some (Inr (r, t))"
      "retention_outcome sample_service (Aware (45 * day) 0) retention_db r t" by blast
  have "rr_archived_total r = length (filter (\<lambda>d. d \<noteq> None)
      (map (due_policy (rs_policies sample_service) (Aware (45 * day) 0) retention_db)
        (findings retention_db)))"
    using r(2) by (simp add: retention_outcome_def count_where_def filter_map comp_def)
  then have "rr_archived_total r = 2" unfolding retention_due_sample by simp
  moreover have "map f_archived_at (findings t) = map2 (\<lambda>d f. if d \<noteq> None
        then Some (Aware (45 * day) 0) else f_archived_at f)
      (map (due_policy (rs_policies sample_service) (Aware (45 * day) 0) retention_db)
        (findings retention_db)) (findings retention_db)"
    using r(2) by (auto simp: retention_outcome_def zip_map1 zip_same_conv_map retired_def)
  then have "map f_archived_at (findings t) =
      [Some (Aware (45 * day) 0), Some (Aware (45 * day) 0), None, None]"
    unfolding retention_due_sample by (simp add: retention_db_def finding0_def)
  ultimately show ?thesis using r(1) by (intro exI [of _ r] exI [of _ t] conjI)
qed

lemma retention_idempotent_witness:
  "\<exists>r t r'. run_retention sample_service (Some (Aware (45 * day) 0)) retention_db = Some (Inr (r, t)) \<and>
     run_retention sample_service (Some (Aware (45 * day) 0)) t = Some (Inr (r', t)) \<and>
     rr_archived_total r' = 0"
proof -
  obtain r t where r: "run_retention sample_service (Some (Aware (45 * day) 0)) retention_db =
      Some (Inr (r, t))"
    using run_retention_total [OF retention_db_distinct built_service(1) [OF sample_service]]
    by (metis prod.collapse)
  from retention_idempotent [OF sample_service retention_db_distinct r] obtain r' where
    "run_retention sample_service (Some (Aware (45 * day) 0)) t = Some (Inr (r', t))"
    "rr_archived_total r' = 0" by (elim exE conjE)
  with r show ?thesis by (intro exI [of _ r] exI [of _ t] exI [of _ r'] conjI)
qed

lemma preview_witness:
  "\<exists>r t. run_retention sample_service (Some (Aware (45 * day) 0)) retention_db = Some (Inr (r, t)) \<and>
     rr_archived_rejected r = 1 \<and> rr_archived_treated r = 1"
proof -
  obtain r t where r: "run_retention sample_service (Some (Aware (45 * day) 0)) retention_db =
      Some (Inr (r, t))"
    using run_retention_total [OF retention_db_distinct built_service(1) [OF sample_service]]
    by (metis prod.collapse)
  obtain p s' where p: "preview_counts sample_service (Some (Aware (45 * day) 0)) retention_db = (p, s')"
    by fastforce
  have "rejected_eligible (fst (preview_counts sample_service (Some (Aware (45 * day) 0)) retention_db)) = 1"
    "treated_eligible (fst (preview_counts sample_service (Some (Aware (45 * day) 0)) retention_db)) = 1"
    by code_simp+
  with preview_foretells_run [OF sample_service retention_db_distinct r p] p r show ?thesis
    by (intro exI [of _ r] exI [of _ t]) simp
qed

end
