(* ===== verification/Operations.thy ===== *)
theory Operations
  imports Worker Retention
begin

text \<open>
  The requests of all services as one step relation (\<open>service_step\<close>), what each of them leaves
  alone (\<open>steady\<close>, \<open>apart\<close>, \<open>booked\<close>), and the properties that span the components: every
  sequence of requests keeps the histories, the rows, the ledger and the queue consistent.
\<close>

section \<open>Operations that collect nothing\<close>

text \<open>
  What a decision, an archiving or a booking leaves alone: the observations, the queue, the runs
  and the number of findings; the ledger only grows, and soundly.
\<close>

definition booked :: "ledger_entry list \<Rightarrow> ledger_entry list \<Rightarrow> bool" where
  "booked l m \<longleftrightarrow> (sound_ledger l \<longrightarrow> sound_ledger m) \<and> (\<exists>es. m = l @ es)"

definition steady :: "db \<Rightarrow> db \<Rightarrow> bool" where
  "steady s t \<longleftrightarrow> observations t = observations s \<and> scans t = scans s \<and>
     collection_runs t = collection_runs s \<and> uuids_grow s t \<and>
     length (findings t) = length (findings s) \<and> booked (ledger s) (ledger t)"

named_theorems steady_intros \<open>operations that are steady\<close>

lemma booked_refl [simp]: "booked l l"
  by (simp add: booked_def)

lemma booked_trans: "booked l m \<Longrightarrow> booked m n \<Longrightarrow> booked l n"
  by (auto simp: booked_def)

lemma steady_refl [simp]: "steady s s"
  by (simp add: steady_def)

lemma steady_trans [trans]: "steady s t \<Longrightarrow> steady t u \<Longrightarrow> steady s u"
  unfolding steady_def using booked_trans uuids_grow_trans by (metis (no_types, lifting))

lemma steady_put_finding [simp]: "steady s (put_finding f s)"
  by (simp add: steady_def put_finding_def uuids_grow_def row_simps)

lemma steady_env [simp]: "steady s (snd (utcnow s))" "steady s (snd (new_uuid s))"
  by (simp_all add: steady_def env_defs uuids_grow_def)

lemma steady_same_source: "same_source s t \<Longrightarrow> steady s t"
  by (erule same_sourceD) (simp add: steady_def uuids_grow_def)

lemma steady_archive_log [simp]: "steady s (archive_log f a r c run ctx ts s)"
  by (simp add: archive_log_def steady_def env_defs uuids_grow_def split: option.split)

lemma steady_record_audit: "record_audit c s = Inr t \<Longrightarrow> steady s t"
  by (auto dest!: record_audit_appends simp: steady_def uuids_grow_def)

lemma steady_status_log: "status_log f actor to_status action reason note s = (ev, t) \<Longrightarrow> steady s t"
  by (auto simp: status_log_def env_defs Let_def steady_def uuids_grow_def)

lemma steady_refresh: "refresh_summaries_for_findings fs s = Inr (n, t) \<Longrightarrow> steady s t"
  using refresh_steps(1) steady_same_source by blast

subsection \<open>The ledger\<close>

lemma insert_entry_rest: "insert_entry e s = Inr (r, t) \<Longrightarrow> observations t = observations s \<and>
    scans t = scans s \<and> collection_runs t = collection_runs s \<and> uuids_grow s t \<and> findings t = findings s"
  by (auto dest!: insert_entry_Inr(2) simp: uuids_grow_def)

lemma ledger_step_rest:
  assumes "ledger_step s t"
  shows "observations t = observations s \<and> scans t = scans s \<and>
    collection_runs t = collection_runs s \<and> uuids_grow s t \<and> findings t = findings s"
proof -
  have create: "observations t = observations s \<and> scans t = scans s \<and>
      collection_runs t = collection_runs s \<and> uuids_grow s t \<and> findings t = findings s"
    if "create_entry c s = Inr (e, t)" for c e s
  proof -
    let ?s = "s\<lparr>uuids := Suc (uuids s), ticks := Suc (ticks s)\<rparr>"
    from create_entry_Inr [OF that] obtain x where x: "insert_or_existing x ?s = Inr (e, t)" by blast
    show ?thesis
    proof (rule insert_or_existing_cases [OF x _ _ refl])
      assume "insert_entry x ?s = Inr (e, t)"
      from insert_entry_rest [OF this] show ?thesis by (auto simp: uuids_grow_def)
    next
      assume "t = ?s"
      then show ?thesis by (simp add: uuids_grow_def)
    qed
  qed
  from assms show ?thesis
  proof (cases rule: ledger_step.cases)
    case (step_create c e)
    then show ?thesis by (rule create)
  next
    case (step_manual m e)
    then obtain call where "create_entry call (snd (utcnow s)) = Inr (e, t)"
      using create_manual_entry_create by blast
    from create [OF this] show ?thesis by (simp add: utcnow_def uuids_grow_def)
  next
    case (step_reverse i actor eff desc e)
    let ?s = "snd (utcnow (snd (new_uuid (snd (given_or_now eff s)))))"
    from step_reverse obtain x where "insert_entry x ?s = Inr (e, t)"
      unfolding reverse_entry_def andThen_eq_Inr guard_eq_Inr Let_def case_prod_beta
        conflict_on_integrity_Inr by blast
    from insert_entry_rest [OF this] show ?thesis
      by (auto simp: given_or_now_def env_defs uuids_grow_def split: option.splits)
  qed
qed

lemma steady_ledger_step: "ledger_step s t \<Longrightarrow> steady s t"
  using ledger_step_rest ledger_step_sound ledger_step_extends
  by (simp add: steady_def booked_def)

lemma steady_ledger_steps: "ledger_step\<^sup>*\<^sup>* s t \<Longrightarrow> steady s t"
  by (induction rule: rtranclp_induct) (auto intro: steady_trans steady_ledger_step)

lemma steady_recognize: "recognize_treatments cs actor s = Inr t \<Longrightarrow> steady s t"
  using recognize_treatments_steps(3) steady_ledger_steps by blast

lemmas steady_calls = steady_record_audit steady_refresh steady_recognize steady_status_log

subsection \<open>Archiving\<close>

lemma steady_archive [steady_intros]:
  assumes "archive i actor s = Inr (f', t)"
  shows "steady s t"
proof -
  from assms obtain f where f: "locked i s = Inr f" by (auto simp: archive_def andThen_eq_Inr)
  show ?thesis
  proof (cases "f_archived_at f = None")
    case False
    with assms f show ?thesis by (simp add: archive_def)
  next
    case True
    let ?g = "f\<lparr>f_archived_at := Some (fst (utcnow s)), f_archived_by := Some (u_id actor),
      f_archive_reason := Some MANUAL\<rparr>"
    from assms f True obtain a r c run ctx ts n u call where
      r: "refresh_summaries_for_findings [?g] (archive_log ?g a r c run ctx ts
        (put_finding ?g (snd (utcnow s)))) = Inr (n, u)"
      and t: "record_audit call u = Inr t"
      by (auto simp: archive_def andThen_eq_Inr Let_def case_prod_beta)
    have "steady s (archive_log ?g a r c run ctx ts (put_finding ?g (snd (utcnow s))))"
      by (rule steady_trans [OF steady_trans [OF steady_env(1) steady_put_finding] steady_archive_log])
    with steady_calls(1) [OF t] steady_calls(2) [OF r] show ?thesis by (blast intro: steady_trans)
  qed
qed

lemma steady_unarchive [steady_intros]:
  assumes "unarchive i actor s = Inr (f', t)"
  shows "steady s t"
proof -
  from assms obtain f where f: "locked i s = Inr f" by (auto simp: unarchive_def andThen_eq_Inr)
  show ?thesis
  proof (cases "f_archived_at f = None")
    case True
    with assms f show ?thesis by (simp add: unarchive_def)
  next
    case False
    from assms f False obtain a r c run ctx ts n u call where
      r: "refresh_summaries_for_findings [unarchived f] (archive_log (unarchived f) a r c run ctx ts
        (put_finding (unarchived f) s)) = Inr (n, u)"
      and t: "record_audit call u = Inr t"
      by (auto simp: unarchive_def andThen_eq_Inr Let_def)
    have "steady s (archive_log (unarchived f) a r c run ctx ts (put_finding (unarchived f) s))"
      by (rule steady_trans [OF steady_put_finding steady_archive_log])
    with steady_calls(1) [OF t] steady_calls(2) [OF r] show ?thesis by (blast intro: steady_trans)
  qed
qed

subsection \<open>Decisions\<close>

lemma steady_then:
  "steady s t \<Longrightarrow> steady s (put_finding g t)" "steady s t \<Longrightarrow> steady s (snd (utcnow t))"
  "steady s t \<Longrightarrow> steady s (snd (new_uuid t))" "steady s t \<Longrightarrow> steady s (archive_log f a r c run ctx ts t)"
  "steady s t \<Longrightarrow> steady s (snd (status_log f actor to_status action reason note t))"
  by (erule steady_trans, rule steady_put_finding steady_env steady_archive_log
        steady_status_log [OF prod.collapse [symmetric]])+

lemma steady_apply_treat: "apply_treat f actor note s = Inr (f', ev, t) \<Longrightarrow> steady s t"
  by (auto simp: apply_treat_def andThen_eq_Inr Let_def case_prod_beta intro!: steady_then)

lemma steady_apply_reject: "apply_reject f actor reason note s = Inr (f', t) \<Longrightarrow> steady s t"
  by (auto simp: apply_reject_def andThen_eq_Inr Let_def case_prod_beta intro!: steady_then)

lemma steady_unarchive_for_reopen:
  assumes "unarchive_for_reopen f actor s = Inr (f', b, t)"
  shows "steady s t"
proof (cases "f_archived_at f = None")
  case True
  with assms show ?thesis by (simp add: unarchive_for_reopen_def)
next
  case False
  with assms obtain a r c run ctx ts call where
    "record_audit call (archive_log (unarchived f) a r c run ctx ts (put_finding (unarchived f) s)) = Inr t"
    by (auto simp: unarchive_for_reopen_def andThen_eq_Inr Let_def)
  from steady_record_audit [OF this] show ?thesis
    by (rule steady_trans [rotated]) (intro steady_then steady_refl)
qed

lemma steady_apply_reopen:
  assumes "apply_reopen f actor note s = Inr (f', b, t)"
  shows "steady s t"
proof -
  let ?b = "f_status f = Rejected \<and> f_archived_at f \<noteq> None"
  define r where "r = (if ?b then unarchive_for_reopen f actor s else Inr (f, False, s))"
  from assms [unfolded apply_reopen_def Let_def andThen_eq_Inr, folded r_def] obtain p where
    u: "r = Inr p" and k: "(case p of (f1, _, s1) \<Rightarrow>
      case status_log f1 actor Open ''reopen'' None note s1 of (ev, s2) \<Rightarrow>
        Inr (f1\<lparr>f_status := Open, f_needs_review := False\<rparr>, ?b,
          put_finding (f1\<lparr>f_status := Open, f_needs_review := False\<rparr>) s2)) = (Inr (f', b, t) :: (finding \<times> bool \<times> db) result)"
    by (elim exE conjE) (rule that)
  obtain f1 c s1 where p: "p = (f1, c, s1)" by (cases p)
  have "steady s s1"
    using u steady_unarchive_for_reopen [of f actor s f1 c s1] unfolding p r_def by (cases ?b) (auto simp del: not_None_eq)
  moreover have "\<exists>g. t = put_finding g (snd (status_log f1 actor Open ''reopen'' None note s1))"
    using k unfolding p case_prod_beta sum.inject prod.inject fst_conv snd_conv
    by (elim conjE) (rule exI, erule sym)
  ultimately show ?thesis by (auto intro!: steady_then)
qed

lemmas steady_applied = steady_apply_treat steady_apply_reject steady_apply_reopen

lemma steady_treat [steady_intros]:
  assumes "treat i actor note s = Inr (f', t)"
  shows "steady s t"
proof -
  from assms obtain f ev s1 s2 n s3 c where "apply_treat f actor note s = Inr (f', ev, s1)"
    "recognize_treatments [(f', ev)] actor s1 = Inr s2"
    "refresh_summaries_for_findings [f'] s2 = Inr (n, s3)" "record_audit c s3 = Inr t"
    unfolding treat_def record_lifecycle_audit_def by (auto simp: andThen_eq_Inr)
  then show ?thesis by (meson steady_trans steady_applied steady_calls)
qed

lemma steady_reject [steady_intros]:
  assumes "reject i actor reason note s = Inr (f', t)"
  shows "steady s t"
proof -
  from assms obtain f s1 n s2 c where "apply_reject f actor reason note s = Inr (f', s1)"
    "refresh_summaries_for_findings [f'] s1 = Inr (n, s2)" "record_audit c s2 = Inr t"
    unfolding reject_def record_lifecycle_audit_def by (auto simp: andThen_eq_Inr)
  then show ?thesis by (meson steady_trans steady_applied steady_calls)
qed

lemma steady_reopen [steady_intros]:
  assumes "reopen i actor note s = Inr (f', t)"
  shows "steady s t"
proof -
  from assms obtain f b s1 n s2 c where "apply_reopen f actor note s = Inr (f', b, s1)"
    "refresh_summaries_for_findings [f'] s1 = Inr (n, s2)" "record_audit c s2 = Inr t"
    unfolding reopen_def record_lifecycle_audit_def by (auto simp: andThen_eq_Inr)
  then show ?thesis by (meson steady_trans steady_applied steady_calls)
qed

subsection \<open>Bulk requests and legacy updates\<close>

lemma steady_loop:
  assumes "fold_result step fs st = Inr st'"
    and "\<And>f st st'. step f st = Inr st' \<Longrightarrow> steady (proj st) (proj st')"
  shows "steady (proj st) (proj st')"
  using assms(1) steady_refl
  by (rule fold_result_invariant [where P = "\<lambda>x. steady (proj st) (proj x)"])
     (blast intro: steady_trans assms(2))

lemma steady_bulk_step:
  assumes "bulk_step action actor reason note f st = Inr st'"
  shows "steady (bulk_db st) (bulk_db st')"
proof -
  obtain fs cands n s where st: "st = (fs, cands, n, s)" by (cases st)
  have "(\<exists>f' ev. apply_treat f actor note s = Inr (f', ev, bulk_db st')) \<or>
      (\<exists>f'. apply_reject f actor (or_text reason []) note s = Inr (f', bulk_db st')) \<or>
      (\<exists>f' b. apply_reopen f actor note s = Inr (f', b, bulk_db st'))"
    using assms unfolding st bulk_step_def prod.case
    by (auto simp: andThen_eq_Inr split: if_splits)
  then show ?thesis unfolding st snd_conv by (elim disjE exE) (erule steady_applied)+
qed

lemma steady_apply_legacy:
  assumes "apply_legacy_status f actor st reason note s = Inr (f', ev, t)"
  shows "steady s t"
proof -
  have "t = s \<or> (\<exists>b. apply_reopen f actor note s = Inr (f', b, t)) \<or>
      (\<exists>e. apply_treat f actor note s = Inr (f', e, t)) \<or>
      (\<exists>r m. apply_reject f actor r m s = Inr (f', t))"
    using assms by (auto simp: apply_legacy_status_def andThen_eq_Inr Let_def case_prod_beta split: if_splits)
  then show ?thesis using steady_applied by auto
qed

lemma steady_legacy_step:
  assumes "legacy_step target actor stat reason note f st = Inr st'"
  shows "steady (bulk_db st) (bulk_db st')"
proof -
  obtain fs cands n s where st: "st = (fs, cands, n, s)" by (cases st)
  have "\<exists>f' ev. apply_legacy_status f actor stat reason note s = Inr (f', ev, bulk_db st')"
    using assms unfolding st legacy_step_def prod.case by (auto simp: andThen_eq_Inr Let_def)
  then show ?thesis unfolding st snd_conv using steady_apply_legacy by blast
qed

lemma steady_bulk_finish:
  assumes "bulk_finish action actor reason ids st = Inr (out, t)"
  shows "steady (bulk_db st) t"
proof -
  obtain fs cands n s where st: "st = (fs, cands, n, s)" by (cases st)
  from assms obtain s1 m s2 c where "recognize_treatments cands actor s = Inr s1"
    "refresh_summaries_for_findings fs s1 = Inr (m, s2)" "record_audit c (snd (new_uuid s2)) = Inr t"
    unfolding bulk_finish_def st by (auto simp: andThen_eq_Inr case_prod_beta)
  then show ?thesis unfolding st snd_conv by (meson steady_trans steady_calls steady_env)
qed

lemma steady_bulk_transition [steady_intros]:
  assumes "bulk_transition ids actor action reason note s = Inr (out, t)"
  shows "steady s t"
proof -
  from assms obtain fs st where
    loop: "fold_result (bulk_step action actor reason note) fs ([], [], 0, s) = Inr st"
    and fin: "bulk_finish action actor reason (dedup ids) st = Inr (out, t)"
    by (auto simp: bulk_transition_def Let_def andThen_eq_Inr)
  have "steady (bulk_db ([], [], 0, s)) (bulk_db st)" using loop steady_bulk_step by (rule steady_loop)
  with steady_bulk_finish [OF fin] show ?thesis by (auto intro: steady_trans)
qed

lemma steady_bulk_set_legacy_status [steady_intros]:
  assumes "bulk_set_legacy_status ids actor st reason note s = Inr (out, t)"
  shows "steady s t"
proof -
  from assms obtain fs target bs where
    loop: "fold_result (legacy_step target actor st reason note) fs ([], [], 0, s) = Inr bs"
    and fin: "bulk_finish (legacy_action target) actor reason (dedup ids) bs = Inr (out, t)"
    by (auto simp: bulk_set_legacy_status_def Let_def andThen_eq_Inr)
  have "steady (bulk_db ([], [], 0, s)) (bulk_db bs)" using loop steady_legacy_step by (rule steady_loop)
  with steady_bulk_finish [OF fin] show ?thesis by (auto intro: steady_trans)
qed

lemma steady_set_legacy_status [steady_intros]:
  assumes "set_legacy_status i actor st reason note s = Inr (f', t)"
  shows "steady s t"
proof -
  from assms obtain f event s1 s2 n s3 where
    a: "apply_legacy_status f actor st reason note s = Inr (f', event, s1)"
    and r: "(case event of None \<Rightarrow> Inr s1 | Some ev \<Rightarrow> recognize_treatments [(f', ev)] actor s1) =
      Inr s2"
    and q: "refresh_summaries_for_findings [f'] s2 = Inr (n, s3)"
    and fin: "t = s3 \<or> (\<exists>c. record_audit c s3 = Inr t)"
    by (rule set_legacy_steps)
  have "steady s1 s2" using r steady_recognize by (cases event) auto
  moreover have "steady s3 t" using fin steady_record_audit by auto
  ultimately show ?thesis using steady_apply_legacy [OF a] steady_refresh [OF q] by (meson steady_trans)
qed

subsection \<open>Retention\<close>

lemma steady_archive_expired:
  assumes "archive_expired svc p now f acc = Inr acc'"
  shows "steady (snd (snd acc)) (snd (snd acc'))"
proof -
  obtain archived r s where acc: "acc = (archived, r, s)" by (cases acc)
  have locked: "steady s t" if "archive_retention_locked f ts pol d ref v False s = Inr (b, t)"
    for ts pol d ref v b t
    using that
    by (auto simp: archive_retention_locked_def Let_def split: if_splits intro!: steady_then)
  from assms show ?thesis
    by (auto simp: acc archive_expired_def andThen_eq_Inr dest: locked split: if_splits)
qed

lemma steady_run_batch:
  assumes "run_batch svc p now batch st = Inr st'"
  shows "steady (snd st) (snd st')"
proof -
  obtain r s where st: "st = (r, s)" by fastforce
  from assms obtain archived r1 s1 n s2 where
    loop: "fold_result (archive_expired svc p now) batch ([], r, s) = Inr (archived, r1, s1)"
    and q: "(if archived = [] then Inr (0, s1) else refresh_summaries_for_findings archived s1) = Inr (n, s2)"
    and st': "snd st' = s2"
    by (auto simp: run_batch_def st andThen_eq_Inr)
  have "steady (snd (snd ([] :: finding list, r, s))) (snd (snd (archived, r1, s1)))"
    by (rule steady_loop [where proj = "\<lambda>x :: finding list \<times> retention_state. snd (snd x)",
          OF loop steady_archive_expired])
  moreover have "steady s1 s2" using q steady_refresh by (auto split: if_splits)
  ultimately show ?thesis by (auto simp: st st' intro: steady_trans)
qed

lemma steady_archive_policy:
  assumes "archive_policy svc p now st = Some r"
  shows "case r of Inl _ \<Rightarrow> True | Inr st' \<Rightarrow> steady (snd st) (snd st')"
proof (rule archive_policy.raw_induct [where P = "\<lambda>svc p now st r.
    case r of Inl _ \<Rightarrow> True | Inr st' \<Rightarrow> steady (snd st) (snd st')", OF _ assms], goal_cases)
  case (1 go svc p now st r)
  show ?case
  proof (cases "next_batch svc p now (snd st) = []")
    case True
    with 1(2) show ?thesis by auto
  next
    case False
    show ?thesis
    proof (cases "run_batch svc p now (next_batch svc p now (snd st)) st")
      case (Inl e)
      with 1(2) False show ?thesis by auto
    next
      case (Inr u)
      with 1(2) False have "go svc p now u = Some r" by (simp add: Let_def)
      from 1(1) [OF this] show ?thesis
        using steady_trans [OF steady_run_batch [OF Inr]] by (cases r) simp_all
    qed
  qed
qed

lemma steady_archive_policies:
  "archive_policies svc ps now st = Some (Inr st') \<Longrightarrow> steady (snd st) (snd st')"
proof (induction ps arbitrary: st)
  case (Cons p ps)
  show ?case
  proof (cases "rp_enabled p")
    case True
    with Cons.prems obtain u where u: "archive_policy svc p now st = Some (Inr u)"
      "archive_policies svc ps now u = Some (Inr st')" by (auto split: option.splits sum.splits)
    from steady_trans [OF _ Cons.IH [OF u(2)]] steady_archive_policy [OF u(1)] show ?thesis by simp
  qed (use Cons in simp)
qed simp

lemma steady_retention [steady_intros]:
  assumes "run_retention svc now s = Some (Inr (r, t))"
  shows "steady s t"
proof -
  obtain u s' where g: "given_or_now now s = (u, s')" by fastforce
  from assms g obtain r0 st where p: "archive_policies svc (rs_policies svc) (utc u) (r0, s') = Some (Inr st)"
    and fin: "finish_retention st = Inr (r, t)"
    by (auto simp: run_retention_def Let_def andThen_eq_Inr)
  have "steady s s'" using g steady_env(1) [of s] by (cases now) (auto simp: given_or_now_def)
  moreover have "steady s' (snd st)" using steady_archive_policies [OF p] by simp
  moreover have "steady (snd st) t"
    using fin steady_trans [OF steady_env(2) steady_record_audit]
    by (cases st) (auto simp: finish_retention_def andThen_eq_Inr Let_def case_prod_beta split: if_splits)
  ultimately show ?thesis by (blast intro: steady_trans)
qed

section \<open>The collected tables\<close>

text \<open>Audited steps never drop or rename a row; without new rows they keep the identities.\<close>

definition identity_of :: "finding \<Rightarrow> string \<times> string" where
  "identity_of f = (f_id f, f_fingerprint f)"

lemma audited_identities:
  assumes "audited_step\<^sup>*\<^sup>* s t" "distinct (map f_id (findings s))"
  shows "distinct (map f_id (findings t)) \<and>
    (\<exists>ks. map identity_of (findings t) = map identity_of (findings s) @ ks)"
  using assms(1)
proof (induction rule: rtranclp_induct)
  case (step t u)
  from step(2) have "distinct (map f_id (findings u)) \<and>
      (\<exists>ks. map identity_of (findings u) = map identity_of (findings t) @ ks)"
  proof (cases rule: audited_step.cases)
    case (changed f f')
    then have f: "f \<in> set (findings t)" "f_id f' = f_id f" "identity_of f' = identity_of f"
      "findings u = put_row f_id f' (findings t)"
      by (auto simp: logged_change_def row_replaced_def same_identity_def identity_of_def)
    have "map identity_of (findings u) = map identity_of (findings t)"
      using step.IH put_row_map [OF _ f(1), of f_id "\<lambda>_. f'"] f(2,3) by (simp add: f(4))
    with step.IH f(2) show ?thesis by (simp add: f(4) row_simps)
  next
    case (created new)
    with step.IH show ?thesis by (auto simp: rows_added_def)
  qed
  with step.IH show ?case by auto
qed (use assms(2) in simp)

lemma collected_ok_steady:
  assumes "collected_ok s" "audited_step\<^sup>*\<^sup>* s t" "steady s t"
  shows "collected_ok t"
proof (rule collected_ok_logs [OF assms(1)])
  from audited_identities [OF assms(2)] assms(1) obtain ks where
    "map identity_of (findings t) = map identity_of (findings s) @ ks"
    by (auto simp: collected_ok_def)
  moreover from this assms(3) have "ks = []"
    by (auto simp: steady_def dest: arg_cong [where f = length])
  ultimately have m: "map identity_of (findings t) = map identity_of (findings s)" by simp
  have "map f_id fs = map fst (map identity_of fs)"
    "map f_fingerprint fs = map snd (map identity_of fs)" for fs
    by (simp_all add: identity_of_def)
  with m show "map f_id (findings t) = map f_id (findings s)"
    "map f_fingerprint (findings t) = map f_fingerprint (findings s)" by presburger+
qed (use assms(3) in \<open>simp_all add: steady_def\<close>)

text \<open>Operations on the queue and on summaries.\<close>

definition apart :: "db \<Rightarrow> db \<Rightarrow> bool" where
  "apart s t \<longleftrightarrow> quiet s t \<and> observations t = observations s \<and> ledger t = ledger s \<and> uuids_grow s t"

lemma apart_refl [simp]: "apart s s"
  by (simp add: apart_def)

lemma apart_trans [trans]: "apart s t \<Longrightarrow> apart t u \<Longrightarrow> apart s u"
  unfolding apart_def using quiet_trans uuids_grow_trans by (metis (no_types, lifting))

lemma apart_collected: "apart s t \<Longrightarrow> collected_ok s \<Longrightarrow> collected_ok t"
  by (rule collected_ok_logs [of s t]) (simp_all add: apart_def quiet_def)

lemma apart_tables [simp]:
  "apart s (put_scan x s)" "apart s (put_account a s)" "apart s (put_run r s)"
  "apart s (snd (utcnow s))" "apart s (log_request tr acc actor x s)"
  by (simp_all add: apart_def quiet_def same_logs_def uuids_grow_def put_scan_def put_account_def
      put_run_def utcnow_def log_request_def)

lemma apart_then:
  "apart s t \<Longrightarrow> apart s (put_scan x t)" "apart s t \<Longrightarrow> apart s (put_account a t)"
  "apart s t \<Longrightarrow> apart s (put_run r t)" "apart s t \<Longrightarrow> apart s (snd (utcnow t))"
  "apart s t \<Longrightarrow> apart s (log_request tr acc actor x t)"
  by (erule apart_trans, rule apart_tables)+

lemma apart_same_source: "same_source s t \<Longrightarrow> apart s t"
  by (erule same_sourceD) (simp add: apart_def quiet_def same_logs_def uuids_grow_def)

lemma apart_add_scan: "apart s (snd (add_scan a c tr s))"
  using add_scan_fields(1) [of a c tr s, OF prod.collapse [symmetric]]
  by (simp add: apart_def quiet_def same_logs_def uuids_grow_def)

lemma apart_enqueue: "apart s (enqueue_due_scans s)"
proof -
  have one: "apart s (enqueue_account now a s)" for now a s
    unfolding enqueue_account_def Let_def by (auto split: option.split intro!: apart_then apart_add_scan)
  have "apart s (fold (enqueue_account now) accs s)" for now accs s
    by (induction accs arbitrary: s) (auto intro: apart_trans one)
  then show ?thesis
    unfolding enqueue_due_scans_def case_prod_beta Let_def by (blast intro: apart_trans apart_tables)
qed

lemma apart_manual:
  assumes "queue_manual_collection reg acc trigger actor s = Inr (x, t)"
  shows "apart s t"
proof -
  from assms obtain p :: preparation where "t = log_request trigger acc actor x
      (snd (add_scan (pr_legacy_scan_account_id p) (ca_id acc) trigger s))"
    by (auto simp: queue_manual_collection_def andThen_eq_Inr Let_def case_prod_beta)
  then show ?thesis by (auto intro!: apart_then apart_add_scan)
qed

lemma apart_claim:
  assumes "claim_scan reg s = Inr (r, t)"
  shows "apart s t"
  using assms
proof (cases rule: claim_cases)
  case (2 x acc p)
  have "apart (put_scan (running x (fst (utcnow s))) (snd (utcnow s))) t"
    by (rule add_run_effect [OF 2(4)]) (simp add: apart_def quiet_def same_logs_def uuids_grow_def)
  then show ?thesis by (rule apart_trans [rotated]) (intro apart_then apart_refl)
next
  case (3 x e)
  have "apart s (snd (fail_claimed_precondition (running x (fst (utcnow s))) e
      (put_scan (running x (fst (utcnow s))) (snd (utcnow s)))))"
    unfolding fail_claimed_precondition_def case_prod_beta Let_def snd_conv
    by (intro apart_then apart_refl)
  then show ?thesis by (simp add: 3(4))
qed simp

lemma apart_fail: "apart s (fail_scan reg i e s)"
proof -
  have note_apart: "apart s (note_connection_failure reg a e m s)" for a m s
    by (cases e) (simp_all add: note_connection_failure_def split: sum.split)
  show ?thesis
    unfolding fail_scan_def Let_def case_prod_beta
    by (auto split: option.split intro!: apart_then apart_trans [OF _ note_apart])
qed

lemma apart_close: "apart s (close_collection scan run acc res n now s)"
  unfolding close_collection_def Let_def by (intro apart_then apart_refl)

section \<open>Collections\<close>

lemma steady_reconcile:
  assumes "reconcile_opportunity_presence run rows th s = Inr (st, t)"
  shows "steady s t"
proof -
  have one: "steady (snd a) (snd b)" if "reconcile_one run rows obs th f a = Inr b" for obs f a b
  proof -
    obtain n s where a: "a = (n, s)" by fastforce
    have presence: "steady s t" if "record_presence f run p q rs k d sc m s = Inr t" for p q rs k d sc m s t
      using record_presence_effect [OF that] by (auto simp: steady_def uuids_grow_def)
    from that show ?thesis
      by (auto simp: a reconcile_one_def Let_def andThen_eq_Inr split: option.splits if_splits
          dest!: presence intro: steady_trans [OF steady_put_finding])
  qed
  have "steady (snd (no_stats, s)) (snd (st, t))"
    if "fold_result (reconcile_one run rows obs th) fs (no_stats, s) = Inr (st, t)" for obs fs
    by (rule steady_loop [where proj = snd, OF that one])
  with assms show ?thesis
    unfolding reconcile_opportunity_presence_def andThen_eq_Inr by (auto split: if_splits)
qed

lemma persist_collection_audited:
  assumes "persist_collection policies th scan run acc res s = Inr t" "collected_ok s"
  shows "audited_step\<^sup>*\<^sup>* s t" "collected_ok t" "ledger t = ledger s"
proof -
  from assms obtain n s1 where p: "persist_findings scan run (cx_findings res) None s = Inr (n, s1)"
    by (auto simp: persist_collection_def andThen_eq_Inr)
  obtain now s2 where u: "utcnow s1 = (now, s2)" by fastforce
  obtain rows s3 where r: "persist_collection_scope_executions run
      (build_collection_scope_executions policies acc run res now) s2 = (rows, s3)" by fastforce
  from assms p u r obtain st s4 where c: "reconcile_opportunity_presence run rows th s3 = Inr (st, s4)"
    and t: "t = close_collection scan run acc res n now s4"
    by (auto simp: persist_collection_def andThen_eq_Inr)
  note e = persist_findings_effect [OF p assms(2)]
  have s2: "apart s1 s2" using u apart_tables(4) [of s1] by simp
  have s3: "quiet s2 s3" "observations s3 = observations s2" "uuids_grow s2 s3"
    using scope_rows_quiet [OF r] .
  have ok2: "collected_ok s2" using apart_collected [OF s2] e by blast
  then have ok3: "collected_ok s3" using s3 by (intro collected_ok_logs [OF ok2]) (simp_all add: quiet_def)
  then have dist: "distinct (map f_id (findings s3))" by (simp add: collected_ok_def)
  note rec = reconcile_audited [OF c dist]
  have cl: "apart s4 t" unfolding t by (rule apart_close)
  show "collected_ok t"
    by (rule apart_collected [OF cl collected_ok_steady [OF ok3 rec steady_reconcile [OF c]]])
  have "quiet s1 s3" using s2 s3(1) quiet_trans by (auto simp: apart_def)
  moreover have "quiet s4 t" using cl by (simp add: apart_def)
  ultimately show "audited_step\<^sup>*\<^sup>* s t"
    using e rec quiet_audited by (meson rtranclp_trans)
  obtain m v at_time where w: "persists s v" "t = close_collection scan run acc res m at_time v"
    using persist_collection_effect [OF assms(1)] .
  then show "ledger t = ledger s" using persistsD(5) [OF w(1)] by simp
qed

text \<open>What the cloud I/O of an executor may do: write tables of its own.\<close>

definition cloud_contract :: "provider_io \<Rightarrow> bool" where
  "cloud_contract io \<longleftrightarrow> (\<forall>acc x s. let t = snd (io acc x s) in
     apart s t \<and> scans t = scans s \<and> collection_runs t = collection_runs s)"

lemma cloud_contract_queue: "cloud_contract io \<Longrightarrow> io_contract io"
  by (simp add: cloud_contract_def io_contract_def apart_def Let_def)

lemma executed_apart:
  assumes "registry_get (collection_executors aws_io oci_io) p = Inr ex"
    and "cloud_contract aws_io" "cloud_contract oci_io"
  shows "apart s (snd (ex_execute ex acc x s))"
proof -
  have "apart s (snd (aws_execute io acc x s))" "apart s (snd (oci_execute io acc x s))"
    if "cloud_contract io" for io
    using that by (auto simp: cloud_contract_def aws_execute_def oci_execute_def Let_def split: sum.split)
  with assms(2,3) have "apart s (snd (aws_execute aws_io acc x s))"
    "apart s (snd (oci_execute oci_io acc x s))" by blast+
  with collection_executors_cases [OF assms(1)] show ?thesis
    by (auto simp: aws_executor_def oci_executor_def)
qed

lemma apart_audited: "apart s t \<Longrightarrow> audited_step\<^sup>*\<^sup>* s t"
  by (auto simp: apart_def intro: quiet_audited)

lemma execute_scan_audited:
  assumes e: "execute_scan (collection_executors aws_io oci_io) policies th x s = (r, t)"
    and io: "cloud_contract aws_io" "cloud_contract oci_io" and ok: "collected_ok s"
  shows "audited_step\<^sup>*\<^sup>* s t \<and> collected_ok t \<and> ledger t = ledger s"
  using e
proof (cases rule: execute_scan_cases)
  case (refused err)
  with ok show ?thesis by simp
next
  case (failed acc ex err)
  have "apart s t" unfolding failed(3) by (rule executed_apart [OF failed(1) io])
  with ok apart_collected apart_audited show ?thesis by (auto simp: apart_def)
next
  case (persisted acc ex run res s1 x' run' acc' s2)
  have s1: "apart s s1" using executed_apart [OF persisted(1) io, of s acc x] persisted(2) by simp
  note ok1 = apart_collected [OF s1 ok]
  note p = persist_collection_audited [OF persisted(4) ok1]
  have t: "apart s2 t" unfolding persisted(6) by (rule apart_same_source [OF rebuild_or_keep_same_source])
  have "audited_step\<^sup>*\<^sup>* s t"
    using apart_audited [OF s1] p(1) apart_audited [OF t] by (meson rtranclp_trans)
  with apart_collected [OF t p(2)] p(3) s1 t show ?thesis by (simp add: apart_def)
qed

lemma process_once_audited:
  assumes e: "process_once (collection_executors aws_io oci_io) policies th s = (r, t)"
    and io: "cloud_contract aws_io" "cloud_contract oci_io" and ok: "collected_ok s"
  shows "audited_step\<^sup>*\<^sup>* s t \<and> collected_ok t \<and> ledger t = ledger s"
proof -
  let ?reg = "collection_executors aws_io oci_io" and ?s = "enqueue_due_scans s"
  have settled_by: "audited_step\<^sup>*\<^sup>* s u \<and> collected_ok u \<and> ledger u = ledger s" if "apart s u" for u
    using that apart_collected [OF that ok] apart_audited by (simp add: apart_def)
  show ?thesis
  proof (cases "claim_scan ?reg ?s")
    case (Inl err)
    with e have "t = ?s" by (simp add: process_once_def)
    with settled_by apart_enqueue show ?thesis by blast
  next
    case (Inr p)
    obtain c u where p: "p = (c, u)" by fastforce
    have u: "apart s u" using apart_enqueue apart_claim [OF Inr [unfolded p]] by (rule apart_trans)
    show ?thesis
    proof (cases "\<exists>x. c = Some x \<and> sc_status x = ScanRunning")
      case False
      with e Inr p have "t = u" by (auto simp: process_once_def split: option.splits if_splits)
      with settled_by u show ?thesis by blast
    next
      case True
      then obtain x where x: "c = Some x" "sc_status x = ScanRunning" by blast
      obtain q v where q: "execute_scan ?reg policies th x u = (q, v)" by fastforce
      have "apart v t"
      proof (cases q)
        case (Inl err)
        with e Inr p x q have "t = fail_scan ?reg (sc_id x) err v" by (simp add: process_once_def)
        then show ?thesis by (simp add: apart_fail)
      next
        case (Inr w)
        with e \<open>claim_scan ?reg ?s = Inr p\<close> p x q have "t = v" by (simp add: process_once_def)
        then show ?thesis by simp
      qed
      with execute_scan_audited [OF q io] settled_by [OF u] apart_collected apart_audited show ?thesis
        by (metis (no_types, lifting) apart_def rtranclp_trans)
    qed
  qed
qed

section \<open>The services\<close>

text \<open>
  The requests that change opportunities, their histories, the ledger and the queue, for the
  cloud I/O of the two providers.
\<close>

inductive service_step :: "provider_io \<Rightarrow> provider_io \<Rightarrow> db \<Rightarrow> db \<Rightarrow> bool" for aws_io oci_io where
  do_archive: "archive i actor s = Inr (f, t) \<Longrightarrow> service_step aws_io oci_io s t"
| do_unarchive: "unarchive i actor s = Inr (f, t) \<Longrightarrow> service_step aws_io oci_io s t"
| do_treat: "treat i actor text s = Inr (f, t) \<Longrightarrow> service_step aws_io oci_io s t"
| do_reject: "reject i actor reason text s = Inr (f, t) \<Longrightarrow> service_step aws_io oci_io s t"
| do_reopen: "reopen i actor text s = Inr (f, t) \<Longrightarrow> service_step aws_io oci_io s t"
| do_bulk: "bulk_transition ids actor action why text s = Inr (fs, t) \<Longrightarrow> service_step aws_io oci_io s t"
| do_legacy: "set_legacy_status i actor st why text s = Inr (f, t) \<Longrightarrow> service_step aws_io oci_io s t"
| do_bulk_legacy: "bulk_set_legacy_status ids actor st why text s = Inr (fs, t) \<Longrightarrow>
    service_step aws_io oci_io s t"
| do_retention: "retention_service_of call = Inr svc \<Longrightarrow> run_retention svc now s = Some (Inr (r, t)) \<Longrightarrow>
    service_step aws_io oci_io s t"
| do_ledger: "ledger_step s t \<Longrightarrow> service_step aws_io oci_io s t"
| do_backfill: "backfill_dashboard_summaries p a s = Inr (n, t) \<Longrightarrow> service_step aws_io oci_io s t"
| do_request: "queue_manual_collection (collection_executors aws_io oci_io) acc trigger actor_id s =
    Inr (x, t) \<Longrightarrow> service_step aws_io oci_io s t"
| do_work: "process_once (collection_executors aws_io oci_io) policies threshold s = (b, t) \<Longrightarrow>
    service_step aws_io oci_io s t"

inductive_cases service_stepE: "service_step aws_io oci_io s t"

lemmas operation_audited = archive_audited unarchive_audited treat_audited reject_audited
  reopen_audited bulk_transition_audited set_legacy_status_audited bulk_set_legacy_status_audited

lemma retention_audited:
  assumes "run_retention svc now s = Some (Inr (r, t))" "retention_service_of call = Inr svc"
    and "distinct (map f_id (findings s))"
  shows "audited_step\<^sup>*\<^sup>* s t"
proof -
  obtain u s1 where "given_or_now now s = (u, s1)" by fastforce
  from run_retention_total [OF assms(3) built_service(1) [OF assms(2)] this] assms(1) show ?thesis
    by (auto simp: retention_outcome_def)
qed

lemma ledger_step_apart_histories: "ledger_step s t \<Longrightarrow> quiet s t"
proof (erule ledger_stepE)
  fix c e assume "create_entry c s = Inr (e, t)"
  then show "quiet s t" using create_entry_cases(1) ledger_onlyD quiet_core by blast
next
  fix m e assume "create_manual_entry m s = Inr (e, t)"
  then obtain call where "create_entry call (snd (utcnow s)) = Inr (e, t)"
    using create_manual_entry_create by blast
  then have "quiet (snd (utcnow s)) t" using create_entry_cases(1) ledger_onlyD quiet_core by blast
  then show "quiet s t" by (simp add: quiet_def same_logs_def utcnow_def)
next
  fix i actor eff desc e assume "reverse_entry i actor eff desc s = Inr (e, t)"
  from reverse_entry_insert [OF this] obtain x s' where x: "insert_entry x s' = Inr (e, t)" "ledger_only s s'"
    by blast
  have "quiet s' t" using insert_entry_Inr(2) [OF x(1)] by (simp add: quiet_def same_logs_def)
  with ledger_onlyD [OF x(2)] quiet_core quiet_trans show "quiet s t" by blast
qed

text \<open>The invariant of the whole state.\<close>

definition histories_replay :: "db \<Rightarrow> bool" where
  "histories_replay s \<longleftrightarrow>
     replays status_history se_opportunity_id se_from_status se_to_status f_status Open s \<and>
     replays archive_history ae_opportunity_id archived_before archived_after is_archived False s \<and>
     replays presence_history pe_opportunity_id pe_from_status pe_to_status f_presence_status Active s"

definition service_ok :: "db \<Rightarrow> bool" where
  "service_ok s \<longleftrightarrow> collected_ok s \<and> histories_replay s \<and> rows_coherent s \<and>
     sound_ledger (ledger s) \<and> queue_ok s \<and> runs_claimed s"

definition logs_grow :: "db \<Rightarrow> db \<Rightarrow> bool" where
  "logs_grow s t \<longleftrightarrow> (\<exists>es. status_history t = status_history s @ es) \<and>
     (\<exists>es. archive_history t = archive_history s @ es) \<and>
     (\<exists>es. presence_history t = presence_history s @ es) \<and> (\<exists>es. ledger t = ledger s @ es)"

lemma steady_queue:
  assumes "steady s t" "queue_ok s" "runs_claimed s"
  shows "queue_ok t" "runs_claimed t"
proof -
  have "queue_step s t" using assms(1) by (intro rests) (simp_all add: steady_def)
  then have steps: "queue_step\<^sup>*\<^sup>* s t" by blast
  show "queue_ok t" using scan_queue.steps_inv [OF steps assms(2)] .
  show "runs_claimed t" by (rule runs_claimed_steps [OF steps assms(3)]) (use assms(1) in \<open>simp add: steady_def\<close>)
qed

text \<open>What any request does to the parts of the state.\<close>

lemma service_step_effect:
  assumes step: "service_step aws_io oci_io s t" and ok: "service_ok s"
    and io: "cloud_contract aws_io" "cloud_contract oci_io"
  shows "audited_step\<^sup>*\<^sup>* s t \<and> collected_ok t \<and> booked (ledger s) (ledger t) \<and> queue_ok t \<and> runs_claimed t"
proof -
  note parts = ok [unfolded service_ok_def]
  then have dist: "distinct (map f_id (findings s))" and inj: "inj (uuid4 s)"
    by (simp_all add: collected_ok_def)
  have st: ?thesis if "audited_step\<^sup>*\<^sup>* s t" "steady s t"
    using that steady_queue [OF that(2)] collected_ok_steady [OF _ that] parts by (simp add: steady_def)
  from step show ?thesis
  proof (cases rule: service_step.cases)
    case (do_retention call svc now r)
    show ?thesis by (rule st [OF retention_audited [OF do_retention(2,1) dist] steady_retention [OF do_retention(2)]])
  next
    case do_ledger
    show ?thesis
      by (rule st [OF quiet_audited [OF ledger_step_apart_histories [OF do_ledger]] steady_ledger_step [OF do_ledger]])
  next
    case (do_backfill p a n)
    obtain n' u where "backfill_dashboard_summaries p a s = Inr (n', u)" "same_source s u"
      using backfill_fold unfolding backfill_dashboard_summaries_def by blast
    with do_backfill have "same_source s t" by simp
    from st [OF apart_audited [OF apart_same_source [OF this]] steady_same_source [OF this]] show ?thesis .
  next
    case (do_request acc trigger actor_id x)
    note a = apart_manual [OF do_request]
    have steps: "queue_step\<^sup>*\<^sup>* s t" using queue_manual_step [OF do_request inj] by blast
    have "collection_runs t = collection_runs s"
      using do_request by (auto simp: queue_manual_collection_def andThen_eq_Inr Let_def case_prod_beta
          log_request_def add_scan_def env_defs)
    with apart_audited [OF a] apart_collected [OF a] parts scan_queue.steps_inv [OF steps]
      runs_claimed_steps [OF steps] a show ?thesis by (auto simp: apart_def)
  next
    case (do_work policies threshold b)
    note ioq = cloud_contract_queue [OF io(1)] cloud_contract_queue [OF io(2)]
    have "queue_ok t \<and> runs_claimed t"
      using worker_settles [of s aws_io oci_io policies threshold] ioq parts do_work by auto
    with process_once_audited [OF do_work io] parts show ?thesis by simp
  next
    case do_archive
    show ?thesis by (rule st [OF archive_audited [OF do_archive] steady_archive [OF do_archive]])
  next
    case do_unarchive
    show ?thesis by (rule st [OF unarchive_audited [OF do_unarchive] steady_unarchive [OF do_unarchive]])
  next
    case do_treat
    show ?thesis by (rule st [OF treat_audited [OF do_treat] steady_treat [OF do_treat]])
  next
    case do_reject
    show ?thesis by (rule st [OF reject_audited [OF do_reject] steady_reject [OF do_reject]])
  next
    case do_reopen
    show ?thesis by (rule st [OF reopen_audited [OF do_reopen] steady_reopen [OF do_reopen]])
  next
    case do_bulk
    show ?thesis by (rule st [OF bulk_transition_audited [OF do_bulk] steady_bulk_transition [OF do_bulk]])
  next
    case do_legacy
    show ?thesis
      by (rule st [OF set_legacy_status_audited [OF do_legacy] steady_set_legacy_status [OF do_legacy]])
  next
    case do_bulk_legacy
    show ?thesis
      by (rule st [OF bulk_set_legacy_status_audited [OF do_bulk_legacy]
            steady_bulk_set_legacy_status [OF do_bulk_legacy]])
  qed
qed

interpretation services: invariant_system service_ok
    "\<lambda>s t. service_step aws_io oci_io s t \<and> cloud_contract aws_io \<and> cloud_contract oci_io" for aws_io oci_io
proof
  fix s t
  assume a: "service_step aws_io oci_io s t \<and> cloud_contract aws_io \<and> cloud_contract oci_io" "service_ok s"
  with service_step_effect have e: "audited_step\<^sup>*\<^sup>* s t \<and> collected_ok t \<and> booked (ledger s) (ledger t) \<and>
      queue_ok t \<and> runs_claimed t" by blast
  then have st: "audited_step\<^sup>*\<^sup>* s t" by blast
  from a(2) have p: "histories_replay s" "rows_coherent s" "sound_ledger (ledger s)"
    by (simp_all add: service_ok_def)
  have "histories_replay t"
    using p(1) decision_log.steps_inv [OF st] archive_events.steps_inv [OF st] presence_log.steps_inv [OF st]
    by (simp add: histories_replay_def)
  with e p coherence.steps_inv [OF st] show "service_ok t" by (simp add: service_ok_def booked_def)
qed

section \<open>What every run of the services keeps\<close>

lemma logs_grow_refl [simp]: "logs_grow s s"
  by (simp add: logs_grow_def)

lemma logs_grow_trans: "logs_grow s t \<Longrightarrow> logs_grow t u \<Longrightarrow> logs_grow s u"
  unfolding logs_grow_def by (elim conjE exE) simp

lemma audited_logs_grow:
  assumes "audited_step\<^sup>*\<^sup>* s t" "booked (ledger s) (ledger t)"
  shows "logs_grow s t"
  unfolding logs_grow_def
  using assms(2) decision_log.steps_extend [OF assms(1)] archive_events.steps_extend [OF assms(1)]
    presence_log.steps_extend [OF assms(1)] by (simp only: booked_def simp_thms)

lemma services_run:
  assumes "(service_step aws_io oci_io)\<^sup>*\<^sup>* s t" "service_ok s"
    and io: "cloud_contract aws_io" "cloud_contract oci_io"
  shows "service_ok t \<and> logs_grow s t \<and> audited_step\<^sup>*\<^sup>* s t"
  using assms(1)
proof induction
  case (step t u)
  note e = service_step_effect [OF step.hyps(2) conjunct1 [OF step.IH] io]
  have "audited_step\<^sup>*\<^sup>* s u"
    by (rule rtranclp_trans [OF conjunct2 [OF conjunct2 [OF step.IH]] conjunct1 [OF e]])
  moreover have "service_ok u"
    using services.step_inv step.hyps(2) step.IH io by blast
  moreover have "logs_grow s u"
    using step.IH audited_logs_grow e logs_grow_trans by blast
  ultimately show ?case by blast
qed (simp add: assms(2))

text \<open>A rejection in the archive, until a decision is recorded that leaves the state Rejected.\<close>

definition kept_rejected :: "string \<Rightarrow> db \<Rightarrow> bool" where
  "kept_rejected i s \<longleftrightarrow> (\<exists>g \<in> set (findings s). f_id g = i \<and> f_status g = Rejected \<and> is_archived g)"

definition decided_again :: "string \<Rightarrow> db \<Rightarrow> db \<Rightarrow> bool" where
  "decided_again i s t \<longleftrightarrow>
     (\<exists>e \<in> set (drop (length (status_history s)) (status_history t)).
        se_opportunity_id e = i \<and> se_from_status e = Rejected)"

lemma decided_again_later:
  assumes "decided_again i s t" "status_history t = status_history s @ es"
    and "status_history u = status_history t @ es'"
  shows "decided_again i s u"
  using assms by (auto simp: decided_again_def)

lemma kept_rejected_step:
  assumes "audited_step s t" "distinct (map f_id (findings s))" "kept_rejected i s"
  shows "kept_rejected i t \<or> decided_again i s t"
proof -
  from assms(3) obtain g where g: "g \<in> set (findings s)" "f_id g = i" "f_status g = Rejected" "is_archived g"
    by (auto simp: kept_rejected_def)
  from audited_step_cases [OF assms(1)] show ?thesis
  proof
    assume "\<exists>f f'. logged_change f f' s t"
    then obtain f f' where rep: "row_replaced f f' s t" and resp: "rejection_respected f f'"
      and grow: "log_grows status_history se_opportunity_id se_from_status se_to_status f_status f f' s t"
      by (auto simp: logged_change_def)
    from grow obtain es where es: "status_history t = status_history s @ es"
      "\<forall>e \<in> set es. se_opportunity_id e = f_id f"
      "chain se_from_status se_to_status (f_status f) es (f_status f')"
      by (auto simp: log_grows_def)
    from rep have f: "f \<in> set (findings s)" "f_id f' = f_id f"
      and rows: "findings t = put_row f_id f' (findings s)" by (simp_all add: row_replaced_def)
    show ?thesis
    proof (cases "f_id f = i")
      case True
      with f g assms(2) have same: "f = g" by (metis distinct_map inj_onD)
      show ?thesis
      proof (cases es)
        case Nil
        with es(3) same g resp have "f_status f' = Rejected" "is_archived f'"
          by (auto simp: rejection_respected_def)
        moreover have "f' \<in> set (findings t)" using rows f by (metis imageI in_put_row)
        ultimately have "kept_rejected i t" using f(2) True by (auto simp: kept_rejected_def)
        then show ?thesis ..
      next
        case (Cons e es')
        with es same g have "decided_again i s t" by (simp add: decided_again_def)
        then show ?thesis ..
      qed
    next
      case False
      with rows f g have "g \<in> set (findings t)" by (auto simp: in_put_row)
      with g show ?thesis by (auto simp: kept_rejected_def)
    qed
  next
    assume "\<exists>new. rows_added new s t \<and> same_logs s t \<and> (\<forall>f \<in> set new. born f)"
    with g show ?thesis by (auto simp: kept_rejected_def rows_added_def)
  qed
qed

lemma kept_rejected_run:
  assumes "audited_step\<^sup>*\<^sup>* s t"
    "replays status_history se_opportunity_id se_from_status se_to_status f_status Open s"
    "kept_rejected i s"
  shows "kept_rejected i t \<or> decided_again i s t"
  using assms(1)
proof induction
  case (step t u)
  obtain es where es: "status_history t = status_history s @ es"
    using decision_log.steps_extend [OF step.hyps(1)] by blast
  obtain es' where es': "status_history u = status_history t @ es'"
    using decision_log.steps_extend [OF r_into_rtranclp [of audited_step, OF step.hyps(2)]] by blast
  from step.IH show ?case
  proof
    assume k: "kept_rejected i t"
    have "distinct (map f_id (findings t))"
      using decision_log.steps_inv [OF step.hyps(1) assms(2)] by (simp add: replays_def)
    from kept_rejected_step [OF step.hyps(2) this k] show ?thesis
      using es es' by (auto simp: decided_again_def)
  next
    assume "decided_again i s t"
    from decided_again_later [OF this es es'] show ?thesis ..
  qed
qed (simp add: assms(3))

section \<open>Properties\<close>

text \<open>C1: the services keep the whole state consistent.  From a consistent state, any sequence of
  requests (decisions, bulk decisions, legacy status changes, archiving, retention, ledger entries,
  summary backfills, collection requests, rounds of the worker) reaches a consistent state: the
  three histories still replay to the rows, the rows are coherent, the ledger is sound, no account
  has two active scans and every run belongs to a claimed scan.  The histories and the ledger have
  only grown.\<close>
theorem services_consistent:
  assumes "service_ok s" "(service_step aws_io oci_io)\<^sup>*\<^sup>* s t"
    and "cloud_contract aws_io" "cloud_contract oci_io"
  shows "service_ok t \<and> logs_grow s t"
  using services_run [OF assms(2,1,3,4)] by blast


text \<open>Witnesses: a round of the worker over a rejected opportunity in the archive.\<close>

definition rejected_sample :: finding where
  "rejected_sample = (finding0 ''x'')\<lparr>f_status := Rejected, f_rejected_at := Some (Aware 1 0),
     f_rejected_by := Some ''ana'', f_rejection_reason := Some ''OTHER'',
     f_archived_at := Some (Aware 1 0), f_archive_reason := Some RETENTION_POLICY\<rparr>"

definition rejected_db :: db where
  "rejected_db = queue_db\<lparr>uuid4 := \<lambda>n. replicate (Suc n) CHR ''x'', uuids := 1,
     findings := [rejected_sample],
     status_history := [\<lparr>se_id = ''e'', se_opportunity_id = ''x'', se_from_status = Open,
       se_to_status = Rejected, se_action = ''reject'', se_reason = Some ''OTHER'', se_note = None,
       se_changed_by = Some ''ana'', se_changed_at = Aware 1 0\<rparr>],
     archive_history := [\<lparr>ae_opportunity_id = ''x'', ae_action = ARCHIVE, ae_reason = RETENTION_POLICY,
       ae_changed_by = Some ''ana'', ae_collection_run_id = None, ae_occurred_at = Aware 1 0,
       ae_context = JObj []\<rparr>]\<rparr>"

lemma rejected_db_ok: "service_ok rejected_db" "kept_rejected ''x'' rejected_db"
proof -
  have "inj (\<lambda>n. replicate (Suc n) CHR ''x'')" by (auto intro!: injI dest: arg_cong [where f = length])
  moreover have "uuid4 rejected_db = (\<lambda>n. replicate (Suc n) CHR ''x'')"
    by (simp add: rejected_db_def del: replicate_Suc)
  ultimately have "inj (uuid4 rejected_db)" by (simp only:)
  moreover have "uuid4 rejected_db 0 = ''x''" "uuids rejected_db = 1" by (simp_all add: rejected_db_def)
  moreover have "findings rejected_db = [rejected_sample]" "observations rejected_db = []"
    "ledger rejected_db = []" "scans rejected_db = []" "collection_runs rejected_db = []"
    by (simp_all add: rejected_db_def queue_db_def empty_db_def)
  moreover have "histories_replay rejected_db" unfolding histories_replay_def replays_def by code_simp
  moreover have "rows_coherent rejected_db" by code_simp
  moreover have "f_id rejected_sample = ''x''" by (simp add: rejected_sample_def finding0_def)
  moreover have "kept_rejected ''x'' rejected_db" unfolding kept_rejected_def by code_simp
  ultimately show "service_ok rejected_db" "kept_rejected ''x'' rejected_db"
    by (auto simp: service_ok_def collected_ok_def queue_ok_def runs_claimed_def issued_def image_iff)
qed

definition worked_db :: db where
  "worked_db = snd (process_once (collection_executors volume_io no_io) (\<lambda>_ _. []) 2 rejected_db)"

lemma worked_db_step: "(service_step volume_io no_io)\<^sup>*\<^sup>* rejected_db worked_db"
proof (rule r_into_rtranclp, rule do_work)
  show "process_once (collection_executors volume_io no_io) (\<lambda>_ _. []) 2 rejected_db =
      (fst (process_once (collection_executors volume_io no_io) (\<lambda>_ _. []) 2 rejected_db), worked_db)"
    by (simp add: worked_db_def)
qed

lemma sample_contracts: "cloud_contract volume_io" "cloud_contract no_io"
  by (simp_all add: cloud_contract_def volume_io_def no_io_def Let_def)

lemma services_consistent_witness: "service_ok worked_db \<and> logs_grow rejected_db worked_db"
  by (rule services_consistent [OF rejected_db_ok(1) worked_db_step sample_contracts])


end
