(* ===== verification/Cycles.thy ===== *)
theory Cycles
  imports AuditTrail "HOL-Library.Product_Lexorder" "HOL-Library.List_Lexorder"
begin

text \<open>
  The history of periods (backend/app/services/opportunity_history.py and the guards of
  models/opportunity_history_cycle.py): cycles that cover time without overlap, and the immutable
  snapshots taken of every opportunity observed in a cycle when the cycle is closed.  Columns of
  groups and of listings that the database leaves unordered come out sorted.  The branches for
  \<open>IntegrityError\<close> of a concurrent insert cannot be taken by one session.
\<close>

section \<open>Periods\<close>

definition wall :: "datetime \<Rightarrow> int" where
  "wall t = (case t of Naive w \<Rightarrow> w | Aware w off \<Rightarrow> w)"

text \<open>\<open>datetime(year, month, 1)\<close>, whose year must be at most 9999.\<close>

definition first_of_month :: "int \<Rightarrow> int \<Rightarrow> int result" where
  "first_of_month y m =
     andThen (guard (y \<le> 9999) (ValueError ''year is out of range'')) (\<lambda>_.
     Inr (days_from_civil y m 1 * day))"

definition next_month :: "int \<Rightarrow> int \<Rightarrow> int \<times> int" where
  "next_month y m = (if m = 12 then (y + 1, 1) else (y, m + 1))"

definition month_label :: "int \<Rightarrow> int \<Rightarrow> string" where
  "month_label y m = pad 2 (nat m) @ ''/'' @ show_nat (nat y)"

definition month_bounds :: "datetime \<Rightarrow> (datetime \<times> datetime \<times> string) result" where
  "month_bounds timestamp =
     (case civil_from_days (date_of (utc timestamp)) of (y, m, _) \<Rightarrow>
       andThen (first_of_month y m) (\<lambda>start.
       andThen (case next_month y m of (y', m') \<Rightarrow> first_of_month y' m') (\<lambda>finish.
       Inr (Aware start 0, Aware finish 0, month_label y m))))"

definition safe_object :: "(string \<Rightarrow> string) \<Rightarrow> json \<Rightarrow> json" where
  "safe_object sha payload =
     (let v = sanitize_audit_payload sha payload 16384 in if is_object v then v else JObj [])"

section \<open>Cycles\<close>

definition get_cycle_row :: "string \<Rightarrow> db \<Rightarrow> history_cycle option" where
  "get_cycle_row i s = find_row hc_id i (history_cycles s)"

definition put_cycle :: "history_cycle \<Rightarrow> db \<Rightarrow> db" where
  "put_cycle c s = s\<lparr>history_cycles := put_row hc_id c (history_cycles s)\<rparr>"

definition overlaps :: "datetime \<Rightarrow> datetime \<Rightarrow> history_cycle \<Rightarrow> bool" where
  "overlaps start finish c \<longleftrightarrow> earlier (hc_period_start c) finish \<and> earlier start (hc_period_end c)"

definition new_cycle :: "string \<Rightarrow> datetime \<Rightarrow> datetime \<Rightarrow> string \<Rightarrow> string \<Rightarrow> history_cycle" where
  "new_cycle i start finish label tz =
     \<lparr>hc_id = i,
       hc_label = (if strip label = [] then isoformat start @ '' - '' @ isoformat finish else strip label),
       hc_period_start = start, hc_period_end = finish, hc_status = CycleOpen,
       hc_timezone = (if tz = [] then ''UTC'' else tz), hc_policy_version = None,
       hc_closed_at = None, hc_closed_by = None, hc_close_reason = None, hc_metadata = JObj []\<rparr>"

definition create_cycle :: "datetime \<Rightarrow> datetime \<Rightarrow> string \<Rightarrow> string \<Rightarrow> db \<Rightarrow>
    (history_cycle \<times> db) result" where
  "create_cycle period_start period_end label tz s =
     (let start = utc period_start; finish = utc period_end
      in andThen (guard (earlier start finish)
           (HTTPException 422 ''period_start must be before period_end'')) (\<lambda>_.
         andThen (guard (\<not> list_ex (overlaps start finish) (history_cycles s))
           (HTTPException 409 ''Opportunity history cycle overlaps an existing cycle'')) (\<lambda>_.
         let (i, t) = new_uuid s; c = new_cycle i start finish label tz
         in Inr (c, t\<lparr>history_cycles := history_cycles t @ [c]\<rparr>))))"

definition cycle_with_bounds :: "datetime \<Rightarrow> datetime \<Rightarrow> db \<Rightarrow> history_cycle option" where
  "cycle_with_bounds start finish s =
     find (\<lambda>c. instant (hc_period_start c) = instant start \<and>
               instant (hc_period_end c) = instant finish) (history_cycles s)"

definition get_or_create_month_cycle :: "datetime \<Rightarrow> db \<Rightarrow> (history_cycle \<times> db) result" where
  "get_or_create_month_cycle timestamp s =
     andThen (month_bounds timestamp) (\<lambda>(start, finish, label).
     case cycle_with_bounds start finish s of
       Some c \<Rightarrow> Inr (c, s)
     | None \<Rightarrow> create_cycle start finish label ''UTC'' s)"

section \<open>Collections of a period\<close>

definition in_cycle :: "history_cycle \<Rightarrow> datetime \<Rightarrow> bool" where
  "in_cycle c t \<longleftrightarrow> no_later (hc_period_start c) t \<and> earlier t (hc_period_end c)"

record cycle_coverage =
  cg_total :: nat
  cg_success :: nat
  cg_failed :: nat
  cg_running :: nat

definition cycle_runs :: "db \<Rightarrow> history_cycle \<Rightarrow> collection_run list" where
  "cycle_runs s c = filter (\<lambda>r. in_cycle c (cr_started_at r)) (collection_runs s)"

definition collection_coverage :: "db \<Rightarrow> history_cycle \<Rightarrow> cycle_coverage" where
  "collection_coverage s c =
     (let n = (\<lambda>st. count_where (\<lambda>r. cr_status r = st) (cycle_runs s c))
      in \<lparr>cg_total = length (cycle_runs s c), cg_success = n SUCCESS, cg_failed = n FAILED,
          cg_running = n RUNNING\<rparr>)"

definition coverage_json :: "cycle_coverage \<Rightarrow> json" where
  "coverage_json g =
     JObj [(''total'', JInt (int (cg_total g))), (''success'', JInt (int (cg_success g))),
           (''failed'', JInt (int (cg_failed g))), (''running'', JInt (int (cg_running g)))]"

section \<open>What a snapshot is taken of\<close>

definition observation_order :: "observation \<Rightarrow> int \<times> string" where
  "observation_order ob = (instant (o_observed_at ob), o_id ob)"

record source_row =
  sr_finding :: finding
  sr_account_name :: "string option"
  sr_first_observed_at :: datetime
  sr_last_observed_at :: datetime
  sr_occurrences :: nat
  sr_latest :: observation
  sr_first_run_id :: string

definition cycle_observations :: "db \<Rightarrow> history_cycle \<Rightarrow> string \<Rightarrow> observation list" where
  "cycle_observations s c i =
     filter (\<lambda>ob. o_opportunity_id ob = i \<and> in_cycle c (o_observed_at ob)) (observations s)"

definition account_names :: "db \<Rightarrow> finding \<Rightarrow> string option list" where
  "account_names s f =
     (case filter (\<lambda>a. ca_provider a = f_provider f \<and> ca_native_account_id a = f_account_id f)
             (cloud_accounts s) of
        [] \<Rightarrow> [None]
      | as \<Rightarrow> map (Some \<circ> ca_name) as)"

definition source_row_of :: "finding \<Rightarrow> observation list \<Rightarrow> string option \<Rightarrow> source_row" where
  "source_row_of f obs account_name =
     (let ranked = sort_key observation_order obs
      in \<lparr>sr_finding = f, sr_account_name = account_name,
          sr_first_observed_at = o_observed_at (hd ranked),
          sr_last_observed_at = o_observed_at (last ranked),
          sr_occurrences = length (remdups (map o_collection_run_id obs)),
          sr_latest = last ranked, sr_first_run_id = o_collection_run_id (hd ranked)\<rparr>)"

definition snapshot_source_rows :: "db \<Rightarrow> history_cycle \<Rightarrow> source_row list" where
  "snapshot_source_rows s c =
     concat (map (\<lambda>f. let obs = cycle_observations s c (f_id f)
                     in if obs = [] then [] else map (source_row_of f obs) (account_names s f))
       (sort_key f_id (findings s)))"

definition snapshot_of :: "(string \<Rightarrow> string) \<Rightarrow> string \<Rightarrow> string \<Rightarrow> datetime \<Rightarrow> string \<Rightarrow> source_row \<Rightarrow>
    history_snapshot" where
  "snapshot_of sha i cycle_id captured_at reason row =
     (let f = sr_finding row; ob = sr_latest row
      in \<lparr>hs_id = i, hs_cycle_id = cycle_id, hs_opportunity_id = Some (f_id f),
          hs_fingerprint = f_fingerprint f, hs_provider = f_provider f,
          hs_account_id = f_account_id f, hs_account_name = sr_account_name row,
          hs_region = f_region f, hs_service = f_service f, hs_resource_type = f_resource_type f,
          hs_resource_id = f_resource_id f, hs_resource_name = f_resource_name f,
          hs_rule_key = f_rule_key f, hs_title = f_title f, hs_description = f_description f,
          hs_status = f_status f, hs_presence_status = f_presence_status f,
          hs_needs_review = f_needs_review f, hs_archived = (f_archived_at f \<noteq> None),
          hs_archive_reason = f_archive_reason f, hs_treated_at = f_treated_at f,
          hs_rejected_at = f_rejected_at f, hs_resolved_externally_at = f_resolved_externally_at f,
          hs_treatment_note = f_treatment_note f, hs_rejection_reason = f_rejection_reason f,
          hs_rejection_note = f_rejection_note f,
          hs_current_monthly_cost = o_current_monthly_cost ob,
          hs_estimated_monthly_savings = o_estimated_monthly_savings ob,
          hs_currency = o_currency ob, hs_severity = o_severity ob, hs_confidence = o_confidence ob,
          hs_first_seen_at = f_first_seen_at f, hs_last_seen_at = f_last_seen_at f,
          hs_first_observed_in_cycle_at = sr_first_observed_at row,
          hs_last_observed_in_cycle_at = sr_last_observed_at row,
          hs_occurrence_count_in_cycle = int (sr_occurrences row),
          hs_total_occurrence_count = f_total_occurrence_count f,
          hs_first_collection_run_id_in_cycle = Some (sr_first_run_id row),
          hs_last_collection_run_id_in_cycle = Some (o_collection_run_id ob),
          hs_provider_metadata = safe_object sha (o_provider_metadata ob),
          hs_evidence = safe_object sha (o_evidence ob),
          hs_captured_at = captured_at, hs_capture_reason = reason\<rparr>)"

definition add_snapshot :: "string \<Rightarrow> datetime \<Rightarrow> string \<Rightarrow> source_row \<Rightarrow> db \<Rightarrow> db" where
  "add_snapshot cycle_id captured_at reason row s =
     (let (i, t) = new_uuid s
      in t\<lparr>history_snapshots := history_snapshots t @
            [snapshot_of (sha256 s) i cycle_id captured_at reason row]\<rparr>)"

section \<open>Totals of a closed cycle\<close>

definition cycle_snapshots :: "db \<Rightarrow> string \<Rightarrow> history_snapshot list" where
  "cycle_snapshots s i = filter (\<lambda>x. hs_cycle_id x = i) (history_snapshots s)"

definition group_counts :: "('r \<Rightarrow> string) \<Rightarrow> 'r list \<Rightarrow> (string \<times> nat) list" where
  "group_counts column rows =
     map (\<lambda>k. (k, count_where (\<lambda>r. column r = k) rows)) (sort (remdups (map column rows)))"

definition group_sums :: "('r \<Rightarrow> string) \<Rightarrow> ('r \<Rightarrow> decimal option) \<Rightarrow> 'r list \<Rightarrow> (string \<times> decimal) list" where
  "group_sums column amount rows =
     map (\<lambda>k. (k, sum_list (map (\<lambda>r. case amount r of None \<Rightarrow> 0 | Some a \<Rightarrow> a)
                              (filter (\<lambda>r. column r = k) rows))))
       (sort (remdups (map column rows)))"

record cycle_totals =
  ct_total :: nat
  ct_by_status :: "(string \<times> nat) list"
  ct_by_severity :: "(string \<times> nat) list"
  ct_potential_savings :: "(string \<times> decimal) list"
  ct_current_cost :: "(string \<times> decimal) list"
  ct_providers :: nat
  ct_accounts :: nat

definition cycle_stats :: "db \<Rightarrow> string \<Rightarrow> cycle_totals" where
  "cycle_stats s i =
     (let rows = cycle_snapshots s i;
          by_status = group_counts (status_text \<circ> hs_status) rows
      in \<lparr>ct_total = sum_list (map snd by_status), ct_by_status = by_status,
          ct_by_severity = group_counts hs_severity rows,
          ct_potential_savings = group_sums hs_currency hs_estimated_monthly_savings rows,
          ct_current_cost = group_sums hs_currency (Some \<circ> hs_current_monthly_cost) rows,
          ct_providers = length (remdups (map hs_provider rows)),
          ct_accounts = length (remdups (map hs_account_id rows))\<rparr>)"

text \<open>\<open>str\<close> of a sum of amounts with two decimals; a zero sum is replaced by \<open>Decimal("0")\<close>.\<close>

definition amount_text :: "decimal \<Rightarrow> string" where
  "amount_text x =
     (let cents = round_half_even (x * 100); n = nat \<bar>cents\<bar>
      in if x = 0 then ''0''
         else (if cents < 0 then ''-'' else []) @ show_nat (n div 100) @ ''.'' @ pad 2 (n mod 100))"

definition counts_json :: "(string \<times> nat) list \<Rightarrow> json" where
  "counts_json rows = JObj (map (\<lambda>(k, n). (k, JInt (int n))) rows)"

definition money_json :: "(string \<times> decimal) list \<Rightarrow> json" where
  "money_json rows =
     JList (map (\<lambda>(k, a). JObj [(''currency'', JStr k), (''amount'', JStr (amount_text a))]) rows)"

definition totals_json :: "cycle_totals \<Rightarrow> json" where
  "totals_json t =
     JObj [(''total'', JInt (int (ct_total t))), (''by_status'', counts_json (ct_by_status t)),
           (''by_severity'', counts_json (ct_by_severity t)),
           (''potential_savings'', money_json (ct_potential_savings t)),
           (''current_cost'', money_json (ct_current_cost t)),
           (''providers'', JInt (int (ct_providers t))), (''accounts'', JInt (int (ct_accounts t)))]"

section \<open>Closing a cycle\<close>

text \<open>
  The metadata of the closed cycle; the listener on flushes keeps the policy that was recorded
  when the cycle was created.
\<close>

definition closed_metadata :: "json \<Rightarrow> nat \<Rightarrow> cycle_coverage \<Rightarrow> json" where
  "closed_metadata old n g =
     (let current = [(''snapshot_count'', JInt (int n)), (''collection_coverage'', coverage_json g)];
          policy = jget ''policy'' old
      in JObj (if policy = JNull then current else current @ [(''policy'', policy)]))"

definition closed_cycle :: "history_cycle \<Rightarrow> datetime \<Rightarrow> user option \<Rightarrow> string \<Rightarrow> nat \<Rightarrow>
    cycle_coverage \<Rightarrow> history_cycle" where
  "closed_cycle c captured_at actor reason n g =
     c\<lparr>hc_status := CycleClosed, hc_closed_at := Some captured_at,
       hc_closed_by := map_option u_id actor, hc_close_reason := Some reason,
       hc_metadata := closed_metadata (hc_metadata c) n g\<rparr>"

definition close_audit :: "history_cycle \<Rightarrow> user option \<Rightarrow> string \<Rightarrow> nat \<Rightarrow> cycle_totals \<Rightarrow>
    cycle_coverage \<Rightarrow> string \<Rightarrow> audit_call" where
  "close_audit c actor reason n t g correlation =
     audit_call0\<lparr>ac_actor := actor, ac_module := ''opportunities'',
       ac_action := ''opportunity_cycle.close'', ac_entity_type := ''opportunity_history_cycle'',
       ac_entity_id := Some (hc_id c), ac_entity_label := Some (hc_label c),
       ac_source := (if actor = None then ''SYSTEM'' else ''API''),
       ac_metadata := Some (JObj
         [(''cycle_id'', JStr (hc_id c)), (''label'', JStr (hc_label c)),
          (''period_start'', JTime (hc_period_start c)), (''period_end'', JTime (hc_period_end c)),
          (''snapshot_count'', JInt (int n)), (''totals'', totals_json t),
          (''currencies'', JList (map JStr (sort (remdups
             (map fst (ct_potential_savings t) @ map fst (ct_current_cost t)))))),
          (''collection_runs_count'', JInt (int (cg_total g))), (''close_reason'', JStr reason)]),
       ac_correlation_id := Some correlation\<rparr>"

definition close_open_cycle :: "history_cycle \<Rightarrow> user option \<Rightarrow> string \<Rightarrow> db \<Rightarrow>
    (history_cycle \<times> db) result" where
  "close_open_cycle c actor reason s =
     (let (captured_at, s1) = utcnow s; rows = snapshot_source_rows s1 c; g = collection_coverage s1 c
      in andThen (guard (distinct (map (f_id \<circ> sr_finding) rows)) IntegrityError) (\<lambda>_.
         let s2 = fold (add_snapshot (hc_id c) captured_at reason) rows s1;
             c' = closed_cycle c captured_at actor reason (length rows) g;
             s3 = put_cycle c' s2;
             totals = cycle_stats s3 (hc_id c);
             (correlation, s4) = new_uuid s3
         in andThen (record_audit (close_audit c' actor reason (length rows) totals g correlation) s4)
              (\<lambda>t. Inr (c', t))))"

definition close_cycle :: "string \<Rightarrow> user option \<Rightarrow> string \<Rightarrow> db \<Rightarrow> (history_cycle \<times> db) result" where
  "close_cycle cycle_id actor close_reason s =
     (let reason = strip (upper close_reason)
      in andThen (guard (reason \<in> {''MANUAL'', ''SCHEDULED'', ''SYSTEM''})
           (HTTPException 422 ''Unsupported close reason'')) (\<lambda>_.
         case get_cycle_row cycle_id s of
           None \<Rightarrow> Inl (HTTPException 404 ''Opportunity history cycle not found'')
         | Some c \<Rightarrow>
             if hc_status c = CycleClosed then Inr (c, s)
             else
               andThen (guard (count_where (\<lambda>r. cr_status r = RUNNING) (cycle_runs s c) = 0)
                 (HTTPException 409 ''Este periodo ainda possui coletas em andamento. Aguarde a conclusao antes de fechar o ciclo.'')) (\<lambda>_.
               andThen (guard (cycle_snapshots s (hc_id c) = [])
                 (HTTPException 409 ''Open cycle contains snapshots and cannot be safely closed'')) (\<lambda>_.
               close_open_cycle c actor reason s))))"

section \<open>Reading\<close>

record cycle_payload =
  cp_cycle :: history_cycle
  cp_snapshot_count :: nat
  cp_totals :: "cycle_totals option"
  cp_coverage :: json

definition cycle_payload_of :: "db \<Rightarrow> history_cycle \<Rightarrow> cycle_payload" where
  "cycle_payload_of s c =
     (let stored = jget ''collection_coverage'' (hc_metadata c)
      in \<lparr>cp_cycle = c, cp_snapshot_count = length (cycle_snapshots s (hc_id c)),
          cp_totals = (if hc_status c = CycleClosed then Some (cycle_stats s (hc_id c)) else None),
          cp_coverage = (if is_object stored then stored
                         else coverage_json (collection_coverage s c))\<rparr>)"

definition list_cycles :: "db \<Rightarrow> cycle_payload list \<times> nat" where
  "list_cycles s =
     (let cycles = rev (sort_key (instant \<circ> hc_period_start) (history_cycles s))
      in (map (cycle_payload_of s) cycles, length cycles))"

definition get_cycle :: "string \<Rightarrow> db \<Rightarrow> history_cycle result" where
  "get_cycle i s =
     (case get_cycle_row i s of
        None \<Rightarrow> Inl (HTTPException 404 ''Opportunity history cycle not found'')
      | Some c \<Rightarrow> Inr c)"

text \<open>The payload of a snapshot has its columns; missing objects read as empty ones.\<close>

definition object_or_empty :: "json \<Rightarrow> json" where
  "object_or_empty v = (if v = JNull then JObj [] else v)"

definition snapshot_payload :: "history_snapshot \<Rightarrow> history_snapshot" where
  "snapshot_payload x =
     x\<lparr>hs_provider_metadata := object_or_empty (hs_provider_metadata x),
       hs_evidence := object_or_empty (hs_evidence x)\<rparr>"

definition get_snapshot :: "string \<Rightarrow> db \<Rightarrow> history_snapshot result" where
  "get_snapshot i s =
     (case find_row hs_id i (history_snapshots s) of
        None \<Rightarrow> Inl (HTTPException 404 ''Opportunity history snapshot not found'')
      | Some x \<Rightarrow> Inr (snapshot_payload x))"

section \<open>Listing snapshots\<close>

text \<open>\<open>text ILIKE pattern\<close>: percent, underscore and the escaping backslash.\<close>

fun like :: "string \<Rightarrow> string \<Rightarrow> bool" where
  "like [] t \<longleftrightarrow> t = []"
| "like (p # ps) [] \<longleftrightarrow> p = CHR ''%'' \<and> like ps []"
| "like (p # ps) (c # t) \<longleftrightarrow>
     (if p = CHR ''%'' then like ps (c # t) \<or> like (p # ps) t
      else if p = CHR 0x5C then (case ps of [] \<Rightarrow> False | q # qs \<Rightarrow> q = c \<and> like qs t)
      else (p = CHR ''_'' \<or> p = c) \<and> like ps t)"

definition ilike :: "string \<Rightarrow> string option \<Rightarrow> bool" where
  "ilike pattern t = (case t of None \<Rightarrow> False | Some x \<Rightarrow> like (lower pattern) (lower x))"

text \<open>The values a listing can be sorted by; an amount that is no number sorts last.\<close>

datatype sort_value = NumberKey rat | TextKey string | TopKey

fun sort_code :: "sort_value \<Rightarrow> nat \<times> rat \<times> string" where
  "sort_code (NumberKey x) = (0, x, [])"
| "sort_code (TextKey t) = (1, 0, t)"
| "sort_code TopKey = (2, 0, [])"

lemma sort_code_inj: "sort_code x = sort_code y \<longleftrightarrow> x = y"
  by (cases x; cases y) simp_all

instantiation sort_value :: linorder
begin

definition less_eq_sort_value :: "sort_value \<Rightarrow> sort_value \<Rightarrow> bool" where
  "x \<le> y \<longleftrightarrow> sort_code x \<le> sort_code y"

definition less_sort_value :: "sort_value \<Rightarrow> sort_value \<Rightarrow> bool" where
  "x < y \<longleftrightarrow> sort_code x < sort_code y"

instance
proof
  fix x y z :: sort_value
  note defs = less_eq_sort_value_def less_sort_value_def
  show "x < y \<longleftrightarrow> x \<le> y \<and> \<not> y \<le> x" unfolding defs by (rule less_le_not_le)
  show "x \<le> x" unfolding defs by (rule order_refl)
  show "x \<le> y \<Longrightarrow> y \<le> z \<Longrightarrow> x \<le> z" unfolding defs by (rule order_trans)
  show "x \<le> y \<Longrightarrow> y \<le> x \<Longrightarrow> x = y" unfolding defs using order_antisym sort_code_inj by blast
  show "x \<le> y \<or> y \<le> x" unfolding defs by (rule linear)
qed

end

definition severity_rank :: "string \<Rightarrow> int" where
  "severity_rank sev = (if sev = ''high'' then 3 else if sev = ''medium'' then 2 else 1)"

definition time_key :: "datetime \<Rightarrow> sort_value" where
  "time_key t = NumberKey (of_int (instant t))"

definition savings_key :: "history_snapshot \<Rightarrow> sort_value" where
  "savings_key x = (case hs_estimated_monthly_savings x of None \<Rightarrow> TopKey | Some a \<Rightarrow> NumberKey a)"

definition sort_columns :: "(string \<times> (history_snapshot \<Rightarrow> sort_value)) list" where
  "sort_columns =
     [(''estimated_savings'', savings_key),
      (''current_cost'', \<lambda>x. NumberKey (hs_current_monthly_cost x)),
      (''severity'', \<lambda>x. NumberKey (of_int (severity_rank (hs_severity x)))),
      (''first_observed_in_cycle_at'', \<lambda>x. time_key (hs_first_observed_in_cycle_at x)),
      (''last_observed_in_cycle_at'', \<lambda>x. time_key (hs_last_observed_in_cycle_at x)),
      (''status'', \<lambda>x. TextKey (status_text (hs_status x))),
      (''resource'', \<lambda>x. TextKey (hs_resource_id x)),
      (''account'', \<lambda>x. TextKey (hs_account_id x))]"

definition sort_column :: "string \<Rightarrow> history_snapshot \<Rightarrow> sort_value" where
  "sort_column name = (case map_of sort_columns name of None \<Rightarrow> savings_key | Some k \<Rightarrow> k)"

record snapshot_query =
  sq_provider :: "string option"
  sq_account_id :: "string option"
  sq_region :: "string option"
  sq_service :: "string option"
  sq_resource_type :: "string option"
  sq_status :: "string option"
  sq_presence_status :: "string option"
  sq_severity :: "string option"
  sq_rule :: "string option"
  sq_search :: "string option"

definition if_given :: "string option \<Rightarrow> (string \<Rightarrow> bool) \<Rightarrow> bool" where
  "if_given v condition \<longleftrightarrow> \<not> truthy v \<or> condition (the v)"

definition snapshot_matches :: "snapshot_query \<Rightarrow> history_snapshot \<Rightarrow> bool" where
  "snapshot_matches q x \<longleftrightarrow>
     if_given (sq_provider q) (\<lambda>v. hs_provider x = lower v) \<and>
     if_given (sq_account_id q) (\<lambda>v. hs_account_id x = v) \<and>
     if_given (sq_region q) (\<lambda>v. hs_region x = Some v) \<and>
     if_given (sq_service q) (\<lambda>v. hs_service x = v) \<and>
     if_given (sq_resource_type q) (\<lambda>v. hs_resource_type x = Some v) \<and>
     if_given (sq_status q) (\<lambda>v. status_text (hs_status x) = v) \<and>
     if_given (sq_presence_status q) (\<lambda>v. presence_text (hs_presence_status x) = v) \<and>
     if_given (sq_severity q) (\<lambda>v. hs_severity x = v) \<and>
     if_given (sq_rule q) (\<lambda>v. hs_rule_key x = v) \<and>
     if_given (sq_search q) (\<lambda>v. let pattern = ''%'' @ strip v @ ''%'' in
       ilike pattern (Some (hs_title x)) \<or> ilike pattern (Some (hs_resource_id x)) \<or>
       ilike pattern (hs_resource_name x) \<or> ilike pattern (Some (hs_account_id x)) \<or>
       ilike pattern (hs_account_name x))"

definition ordered :: "string \<Rightarrow> string \<Rightarrow> history_snapshot list \<Rightarrow> history_snapshot list" where
  "ordered sort_by order rows =
     (let by_id = sort_key hs_id rows
      in if order = ''asc'' then sort_key (sort_column sort_by) by_id
         else rev (sort_key (sort_column sort_by) (rev by_id)))"

record snapshot_page =
  sp_items :: "history_snapshot list"
  sp_total :: nat
  sp_page :: nat
  sp_page_size :: nat
  sp_total_pages :: nat

definition list_snapshots :: "string \<Rightarrow> snapshot_query \<Rightarrow> nat \<Rightarrow> nat \<Rightarrow> string \<Rightarrow> string \<Rightarrow> db \<Rightarrow>
    snapshot_page result" where
  "list_snapshots cycle_id q page page_size sort_by order s =
     andThen (get_cycle cycle_id s) (\<lambda>c.
     andThen (guard (hc_status c = CycleClosed) (HTTPException 409
       ''Previa - periodo ainda nao fechado. Snapshots definitivos existem apenas para ciclos CLOSED.'')) (\<lambda>_.
     let rows = filter (snapshot_matches q) (cycle_snapshots s cycle_id); n = length rows
     in Inr \<lparr>sp_items = map snapshot_payload (take page_size
               (drop ((page - 1) * page_size) (ordered sort_by order rows))),
             sp_total = n, sp_page = page, sp_page_size = page_size,
             sp_total_pages = (if n = 0 then 0 else (n + page_size - 1) div page_size)\<rparr>))"

end
