(* ===== verification/Closing.thy ===== *)
theory Closing
  imports Cycles
begin

text \<open>
  What closing a cycle does: exactly one snapshot for every opportunity observed in the cycle, which
  holds the opportunity as it is and the figures of its last observation.
\<close>

section \<open>Closing a cycle takes one snapshot per observed opportunity\<close>

definition observed_in_cycle :: "db \<Rightarrow> history_cycle \<Rightarrow> finding \<Rightarrow> bool" where
  "observed_in_cycle s c f \<longleftrightarrow> cycle_observations s c (f_id f) \<noteq> []"

text \<open>Accounts are unique, as their table's constraint requires.\<close>

definition accounts_unique :: "db \<Rightarrow> bool" where
  "accounts_unique s \<longleftrightarrow> distinct (map (\<lambda>a. (ca_provider a, ca_native_account_id a)) (cloud_accounts s))"

lemma account_names_one:
  assumes "accounts_unique s"
  obtains n where "account_names s f = [n]"
proof -
  have "length (filter (\<lambda>a. ca_provider a = p \<and> ca_native_account_id a = i) as) \<le> 1"
    if "distinct (map (\<lambda>a. (ca_provider a, ca_native_account_id a)) as)" for p i and as :: "cloud_account list"
    using that
  proof (induction as)
    case (Cons a as)
    show ?case
    proof (cases "ca_provider a = p \<and> ca_native_account_id a = i")
      case True
      have "(ca_provider a, ca_native_account_id a) \<notin> (\<lambda>a. (ca_provider a, ca_native_account_id a)) ` set as"
        using Cons.prems by simp
      then have "filter (\<lambda>a. ca_provider a = p \<and> ca_native_account_id a = i) as = []"
        using True unfolding filter_empty_conv by (metis (mono_tags, lifting) image_eqI)
      with True show ?thesis by simp
    next
      case False
      with Cons show ?thesis by auto
    qed
  qed simp
  then have "length (filter (\<lambda>a. ca_provider a = f_provider f \<and> ca_native_account_id a = f_account_id f)
      (cloud_accounts s)) \<le> 1" using assms by (simp add: accounts_unique_def)
  then obtain n where "account_names s f = [n]"
    unfolding account_names_def
    by (cases "filter (\<lambda>a. ca_provider a = f_provider f \<and> ca_native_account_id a = f_account_id f)
      (cloud_accounts s)") auto
  with that show thesis .
qed

text \<open>The row of an opportunity, when accounts are unique.\<close>

definition source_row_for :: "db \<Rightarrow> history_cycle \<Rightarrow> finding \<Rightarrow> source_row" where
  "source_row_for s c f = source_row_of f (cycle_observations s c (f_id f)) (hd (account_names s f))"

lemma snapshot_source_rows_eq:
  assumes "accounts_unique s"
  shows "snapshot_source_rows s c =
    map (source_row_for s c) (filter (observed_in_cycle s c) (sort_key f_id (findings s)))"
proof -
  have one: "(let obs = cycle_observations s c (f_id f)
      in if obs = [] then [] else map (source_row_of f obs) (account_names s f)) =
      (if observed_in_cycle s c f then [source_row_for s c f] else [])" for f
  proof -
    obtain n where "account_names s f = [n]" using account_names_one [OF assms] .
    then show ?thesis by (simp add: observed_in_cycle_def source_row_for_def Let_def)
  qed
  have "concat (map (\<lambda>f. if P f then [g f] else []) fs) = map g (filter P fs)" for P g and fs :: "finding list"
    by (induction fs) simp_all
  then show ?thesis unfolding snapshot_source_rows_def one .
qed

lemma source_row_finding [simp]: "sr_finding (source_row_for s c f) = f"
  by (simp add: source_row_for_def source_row_of_def Let_def)

text \<open>What taking snapshots changes: the snapshots and the stream of identifiers.\<close>

fun snapshots_taken :: "(string \<Rightarrow> string) \<Rightarrow> (nat \<Rightarrow> string) \<Rightarrow> nat \<Rightarrow> string \<Rightarrow> datetime \<Rightarrow> string \<Rightarrow>
    source_row list \<Rightarrow> history_snapshot list" where
  "snapshots_taken sha ids n cycle_id captured_at reason [] = []"
| "snapshots_taken sha ids n cycle_id captured_at reason (row # rows) =
     snapshot_of sha (ids n) cycle_id captured_at reason row #
     snapshots_taken sha ids (Suc n) cycle_id captured_at reason rows"

lemma add_snapshots:
  "fold (add_snapshot i captured_at reason) rows s =
     s\<lparr>history_snapshots := history_snapshots s @
         snapshots_taken (sha256 s) (uuid4 s) (uuids s) i captured_at reason rows,
       uuids := uuids s + length rows\<rparr>"
  by (induction rows arbitrary: s) (simp_all add: add_snapshot_def new_uuid_def Let_def)

lemma snapshots_taken_fields:
  "map hs_opportunity_id (snapshots_taken sha ids n i t r rows) = map (\<lambda>row. Some (f_id (sr_finding row))) rows"
  "length (snapshots_taken sha ids n i t r rows) = length rows"
  "x \<in> set (snapshots_taken sha ids n i t r rows) \<Longrightarrow>
     \<exists>k row. n \<le> k \<and> k < n + length rows \<and> row \<in> set rows \<and> x = snapshot_of sha (ids k) i t r row"
proof -
  show "map hs_opportunity_id (snapshots_taken sha ids n i t r rows) =
      map (\<lambda>row. Some (f_id (sr_finding row))) rows"
    by (induction rows arbitrary: n) (simp_all add: snapshot_of_def Let_def)
  show "length (snapshots_taken sha ids n i t r rows) = length rows"
    by (induction rows arbitrary: n) simp_all
  show "x \<in> set (snapshots_taken sha ids n i t r rows) \<Longrightarrow>
      \<exists>k row. n \<le> k \<and> k < n + length rows \<and> row \<in> set rows \<and> x = snapshot_of sha (ids k) i t r row"
  proof (induction rows arbitrary: n)
    case (Cons row rows)
    show ?case
    proof (cases "x = snapshot_of sha (ids n) i t r row")
      case True
      then show ?thesis by (intro exI [of _ n] exI [of _ row]) simp
    next
      case False
      with Cons.prems have "x \<in> set (snapshots_taken sha ids (Suc n) i t r rows)" by simp
      from Cons.IH [OF this] obtain k row' where "Suc n \<le> k" "k < Suc n + length rows" "row' \<in> set rows"
        "x = snapshot_of sha (ids k) i t r row'" by blast
      then show ?thesis by (intro exI [of _ k] exI [of _ row']) simp
    qed
  qed simp
qed

text \<open>The tables a cycle operation may write, blanked.\<close>

definition outside_cycles :: "db \<Rightarrow> db" where
  "outside_cycles s = s\<lparr>history_cycles := [], history_snapshots := [], audit_events := [], ticks := 0,
     uuids := 0\<rparr>"

definition close_reasons :: "string set" where
  "close_reasons = {''MANUAL'', ''SCHEDULED'', ''SYSTEM''}"

lemma close_audit_recorded:
  "\<exists>e. record_audit (close_audit c actor reason n t g correlation) s =
     Inr (s\<lparr>audit_events := audit_events s @ [e]\<rparr>)"
proof -
  have "required_text ''opportunity_cycle.close'' 120 = Inr ''opportunity_cycle.close''"
    "required_text ''opportunities'' 80 = Inr ''opportunities''"
    "required_text ''opportunity_history_cycle'' 120 = Inr ''opportunity_history_cycle''"
    by code_simp+
  then show ?thesis by (intro record_audit_ok) (simp_all add: close_audit_def)
qed

definition closing_rows :: "db \<Rightarrow> history_cycle \<Rightarrow> source_row list" where
  "closing_rows s c =
     map (source_row_for s c) (filter (observed_in_cycle s c) (sort_key f_id (findings s)))"

lemma closing_rows_distinct:
  "distinct (map f_id (findings s)) \<Longrightarrow> distinct (map (f_id \<circ> sr_finding) (closing_rows s c))"
proof -
  assume "distinct (map f_id (findings s))"
  then have "distinct (map f_id (sort_key f_id (findings s)))"
    by (metis distinct_map distinct_sort set_sort)
  then have "distinct (map f_id (filter (observed_in_cycle s c) (sort_key f_id (findings s))))"
    by (rule distinct_map_filter)
  then show ?thesis by (simp add: closing_rows_def comp_def)
qed

lemma close_open_cycle_effect:
  assumes "accounts_unique s" "distinct (map f_id (findings s))"
  obtains now t where
    "close_open_cycle c actor reason s = Inr (closed_cycle c now actor reason (length (closing_rows s c))
        (collection_coverage s c), t)"
    "history_cycles t = put_row hc_id (closed_cycle c now actor reason (length (closing_rows s c))
        (collection_coverage s c)) (history_cycles s)"
    "history_snapshots t = history_snapshots s @
       snapshots_taken (sha256 s) (uuid4 s) (uuids s) (hc_id c) now reason (closing_rows s c)"
    "outside_cycles t = outside_cycles s" "uuids s \<le> uuids t" "now = fst (utcnow s)"
    "\<exists>e. audit_events t = audit_events s @ [e]"
proof -
  define s1 where "s1 = s\<lparr>ticks := Suc (ticks s)\<rparr>"
  define now where "now = fst (utcnow s)"
  have u: "utcnow s = (now, s1)" by (simp add: now_def s1_def utcnow_def)
  define c' where "c' = closed_cycle c now actor reason (length (closing_rows s c)) (collection_coverage s c)"
  have src: "snapshot_source_rows s1 c = closing_rows s c"
  proof -
    have "cloud_accounts s1 = cloud_accounts s" "findings s1 = findings s" "observations s1 = observations s"
      by (simp_all add: s1_def)
    then have "snapshot_source_rows s1 c = snapshot_source_rows s c"
      unfolding snapshot_source_rows_def cycle_observations_def account_names_def by (simp only:)
    then show ?thesis by (simp add: snapshot_source_rows_eq [OF assms(1)] closing_rows_def)
  qed
  have cov: "collection_coverage s1 c = collection_coverage s c"
    by (simp add: collection_coverage_def cycle_runs_def s1_def)
  define s2 where "s2 = fold (add_snapshot (hc_id c) now reason) (closing_rows s c) s1"
  define s3 where "s3 = put_cycle c' s2"
  obtain correlation s4 where uu: "new_uuid s3 = (correlation, s4)" by fastforce
  obtain e where au: "record_audit (close_audit c' actor reason (length (closing_rows s c)) (cycle_stats s3 (hc_id c))
      (collection_coverage s c) correlation) s4 = Inr (s4\<lparr>audit_events := audit_events s4 @ [e]\<rparr>)"
    using close_audit_recorded by blast
  define t where "t = s4\<lparr>audit_events := audit_events s4 @ [e]\<rparr>"
  have res: "close_open_cycle c actor reason s = Inr (c', t)"
    unfolding close_open_cycle_def u Let_def prod.case src cov s2_def [symmetric] c'_def [symmetric]
      s3_def [symmetric] uu au
    using closing_rows_distinct [OF assms(2), of c] by (simp add: t_def)
  have s2: "s2 = s1\<lparr>history_snapshots := history_snapshots s @
      snapshots_taken (sha256 s) (uuid4 s) (uuids s) (hc_id c) now reason (closing_rows s c),
      uuids := uuids s + length (closing_rows s c)\<rparr>"
    by (simp add: s2_def add_snapshots s1_def)
  have s4: "s4 = s3\<lparr>uuids := Suc (uuids s3)\<rparr>" using uu by (auto simp: new_uuid_def)
  show thesis
    by (rule that [of now t]) (use res in \<open>simp_all add: c'_def t_def s4 s3_def put_cycle_def s2 s1_def
        outside_cycles_def now_def\<close>)
qed

text \<open>A snapshot holds the opportunity as it is and the figures of its last observation.\<close>

definition faithful_snapshot :: "db \<Rightarrow> history_cycle \<Rightarrow> finding \<Rightarrow> history_snapshot \<Rightarrow> bool" where
  "faithful_snapshot s c f x \<longleftrightarrow>
     (let obs = set (cycle_observations s c (f_id f)) in
      hs_opportunity_id x = Some (f_id f) \<and> hs_fingerprint x = f_fingerprint f \<and>
      hs_status x = f_status f \<and> hs_presence_status x = f_presence_status f \<and>
      (hs_archived x \<longleftrightarrow> f_archived_at f \<noteq> None) \<and>
      hs_occurrence_count_in_cycle x = int (card (o_collection_run_id ` obs)) \<and>
      (\<exists>latest \<in> obs. (\<forall>ob \<in> obs. observation_order ob \<le> observation_order latest) \<and>
         hs_estimated_monthly_savings x = o_estimated_monthly_savings latest \<and>
         hs_current_monthly_cost x = o_current_monthly_cost latest \<and>
         hs_currency x = o_currency latest \<and> hs_severity x = o_severity latest \<and>
         hs_last_observed_in_cycle_at x = o_observed_at latest \<and>
         hs_last_collection_run_id_in_cycle x = Some (o_collection_run_id latest)) \<and>
      (\<exists>first \<in> obs. (\<forall>ob \<in> obs. observation_order first \<le> observation_order ob) \<and>
         hs_first_observed_in_cycle_at x = o_observed_at first \<and>
         hs_first_collection_run_id_in_cycle x = Some (o_collection_run_id first)))"

lemma ranked_ends:
  assumes "obs \<noteq> []"
  shows "last (sort_key k obs) \<in> set obs" "hd (sort_key k obs) \<in> set obs"
    "ob \<in> set obs \<Longrightarrow> k ob \<le> k (last (sort_key k obs))"
    "ob \<in> set obs \<Longrightarrow> k (hd (sort_key k obs)) \<le> k ob"
proof -
  let ?xs = "sort_key k obs"
  have ne: "?xs \<noteq> []" using assms by (metis set_empty set_sort)
  then show "last ?xs \<in> set obs" "hd ?xs \<in> set obs" by (metis last_in_set set_sort, metis hd_in_set set_sort)
  have sorted: "sorted (map k ?xs)" by simp
  assume "ob \<in> set obs"
  then obtain n where n: "n < length ?xs" "?xs ! n = ob" by (metis in_set_conv_nth set_sort)
  show "k ob \<le> k (last ?xs)"
    using sorted_nth_mono [OF sorted, of n "length ?xs - 1"] n ne by (simp add: last_conv_nth)
  have "map k ?xs ! 0 = k (?xs ! 0)" using assms by (intro nth_map) simp
  then show "k (hd ?xs) \<le> k ob"
    using sorted_nth_mono [OF sorted, of 0 n] n ne by (simp add: hd_conv_nth)
qed

lemma snapshot_faithful:
  assumes "observed_in_cycle s c f"
  shows "faithful_snapshot s c f (snapshot_of sha i cid at_time reason (source_row_for s c f))"
proof -
  let ?obs = "cycle_observations s c (f_id f)"
  have ne: "?obs \<noteq> []" using assms by (simp add: observed_in_cycle_def)
  note ends = ranked_ends [OF ne, where k = observation_order]
  have count: "length (remdups (map o_collection_run_id ?obs)) = card (o_collection_run_id ` set ?obs)"
    by (metis length_remdups_card_conv set_map)
  show ?thesis
    unfolding faithful_snapshot_def Let_def
    by (intro conjI bexI [of _ "last (sort_key observation_order ?obs)"]
        bexI [of _ "hd (sort_key observation_order ?obs)"] ballI ends)
      (simp_all add: snapshot_of_def source_row_for_def source_row_of_def Let_def count)
qed


lemma in_closing_rows: "row \<in> set (closing_rows s c) \<longleftrightarrow>
    (\<exists>f \<in> set (findings s). observed_in_cycle s c f \<and> row = source_row_for s c f)"
  by (auto simp: closing_rows_def)

lemma closing_exact_lemma:
  assumes get: "get_cycle_row i s = Some c" and opn: "hc_status c = CycleOpen"
    and reason: "strip (upper reason) \<in> close_reasons"
    and idle: "\<forall>r \<in> set (cycle_runs s c). cr_status r \<noteq> RUNNING" and none: "cycle_snapshots s i = []"
    and uniq: "accounts_unique s" "distinct (map f_id (findings s))"
  shows "\<exists>c' t new. close_cycle i actor reason s = Inr (c', t) \<and>
    history_snapshots t = history_snapshots s @ new \<and>
    map hs_opportunity_id new =
      map (\<lambda>f. Some (f_id f)) (filter (observed_in_cycle s c) (sort_key f_id (findings s))) \<and>
    (\<forall>x \<in> set new. hs_cycle_id x = i \<and> (\<exists>f \<in> set (findings s). faithful_snapshot s c f x)) \<and>
    hc_status c' = CycleClosed \<and> hc_period_start c' = hc_period_start c \<and>
    hc_period_end c' = hc_period_end c \<and>
    jget ''policy'' (hc_metadata c') = jget ''policy'' (hc_metadata c) \<and>
    jget ''snapshot_count'' (hc_metadata c') = JInt (int (length new)) \<and>
    get_cycle_row i t = Some c' \<and> (\<forall>j. j \<noteq> i \<longrightarrow> get_cycle_row j t = get_cycle_row j s) \<and>
    outside_cycles t = outside_cycles s"
proof -
  have id: "hc_id c = i" using get find_row_Some by (fastforce simp: get_cycle_row_def)
  obtain now t where t: "close_open_cycle c actor (strip (upper reason)) s =
      Inr (closed_cycle c now actor (strip (upper reason)) (length (closing_rows s c)) (collection_coverage s c), t)"
    "history_cycles t = put_row hc_id (closed_cycle c now actor (strip (upper reason)) (length (closing_rows s c))
        (collection_coverage s c)) (history_cycles s)"
    "history_snapshots t = history_snapshots s @ snapshots_taken (sha256 s) (uuid4 s) (uuids s) (hc_id c) now
       (strip (upper reason)) (closing_rows s c)"
    "outside_cycles t = outside_cycles s"
    using close_open_cycle_effect [OF uniq] by metis
  define c' where "c' = closed_cycle c now actor (strip (upper reason)) (length (closing_rows s c))
    (collection_coverage s c)"
  define new where "new = snapshots_taken (sha256 s) (uuid4 s) (uuids s) (hc_id c) now
    (strip (upper reason)) (closing_rows s c)"
  have count: "count_where (\<lambda>r. cr_status r = RUNNING) (cycle_runs s c) = 0"
    using idle by (simp add: count_where_def filter_empty_conv)
  have close: "close_cycle i actor reason s = Inr (c', t)"
    using reason t(1) none
    by (simp add: close_cycle_def close_reasons_def get opn count id c'_def Let_def del: One_nat_def)
  have ids: "map hs_opportunity_id new =
      map (\<lambda>f. Some (f_id f)) (filter (observed_in_cycle s c) (sort_key f_id (findings s)))"
    by (simp add: new_def snapshots_taken_fields(1) closing_rows_def comp_def)
  have faithful: "hs_cycle_id x = i \<and> (\<exists>f \<in> set (findings s). faithful_snapshot s c f x)" if "x \<in> set new" for x
  proof -
    from snapshots_taken_fields(3) [OF that [unfolded new_def]] obtain k row where
      "row \<in> set (closing_rows s c)"
      "x = snapshot_of (sha256 s) (uuid4 s k) (hc_id c) now (strip (upper reason)) row" by blast
    moreover from this(1) obtain f where "f \<in> set (findings s)" "observed_in_cycle s c f"
      "row = source_row_for s c f" by (auto simp: in_closing_rows)
    moreover have "hs_cycle_id x = i" using calculation(2) by (simp add: snapshot_of_def Let_def id)
    ultimately show ?thesis using snapshot_faithful by blast
  qed
  have meta: "jget ''policy'' (hc_metadata c') = jget ''policy'' (hc_metadata c)"
    "jget ''snapshot_count'' (hc_metadata c') = JInt (int (length new))"
    by (simp_all add: c'_def closed_cycle_def closed_metadata_def Let_def new_def snapshots_taken_fields(2))
  have c': "hc_id c' = i" "hc_status c' = CycleClosed" "hc_period_start c' = hc_period_start c"
    "hc_period_end c' = hc_period_end c" by (simp_all add: c'_def closed_cycle_def id)
  have rows: "get_cycle_row i t = Some c'" "j \<noteq> i \<Longrightarrow> get_cycle_row j t = get_cycle_row j s" for j
    using get t(2) c'(1) by (simp_all add: get_cycle_row_def c'_def [symmetric] row_simps)
  show ?thesis
    using close t(3,4) ids faithful c' meta rows
    by (intro exI [of _ c'] exI [of _ t] exI [of _ new]) (simp add: new_def)
qed

end
