(* ===== verification/Queries.thy ===== *)
theory Queries
  imports RunComparison Closing Saving "HOL-Library.Multiset"
begin

text \<open>
  Listing opportunities (backend/app/services/opportunity_query.py and the listing routes of
  backend/app/api/routes/opportunities.py): the filters, the order and the pages of the listing, its
  counts by status, the values a user can filter by, and the pages of the status history.  A
  filter is a condition on findings; \<open>None\<close> and the empty text do not filter.  The names of users
  are an argument; the column \<open>created_at\<close>, which no service reads, is no sort key of the model.
\<close>

section \<open>Filters\<close>

record opportunity_filters =
  oq_provider :: "string option"
  oq_account_id :: "string option"
  oq_region :: "string option"
  oq_service :: "string option"
  oq_resource_type :: "string option"
  oq_status :: "string option"
  oq_presence_status :: "string option"
  oq_severity :: "string option"
  oq_rule :: "string option"
  oq_collection_run_id :: "string option"
  oq_first_seen_collection_run_id :: "string option"
  oq_discovery_type :: "string option"
  oq_baseline_collection_run_id :: "string option"
  oq_comparison_available :: bool
  oq_resource_id :: "string option"
  oq_search :: "string option"
  oq_first_seen_from :: "datetime option"
  oq_first_seen_to :: "datetime option"
  oq_last_seen_from :: "datetime option"
  oq_last_seen_to :: "datetime option"
  oq_current :: bool
  oq_archive_state :: string
  oq_archived_from :: "datetime option"
  oq_archived_to :: "datetime option"
  oq_archive_reason :: "string option"

definition no_opportunity_filters :: opportunity_filters where
  "no_opportunity_filters = \<lparr>oq_provider = None, oq_account_id = None, oq_region = None, oq_service = None,
     oq_resource_type = None, oq_status = None, oq_presence_status = None, oq_severity = None,
     oq_rule = None, oq_collection_run_id = None, oq_first_seen_collection_run_id = None,
     oq_discovery_type = None, oq_baseline_collection_run_id = None,
     oq_comparison_available = True, oq_resource_id = None, oq_search = None,
     oq_first_seen_from = None, oq_first_seen_to = None, oq_last_seen_from = None,
     oq_last_seen_to = None, oq_current = False, oq_archive_state = ''active'',
     oq_archived_from = None, oq_archived_to = None, oq_archive_reason = None\<rparr>"

text \<open>A condition on a finding; an unsupported value raises before any row is read.\<close>

type_synonym condition = "finding \<Rightarrow> bool"

definition archive_state_condition :: "string \<Rightarrow> condition result" where
  "archive_state_condition state =
     (if state = ''active'' then Inr (\<lambda>f. f_archived_at f = None)
      else if state = ''archived'' then Inr (\<lambda>f. f_archived_at f \<noteq> None)
      else if state = ''all'' then Inr (\<lambda>f. True)
      else Inl (ValueError ''Unsupported archive_state''))"

definition discovery_condition :: "db \<Rightarrow> opportunity_filters \<Rightarrow> condition result" where
  "discovery_condition s q =
     (if \<not> truthy (oq_discovery_type q) then Inr (\<lambda>f. True)
      else if \<not> truthy (oq_collection_run_id q) then Inr (\<lambda>f. False)
      else let d = the (oq_discovery_type q); target = the (oq_collection_run_id q)
      in if d = ''observed'' then Inr (\<lambda>f. True)
      else if d = ''first_seen'' then Inr (\<lambda>f. f_first_seen_collection_run_id f = Some target)
      else if \<not> oq_comparison_available q \<or> \<not> truthy (oq_baseline_collection_run_id q)
           then Inr (\<lambda>f. False)
      else let before = observed_in s (the (oq_baseline_collection_run_id q))
      in if d = ''continued'' then Inr before
      else if d = ''new_vs_previous'' then Inr (\<lambda>f. \<not> before f)
      else if d = ''reappeared''
           then Inr (\<lambda>f. \<not> before f \<and> f_first_seen_collection_run_id f \<noteq> None \<and>
                          f_first_seen_collection_run_id f \<noteq> Some target)
      else Inl (ValueError ''Unsupported discovery_type''))"

text \<open>An old numeric identifier of an AWS account is accepted as well.\<close>

definition account_condition :: "db \<Rightarrow> opportunity_filters \<Rightarrow> condition" where
  "account_condition s q =
     (\<lambda>f. if_given (oq_account_id q) (\<lambda>v. f_account_id f = v \<or>
       (\<not> truthy (oq_provider q) \<or> lower (the (oq_provider q)) = ''aws'') \<and> f_provider f = ''aws'' \<and>
       list_ex (\<lambda>a. list_ex (\<lambda>c. aa_cloud_account_id a = ca_id c \<and> ca_provider c = ''aws'' \<and>
                               ca_native_account_id c = f_account_id f) (cloud_accounts s) \<and>
                    show_int (aa_id a) = v) (aws_accounts s)))"

definition when_some :: "'a option \<Rightarrow> ('a \<Rightarrow> bool) \<Rightarrow> bool" where
  "when_some v p \<longleftrightarrow> (case v of None \<Rightarrow> True | Some x \<Rightarrow> p x)"

definition time_condition :: "opportunity_filters \<Rightarrow> condition" where
  "time_condition q = (\<lambda>f.
     when_some (oq_first_seen_from q) (\<lambda>t. no_later t (f_first_seen_at f)) \<and>
     when_some (oq_first_seen_to q) (\<lambda>t. earlier (f_first_seen_at f) t) \<and>
     when_some (oq_last_seen_from q) (\<lambda>t. no_later t (f_last_seen_at f)) \<and>
     when_some (oq_last_seen_to q) (\<lambda>t. earlier (f_last_seen_at f) t) \<and>
     when_some (oq_archived_from q) (\<lambda>t. f_archived_at f \<noteq> None \<and> no_later t (the (f_archived_at f))) \<and>
     when_some (oq_archived_to q) (\<lambda>t. f_archived_at f \<noteq> None \<and> no_later (the (f_archived_at f)) t) \<and>
     if_given (oq_archive_reason q) (\<lambda>v. map_option archive_reason_text (f_archive_reason f) = Some v))"

definition latest_success_of :: "db \<Rightarrow> finding \<Rightarrow> collection_run option" where
  "latest_success_of s f =
     latest_by run_order (filter (\<lambda>r. cr_provider r = f_provider f \<and> cr_account_id r = f_account_id f \<and>
       cr_status r = SUCCESS) (collection_runs s))"

definition run_condition :: "db \<Rightarrow> opportunity_filters \<Rightarrow> condition" where
  "run_condition s q = (\<lambda>f.
     if_given (oq_collection_run_id q) (\<lambda>v. observed_in s v f) \<and>
     if_given (oq_first_seen_collection_run_id q) (\<lambda>v. f_first_seen_collection_run_id f = Some v))"

definition current_condition :: "db \<Rightarrow> opportunity_filters \<Rightarrow> condition" where
  "current_condition s q = (\<lambda>f. \<not> oq_current q \<or>
     (case latest_success_of s f of None \<Rightarrow> False | Some r \<Rightarrow> observed_in s (cr_id r) f))"

definition search_condition :: "opportunity_filters \<Rightarrow> condition" where
  "search_condition q = (\<lambda>f. if_given (oq_search q) (\<lambda>v. let pattern = ''%'' @ strip v @ ''%'' in
     ilike pattern (Some (f_resource_id f)) \<or> ilike pattern (f_resource_name f) \<or>
     ilike pattern (f_resource_type f) \<or> ilike pattern (Some (f_title f)) \<or>
     ilike pattern (Some (f_description f)) \<or> ilike pattern (Some (f_rule_key f)) \<or>
     ilike pattern (Some (f_service f))))"

definition column_condition :: "opportunity_filters \<Rightarrow> bool \<Rightarrow> condition" where
  "column_condition q include_status = (\<lambda>f.
     if_given (oq_provider q) (\<lambda>v. f_provider f = lower v) \<and>
     if_given (oq_region q) (\<lambda>v. f_region f = Some v) \<and>
     if_given (oq_service q) (\<lambda>v. f_service f = v) \<and>
     if_given (oq_resource_type q) (\<lambda>v. f_resource_type f = Some v) \<and>
     (include_status \<longrightarrow> if_given (oq_status q) (\<lambda>v. status_text (f_status f) = v)) \<and>
     if_given (oq_presence_status q) (\<lambda>v. presence_text (f_presence_status f) = v) \<and>
     if_given (oq_severity q) (\<lambda>v. f_severity f = v) \<and>
     if_given (oq_rule q) (\<lambda>v. f_rule_key f = v) \<and>
     if_given (oq_resource_id q) (\<lambda>v. f_resource_id f = v))"

definition apply_filters :: "db \<Rightarrow> opportunity_filters \<Rightarrow> bool \<Rightarrow> condition result" where
  "apply_filters s q include_status =
     andThen (archive_state_condition (oq_archive_state q)) (\<lambda>archived.
     andThen (discovery_condition s q) (\<lambda>discovered.
     Inr (\<lambda>f. archived f \<and> account_condition s q f \<and> column_condition q include_status f \<and>
               time_condition q f \<and> run_condition s q f \<and> discovered f \<and>
               current_condition s q f \<and> search_condition q f)))"

section \<open>The listing\<close>

record list_item =
  li_finding :: finding
  li_account_name :: "string option"
  li_legacy_account_id :: "int option"
  li_archived :: bool

definition serialize_list_item :: "finding \<Rightarrow> cloud_account option \<Rightarrow> aws_account option \<Rightarrow> list_item" where
  "serialize_list_item f account aws =
     \<lparr>li_finding = f, li_account_name = map_option ca_name account,
      li_legacy_account_id = map_option aa_id aws, li_archived = (f_archived_at f \<noteq> None)\<rparr>"

text \<open>The outer joins: one row for every matching account, or one without an account.\<close>

definition or_none :: "'a list \<Rightarrow> 'a option list" where
  "or_none xs = (if xs = [] then [None] else map Some xs)"

definition joined_rows :: "db \<Rightarrow> finding \<Rightarrow> (finding \<times> cloud_account option \<times> aws_account option) list" where
  "joined_rows s f =
     concat (map (\<lambda>c. map (\<lambda>a. (f, c, a))
         (or_none (filter (\<lambda>a. map_option ca_id c = Some (aa_cloud_account_id a)) (aws_accounts s))))
       (or_none (filter (\<lambda>c. ca_provider c = f_provider f \<and> ca_native_account_id c = f_account_id f)
         (cloud_accounts s))))"

datatype sort_name = FIRST_SEEN_AT | LAST_SEEN_AT | ARCHIVED_AT | SEVERITY | ESTIMATED_SAVINGS | STATUS

definition severity_order :: "string \<Rightarrow> int" where
  "severity_order sev =
     (if sev = ''high'' then 3 else if sev = ''medium'' then 2 else if sev = ''low'' then 1 else 0)"

text \<open>A missing value sorts last in ascending and first in descending order.\<close>

fun order_expression :: "sort_name \<Rightarrow> finding \<Rightarrow> sort_value" where
  "order_expression FIRST_SEEN_AT f = time_key (f_first_seen_at f)"
| "order_expression LAST_SEEN_AT f = time_key (f_last_seen_at f)"
| "order_expression ARCHIVED_AT f = (case f_archived_at f of None \<Rightarrow> TopKey | Some t \<Rightarrow> time_key t)"
| "order_expression SEVERITY f = NumberKey (of_int (severity_order (f_severity f)))"
| "order_expression ESTIMATED_SAVINGS f =
     (case f_estimated_monthly_savings f of None \<Rightarrow> TopKey | Some a \<Rightarrow> NumberKey a)"
| "order_expression STATUS f = TextKey (status_text (f_status f))"

definition ordered_findings :: "sort_name \<Rightarrow> bool \<Rightarrow> finding list \<Rightarrow> finding list" where
  "ordered_findings by descending fs =
     (let by_id = sort_key f_id fs
      in if descending then rev (sort_key (order_expression by) (rev by_id))
         else sort_key (order_expression by) by_id)"

record opportunity_page =
  og_items :: "list_item list"
  og_page :: nat
  og_page_size :: nat
  og_total :: nat
  og_total_pages :: nat

definition list_opportunities :: "db \<Rightarrow> opportunity_filters \<Rightarrow> nat \<Rightarrow> nat \<Rightarrow> sort_name \<Rightarrow> bool \<Rightarrow>
    opportunity_page result" where
  "list_opportunities s q page page_size by descending =
     andThen (apply_filters s q True) (\<lambda>matches.
     let rows = filter matches (findings s);
         joined = concat (map (joined_rows s) (ordered_findings by descending rows))
     in Inr \<lparr>og_items = map (\<lambda>(f, c, a). serialize_list_item f c a)
               (take page_size (drop ((page - 1) * page_size) joined)),
             og_page = page, og_page_size = page_size, og_total = length rows,
             og_total_pages = total_pages (length rows) page_size\<rparr>)"

record opportunity_counts =
  ot_open :: nat
  ot_treated :: nat
  ot_rejected :: nat

definition opportunity_stats :: "db \<Rightarrow> opportunity_filters \<Rightarrow> opportunity_counts result" where
  "opportunity_stats s q =
     andThen (apply_filters s q False) (\<lambda>matches.
     let counts = group_counts (status_text \<circ> f_status) (filter matches (findings s));
         n = (\<lambda>k. case map_of counts k of None \<Rightarrow> 0 | Some m \<Rightarrow> m)
     in Inr \<lparr>ot_open = n ''open'', ot_treated = n ''treated'', ot_rejected = n ''rejected''\<rparr>)"

section \<open>What can be filtered by\<close>

record opportunity_options =
  op_providers :: "string list"
  op_accounts :: "(string \<times> string \<times> string option) list"
  op_regions :: "string list"
  op_services :: "string list"
  op_resource_types :: "string list"
  op_rules :: "string list"

definition distinct_values :: "(finding \<Rightarrow> string option) \<Rightarrow> finding list \<Rightarrow> string list" where
  "distinct_values column fs = sort (remdups (List.map_filter column fs))"

definition account_options :: "db \<Rightarrow> condition \<Rightarrow> string option \<Rightarrow> string option \<Rightarrow>
    (string \<times> string \<times> string option) list" where
  "account_options s archived provider search =
     remdups (concat (map (\<lambda>f. map (\<lambda>n. (f_provider f, f_account_id f, n))
       (filter (\<lambda>n. if_given search (\<lambda>v. let pattern = ''%'' @ strip v @ ''%'' in
           ilike pattern (Some (f_account_id f)) \<or> ilike pattern n))
         (map (map_option ca_name)
           (or_none (filter (\<lambda>c. ca_provider c = f_provider f \<and> ca_native_account_id c = f_account_id f)
             (cloud_accounts s))))))
     (filter (\<lambda>f. archived f \<and> if_given provider (\<lambda>v. f_provider f = v)) (findings s))))"

definition opportunity_options_of :: "db \<Rightarrow> string option \<Rightarrow> string option \<Rightarrow> string option \<Rightarrow> string \<Rightarrow>
    nat \<Rightarrow> opportunity_options result" where
  "opportunity_options_of s provider account_id search archive_state limit =
     (let p = (if truthy provider then map_option lower provider else None);
          q = no_opportunity_filters\<lparr>oq_provider := p, oq_account_id := account_id, oq_archive_state := archive_state\<rparr>
      in andThen (archive_state_condition archive_state) (\<lambda>archived.
         andThen (apply_filters s q True) (\<lambda>matches.
         let rows = filter matches (findings s)
         in Inr \<lparr>op_providers = distinct_values (Some \<circ> f_provider) (filter archived (findings s)),
                 op_accounts = take limit (sort_key (\<lambda>(a, b, n). (a, b)) (account_options s archived p search)),
                 op_regions = distinct_values f_region rows,
                 op_services = distinct_values (Some \<circ> f_service) rows,
                 op_resource_types = distinct_values f_resource_type rows,
                 op_rules = distinct_values (Some \<circ> f_rule_key) rows\<rparr>)))"

section \<open>The status history\<close>

record status_item =
  si_id :: string
  si_from_status :: opp_status
  si_to_status :: opp_status
  si_action :: string
  si_reason :: "string option"
  si_note :: "string option"
  si_changed_by :: "string option"
  si_changed_by_name :: "string option"
  si_changed_at :: datetime

record status_page =
  sg_items :: "status_item list"
  sg_page :: nat
  sg_page_size :: nat
  sg_total :: nat
  sg_total_pages :: nat

definition status_item_of :: "(string \<Rightarrow> string option) \<Rightarrow> status_event \<Rightarrow> status_item" where
  "status_item_of user_name e =
     \<lparr>si_id = se_id e, si_from_status = se_from_status e, si_to_status = se_to_status e,
      si_action = se_action e, si_reason = se_reason e, si_note = se_note e,
      si_changed_by = se_changed_by e,
      si_changed_by_name = (case se_changed_by e of None \<Rightarrow> None | Some u \<Rightarrow> user_name u),
      si_changed_at = se_changed_at e\<rparr>"

text \<open>\<open>None\<close> where the opportunity does not exist, which the route answers with 404.\<close>

definition status_history_page :: "(string \<Rightarrow> string option) \<Rightarrow> string \<Rightarrow> nat \<Rightarrow> nat \<Rightarrow> db \<Rightarrow> status_page option" where
  "status_history_page user_name i page page_size s =
     (if get_finding i s = None then None
      else let events = filter (\<lambda>e. se_opportunity_id e = i) (status_history s);
               ordered = sort_key (\<lambda>e. (- instant (se_changed_at e), se_id e)) events
           in Some \<lparr>sg_items = map (status_item_of user_name)
                      (take page_size (drop ((page - 1) * page_size) ordered)),
                    sg_page = page, sg_page_size = page_size, sg_total = length events,
                    sg_total_pages = total_pages (length events) page_size\<rparr>)"

section \<open>The routes\<close>

definition relative_types :: "string list" where
  "relative_types = [''new_vs_previous'', ''reappeared'', ''continued'']"

definition get_run :: "string \<Rightarrow> db \<Rightarrow> collection_run option" where
  "get_run i s = find_row cr_id i (collection_runs s)"

definition ensure_collection_history_available :: "db \<Rightarrow> string option \<Rightarrow> collection_run option result" where
  "ensure_collection_history_available s run_id =
     (if \<not> truthy run_id then Inr None
      else case get_run (the run_id) s of
        None \<Rightarrow> Inl (HTTPException 404 ''Collection run not found'')
      | Some r \<Rightarrow> andThen (guard (cr_detailed_observations_available r) (HTTPException 410
          ''COLLECTION_OBSERVATIONS_EXPIRED: As observacoes detalhadas desta coleta expiraram pela politica de retencao.''))
          (\<lambda>_. Inr (Some r)))"

definition ensure_collection_exists :: "db \<Rightarrow> string option \<Rightarrow> unit result" where
  "ensure_collection_exists s run_id =
     guard (\<not> (truthy run_id \<and> get_run (the run_id) s = None)) (HTTPException 404 ''Collection run not found'')"

definition comparison_baseline :: "db \<Rightarrow> collection_run option \<Rightarrow> string option \<Rightarrow> (string option \<times> bool) result" where
  "comparison_baseline s target d =
     (if d \<notin> Some ` set relative_types then Inr (None, True)
      else case target of
        None \<Rightarrow> Inl (HTTPException 422 ''collection_run_id is required for relative discovery filters'')
      | Some r \<Rightarrow>
          andThen (guard (cr_status r = SUCCESS)
            (HTTPException 422 ''Relative discovery filters require a SUCCESS CollectionRun'')) (\<lambda>_.
          andThen (previous_comparable_run s r) (\<lambda>b. Inr (case b of
            None \<Rightarrow> (None, False)
          | Some x \<Rightarrow> if cr_detailed_observations_available x then (Some (cr_id x), True) else (None, False)))))"

definition validate_temporal_range :: "datetime option \<Rightarrow> datetime option \<Rightarrow> string \<Rightarrow> unit result" where
  "validate_temporal_range start finish label =
     guard (\<not> (start \<noteq> None \<and> finish \<noteq> None \<and> no_later (the finish) (the start)))
       (HTTPException 422 (label @ ''_from must be earlier than '' @ label @ ''_to''))"

text \<open>The request's filters, with the baseline its comparison needs.\<close>

definition request_filters :: "db \<Rightarrow> opportunity_filters \<Rightarrow> opportunity_filters result" where
  "request_filters s q =
     andThen (ensure_collection_history_available s (oq_collection_run_id q)) (\<lambda>target.
     andThen (ensure_collection_exists s (oq_first_seen_collection_run_id q)) (\<lambda>_.
     andThen (comparison_baseline s target (oq_discovery_type q)) (\<lambda>(baseline, available).
     andThen (validate_temporal_range (oq_first_seen_from q) (oq_first_seen_to q) ''first_seen'') (\<lambda>_.
     andThen (validate_temporal_range (oq_last_seen_from q) (oq_last_seen_to q) ''last_seen'') (\<lambda>_.
     Inr (q\<lparr>oq_provider := (if truthy (oq_provider q) then map_option lower (oq_provider q) else None),
             oq_baseline_collection_run_id := baseline, oq_comparison_available := available\<rparr>))))))"

definition list_opportunity_page :: "db \<Rightarrow> opportunity_filters \<Rightarrow> nat \<Rightarrow> nat \<Rightarrow> sort_name \<Rightarrow> bool \<Rightarrow>
    opportunity_page result" where
  "list_opportunity_page s q page page_size by descending =
     andThen (request_filters s q) (\<lambda>q'. list_opportunities s q' page page_size by descending)"

definition stats_route :: "db \<Rightarrow> opportunity_filters \<Rightarrow> opportunity_counts result" where
  "stats_route s q = andThen (request_filters s (q\<lparr>oq_status := None\<rparr>)) (opportunity_stats s)"

section \<open>The pages of a listing\<close>

definition the_item :: "db \<Rightarrow> finding \<Rightarrow> list_item" where
  "the_item s f = (case joined_rows s f of (g, c, a) # _ \<Rightarrow> serialize_list_item g c a)"

definition links_unique :: "db \<Rightarrow> bool" where
  "links_unique s \<longleftrightarrow> accounts_unique s \<and> distinct (map aa_cloud_account_id (aws_accounts s))"

lemma or_none_one: "length xs \<le> 1 \<Longrightarrow> \<exists>x. or_none xs = [x]"
  by (cases xs; cases "tl xs") (auto simp: or_none_def)

lemma filter_key_one:
  assumes "distinct (map k xs)" "\<And>x. x \<in> set xs \<Longrightarrow> P x \<Longrightarrow> k x = v"
  shows "length (filter P xs) \<le> 1"
proof -
  have "distinct (map k (filter P xs))" using assms(1) by (rule distinct_map_filter)
  then have "length (filter P xs) = card (k ` set (filter P xs))" by (metis distinct_card length_map set_map)
  also have "\<dots> \<le> card {v}" using assms(2) by (intro card_mono) auto
  finally show ?thesis by simp
qed

lemma joined_rows_one:
  assumes "links_unique s"
  shows "\<exists>c a. joined_rows s f = [(f, c, a)]"
proof -
  have "length (filter (\<lambda>c. ca_provider c = f_provider f \<and> ca_native_account_id c = f_account_id f) (cloud_accounts s)) \<le> 1"
    by (rule filter_key_one [where k = "\<lambda>a. (ca_provider a, ca_native_account_id a)"])
      (use assms in \<open>auto simp: links_unique_def accounts_unique_def\<close>)
  from or_none_one [OF this] obtain c where c: "or_none (filter (\<lambda>c. ca_provider c = f_provider f \<and>
      ca_native_account_id c = f_account_id f) (cloud_accounts s)) = [c]" by blast
  have "length (filter (\<lambda>a. map_option ca_id c = Some (aa_cloud_account_id a)) (aws_accounts s)) \<le> 1"
    by (rule filter_key_one [where k = aa_cloud_account_id and v = "ca_id (the c)"])
      (use assms in \<open>auto simp: links_unique_def\<close>)
  from or_none_one [OF this] obtain a where "or_none (filter (\<lambda>a. map_option ca_id c = Some (aa_cloud_account_id a))
      (aws_accounts s)) = [a]" by blast
  with c show ?thesis by (simp add: joined_rows_def)
qed

lemma the_item_finding [simp]: "links_unique s \<Longrightarrow> li_finding (the_item s f) = f"
  using joined_rows_one [of s f] by (auto simp: the_item_def serialize_list_item_def)

lemma list_items:
  assumes "links_unique s"
  shows "map (\<lambda>(f, c, a). serialize_list_item f c a) (concat (map (joined_rows s) fs)) = map (the_item s) fs"
proof (induction fs)
  case (Cons f fs)
  from joined_rows_one [OF assms, of f] obtain c a where "joined_rows s f = [(f, c, a)]" by blast
  with Cons.IH show ?case by (simp add: the_item_def)
qed simp

definition listing_page :: "db \<Rightarrow> opportunity_filters \<Rightarrow> nat \<Rightarrow> sort_name \<Rightarrow> bool \<Rightarrow> nat \<Rightarrow> list_item list" where
  "listing_page s q n by descending k =
     (case list_opportunities s q k n by descending of Inl _ \<Rightarrow> [] | Inr l \<Rightarrow> og_items l)"

lemma ordered_findings_perm: "mset (ordered_findings by descending fs) = mset fs"
  by (simp add: ordered_findings_def Let_def)

lemma ordered_findings_sorted:
  "sorted (map (order_expression by) (if descending then rev (ordered_findings by descending fs)
     else ordered_findings by descending fs))"
  by (simp add: ordered_findings_def Let_def)

lemma listing_pages:
  assumes "links_unique s" "apply_filters s q True = Inr p" "0 < n"
  defines "rows \<equiv> filter p (findings s)"
  shows "concat (map (listing_page s q n by descending) [1..<Suc (total_pages (length rows) n)]) =
    map (the_item s) (ordered_findings by descending rows)"
proof -
  let ?all = "ordered_findings by descending rows"
  have len: "length ?all = length rows" using ordered_findings_perm [of "by" descending rows] by (metis size_mset)
  have page: "listing_page s q n by descending = (\<lambda>k. take n (drop ((k - 1) * n) (map (the_item s) ?all)))"
    by (rule ext) (simp add: listing_page_def list_opportunities_def assms(2) Let_def rows_def take_map [symmetric]
        drop_map [symmetric] list_items [OF assms(1)])
  have "concat (map (listing_page s q n by descending) [1..<Suc (total_pages (length rows) n)]) =
      take (total_pages (length rows) n * n) (map (the_item s) ?all)"
    unfolding page by (rule concat_pages [OF assms(3)])
  also have "\<dots> = map (the_item s) ?all" using total_pages_cover [OF assms(3), of "length rows"] len by simp
  finally show ?thesis .
qed

section \<open>Counts by status\<close>

lemma map_of_group_counts:
  "map_of (group_counts k rows) v = (if v \<in> k ` set rows then Some (count_where (\<lambda>r. k r = v) rows) else None)"
proof -
  have "map_of (map (\<lambda>x. (x, g x)) xs) v = (if v \<in> set xs then Some (g v) else None)" for xs and g :: "string \<Rightarrow> nat"
    by (induction xs) auto
  then show ?thesis by (simp add: group_counts_def)
qed

lemma apply_filters_status:
  "apply_filters s q True = andThen (apply_filters s q False) (\<lambda>p.
     Inr (\<lambda>f. p f \<and> if_given (oq_status q) (\<lambda>v. status_text (f_status f) = v)))"
proof -
  have col: "column_condition q True f = (column_condition q False f \<and> if_given (oq_status q) (\<lambda>v. status_text (f_status f) = v))" for f
    by (auto simp: column_condition_def)
  have "(\<lambda>f. a f \<and> account_condition s q f \<and> column_condition q True f \<and> time_condition q f \<and> run_condition s q f \<and>
      d f \<and> current_condition s q f \<and> search_condition q f) =
    (\<lambda>f. (a f \<and> account_condition s q f \<and> column_condition q False f \<and> time_condition q f \<and> run_condition s q f \<and>
      d f \<and> current_condition s q f \<and> search_condition q f) \<and> if_given (oq_status q) (\<lambda>v. status_text (f_status f) = v))"
    for a d :: condition unfolding col by blast
  then show ?thesis unfolding apply_filters_def andThen_assoc andThen_Inr by (simp only:)
qed

lemma stats_count:
  assumes "opportunity_stats s q = Inr c" "apply_filters s q True = Inr p" "oq_status q = Some v" "v \<noteq> []"
  shows "length (filter p (findings s)) = count_where (\<lambda>f. status_text (f_status f) = v)
    (filter (\<lambda>f. \<exists>p'. apply_filters s q False = Inr p' \<and> p' f) (findings s))"
proof -
  from assms(2) obtain p' where p': "apply_filters s q False = Inr p'"
    "p = (\<lambda>f. p' f \<and> if_given (oq_status q) (\<lambda>v. status_text (f_status f) = v))"
    by (auto simp: apply_filters_status andThen_eq_Inr)
  have "if_given (oq_status q) Q = Q v" for Q using assms(3,4) by (simp add: if_given_def truthy_def)
  then show ?thesis by (simp add: p' count_where_def)
qed

text \<open>C18: The listing is complete and agrees with the counts: with unique accounts and a positive page
  size, the pages from the first to the last announced one hold every matching opportunity exactly
  once, in the requested order; every reply states their number; and listing one status gives as
  many opportunities as the counts by status, which ignore that filter, show for it.\<close>

theorem listing_complete:
  assumes "links_unique s" and "0 < n" and "list_opportunities s q k n by descending = Inr l"
  defines "rows \<equiv> concat (map (listing_page s q n by descending) [1..<Suc (og_total_pages l)])"
  shows "\<exists>p c. apply_filters s q True = Inr p \<and> opportunity_stats s q = Inr c \<and>
    og_total l = length rows \<and> mset (map li_finding rows) = mset (filter p (findings s)) \<and>
    sorted (map (order_expression by \<circ> li_finding) (if descending then rev rows else rows)) \<and>
    (oq_status q = Some ''open'' \<longrightarrow> og_total l = ot_open c) \<and>
    (oq_status q = Some ''treated'' \<longrightarrow> og_total l = ot_treated c) \<and>
    (oq_status q = Some ''rejected'' \<longrightarrow> og_total l = ot_rejected c)"
proof -
  from assms(3) obtain p where p: "apply_filters s q True = Inr p" "og_total l = length (filter p (findings s))"
    "og_total_pages l = total_pages (length (filter p (findings s))) n"
    by (auto simp: list_opportunities_def andThen_eq_Inr Let_def)
  have rows: "rows = map (the_item s) (ordered_findings by descending (filter p (findings s)))"
    unfolding rows_def p(3) by (rule listing_pages [OF assms(1) p(1) assms(2)])
  have fs: "map li_finding rows = ordered_findings by descending (filter p (findings s))"
    using assms(1) by (simp add: rows comp_def)
  from p(1) obtain p' where p': "apply_filters s q False = Inr p'" by (auto simp: apply_filters_status andThen_eq_Inr)
  define n where "n v = count_where (\<lambda>f. status_text (f_status f) = v) (filter p' (findings s))" for v
  have zero: "n v = 0" if "v \<notin> (\<lambda>f. status_text (f_status f)) ` set (filter p' (findings s))" for v
    using that by (auto simp: n_def count_where_def filter_empty_conv)
  have c: "opportunity_stats s q = Inr \<lparr>ot_open = n ''open'', ot_treated = n ''treated'', ot_rejected = n ''rejected''\<rparr>"
    using zero by (simp add: opportunity_stats_def p' map_of_group_counts n_def [symmetric] Let_def comp_def)
  have total: "og_total l = n v" if "oq_status q = Some v" "v \<noteq> []" for v
    using stats_count [OF c p(1) that] by (simp add: p(2) p' n_def)
  have "length rows = length (filter p (findings s))"
    by (simp add: rows) (metis ordered_findings_perm size_mset)
  moreover have "mset (map li_finding rows) = mset (filter p (findings s))" by (simp only: fs ordered_findings_perm)
  moreover have "sorted (map (order_expression by \<circ> li_finding) (if descending then rev rows else rows))"
  proof -
    have "map (order_expression by \<circ> li_finding) rows =
        map (order_expression by) (ordered_findings by descending (filter p (findings s)))"
      by (simp only: map_map [symmetric] fs)
    then show ?thesis using ordered_findings_sorted [of "by" descending "filter p (findings s)"]
      by (cases descending) (simp_all only: if_True if_False rev_map [symmetric])
  qed
  ultimately show ?thesis using p(1,2) c total by auto
qed

definition listing_db :: db where
  "listing_db = empty_db\<lparr>findings := [(finding0 ''g'')\<lparr>f_severity := ''low''\<rparr>, finding0 ''f'',
     (finding0 ''e'')\<lparr>f_status := Treated\<rparr>]\<rparr>"

lemma listing_complete_witness:
  "\<exists>l (c :: opportunity_counts). list_opportunities listing_db (no_opportunity_filters\<lparr>oq_status := Some ''open''\<rparr>) 1 1 SEVERITY True = Inr l \<and>
     og_total l = ot_open c \<and>
     length (concat (map (listing_page listing_db (no_opportunity_filters\<lparr>oq_status := Some ''open''\<rparr>) 1 SEVERITY True)
       [1..<Suc (og_total_pages l)])) = ot_open c"
proof -
  let ?l = "list_opportunities listing_db (no_opportunity_filters\<lparr>oq_status := Some ''open''\<rparr>) 1 1 SEVERITY True"
  have "\<not> isl ?l" by code_simp
  then obtain l where l: "?l = Inr l" by (metis isl_def old.sum.exhaust)
  have "links_unique listing_db" by code_simp
  from listing_complete [OF this zero_less_one l] obtain c :: opportunity_counts where
    c: "oq_status (no_opportunity_filters\<lparr>oq_status := Some ''open''\<rparr>) = Some ''open'' \<longrightarrow> og_total l = ot_open c"
    "og_total l = length (concat (map (listing_page listing_db (no_opportunity_filters\<lparr>oq_status := Some ''open''\<rparr>) 1
      SEVERITY True) [1..<Suc (og_total_pages l)]))" by (elim exE conjE) (rule that, assumption+)
  from c(1) have "og_total l = ot_open c" by simp
  with l c(2) show ?thesis by metis
qed

end
