(* ===== verification/ObservationCleanup.thy ===== *)
theory ObservationCleanup
  imports Cycles Dashboard Ledger
begin

text \<open>
  The removal of old observations (backend/app/services/retention.py): what is eligible, the
  preview, and the loop that deletes in batches.  A run whose observations are needed, because
  it is one of the two latest successes of its account or a dashboard summary refers to it, is
  protected.  Each batch is a transaction of its own, so the state is passed from batch to batch;
  a failing statement of the database is not modelled.
\<close>

section \<open>Eligible observations\<close>

definition retention_cutoff :: "int \<Rightarrow> datetime option \<Rightarrow> db \<Rightarrow> (datetime \<times> db) result" where
  "retention_cutoff days now s =
     andThen (guard (0 < days) (ValueError ''Retention days must be greater than zero'')) (\<lambda>_.
     let (current, t) = given_or_now now s
     in Inr (plus_delta (utc current) (- timedelta_days days), t))"

definition run_in_scope :: "string option \<Rightarrow> string option \<Rightarrow> collection_run \<Rightarrow> bool" where
  "run_in_scope provider account_id r \<longleftrightarrow>
     if_given provider (\<lambda>v. cr_provider r = lower v) \<and> if_given account_id (\<lambda>v. cr_account_id r = v)"

definition newer_successes :: "db \<Rightarrow> collection_run \<Rightarrow> nat" where
  "newer_successes s r =
     count_where (\<lambda>n. cr_status n = SUCCESS \<and> cr_provider n = cr_provider r \<and>
       cr_account_id n = cr_account_id r \<and> run_order r < run_order n) (collection_runs s)"

definition summary_reference :: "db \<Rightarrow> collection_run \<Rightarrow> bool" where
  "summary_reference s r \<longleftrightarrow>
     list_ex (\<lambda>a. as_collection_run_id a = cr_id r \<or>
                  as_baseline_collection_run_id a = Some (cr_id r)) (summaries s)"

definition protected_run :: "db \<Rightarrow> collection_run \<Rightarrow> bool" where
  "protected_run s r \<longleftrightarrow>
     (cr_status r = SUCCESS \<and> newer_successes s r < 2) \<or> summary_reference s r"

definition scoped_rows :: "db \<Rightarrow> (collection_run \<Rightarrow> bool) \<Rightarrow> observation list" where
  "scoped_rows s P =
     concat (map (\<lambda>ob. map (\<lambda>r. ob)
       (filter (\<lambda>r. cr_id r = o_collection_run_id ob \<and> P r) (collection_runs s))) (observations s))"

definition old_rows :: "datetime \<Rightarrow> string option \<Rightarrow> string option \<Rightarrow> bool \<Rightarrow> db \<Rightarrow> observation list" where
  "old_rows cutoff provider account_id eligible_only s =
     filter (\<lambda>ob. earlier (o_observed_at ob) cutoff)
       (scoped_rows s (\<lambda>r. run_in_scope provider account_id r \<and>
          (eligible_only \<longrightarrow> \<not> protected_run s r)))"

section \<open>The preview\<close>

definition min_time :: "datetime list \<Rightarrow> datetime option" where
  "min_time ts = (case sort_key instant ts of [] \<Rightarrow> None | t # _ \<Rightarrow> Some t)"

record observation_preview =
  op_cutoff :: datetime
  op_total :: nat
  op_before_cutoff :: nat
  op_eligible :: nat
  op_protected :: nat
  op_oldest_at :: "datetime option"
  op_oldest_eligible_at :: "datetime option"

definition retention_preview :: "datetime \<Rightarrow> string option \<Rightarrow> string option \<Rightarrow> db \<Rightarrow>
    observation_preview" where
  "retention_preview cutoff provider account_id s =
     (let scope = scoped_rows s (run_in_scope provider account_id);
          before = length (old_rows cutoff provider account_id False s);
          eligible_rows = old_rows cutoff provider account_id True s;
          eligible = length eligible_rows
      in \<lparr>op_cutoff = cutoff, op_total = length scope, op_before_cutoff = before,
          op_eligible = eligible, op_protected = before - eligible,
          op_oldest_at = min_time (map o_observed_at scope),
          op_oldest_eligible_at = min_time (map o_observed_at eligible_rows)\<rparr>)"

section \<open>The cleanup\<close>

definition delete_batch :: "observation list \<Rightarrow> db \<Rightarrow> db" where
  "delete_batch batch s =
     s\<lparr>observations := filter (\<lambda>ob. o_id ob \<notin> set (map o_id batch)) (observations s),
       collection_runs := map (\<lambda>r. if cr_id r \<in> set (map o_collection_run_id batch)
         then r\<lparr>cr_detailed_observations_available := False\<rparr> else r) (collection_runs s)\<rparr>"

definition next_candidates :: "datetime \<Rightarrow> string option \<Rightarrow> string option \<Rightarrow> nat \<Rightarrow> db \<Rightarrow>
    observation list" where
  "next_candidates cutoff provider account_id limit s =
     take limit (sort_key observation_order (old_rows cutoff provider account_id True s))"

record cleanup_state =
  cl_deleted :: nat
  cl_batches :: nat
  cl_affected :: "string set"

lemma next_candidates_rows:
  "ob \<in> set (next_candidates cutoff p a n s) \<Longrightarrow> ob \<in> set (observations s)"
  by (auto simp: next_candidates_def old_rows_def scoped_rows_def dest!: in_set_takeD)

lemma delete_batch_shrinks:
  assumes "next_candidates cutoff p a n s \<noteq> []"
  shows "length (observations (delete_batch (next_candidates cutoff p a n s) s)) < length (observations s)"
proof -
  obtain ob where "ob \<in> set (next_candidates cutoff p a n s)" using assms by fastforce
  with next_candidates_rows [OF this] show ?thesis
    by (auto simp: delete_batch_def intro!: length_filter_less [of ob])
qed

text \<open>
  The \<open>while True\<close> loop: every round that does not stop it deletes at least one observation,
  so it ends.
\<close>

function cleanup_loop :: "datetime \<Rightarrow> string option \<Rightarrow> string option \<Rightarrow> nat \<Rightarrow> nat \<Rightarrow>
    cleanup_state \<Rightarrow> db \<Rightarrow> cleanup_state \<times> db" where
  "cleanup_loop cutoff p a batch_size max_rows st s =
     (if max_rows \<noteq> 0 \<and> max_rows \<le> cl_deleted st then (st, s)
      else let limit = (if max_rows \<noteq> 0 then min batch_size (max_rows - cl_deleted st) else batch_size);
               candidates = next_candidates cutoff p a limit s
           in if candidates = [] then (st, s)
              else let t = delete_batch candidates s
                   in cleanup_loop cutoff p a batch_size max_rows
                        \<lparr>cl_deleted = cl_deleted st + (length (observations s) - length (observations t)),
                         cl_batches = cl_batches st + 1,
                         cl_affected = cl_affected st \<union> set (map o_collection_run_id candidates)\<rparr> t)"
  by pat_completeness auto

termination
  by (relation "measure (\<lambda>(c, p, a, b, m, st, s). length (observations s))")
    (simp_all add: delete_batch_shrinks)

declare cleanup_loop.simps [simp del]

record cleanup_result =
  cu_cutoff :: datetime
  cu_eligible_at_start :: nat
  cu_deleted :: nat
  cu_batches :: nat
  cu_runs_marked_partial :: nat
  cu_max_rows_reached :: bool

definition cleanup_observations :: "datetime \<Rightarrow> int \<Rightarrow> int \<Rightarrow> string option \<Rightarrow> string option \<Rightarrow> db \<Rightarrow>
    (cleanup_result \<times> db) result" where
  "cleanup_observations cutoff batch_size max_rows p a s =
     andThen (guard (0 < batch_size) (ValueError ''Batch size must be greater than zero'')) (\<lambda>_.
     andThen (guard (0 \<le> max_rows) (ValueError ''Max rows must be zero or greater'')) (\<lambda>_.
     let preview = retention_preview cutoff p a s;
         (st, t) = cleanup_loop cutoff p a (nat batch_size) (nat max_rows)
                     \<lparr>cl_deleted = 0, cl_batches = 0, cl_affected = {}\<rparr> s
     in Inr (\<lparr>cu_cutoff = cutoff, cu_eligible_at_start = op_eligible preview,
              cu_deleted = cl_deleted st, cu_batches = cl_batches st,
              cu_runs_marked_partial = card (cl_affected st),
              cu_max_rows_reached = (nat max_rows \<noteq> 0 \<and> nat max_rows \<le> cl_deleted st \<and>
                                     cl_deleted st < op_eligible preview)\<rparr>, t)))"

section \<open>What a cleanup removes\<close>

text \<open>Runs marked as no longer complete.\<close>

definition marked :: "string set \<Rightarrow> collection_run \<Rightarrow> collection_run" where
  "marked ids r = (if cr_id r \<in> ids then r\<lparr>cr_detailed_observations_available := False\<rparr> else r)"

lemma marked_fields [simp]:
  "cr_id (marked A r) = cr_id r" "cr_status (marked A r) = cr_status r"
  "cr_provider (marked A r) = cr_provider r" "cr_account_id (marked A r) = cr_account_id r"
  "cr_started_at (marked A r) = cr_started_at r" "cr_scope (marked A r) = cr_scope r"
  "cr_analyzer_version (marked A r) = cr_analyzer_version r"
  "cr_opportunities_found (marked A r) = cr_opportunities_found r"
  "run_order (marked A r) = run_order r" "run_in_scope p a (marked A r) = run_in_scope p a r"
  by (simp_all add: marked_def run_order_def run_in_scope_def)

lemma marked_marked [simp]: "marked A (marked B r) = marked (A \<union> B) r"
  by (simp add: marked_def)

lemma marked_none [simp]: "marked {} = id"
  by (simp add: marked_def fun_eq_iff)

definition cleaned :: "observation set \<Rightarrow> db \<Rightarrow> db" where
  "cleaned D s = s\<lparr>observations := filter (\<lambda>ob. ob \<notin> D) (observations s),
     collection_runs := map (marked (o_collection_run_id ` D)) (collection_runs s)\<rparr>"

lemma cleaned_none [simp]: "cleaned {} s = s"
  by (simp add: cleaned_def)

lemma cleaned_cleaned: "cleaned D (cleaned E s) = cleaned (D \<union> E) s"
  by (simp add: cleaned_def image_Un comp_def conj_commute Un_commute filter_filter
      cong: map_cong)

lemma cleaned_protection [simp]:
  "newer_successes (cleaned D s) r = newer_successes s r"
  "newer_successes s (marked A r) = newer_successes s r"
  "summary_reference (cleaned D s) r = summary_reference s r"
  "summary_reference s (marked A r) = summary_reference s r"
  "protected_run (cleaned D s) r = protected_run s r"
  "protected_run s (marked A r) = protected_run s r"
  by (simp_all add: newer_successes_def summary_reference_def protected_run_def cleaned_def
      count_where_def filter_map comp_def)

definition removable :: "datetime \<Rightarrow> string option \<Rightarrow> string option \<Rightarrow> db \<Rightarrow> observation \<Rightarrow> bool" where
  "removable cutoff p a s ob \<longleftrightarrow> earlier (o_observed_at ob) cutoff \<and>
     (\<exists>r \<in> set (collection_runs s). cr_id r = o_collection_run_id ob \<and> run_in_scope p a r \<and>
        \<not> protected_run s r)"

text \<open>Identifiers that are unique, as their columns' constraints require.\<close>

definition unique_rows :: "db \<Rightarrow> bool" where
  "unique_rows s \<longleftrightarrow> distinct (map o_id (observations s)) \<and> distinct (map cr_id (collection_runs s))"

lemma cleaned_unique: "unique_rows s \<Longrightarrow> unique_rows (cleaned D s)"
  by (simp add: unique_rows_def cleaned_def distinct_map_filter comp_def)

lemma cleaned_removable: "removable cutoff p a (cleaned D s) ob = removable cutoff p a s ob"
proof -
  have "set (collection_runs (cleaned D s)) = marked (o_collection_run_id ` D) ` set (collection_runs s)"
    by (simp add: cleaned_def)
  then show ?thesis by (simp add: removable_def)
qed

lemma scoped_rows_filter:
  assumes "distinct (map cr_id (collection_runs s))"
  shows "scoped_rows s P =
    filter (\<lambda>ob. \<exists>r \<in> set (collection_runs s). cr_id r = o_collection_run_id ob \<and> P r) (observations s)"
proof -
  have one: "map (\<lambda>r. ob) (filter (\<lambda>r. cr_id r = o_collection_run_id ob \<and> P r) runs) =
      (if \<exists>r \<in> set runs. cr_id r = o_collection_run_id ob \<and> P r then [ob] else [])"
    if "distinct (map cr_id runs)" for ob :: observation and runs
    using that
  proof (induction runs)
    case (Cons x runs)
    show ?case
    proof (cases "cr_id x = o_collection_run_id ob \<and> P x")
      case True
      then have "filter (\<lambda>r. cr_id r = o_collection_run_id ob \<and> P r) runs = []"
        using Cons.prems by (auto simp: filter_empty_conv image_iff)
      with True show ?thesis by simp
    next
      case False
      with Cons show ?thesis by auto
    qed
  qed simp
  have "concat (map (\<lambda>ob. if Q ob then [ob] else []) xs) = filter Q xs"
    for Q and xs :: "observation list"
    by (induction xs) simp_all
  then show ?thesis by (simp add: scoped_rows_def one [OF assms])
qed

lemma old_rows_removable:
  assumes "unique_rows s"
  shows "old_rows cutoff p a True s = filter (removable cutoff p a s) (observations s)"
  using assms
  by (simp add: old_rows_def unique_rows_def scoped_rows_filter removable_def [abs_def] filter_filter
      conj_ac)

text \<open>The rows a run of the loop can remove, oldest first.\<close>

definition removal_order :: "datetime \<Rightarrow> string option \<Rightarrow> string option \<Rightarrow> db \<Rightarrow> observation list" where
  "removal_order cutoff p a s = sort_key observation_order (filter (removable cutoff p a s) (observations s))"

lemma removal_order_set: "set (removal_order cutoff p a s) \<subseteq> set (observations s)"
  by (auto simp: removal_order_def)

lemma removal_order_distinct:
  assumes "unique_rows s"
  shows "distinct (map o_id (removal_order cutoff p a s))" "distinct (removal_order cutoff p a s)"
proof -
  have "distinct (filter (removable cutoff p a s) (observations s))"
    using assms by (auto simp: unique_rows_def distinct_map intro: distinct_filter)
  then show d: "distinct (removal_order cutoff p a s)" by (simp add: removal_order_def)
  have "inj_on o_id (set (removal_order cutoff p a s))"
    using assms by (auto simp: unique_rows_def distinct_map intro: inj_on_subset [OF _ removal_order_set])
  with d show "distinct (map o_id (removal_order cutoff p a s))" by (simp add: distinct_map)
qed

lemma delete_batch_cleaned:
  assumes "unique_rows s" "set xs \<subseteq> set (observations s)"
  shows "delete_batch xs s = cleaned (set xs) s"
proof -
  have "ob \<in> set xs \<longleftrightarrow> o_id ob \<in> o_id ` set xs" if "ob \<in> set (observations s)" for ob
    using that assms by (auto simp: unique_rows_def distinct_map dest: inj_onD)
  then have "filter (\<lambda>ob. o_id ob \<notin> set (map o_id xs)) (observations s) =
      filter (\<lambda>ob. ob \<notin> set xs) (observations s)" by (intro filter_cong) simp_all
  then show ?thesis by (simp add: delete_batch_def cleaned_def marked_def [abs_def] cong: map_cong)
qed

lemma removal_order_cleaned:
  assumes "unique_rows s"
  shows "removal_order cutoff p a (cleaned (set (take n (removal_order cutoff p a s))) s) =
    drop n (removal_order cutoff p a s)"
proof -
  let ?E = "removal_order cutoff p a s"
  let ?t = "cleaned (set (take n ?E)) s"
  have "removal_order cutoff p a ?t =
      sort_key observation_order (filter (\<lambda>ob. ob \<notin> set (take n ?E)) (filter (removable cutoff p a s) (observations s)))"
    unfolding removal_order_def cleaned_removable [abs_def] by (simp add: cleaned_def filter_filter conj_commute)
  also have "\<dots> = filter (\<lambda>ob. ob \<notin> set (take n ?E)) ?E"
    by (simp add: removal_order_def filter_sort)
  also have "\<dots> = drop n ?E"
  proof -
    have "filter (\<lambda>ob. ob \<notin> set (take n ys)) ys = drop n ys" if "distinct ys" for ys :: "observation list"
    proof -
      have "filter (\<lambda>ob. ob \<notin> set (take n ys)) (take n ys @ drop n ys) = drop n ys"
        unfolding filter_append using that
        by (auto simp: filter_id_conv filter_empty_conv dest: set_take_disj_set_drop_if_distinct [of ys n n])
      then show ?thesis by simp
    qed
    from this [OF removal_order_distinct(2) [OF assms]] show ?thesis .
  qed
  finally show ?thesis .
qed


text \<open>
  The loop removes the oldest removable rows, as many as the limit allows, in rounds of the
  batch size.
\<close>

definition budget :: "nat \<Rightarrow> nat \<Rightarrow> nat \<Rightarrow> nat" where
  "budget max_rows used available =
     (if max_rows = 0 then available else min available (max_rows - used))"

definition ceil_div :: "nat \<Rightarrow> nat \<Rightarrow> nat" where
  "ceil_div n b = (n + b - 1) div b"

lemma ceil_div_0 [simp]: "0 < b \<Longrightarrow> ceil_div 0 b = 0"
  by (simp add: ceil_div_def)

lemma ceil_div_step: "0 < b \<Longrightarrow> 0 < n \<Longrightarrow> ceil_div n b = Suc (ceil_div (n - min b n) b)"
proof -
  assume b: "0 < b" "0 < n"
  show ?thesis
  proof (cases "b \<le> n")
    case True
    then have "n + b - 1 = (n - b + b - 1) + b" using b by simp
    then have "(n + b - 1) div b = Suc ((n - b + b - 1) div b)" using b by (simp only: div_add_self2)
    with True show ?thesis by (simp add: ceil_div_def min_absorb1)
  next
    case False
    then have "(n + b - 1) div b = 1" using b by (intro div_nat_eqI) simp_all
    with False b show ?thesis by (simp add: ceil_div_def min_absorb2)
  qed
qed

lemma cleanup_loop_effect:
  fixes cutoff p a s
  assumes "unique_rows s" "0 < batch_size" "max_rows = 0 \<or> cl_deleted st \<le> max_rows"
  defines "E \<equiv> removal_order cutoff p a s"
  defines "n \<equiv> budget max_rows (cl_deleted st) (length E)"
  shows "cleanup_loop cutoff p a batch_size max_rows st s =
    (\<lparr>cl_deleted = cl_deleted st + n, cl_batches = cl_batches st + ceil_div n batch_size,
      cl_affected = cl_affected st \<union> set (map o_collection_run_id (take n E))\<rparr>, cleaned (set (take n E)) s)"
  using assms(1-3) unfolding E_def n_def
proof (induction cutoff p a batch_size max_rows st s rule: cleanup_loop.induct)
  case (1 cutoff p a batch_size max_rows st s)
  define E where "E = removal_order cutoff p a s"
  define k where "k = (if max_rows \<noteq> 0 then min batch_size (max_rows - cl_deleted st) else batch_size)"
  define n where "n = budget max_rows (cl_deleted st) (length E)"
  have cand: "next_candidates cutoff p a k s = take k E"
    by (simp add: next_candidates_def old_rows_removable [OF "1.prems"(1)] E_def removal_order_def)
  consider (stop) "n = 0" | (round) "0 < n" by blast
  then show ?case
  proof cases
    case stop
    then have "max_rows \<noteq> 0 \<and> max_rows \<le> cl_deleted st \<or> next_candidates cutoff p a k s = []"
      using "1.prems"(2) by (auto simp: cand n_def budget_def min_def split: if_splits)
    then have "cleanup_loop cutoff p a batch_size max_rows st s = (st, s)"
      by (subst cleanup_loop.simps) (auto simp: Let_def k_def)
    with stop "1.prems"(2) show ?thesis unfolding E_def n_def by simp
  next
    case round
    define xs where "xs = take k E"
    define t where "t = cleaned (set xs) s"
    have left: "cl_deleted st < max_rows" if "max_rows \<noteq> 0"
      using round that by (simp add: n_def budget_def)
    have k: "0 < k" "min k (length E) = min batch_size n" "k \<le> batch_size"
      and more: "\<not> (max_rows \<noteq> 0 \<and> max_rows \<le> cl_deleted st)"
      using round left "1.prems"(2,3) by (auto simp: k_def n_def budget_def min_def split: if_splits)
    have E: "E \<noteq> []" using round by (auto simp: n_def budget_def split: if_splits)
    then have xs: "xs \<noteq> []" using k(1) by (simp add: xs_def)
    have sub: "set xs \<subseteq> set (observations s)"
      unfolding xs_def E_def by (rule subset_trans [OF set_take_subset removal_order_set])
    have del: "delete_batch xs s = t"
      unfolding t_def by (rule delete_batch_cleaned [OF "1.prems"(1) sub])
    have dist: "distinct xs" "distinct (observations s)"
      using removal_order_distinct(2) [OF "1.prems"(1)] "1.prems"(1)
      by (simp_all add: xs_def E_def unique_rows_def distinct_map)
    have count: "length (observations s) - length (observations t) = min batch_size n"
    proof -
      have "length (filter (\<lambda>ob. ob \<in> set xs) (observations s)) = card (set xs)"
        using dist sub by (metis distinct_card distinct_filter inf.absorb_iff2 set_filter Collect_conj_eq
            Collect_mem_eq)
      then have "length xs = length (filter (\<lambda>ob. ob \<in> set xs) (observations s))"
        using dist by (simp add: distinct_card)
      moreover have "length (observations t) + length (filter (\<lambda>ob. ob \<in> set xs) (observations s)) =
          length (observations s)"
        using sum_length_filter_compl [of "\<lambda>ob. ob \<in> set xs" "observations s"] by (simp add: t_def cleaned_def)
      ultimately show ?thesis using k(2) by (simp add: xs_def)
    qed
    define st' where "st' = \<lparr>cl_deleted = cl_deleted st + min batch_size n, cl_batches = cl_batches st + 1,
      cl_affected = cl_affected st \<union> set (map o_collection_run_id xs)\<rparr>"
    have step: "cleanup_loop cutoff p a batch_size max_rows st s =
        cleanup_loop cutoff p a batch_size max_rows st' t"
      using xs more by (subst cleanup_loop.simps)
        (simp only: Let_def k_def [symmetric] cand xs_def [symmetric] del count st'_def if_False simp_thms)
    have E': "removal_order cutoff p a t = drop k E"
      unfolding t_def xs_def E_def by (rule removal_order_cleaned [OF "1.prems"(1)])
    have n': "budget max_rows (cl_deleted st') (length (drop k E)) = n - min batch_size n"
      using k round more by (auto simp: st'_def n_def budget_def min_def split: if_splits)
    have ok: "max_rows = 0 \<or> cl_deleted st' \<le> max_rows"
      using "1.prems"(3) by (auto simp: st'_def n_def budget_def)
    have IH: "cleanup_loop cutoff p a batch_size max_rows st' t =
      (\<lparr>cl_deleted = cl_deleted st' + (n - min batch_size n),
        cl_batches = cl_batches st' + ceil_div (n - min batch_size n) batch_size,
        cl_affected = cl_affected st' \<union> set (map o_collection_run_id (take (n - min batch_size n) (drop k E)))\<rparr>,
       cleaned (set (take (n - min batch_size n) (drop k E))) t)"
      using "1.IH" [OF more k_def refl _ refl, unfolded cand xs_def [symmetric] del count st'_def [symmetric],
          OF xs cleaned_unique [OF "1.prems"(1), of "set xs", folded t_def] "1.prems"(2) ok]
      by (simp only: E' n')
    have tk: "set xs \<union> set (take (n - min batch_size n) (drop k E)) = set (take n E)"
    proof -
      have "take n E = take k E @ take (n - k) (drop k E)" if "k \<le> n"
        using that by (metis le_add_diff_inverse take_add)
      moreover have "n \<le> length E" by (simp add: n_def budget_def)
      ultimately show ?thesis using k round
        by (cases "k \<le> n") (auto simp: xs_def min_def split: if_splits)
    qed
    show ?thesis
      unfolding step IH E_def [symmetric] n_def [symmetric] ceil_div_step [OF "1.prems"(2) round, folded min.commute]
      using tk by (simp add: st'_def t_def cleaned_cleaned Un_commute image_Un [symmetric] Un_assoc min.commute)
  qed
qed

lemma preview_eligible:
  "unique_rows s \<Longrightarrow> op_eligible (retention_preview cutoff p a s) = length (removal_order cutoff p a s)"
  by (simp add: retention_preview_def Let_def old_rows_removable removal_order_def)

text \<open>The rows a cleanup with these bounds removes.\<close>

definition removed_rows :: "datetime \<Rightarrow> int \<Rightarrow> string option \<Rightarrow> string option \<Rightarrow> db \<Rightarrow> observation list" where
  "removed_rows cutoff max_rows p a s =
     (let E = removal_order cutoff p a s in if max_rows = 0 then E else take (nat max_rows) E)"

lemma cleanup_effect:
  fixes cutoff p a s
  assumes "unique_rows s" "0 < batch_size" "0 \<le> max_rows"
  defines "D \<equiv> removed_rows cutoff max_rows p a s"
  shows "cleanup_observations cutoff batch_size max_rows p a s =
    Inr (\<lparr>cu_cutoff = cutoff, cu_eligible_at_start = length (removal_order cutoff p a s),
          cu_deleted = length D, cu_batches = ceil_div (length D) (nat batch_size),
          cu_runs_marked_partial = card (o_collection_run_id ` set D),
          cu_max_rows_reached = (length D < length (removal_order cutoff p a s))\<rparr>,
         cleaned (set D) s)"
proof -
  define E where "E = removal_order cutoff p a s"
  define n where "n = budget (nat max_rows) 0 (length E)"
  have D: "D = take n E" "length D = n" "n \<le> length E"
    using assms(3) by (auto simp: D_def removed_rows_def n_def E_def budget_def min_def Let_def)
  have reached: "(nat max_rows \<noteq> 0 \<and> nat max_rows \<le> n \<and> n < length E) \<longleftrightarrow> n < length E"
    using assms(3) by (auto simp: n_def budget_def)
  have loop: "cleanup_loop cutoff p a (nat batch_size) (nat max_rows)
      \<lparr>cl_deleted = 0, cl_batches = 0, cl_affected = {}\<rparr> s =
    (\<lparr>cl_deleted = n, cl_batches = ceil_div n (nat batch_size),
      cl_affected = o_collection_run_id ` set D\<rparr>, cleaned (set D) s)"
    using cleanup_loop_effect [OF assms(1), of "nat batch_size" "nat max_rows"
        "\<lparr>cl_deleted = 0, cl_batches = 0, cl_affected = {}\<rparr>" cutoff p a] assms(2)
    by (simp add: n_def [symmetric] E_def [symmetric] D(1))
  show ?thesis
    using assms(2,3) loop reached
    by (simp add: cleanup_observations_def preview_eligible [OF assms(1)] E_def [symmetric] D(2))
qed

lemma removed_rows_removable: "ob \<in> set (removed_rows cutoff m p a s) \<Longrightarrow> removable cutoff p a s ob"
  by (auto simp: removed_rows_def removal_order_def Let_def split: if_splits dest!: in_set_takeD)

section \<open>What the dashboard reads is kept\<close>

lemma protected_row_kept:
  assumes "unique_rows s" "r \<in> set (collection_runs s)" "protected_run s r"
    and "\<And>ob. ob \<in> D \<Longrightarrow> removable cutoff p a s ob"
  shows "cr_id r \<notin> o_collection_run_id ` D"
proof
  assume "cr_id r \<in> o_collection_run_id ` D"
  then obtain ob where "ob \<in> D" "o_collection_run_id ob = cr_id r" by auto
  with assms(4) [of ob] obtain r' where "r' \<in> set (collection_runs s)" "cr_id r' = cr_id r"
    "\<not> protected_run s r'" by (fastforce simp: removable_def)
  with assms(1-3) show False by (auto simp: unique_rows_def distinct_map dest: inj_onD)
qed

lemma cleaned_observed:
  assumes "cr_id r \<notin> o_collection_run_id ` D"
  shows "observed_in (cleaned D s) (cr_id r) = observed_in s (cr_id r)"
    "observed_rows (cleaned D s) r = observed_rows s r" "marked (o_collection_run_id ` D) r = r"
proof -
  have out: "ob \<notin> D" if "o_collection_run_id ob = cr_id r" for ob
    using assms that by (metis imageI)
  have same: "filter (\<lambda>ob. o_collection_run_id ob = cr_id r) (filter (\<lambda>ob. ob \<notin> D) xs) =
      filter (\<lambda>ob. o_collection_run_id ob = cr_id r) xs" for xs
    using out by (auto simp: filter_filter intro: filter_cong)
  then show "observed_rows (cleaned D s) r = observed_rows s r"
    by (simp add: observed_rows_def cleaned_def)
  show "observed_in (cleaned D s) (cr_id r) = observed_in s (cr_id r)"
    using out by (auto simp: fun_eq_iff observed_in_def cleaned_def list_ex_iff)
  show "marked (o_collection_run_id ` D) r = r" using assms by (simp add: marked_def)
qed

text \<open>Marking runs commutes with filtering and sorting them.\<close>

lemma sort_key_marked: "sort_key run_order (map (marked A) rs) = map (marked A) (sort_key run_order rs)"
proof -
  have "insort_key run_order (marked A r) (map (marked A) rs) = map (marked A) (insort_key run_order r rs)" for r rs
    by (induction rs) simp_all
  then show ?thesis by (induction rs) simp_all
qed

lemma cleaned_latest:
  "latest_successful_run (cleaned D s) p a =
     map_option (marked (o_collection_run_id ` D)) (latest_successful_run s p a)"
proof -
  let ?P = "\<lambda>r. cr_status r = SUCCESS \<and> cr_provider r = lower p \<and> cr_account_id r = a"
  have "filter ?P (collection_runs (cleaned D s)) =
      map (marked (o_collection_run_id ` D)) (filter ?P (collection_runs s))"
    by (simp add: cleaned_def filter_map comp_def)
  then have "latest_successful_run (cleaned D s) p a =
      (case map (marked (o_collection_run_id ` D)) (rev (sort_key run_order (filter ?P (collection_runs s)))) of
         [] \<Rightarrow> None | r # _ \<Rightarrow> Some r)"
    by (simp only: latest_successful_run_def sort_key_marked rev_map)
  then show ?thesis unfolding latest_successful_run_def by (simp split: list.split)
qed

lemma collect_marked:
  "collect_compatible target n (map (marked A) acc) (map (marked A) cs) =
     map (marked A) (collect_compatible target n acc cs)"
proof (induction cs arbitrary: acc)
  case (Cons c cs)
  have "scope_compatible (marked A c) target = scope_compatible c target" by (simp add: scope_compatible_def)
  with Cons.IH [of acc] Cons.IH [of "c # acc"] show ?case by (simp add: rev_map)
qed (simp add: rev_map)

lemma cleaned_previous:
  "previous_comparable_run (cleaned D s) target =
     andThen (previous_comparable_run s target) (\<lambda>b. Inr (map_option (marked (o_collection_run_id ` D)) b))"
proof -
  let ?m = "marked (o_collection_run_id ` D)"
  have "baseline_candidates (cleaned D s) target = map ?m (baseline_candidates s target)"
    by (simp add: baseline_candidates_def cleaned_def filter_map comp_def sort_key_marked rev_map)
  with collect_marked [of target 1 "o_collection_run_id ` D" "[]" "baseline_candidates s target"]
  have "compatible_baselines (cleaned D s) target 1 =
      andThen (compatible_baselines s target 1) (\<lambda>bs. Inr (map ?m bs))"
    by (simp add: compatible_baselines_def andThen_assoc)
  then show ?thesis
    by (simp add: previous_comparable_run_def andThen_assoc split: list.split)
       (auto intro!: andThen_cong split: list.split)
qed

lemma cleaned_findings: "findings (cleaned D s) = findings s"
  by (simp add: cleaned_def)

lemma make_context_fields [simp]:
  "rc_baseline (make_context s t b x v) = b" "rc_target (make_context s t b x v) = t"
  by (simp_all add: make_context_def split: prod.split)

lemma cleaned_values:
  assumes ch: "opportunity_run_changes s target = Inr ch"
    and t: "cr_id target \<notin> o_collection_run_id ` D"
    and b: "\<And>b. ch_baseline ch = Some b \<Longrightarrow> rr_id b \<notin> o_collection_run_id ` D"
  shows "summary_values_of (cleaned D s) target = summary_values_of s target"
proof -
  let ?m = "marked (o_collection_run_id ` D)"
  from ch obtain c where c: "resolve_run_context s target = Inr c"
    and base: "ch_baseline ch = map_option run_reference_of (rc_baseline c)"
    by (auto simp: opportunity_run_changes_def andThen_eq_Inr)
  have bm: "cr_id x \<notin> o_collection_run_id ` D" if "rc_baseline c = Some x" for x
    using b that by (simp add: base run_reference_of_def)
  have ctx: "make_context (cleaned D s) = make_context s"
    by (simp add: make_context_def scope_coverage_def run_scopes_def cleaned_def fun_eq_iff)
  have rc: "resolve_run_context (cleaned D s) target = Inr c"
  proof (cases "cr_status target = SUCCESS \<and> cr_detailed_observations_available target")
    case False
    with c show ?thesis by (simp add: resolve_run_context_def ctx split: if_splits)
  next
    case True
    with c obtain bo where bo: "previous_comparable_run s target = Inr bo"
      by (auto simp: resolve_run_context_def andThen_eq_Inr)
    have "map_option ?m bo = bo"
    proof (cases bo)
      case (Some x)
      with True c bo have "rc_baseline c = Some x"
        by (auto simp: resolve_run_context_def context_with_baseline_def split: if_splits)
      with bm Some show ?thesis by (simp add: marked_def)
    qed simp
    then have "previous_comparable_run (cleaned D s) target = previous_comparable_run s target"
      by (simp add: cleaned_previous bo)
    then have "resolve_run_context (cleaned D s) target = resolve_run_context s target"
      unfolding resolve_run_context_def context_with_baseline_def ctx by simp
    with c show ?thesis by simp
  qed
  have tc: "rc_target c = target"
    using c unfolding resolve_run_context_def context_with_baseline_def
    by (auto simp: andThen_eq_Inr split: if_splits option.splits)
  have cov: "covered_by_target (cleaned D s) = covered_by_target s"
    by (simp add: covered_by_target_def cleaned_def fun_eq_iff)
  have cls: "classification_condition (cleaned D s) c d = classification_condition s c d" for d
  proof (cases "rc_baseline c")
    case None
    then show ?thesis by (cases d) (simp_all add: classification_condition_def Let_def tc cleaned_observed(1) [OF t])
  next
    case (Some x)
    show ?thesis
      by (cases d) (simp_all add: classification_condition_def Let_def tc Some cov
          cleaned_observed(1) [OF t] cleaned_observed(1) [OF bm [OF Some]])
  qed
  have "change_summary_of (cleaned D s) c target = change_summary_of s c target"
    unfolding change_summary_of_def cls count_findings_def cleaned_findings ..
  then have "opportunity_run_changes (cleaned D s) target = opportunity_run_changes s target"
    by (simp add: opportunity_run_changes_def c rc)
  moreover have "current_metrics (cleaned D s) target = current_metrics s target"
    by (simp add: current_metrics_def currency_rows_def cleaned_observed [OF t])
  ultimately show ?thesis by (simp add: summary_values_of_def comparison_metrics_def)
qed


section \<open>Properties\<close>

text \<open>
  C7: A cleanup always ends, and removes exactly what it may: the observations older than the
  cutoff whose run is in scope and not protected, all of them without a row limit and otherwise
  the oldest ones up to the limit, in batches of the given size.  The result reports their number,
  the runs they belonged to are marked as incomplete, no other row of any table changes, and
  without a limit a second cleanup finds nothing.
\<close>

theorem cleanup_exact:
  assumes "unique_rows s" "0 < batch_size" "0 \<le> max_rows"
  shows "\<exists>r t. cleanup_observations cutoff batch_size max_rows p a s = Inr (r, t) \<and>
    t = cleaned (set (removed_rows cutoff max_rows p a s)) s \<and>
    cu_deleted r = length (removed_rows cutoff max_rows p a s) \<and>
    cu_batches r = ceil_div (cu_deleted r) (nat batch_size) \<and>
    cu_eligible_at_start r = op_eligible (retention_preview cutoff p a s) \<and>
    (cu_max_rows_reached r \<longleftrightarrow> cu_deleted r < cu_eligible_at_start r) \<and>
    (max_rows = 0 \<longrightarrow> op_eligible (retention_preview cutoff p a t) = 0 \<and>
       observations t = filter (\<lambda>ob. \<not> removable cutoff p a s ob) (observations s))"
proof -
  let ?D = "set (removed_rows cutoff max_rows p a s)"
  have again: "op_eligible (retention_preview cutoff p a (cleaned ?D s)) = 0 \<and>
      observations (cleaned ?D s) = filter (\<lambda>ob. \<not> removable cutoff p a s ob) (observations s)"
    if "max_rows = 0"
  proof -
    let ?E = "removal_order cutoff p a s"
    have D: "removed_rows cutoff max_rows p a s = take (length ?E) ?E"
      using that by (simp add: removed_rows_def Let_def)
    have "removal_order cutoff p a (cleaned ?D s) = []"
      unfolding D removal_order_cleaned [OF assms(1)] by simp
    moreover have "?D = {ob \<in> set (observations s). removable cutoff p a s ob}"
      unfolding D by (auto simp: removal_order_def)
    then have "observations (cleaned ?D s) = filter (\<lambda>ob. \<not> removable cutoff p a s ob) (observations s)"
      by (auto simp: cleaned_def intro: filter_cong)
    ultimately show ?thesis by (simp add: preview_eligible [OF cleaned_unique [OF assms(1)]])
  qed
  show ?thesis
    using cleanup_effect [OF assms, of cutoff p a] again
    by (simp add: preview_eligible [OF assms(1)])
qed

text \<open>
  C8: A cleanup does not disturb the dashboards: the summary of an account that matches its source
  tables still matches them afterwards, whatever the cutoff, scope and limits.
\<close>

theorem cleanup_keeps_summaries:
  assumes "unique_rows s" "cleanup_observations cutoff batch_size max_rows p a s = Inr (r, t)"
    and "fresh s provider account_id"
  shows "fresh t provider account_id"
proof -
  from assms(2) have args: "0 < batch_size" "0 \<le> max_rows"
    by (auto simp: cleanup_observations_def andThen_eq_Inr)
  define D where "D = set (removed_rows cutoff max_rows p a s)"
  have t: "t = cleaned D s" using cleanup_effect [OF assms(1) args, of cutoff p a] assms(2) by (simp add: D_def)
  have D: "ob \<in> D \<Longrightarrow> removable cutoff p a s ob" for ob
    by (simp add: D_def removed_rows_removable)
  have get: "get_summary (cleaned D s) = get_summary s" by (simp add: get_summary_def cleaned_def fun_eq_iff)
  show ?thesis
  proof (cases "latest_successful_run s provider account_id")
    case None
    with assms(3) show ?thesis
      by (simp add: fresh_def summary_matches_source_def t cleaned_latest get)
  next
    case (Some target)
    from assms(3) Some obtain row v where row: "get_summary s (lower provider) account_id = Some row"
      "as_collection_run_id row = cr_id target" "calculate_account_summary s target = Inr v" "matches_values row v"
      by (auto simp: fresh_def summary_matches_source_def andThen_eq_Inr split: option.splits if_splits)
    from row(3) have v: "summary_values_of s target = Inr v"
      by (auto simp: calculate_account_summary_def andThen_eq_Inr)
    then obtain ch where ch: "opportunity_run_changes s target = Inr ch"
      by (auto simp: summary_values_of_def comparison_metrics_def andThen_eq_Inr split: prod.splits)
    have base: "sv_baseline_collection_run_id v = map_option rr_id (ch_baseline ch)"
      using v by (auto simp: summary_values_of_def comparison_metrics_def ch Let_def split: prod.splits)
    have mem: "row \<in> set (summaries s)" using row(1) find_row_Some by (fastforce simp: get_summary_def)
    have kept: "i \<notin> o_collection_run_id ` D"
      if "as_collection_run_id row = i \<or> as_baseline_collection_run_id row = Some i" for i
    proof
      assume "i \<in> o_collection_run_id ` D"
      then obtain ob where ob: "ob \<in> D" "o_collection_run_id ob = i" by auto
      from D [OF ob(1)] obtain x where "x \<in> set (collection_runs s)" "cr_id x = i" "\<not> protected_run s x"
        using ob(2) by (auto simp: removable_def)
      with that mem show False by (auto simp: protected_run_def summary_reference_def list_ex_iff)
    qed
    have tk: "cr_id target \<notin> o_collection_run_id ` D" using kept row(2) by simp
    have "rr_id b \<notin> o_collection_run_id ` D" if "ch_baseline ch = Some b" for b
      using kept row(4) that by (simp add: matches_values_def base)
    from cleaned_values [OF ch tk this] v have "summary_values_of t target = Inr v" by (simp add: t)
    moreover have "latest_successful_run t provider account_id = Some target"
      by (simp add: t cleaned_latest Some cleaned_observed(3) [OF tk])
    ultimately show ?thesis using row by (intro freshI) (simp_all add: t get)
  qed
qed

text \<open>Witnesses: a failed run with an old observation, and the latest success of the account.\<close>

definition old_observation :: observation where
  "old_observation = \<lparr>o_id = ''o'', o_opportunity_id = ''f'', o_collection_run_id = ''old'',
     o_observed_at = Aware 10 0, o_severity = ''high'', o_current_monthly_cost = 1,
     o_estimated_monthly_savings = Some 1, o_currency = ''USD'', o_confidence = ''high'',
     o_provider_metadata = JObj [], o_evidence = JObj []\<rparr>"

definition cleanup_db :: db where
  "cleanup_db = empty_db\<lparr>observations := [old_observation],
     collection_runs := [(run_at ''old'' 0)\<lparr>cr_status := FAILED\<rparr>, run_at ''new'' 20],
     summaries := [\<lparr>as_provider = ''aws'', as_account_id = ''1'', as_collection_run_id = ''new'',
       as_baseline_collection_run_id = None, as_open_count = 0, as_treated_count = 0,
       as_rejected_count = 0,
       as_severity_counts = [(''high'', 0), (''medium'', 0), (''low'', 0), (''other'', 0)],
       as_financial = [], as_new_count = 0, as_no_longer_detected_count = 0, as_has_baseline = False,
       as_rules_version_changed = False, as_rules_version_unknown = False,
       as_updated_at = Aware 30 0\<rparr>]\<rparr>"

lemma cleanup_db_facts:
  "unique_rows cleanup_db" "fresh cleanup_db ''aws'' ''1''"
  "removed_rows (Aware 15 0) 0 None None cleanup_db = [old_observation]"
  by (code_simp, code_simp, code_simp)

lemma cleanup_exact_witness:
  "\<exists>r t. cleanup_observations (Aware 15 0) 10 0 None None cleanup_db = Inr (r, t) \<and>
    cu_deleted r = 1 \<and> op_eligible (retention_preview (Aware 15 0) None None t) = 0"
  using cleanup_exact [OF cleanup_db_facts(1), of 10 0 "Aware 15 0" None None]
  unfolding cleanup_db_facts(3) by auto

lemma cleanup_keeps_summaries_witness:
  "\<exists>r t. cleanup_observations (Aware 15 0) 10 0 None None cleanup_db = Inr (r, t) \<and> fresh t ''aws'' ''1''"
proof -
  from cleanup_effect [OF cleanup_db_facts(1), of 10 0 "Aware 15 0" None None] obtain r t
    where c: "cleanup_observations (Aware 15 0) 10 0 None None cleanup_db = Inr (r, t)" by auto
  from cleanup_keeps_summaries [OF cleanup_db_facts(1) c cleanup_db_facts(2)] c show ?thesis by blast
qed

end
