(* ===== verification/ManagementPolicy.thy ===== *)
theory ManagementPolicy
  imports Cycles ObservationCleanup Retention
begin

text \<open>
  The global management policy (backend/app/services/opportunity_policy.py): its first row, its
  updates, the cycles it asks for, the automatic closing of overdue cycles and the preview of a
  candidate.  The time zone database is a parameter: a zone gives the UTC offset in force at an
  instant and the one a wall clock reading is taken to have.  The settings are given as options,
  \<open>None\<close> where neither the environment nor the configuration sets a value.  Dates stay within the
  years Python can represent.
\<close>

section \<open>Time zones\<close>

record zone =
  offset_at :: "int \<Rightarrow> int"
  local_offset :: "int \<Rightarrow> int"

definition local_wall :: "zone \<Rightarrow> datetime \<Rightarrow> int" where
  "local_wall z t = instant t + offset_at z (instant t)"

text \<open>\<open>datetime(..., tzinfo=tz).astimezone(UTC)\<close> of a wall clock reading.\<close>

definition from_local :: "zone \<Rightarrow> int \<Rightarrow> datetime" where
  "from_local z w = Aware (w - local_offset z w) 0"

definition utc_zone :: zone where
  "utc_zone = \<lparr>offset_at = (\<lambda>_. 0), local_offset = (\<lambda>_. 0)\<rparr>"

section \<open>The policy\<close>

record policy_fields =
  pf_cycle_mode :: cycle_mode
  pf_cycle_length_days :: int
  pf_cycle_timezone :: string
  pf_cycle_anchor_date :: "int option"
  pf_automatic_cycle_close_enabled :: bool
  pf_treated_archive_enabled :: bool
  pf_treated_archive_days :: int
  pf_rejected_archive_enabled :: bool
  pf_rejected_archive_days :: int
  pf_resolved_external_archive_enabled :: bool
  pf_resolved_external_archive_days :: int
  pf_open_archive_enabled :: bool
  pf_open_archive_days :: int
  pf_observation_retention_days :: int
  pf_enabled :: bool

definition policy_values :: "management_policy \<Rightarrow> policy_fields" where
  "policy_values p =
     \<lparr>pf_cycle_mode = mp_cycle_mode p, pf_cycle_length_days = mp_cycle_length_days p,
      pf_cycle_timezone = mp_cycle_timezone p, pf_cycle_anchor_date = mp_cycle_anchor_date p,
      pf_automatic_cycle_close_enabled = mp_automatic_cycle_close_enabled p,
      pf_treated_archive_enabled = mp_treated_archive_enabled p,
      pf_treated_archive_days = mp_treated_archive_days p,
      pf_rejected_archive_enabled = mp_rejected_archive_enabled p,
      pf_rejected_archive_days = mp_rejected_archive_days p,
      pf_resolved_external_archive_enabled = mp_resolved_external_archive_enabled p,
      pf_resolved_external_archive_days = mp_resolved_external_archive_days p,
      pf_open_archive_enabled = mp_open_archive_enabled p,
      pf_open_archive_days = mp_open_archive_days p,
      pf_observation_retention_days = mp_observation_retention_days p, pf_enabled = mp_enabled p\<rparr>"

definition set_policy_fields :: "policy_fields \<Rightarrow> management_policy \<Rightarrow> management_policy" where
  "set_policy_fields v p =
     p\<lparr>mp_cycle_mode := pf_cycle_mode v, mp_cycle_length_days := pf_cycle_length_days v,
       mp_cycle_timezone := pf_cycle_timezone v, mp_cycle_anchor_date := pf_cycle_anchor_date v,
       mp_automatic_cycle_close_enabled := pf_automatic_cycle_close_enabled v,
       mp_treated_archive_enabled := pf_treated_archive_enabled v,
       mp_treated_archive_days := pf_treated_archive_days v,
       mp_rejected_archive_enabled := pf_rejected_archive_enabled v,
       mp_rejected_archive_days := pf_rejected_archive_days v,
       mp_resolved_external_archive_enabled := pf_resolved_external_archive_enabled v,
       mp_resolved_external_archive_days := pf_resolved_external_archive_days v,
       mp_open_archive_enabled := pf_open_archive_enabled v,
       mp_open_archive_days := pf_open_archive_days v,
       mp_observation_retention_days := pf_observation_retention_days v,
       mp_enabled := pf_enabled v\<rparr>"

definition between :: "int \<Rightarrow> int \<Rightarrow> int \<Rightarrow> bool" where
  "between a x b \<longleftrightarrow> a \<le> x \<and> x \<le> b"

text \<open>The check constraints of the table.\<close>

definition policy_constraints :: "management_policy \<Rightarrow> bool" where
  "policy_constraints p \<longleftrightarrow>
     between 7 (mp_cycle_length_days p) 365 \<and> between 1 (mp_treated_archive_days p) 3650 \<and>
     between 1 (mp_rejected_archive_days p) 3650 \<and>
     between 1 (mp_resolved_external_archive_days p) 3650 \<and>
     between 1 (mp_open_archive_days p) 3650 \<and>
     between 30 (mp_observation_retention_days p) 3650 \<and> 1 \<le> mp_version p"

definition iso_date :: "int \<Rightarrow> string" where
  "iso_date n = (case civil_from_days n of (y, m, d) \<Rightarrow>
     pad 4 (nat y) @ ''-'' @ pad 2 (nat m) @ ''-'' @ pad 2 (nat d))"

fun cycle_mode_text :: "cycle_mode \<Rightarrow> string" where
  "cycle_mode_text CALENDAR_MONTH = ''CALENDAR_MONTH''"
| "cycle_mode_text FIXED_DAYS = ''FIXED_DAYS''"

definition anchor_json :: "int option \<Rightarrow> json" where
  "anchor_json a = (case a of None \<Rightarrow> JNull | Some n \<Rightarrow> JStr (iso_date n))"

definition policy_snapshot :: "management_policy \<Rightarrow> json" where
  "policy_snapshot p =
     JObj [(''policy_version'', JInt (mp_version p)),
           (''cycle_mode'', JStr (cycle_mode_text (mp_cycle_mode p))),
           (''cycle_length_days'', JInt (mp_cycle_length_days p)),
           (''timezone'', JStr (mp_cycle_timezone p)),
           (''anchor_date'', anchor_json (mp_cycle_anchor_date p))]"

definition policy_fields_json :: "policy_fields \<Rightarrow> (string \<times> json) list" where
  "policy_fields_json v =
     [(''cycle_mode'', JStr (cycle_mode_text (pf_cycle_mode v))),
      (''cycle_length_days'', JInt (pf_cycle_length_days v)),
      (''cycle_timezone'', JStr (pf_cycle_timezone v)),
      (''cycle_anchor_date'', anchor_json (pf_cycle_anchor_date v)),
      (''automatic_cycle_close_enabled'', JBool (pf_automatic_cycle_close_enabled v)),
      (''treated_archive_enabled'', JBool (pf_treated_archive_enabled v)),
      (''treated_archive_days'', JInt (pf_treated_archive_days v)),
      (''rejected_archive_enabled'', JBool (pf_rejected_archive_enabled v)),
      (''rejected_archive_days'', JInt (pf_rejected_archive_days v)),
      (''resolved_external_archive_enabled'', JBool (pf_resolved_external_archive_enabled v)),
      (''resolved_external_archive_days'', JInt (pf_resolved_external_archive_days v)),
      (''open_archive_enabled'', JBool (pf_open_archive_enabled v)),
      (''open_archive_days'', JInt (pf_open_archive_days v)),
      (''observation_retention_days'', JInt (pf_observation_retention_days v)),
      (''enabled'', JBool (pf_enabled v))]"

record policy_settings =
  ps_treated_enabled :: "bool option"
  ps_treated_days :: "int option"
  ps_rejected_enabled :: "bool option"
  ps_rejected_days :: "int option"
  ps_resolved_externally_enabled :: "bool option"
  ps_resolved_externally_days :: "int option"
  ps_observation_retention_days :: "int option"
  ps_enabled :: "bool option"

definition setting :: "'a option \<Rightarrow> 'a \<Rightarrow> 'a" where
  "setting v d = (case v of None \<Rightarrow> d | Some x \<Rightarrow> x)"

definition bootstrap_values :: "policy_settings \<Rightarrow> datetime \<Rightarrow> string \<Rightarrow> management_policy" where
  "bootstrap_values st now i =
     \<lparr>mp_id = i, mp_cycle_mode = CALENDAR_MONTH, mp_cycle_length_days = 30,
      mp_cycle_timezone = ''UTC'',
      mp_cycle_anchor_date = Some (case civil_from_days (date_of (utc now)) of (y, m, _) \<Rightarrow>
        days_from_civil y m 1),
      mp_automatic_cycle_close_enabled = False,
      mp_treated_archive_enabled = setting (ps_treated_enabled st) True,
      mp_treated_archive_days = setting (ps_treated_days st) 30,
      mp_rejected_archive_enabled = setting (ps_rejected_enabled st) True,
      mp_rejected_archive_days = setting (ps_rejected_days st) 30,
      mp_resolved_external_archive_enabled = setting (ps_resolved_externally_enabled st) True,
      mp_resolved_external_archive_days = setting (ps_resolved_externally_days st) 30,
      mp_open_archive_enabled = False, mp_open_archive_days = 30,
      mp_observation_retention_days = setting (map_option (max 31) (ps_observation_retention_days st)) 400,
      mp_enabled = setting (ps_enabled st) True, mp_version = 1, mp_updated_by = None\<rparr>"

section \<open>The first row\<close>

definition global_policy :: "db \<Rightarrow> management_policy option" where
  "global_policy s = (case management_policies s of [] \<Rightarrow> None | p # _ \<Rightarrow> Some p)"

definition put_policy :: "management_policy \<Rightarrow> db \<Rightarrow> db" where
  "put_policy p s = s\<lparr>management_policies := put_row mp_id p (management_policies s)\<rparr>"

definition adopted :: "management_policy \<Rightarrow> history_cycle \<Rightarrow> history_cycle" where
  "adopted p c =
     (if hc_status c = CycleOpen \<and> hc_policy_version c = None
      then c\<lparr>hc_policy_version := Some (mp_version p),
             hc_metadata := (case hc_metadata c of
               JObj fs \<Rightarrow> if ''policy'' \<in> fst ` set fs then JObj fs
                         else JObj (fs @ [(''policy'', policy_snapshot p)])
             | _ \<Rightarrow> JObj [(''policy'', policy_snapshot p)])\<rparr>
      else c)"

definition adopt_legacy_open_cycles :: "management_policy \<Rightarrow> db \<Rightarrow> db" where
  "adopt_legacy_open_cycles p s = s\<lparr>history_cycles := map (adopted p) (history_cycles s)\<rparr>"

definition get_or_create :: "policy_settings \<Rightarrow> db \<Rightarrow> (management_policy \<times> db) result" where
  "get_or_create st s =
     (case global_policy s of
        Some p \<Rightarrow> Inr (p, s)
      | None \<Rightarrow>
          let (now, s1) = utcnow s; (i, s2) = new_uuid s1; p = bootstrap_values st now i
          in andThen (guard (policy_constraints p) IntegrityError) (\<lambda>_.
             Inr (p, adopt_legacy_open_cycles p
                       (s2\<lparr>management_policies := management_policies s2 @ [p]\<rparr>))))"

definition no_maintenance :: maintenance_state where
  "no_maintenance = \<lparr>ms_last_retention_run_at = None, ms_last_cycle_close_check_at = None,
     ms_last_observation_cleanup_at = None, ms_last_retention_result = JObj [],
     ms_last_cycle_close_result = JObj [], ms_last_observation_cleanup_result = JObj []\<rparr>"

definition get_maintenance_state :: "db \<Rightarrow> maintenance_state \<times> db" where
  "get_maintenance_state s =
     (case maintenance s of Some m \<Rightarrow> (m, s)
      | None \<Rightarrow> (no_maintenance, s\<lparr>maintenance := Some no_maintenance\<rparr>))"

section \<open>The cycles a policy asks for\<close>

definition calendar_bounds :: "zone \<Rightarrow> datetime \<Rightarrow> (datetime \<times> datetime \<times> string) result" where
  "calendar_bounds z timestamp =
     (case civil_from_days (local_wall z timestamp div day) of (y, m, _) \<Rightarrow>
       andThen (first_of_month y m) (\<lambda>start.
       andThen (case next_month y m of (y', m') \<Rightarrow> first_of_month y' m') (\<lambda>finish.
       Inr (from_local z start, from_local z finish, month_label y m))))"

definition fixed_bounds :: "zone \<Rightarrow> datetime \<Rightarrow> int \<Rightarrow> int \<Rightarrow> datetime \<times> datetime \<times> string" where
  "fixed_bounds z timestamp anchor length_days =
     (let days_from_anchor = local_wall z timestamp div day - anchor;
          index = days_from_anchor div length_days;
          start_date = anchor + index * length_days;
          end_date = start_date + length_days
      in (from_local z (start_date * day), from_local z (end_date * day),
          iso_date start_date @ '' - '' @ show_int length_days @ '' dias''))"

definition cycle_bounds :: "(string \<Rightarrow> zone) \<Rightarrow> policy_fields \<Rightarrow> datetime \<Rightarrow>
    (datetime \<times> datetime \<times> string) result" where
  "cycle_bounds zones v timestamp =
     (if pf_cycle_mode v = CALENDAR_MONTH then calendar_bounds (zones (pf_cycle_timezone v)) timestamp
      else case pf_cycle_anchor_date v of
        None \<Rightarrow> Inl (ValueError ''FIXED_DAYS requires cycle_anchor_date'')
      | Some anchor \<Rightarrow>
          Inr (fixed_bounds (zones (pf_cycle_timezone v)) timestamp anchor (pf_cycle_length_days v)))"

definition policy_or_first :: "policy_settings \<Rightarrow> management_policy option \<Rightarrow> db \<Rightarrow>
    (management_policy \<times> db) result" where
  "policy_or_first st p s = (case p of Some q \<Rightarrow> Inr (q, s) | None \<Rightarrow> get_or_create st s)"

definition current_cycle :: "datetime \<Rightarrow> db \<Rightarrow> history_cycle option" where
  "current_cycle t s =
     latest_by (instant \<circ> hc_period_start) (filter (\<lambda>c. in_cycle c t) (history_cycles s))"

text \<open>A new cycle records the version and the settings of the policy that asked for it.\<close>

definition with_policy :: "management_policy \<Rightarrow> history_cycle \<Rightarrow> history_cycle" where
  "with_policy p c = c\<lparr>hc_policy_version := Some (mp_version p),
     hc_metadata := JObj [(''policy'', policy_snapshot p)]\<rparr>"

definition create_policy_cycle :: "management_policy \<Rightarrow> datetime \<Rightarrow> datetime \<Rightarrow> string \<Rightarrow> db \<Rightarrow>
    (history_cycle \<times> db) result" where
  "create_policy_cycle p start finish label s =
     andThen (create_cycle start finish label (mp_cycle_timezone p) s) (\<lambda>(c, t).
     Inr (with_policy p c, put_cycle (with_policy p c) t))"

definition get_or_create_cycle_for :: "policy_settings \<Rightarrow> (string \<Rightarrow> zone) \<Rightarrow> datetime \<Rightarrow>
    management_policy option \<Rightarrow> db \<Rightarrow> (history_cycle \<times> db) result" where
  "get_or_create_cycle_for st zones timestamp policy s =
     (let current = utc timestamp
      in case current_cycle current s of
           Some c \<Rightarrow> Inr (c, s)
         | None \<Rightarrow>
             andThen (policy_or_first st policy s) (\<lambda>(p, t).
             andThen (cycle_bounds zones (policy_values p) current) (\<lambda>(start, finish, label).
             case cycle_with_bounds start finish t of
               Some c \<Rightarrow> Inr (c, t)
             | None \<Rightarrow> create_policy_cycle p start finish label t)))"

definition month_after :: "int \<Rightarrow> int \<Rightarrow> int result" where
  "month_after y m = (case next_month y m of (y', m') \<Rightarrow> first_of_month y' m')"

text \<open>The end and the label of the cycle that follows one that ends at \<open>start\<close>.\<close>

definition next_bounds :: "zone \<Rightarrow> policy_fields \<Rightarrow> datetime \<Rightarrow> (datetime \<times> string) result" where
  "next_bounds z v start =
     (let w = local_wall z start
      in if pf_cycle_mode v = CALENDAR_MONTH
         then case civil_from_days (w div day) of (y, m, _) \<Rightarrow>
           andThen (month_after y m) (\<lambda>b.
           andThen (if b \<le> w
                    then case civil_from_days (b div day) of (y', m', _) \<Rightarrow> month_after y' m'
                    else Inr b) (\<lambda>boundary.
           Inr (from_local z boundary, month_label y m)))
         else Inr (from_local z (w + timedelta_days (pf_cycle_length_days v)),
                   iso_date (w div day) @ '' - '' @ show_int (pf_cycle_length_days v) @ '' dias''))"

definition ensure_next_cycle :: "policy_settings \<Rightarrow> (string \<Rightarrow> zone) \<Rightarrow> history_cycle \<Rightarrow>
    management_policy option \<Rightarrow> db \<Rightarrow> (history_cycle \<times> db) result" where
  "ensure_next_cycle st zones previous policy s =
     (case find (\<lambda>c. instant (hc_period_start c) = instant (hc_period_end previous)) (history_cycles s) of
        Some c \<Rightarrow> Inr (c, s)
      | None \<Rightarrow>
          andThen (policy_or_first st policy s) (\<lambda>(p, t).
          let start = utc (hc_period_end previous)
          in andThen (next_bounds (zones (mp_cycle_timezone p)) (policy_values p) start) (\<lambda>(finish, label).
             create_policy_cycle p start finish label t)))"

section \<open>Updating the policy\<close>

definition policy_audit :: "management_policy \<Rightarrow> user \<Rightarrow> json \<Rightarrow> json \<Rightarrow> string \<Rightarrow> audit_call" where
  "policy_audit p actor before after correlation =
     audit_call0\<lparr>ac_actor := Some actor, ac_module := ''opportunities'',
       ac_action := ''opportunity_policy.update'', ac_entity_type := ''opportunity_management_policy'',
       ac_entity_id := Some (mp_id p), ac_entity_label := Some ''Politica global de oportunidades'',
       ac_before := Some before, ac_after := Some after, ac_source := ''API'',
       ac_metadata := Some (JObj [(''policy_version'', JInt (mp_version p))]),
       ac_correlation_id := Some correlation\<rparr>"

definition versioned_snapshot :: "management_policy \<Rightarrow> db \<Rightarrow> json" where
  "versioned_snapshot p s =
     audit_snapshot s (policy_fields_json (policy_values p) @ [(''version'', JInt (mp_version p))])"

definition update_policy :: "policy_settings \<Rightarrow> policy_fields \<Rightarrow> int \<Rightarrow> user \<Rightarrow> db \<Rightarrow>
    (management_policy \<times> db) result" where
  "update_policy st payload expected_version actor s =
     andThen (get_or_create st s) (\<lambda>(p, s1).
     andThen (guard (mp_version p = expected_version) (HTTPException 409
       ''A configuracao foi alterada por outro administrador. Recarregue os valores antes de salvar novamente.'')) (\<lambda>_.
     let p' = (set_policy_fields payload p)\<lparr>mp_version := mp_version p + 1,
                mp_updated_by := Some (u_id actor)\<rparr>
     in andThen (guard (policy_constraints p') IntegrityError) (\<lambda>_.
        let s2 = put_policy p' s1; (correlation, s3) = new_uuid s2
        in andThen (record_audit (policy_audit p' actor (versioned_snapshot p s1)
                      (versioned_snapshot p' s2) correlation) s3) (\<lambda>t. Inr (p', t)))))"

section \<open>Closing overdue cycles\<close>

definition overdue :: "datetime \<Rightarrow> history_cycle \<Rightarrow> bool" where
  "overdue now c \<longleftrightarrow> hc_status c = CycleOpen \<and> no_later (hc_period_end c) now"

definition due_cycles :: "datetime \<Rightarrow> db \<Rightarrow> history_cycle list" where
  "due_cycles now s = sort_key (instant \<circ> hc_period_end) (filter (overdue now) (history_cycles s))"

record auto_close_result =
  ar_evaluated :: nat
  ar_closed :: nat
  ar_deferred_running :: nat

definition auto_close_one :: "policy_settings \<Rightarrow> (string \<Rightarrow> zone) \<Rightarrow> management_policy \<Rightarrow> history_cycle \<Rightarrow>
    auto_close_result \<times> db \<Rightarrow> (auto_close_result \<times> db) result" where
  "auto_close_one st zones p c rs =
     (case rs of (r, s) \<Rightarrow>
       let r1 = r\<lparr>ar_evaluated := ar_evaluated r + 1\<rparr>
       in if cg_running (collection_coverage s c) \<noteq> 0
          then Inr (r1\<lparr>ar_deferred_running := ar_deferred_running r1 + 1\<rparr>, s)
          else andThen (close_cycle (hc_id c) None ''SCHEDULED'' s) (\<lambda>(c', t).
               andThen (ensure_next_cycle st zones c' (Some p) t) (\<lambda>(n, u).
               Inr (r1\<lparr>ar_closed := ar_closed r1 + 1\<rparr>, u))))"

definition auto_close_audit :: "management_policy \<Rightarrow> auto_close_result \<Rightarrow> string \<Rightarrow> audit_call" where
  "auto_close_audit p r correlation =
     audit_call0\<lparr>ac_module := ''opportunities'', ac_action := ''opportunity_cycle.auto_close'',
       ac_entity_type := ''opportunity_history_cycle'',
       ac_entity_label := Some ''Fechamento automatico de ciclos'', ac_source := ''SYSTEM'',
       ac_metadata := Some (JObj
         [(''policy_version'', JInt (mp_version p)), (''evaluated'', JInt (int (ar_evaluated r))),
          (''closed'', JInt (int (ar_closed r))),
          (''deferred_running'', JInt (int (ar_deferred_running r)))]),
       ac_correlation_id := Some correlation\<rparr>"

definition auto_close_due_cycles :: "policy_settings \<Rightarrow> (string \<Rightarrow> zone) \<Rightarrow> management_policy option \<Rightarrow>
    datetime option \<Rightarrow> db \<Rightarrow> (auto_close_result \<times> db) result" where
  "auto_close_due_cycles st zones policy now s =
     andThen (policy_or_first st policy s) (\<lambda>(p, s1).
     let (t, s2) = given_or_now now s1; current = utc t;
         none = \<lparr>ar_evaluated = 0, ar_closed = 0, ar_deferred_running = 0\<rparr>
     in if \<not> mp_enabled p \<or> \<not> mp_automatic_cycle_close_enabled p then Inr (none, s2)
        else andThen (fold_result (auto_close_one st zones p) (due_cycles current s2) (none, s2)) (\<lambda>(r, s3).
             if ar_closed r = 0 then Inr (r, s3)
             else let (correlation, s4) = new_uuid s3
                  in andThen (record_audit (auto_close_audit p r correlation) s4) (\<lambda>u. Inr (r, u))))"

text \<open>The route that closes a cycle by hand.\<close>

definition close_cycle_route :: "policy_settings \<Rightarrow> (string \<Rightarrow> zone) \<Rightarrow> string \<Rightarrow> user \<Rightarrow> db \<Rightarrow>
    (cycle_payload \<times> db) result" where
  "close_cycle_route st zones i actor s =
     andThen (close_cycle i (Some actor) ''MANUAL'' s) (\<lambda>(c, s1).
     andThen (get_or_create st s1) (\<lambda>(p, s2).
     andThen (ensure_next_cycle st zones c (Some p) s2) (\<lambda>(n, t).
     Inr (cycle_payload_of t c, t))))"

section \<open>Reading the policy\<close>

record cycle_summary =
  cy_id :: string
  cy_label :: string
  cy_period_start :: datetime
  cy_period_end :: datetime
  cy_status :: cycle_status
  cy_timezone :: string
  cy_policy_version :: "int option"

definition cycle_summary_of :: "history_cycle \<Rightarrow> cycle_summary" where
  "cycle_summary_of c = \<lparr>cy_id = hc_id c, cy_label = hc_label c,
     cy_period_start = hc_period_start c, cy_period_end = hc_period_end c,
     cy_status = hc_status c, cy_timezone = hc_timezone c, cy_policy_version = hc_policy_version c\<rparr>"

record policy_payload =
  pp_id :: string
  pp_values :: policy_fields
  pp_version :: int
  pp_updated_by :: "string option"
  pp_current_cycle :: cycle_summary
  pp_next_cycle_start :: datetime
  pp_last_retention_run_at :: "datetime option"
  pp_last_cycle_close_check_at :: "datetime option"
  pp_last_observation_cleanup_at :: "datetime option"

definition read_payload :: "policy_settings \<Rightarrow> (string \<Rightarrow> zone) \<Rightarrow> management_policy \<Rightarrow>
    datetime option \<Rightarrow> db \<Rightarrow> (policy_payload \<times> db) result" where
  "read_payload st zones p now s =
     (let (t, s1) = given_or_now now s
      in andThen (get_or_create_cycle_for st zones (utc t) (Some p) s1) (\<lambda>(c, s2).
         let (m, s3) = get_maintenance_state s2
         in Inr (\<lparr>pp_id = mp_id p, pp_values = policy_values p, pp_version = mp_version p,
                  pp_updated_by = mp_updated_by p, pp_current_cycle = cycle_summary_of c,
                  pp_next_cycle_start = hc_period_end c,
                  pp_last_retention_run_at = ms_last_retention_run_at m,
                  pp_last_cycle_close_check_at = ms_last_cycle_close_check_at m,
                  pp_last_observation_cleanup_at = ms_last_observation_cleanup_at m\<rparr>, s3)))"

definition get_policy_route :: "policy_settings \<Rightarrow> (string \<Rightarrow> zone) \<Rightarrow> db \<Rightarrow> (policy_payload \<times> db) result" where
  "get_policy_route st zones s =
     andThen (get_or_create st s) (\<lambda>(p, t). read_payload st zones p None t)"

definition update_policy_route :: "policy_settings \<Rightarrow> (string \<Rightarrow> zone) \<Rightarrow> policy_fields \<Rightarrow> int \<Rightarrow> user \<Rightarrow> db \<Rightarrow>
    (policy_payload \<times> db) result" where
  "update_policy_route st zones payload expected_version actor s =
     andThen (update_policy st payload expected_version actor s) (\<lambda>(p, t).
     read_payload st zones p None t)"

definition current_cycle_route :: "policy_settings \<Rightarrow> (string \<Rightarrow> zone) \<Rightarrow> db \<Rightarrow> (cycle_payload \<times> db) result" where
  "current_cycle_route st zones s =
     andThen (get_or_create st s) (\<lambda>(p, s1).
     let (now, s2) = utcnow s1
     in andThen (get_or_create_cycle_for st zones now (Some p) s2) (\<lambda>(c, t).
        Inr (cycle_payload_of t c, t)))"

section \<open>Previewing a close\<close>

record close_preview =
  cw_cycle_id :: string
  cw_label :: string
  cw_snapshots_to_create :: nat
  cw_coverage :: cycle_coverage

definition close_cycle_preview :: "string \<Rightarrow> db \<Rightarrow> close_preview result" where
  "close_cycle_preview i s =
     andThen (get_cycle i s) (\<lambda>c.
     Inr \<lparr>cw_cycle_id = hc_id c, cw_label = hc_label c,
          cw_snapshots_to_create = length (remdups (map o_opportunity_id
            (filter (\<lambda>ob. in_cycle c (o_observed_at ob)) (observations s)))),
          cw_coverage = collection_coverage s c\<rparr>)"

section \<open>Candidates a request accepts\<close>

text \<open>\<open>known\<close> says which names the time zone database has.\<close>

definition policy_fields_valid :: "(string \<Rightarrow> bool) \<Rightarrow> policy_fields \<Rightarrow> bool" where
  "policy_fields_valid known v \<longleftrightarrow>
     between 7 (pf_cycle_length_days v) 365 \<and> 1 \<le> length (pf_cycle_timezone v) \<and>
     length (pf_cycle_timezone v) \<le> 64 \<and> between 1 (pf_treated_archive_days v) 3650 \<and>
     between 1 (pf_rejected_archive_days v) 3650 \<and>
     between 1 (pf_resolved_external_archive_days v) 3650 \<and>
     between 1 (pf_open_archive_days v) 3650 \<and>
     between 30 (pf_observation_retention_days v) 3650 \<and> known (pf_cycle_timezone v) \<and>
     \<not> (pf_cycle_mode v = FIXED_DAYS \<and> pf_cycle_anchor_date v = None) \<and>
     (if pf_cycle_mode v = CALENDAR_MONTH then 31 else pf_cycle_length_days v)
       \<le> pf_observation_retention_days v"

section \<open>Previewing a candidate\<close>

record policy_preview =
  pv_counts :: Retention.retention_preview
  pv_observations_eligible :: nat
  pv_overdue_cycles :: nat
  pv_current_cycle :: "cycle_summary option"
  pv_warnings :: "string list"

definition candidate_retention :: "policy_fields \<Rightarrow> int \<Rightarrow> retention_call" where
  "candidate_retention v batch_size =
     \<lparr>rc_treated_days = pf_treated_archive_days v, rc_rejected_days = pf_rejected_archive_days v,
      rc_resolved_externally_days = pf_resolved_external_archive_days v,
      rc_open_days = pf_open_archive_days v,
      rc_treated_enabled = (pf_enabled v \<and> pf_treated_archive_enabled v),
      rc_rejected_enabled = (pf_enabled v \<and> pf_rejected_archive_enabled v),
      rc_resolved_externally_enabled = (pf_enabled v \<and> pf_resolved_external_archive_enabled v),
      rc_open_enabled = (pf_enabled v \<and> pf_open_archive_enabled v),
      rc_batch_size = batch_size, rc_policy_version = None\<rparr>"

definition preview_warnings :: "policy_fields \<Rightarrow> policy_fields \<Rightarrow> nat \<Rightarrow> string list" where
  "preview_warnings v existing overdue_count =
     (if pf_observation_retention_days v < pf_observation_retention_days existing
      then [''A reducao da retencao tornara observacoes antigas elegiveis para remocao na proxima execucao. Snapshots fechados nao serao removidos.'']
      else []) @
     (if pf_treated_archive_days v < pf_treated_archive_days existing \<or>
         pf_rejected_archive_days v < pf_rejected_archive_days existing \<or>
         pf_resolved_external_archive_days v < pf_resolved_external_archive_days existing \<or>
         pf_open_archive_days v < pf_open_archive_days existing \<and> pf_open_archive_enabled v
      then [''A reducao dos prazos de arquivamento pode mover mais oportunidades para o Historico na proxima execucao de retencao.'']
      else []) @
     (if pf_automatic_cycle_close_enabled v \<and> overdue_count \<noteq> 0
      then [show_nat overdue_count @ '' ciclo(s) vencido(s) sera(ao) avaliado(s) para fechamento na proxima execucao automatica.'']
      else [])"

definition preview_policy :: "policy_settings \<Rightarrow> int \<Rightarrow> policy_fields \<Rightarrow> datetime option \<Rightarrow> db \<Rightarrow>
    (policy_preview \<times> db) result" where
  "preview_policy st batch_size v now s =
     (let (t, s1) = given_or_now now s; current = utc t
      in andThen (retention_service_of (candidate_retention v batch_size)) (\<lambda>svc.
         let (counts, s2) = preview_counts svc (Some current) s1
         in andThen (retention_cutoff (pf_observation_retention_days v) (Some current) s2) (\<lambda>(cutoff, s3).
            let eligible = op_eligible (ObservationCleanup.retention_preview cutoff None None s3);
                overdue_count = count_where (overdue current) (history_cycles s3);
                (existing, s4) = (case global_policy s3 of
                    Some p \<Rightarrow> (policy_values p, s3)
                  | None \<Rightarrow> let (n, u) = utcnow s3 in (policy_values (bootstrap_values st n []), u))
            in Inr (\<lparr>pv_counts = counts, pv_observations_eligible = eligible,
                     pv_overdue_cycles = overdue_count,
                     pv_current_cycle = map_option cycle_summary_of (current_cycle current s4),
                     pv_warnings = preview_warnings v existing overdue_count\<rparr>, s4))))"

end
