(* ===== verification/BulkArchiving.thy ===== *)
theory BulkArchiving
  imports Queries Archiving ManagementPolicy
begin

text \<open>
  Archiving many opportunities at once (backend/app/services/opportunity_bulk_archiving.py): by a list
  of identifiers, by a filter in batches of 500, and together with the close of a period.  All rows of
  one operation share the instant and the correlation identifier; an error rolls all of it back.
\<close>

section \<open>Filters as JSON\<close>

definition batch_size :: nat where
  "batch_size = 500"

definition audit_sample_size :: nat where
  "audit_sample_size = 20"

definition text_field :: "string \<Rightarrow> string option \<Rightarrow> (string \<times> json) list" where
  "text_field k v = (case v of None \<Rightarrow> [] | Some t \<Rightarrow> if t = [] then [] else [(k, JStr t)])"

definition time_field :: "string \<Rightarrow> datetime option \<Rightarrow> (string \<times> json) list" where
  "time_field k v = (case v of None \<Rightarrow> [] | Some t \<Rightarrow> [(k, JStr (isoformat t))])"

text \<open>The fields that are neither \<open>None\<close>, empty nor false, without those of the archive's state.\<close>

definition filter_payload :: "opportunity_filters \<Rightarrow> (string \<times> json) list" where
  "filter_payload q =
     text_field ''provider'' (oq_provider q) @ text_field ''account_id'' (oq_account_id q) @
     text_field ''region'' (oq_region q) @ text_field ''service'' (oq_service q) @
     text_field ''resource_type'' (oq_resource_type q) @ text_field ''status'' (oq_status q) @
     text_field ''presence_status'' (oq_presence_status q) @ text_field ''severity'' (oq_severity q) @
     text_field ''rule'' (oq_rule q) @ text_field ''collection_run_id'' (oq_collection_run_id q) @
     text_field ''first_seen_collection_run_id'' (oq_first_seen_collection_run_id q) @
     text_field ''discovery_type'' (oq_discovery_type q) @
     (if truthy (oq_discovery_type q)
      then text_field ''baseline_collection_run_id'' (oq_baseline_collection_run_id q) else []) @
     text_field ''resource_id'' (oq_resource_id q) @ text_field ''search'' (oq_search q) @
     time_field ''first_seen_from'' (oq_first_seen_from q) @
     time_field ''first_seen_to'' (oq_first_seen_to q) @
     time_field ''last_seen_from'' (oq_last_seen_from q) @
     time_field ''last_seen_to'' (oq_last_seen_to q) @
     (if oq_current q then [(''current'', JBool True)] else [])"

definition filter_hash :: "db \<Rightarrow> opportunity_filters \<Rightarrow> string" where
  "filter_hash s q = sha256 s (dumps (JObj (sort_key fst (filter_payload q))))"

definition validate_scope :: "opportunity_filters \<Rightarrow> bool \<Rightarrow> unit result" where
  "validate_scope q archive_all =
     guard (filter_payload q \<noteq> [] \<or> archive_all) (HTTPException 422
       ''Esta operacao exige confirmacao explicita para arquivar todo o backlog.'')"

definition active_filters :: "opportunity_filters \<Rightarrow> opportunity_filters" where
  "active_filters q = q\<lparr>oq_archive_state := ''active'', oq_archived_from := None,
     oq_archived_to := None, oq_archive_reason := None\<rparr>"

definition archived_filters :: "opportunity_filters \<Rightarrow> opportunity_filters" where
  "archived_filters q = q\<lparr>oq_archive_state := ''archived'', oq_archived_from := None,
     oq_archived_to := None, oq_archive_reason := None\<rparr>"

definition matching :: "db \<Rightarrow> opportunity_filters \<Rightarrow> finding list result" where
  "matching s q = andThen (apply_filters s q True) (\<lambda>p. Inr (filter p (findings s)))"

section \<open>Previews\<close>

definition or_unknown :: "string \<Rightarrow> string" where
  "or_unknown k = (if k = [] then ''unknown'' else k)"

definition group_sizes :: "(finding \<Rightarrow> string) \<Rightarrow> finding list \<Rightarrow> (string \<times> nat) list" where
  "group_sizes column fs = map (\<lambda>(k, n). (or_unknown k, n)) (group_counts column fs)"

definition savings_of :: "finding list \<Rightarrow> (string \<times> decimal) list" where
  "savings_of fs = map (\<lambda>(k, a). (if k = [] then ''USD'' else k, a))
     (group_sums f_currency f_estimated_monthly_savings fs)"

record scope_preview =
  av_matched :: nat
  av_to_archive :: nat
  av_already_archived :: nat
  av_by_status :: "(string \<times> nat) list"
  av_by_provider :: "(string \<times> nat) list"
  av_by_account :: "(string \<times> nat) list"
  av_savings :: "(string \<times> decimal) list"
  av_filter_hash :: string

definition archive_preview :: "db \<Rightarrow> opportunity_filters \<Rightarrow> bool \<Rightarrow> scope_preview result" where
  "archive_preview s q archive_all =
     andThen (validate_scope q archive_all) (\<lambda>_.
     andThen (matching s (active_filters q)) (\<lambda>active.
     andThen (matching s (archived_filters q)) (\<lambda>archived.
     Inr \<lparr>av_matched = length active + length archived, av_to_archive = length active,
          av_already_archived = length archived,
          av_by_status = group_sizes (status_text \<circ> f_status) active,
          av_by_provider = group_sizes f_provider active,
          av_by_account = group_sizes f_account_id active, av_savings = savings_of active,
          av_filter_hash = filter_hash s q\<rparr>)))"

definition open_period :: "string \<Rightarrow> db \<Rightarrow> history_cycle result" where
  "open_period i s =
     andThen (get_cycle i s) (\<lambda>c.
     andThen (guard (hc_status c = CycleOpen) (HTTPException 409 ''Este periodo ja esta fechado.'')) (\<lambda>_.
     Inr c))"

record period_preview =
  ew_cycle_id :: string
  ew_cycle_label :: string
  ew_snapshots_to_create :: nat
  ew_collection_runs :: nat
  ew_failed_collection_runs :: nat
  ew_running_collection_runs :: nat
  ew_archive :: scope_preview

definition period_close_preview :: "db \<Rightarrow> string \<Rightarrow> opportunity_filters \<Rightarrow> bool \<Rightarrow> period_preview result" where
  "period_close_preview s cycle_id q archive_all =
     andThen (validate_scope q archive_all) (\<lambda>_.
     andThen (open_period cycle_id s) (\<lambda>c.
     let g = collection_coverage s c;
         n = length (remdups (map o_opportunity_id
               (filter (\<lambda>ob. in_cycle c (o_observed_at ob)) (observations s))))
     in andThen (archive_preview s q archive_all) (\<lambda>a.
        Inr \<lparr>ew_cycle_id = hc_id c, ew_cycle_label = hc_label c, ew_snapshots_to_create = n,
             ew_collection_runs = cg_total g, ew_failed_collection_runs = cg_failed g,
             ew_running_collection_runs = cg_running g, ew_archive = a\<rparr>)))"

section \<open>Archiving locked rows\<close>

text \<open>What the rows of one operation share.\<close>

record archive_order =
  ao_actor :: user
  ao_at :: datetime
  ao_correlation_id :: string
  ao_operation :: string
  ao_cycle_id :: "string option"

definition archived_by_order :: "archive_order \<Rightarrow> finding \<Rightarrow> finding" where
  "archived_by_order d f = f\<lparr>f_archived_at := Some (ao_at d), f_archived_by := Some (u_id (ao_actor d)),
     f_archive_reason := Some MANUAL\<rparr>"

definition order_context :: "archive_order \<Rightarrow> finding \<Rightarrow> json" where
  "order_context d f = JObj
     ([(''operation'', JStr (ao_operation d)), (''correlation_id'', JStr (ao_correlation_id d)),
       (''status'', JStr (status_text (f_status f))),
       (''presence_status'', JStr (presence_text (f_presence_status f)))] @
      text_field ''cycle_id'' (ao_cycle_id d))"

definition order_event :: "archive_order \<Rightarrow> finding \<Rightarrow> archive_event" where
  "order_event d f = \<lparr>ae_opportunity_id = f_id f, ae_action = ARCHIVE, ae_reason = MANUAL,
     ae_changed_by = Some (u_id (ao_actor d)), ae_collection_run_id = None,
     ae_occurred_at = ao_at d, ae_context = order_context d f\<rparr>"

definition append_history :: "archive_order \<Rightarrow> finding \<Rightarrow> db \<Rightarrow> db" where
  "append_history d f s = s\<lparr>archive_history := archive_history s @ [order_event d f]\<rparr>"

definition archive_one :: "archive_order \<Rightarrow> finding \<Rightarrow> finding list \<times> nat \<times> db \<Rightarrow> finding list \<times> nat \<times> db" where
  "archive_one d f = (\<lambda>(updated, already, s).
     if f_archived_at f \<noteq> None then (updated, already + 1, s)
     else let f' = archived_by_order d f
          in (updated @ [f'], already, append_history d f' (put_finding f' s)))"

definition archive_locked :: "archive_order \<Rightarrow> finding list \<Rightarrow> db \<Rightarrow> (finding list \<times> nat \<times> db) result" where
  "archive_locked d fs s =
     (case fold (archive_one d) fs ([], 0, s) of (updated, already, t) \<Rightarrow>
       if updated = [] then Inr (updated, already, t)
       else andThen (refresh_summaries_for_findings updated t) (\<lambda>(_, u). Inr (updated, already, u)))"

section \<open>Results and audit\<close>

record archive_outcome =
  ar_requested :: nat
  ar_matched :: nat
  ar_archived :: nat
  ar_already_archived :: nat
  ar_failed :: nat
  ar_correlation_id :: string
  ar_sample_ids :: "string list"
  ar_ids_truncated :: bool
  ar_cycle_id :: "string option"

definition outcome_metadata :: "db \<Rightarrow> archive_outcome \<Rightarrow> opportunity_filters option \<Rightarrow> json" where
  "outcome_metadata s r q = JObj
     ([(''requested'', JInt (int (ar_requested r))), (''matched'', JInt (int (ar_matched r))),
       (''archived'', JInt (int (ar_archived r))),
       (''already_archived'', JInt (int (ar_already_archived r))),
       (''sample_ids'', JList (map JStr (take audit_sample_size (ar_sample_ids r)))),
       (''ids_truncated'', JBool (audit_sample_size < ar_archived r))] @
      (case q of None \<Rightarrow> []
       | Some x \<Rightarrow> [(''filter_hash'', JStr (filter_hash s x)), (''filter_summary'', JObj (filter_payload x))]) @
      text_field ''cycle_id'' (ar_cycle_id r))"

definition audit_bulk :: "user \<Rightarrow> string \<Rightarrow> archive_outcome \<Rightarrow> opportunity_filters option \<Rightarrow> db \<Rightarrow> db result" where
  "audit_bulk actor action r q s =
     record_audit (audit_call0\<lparr>ac_actor := Some actor, ac_module := ''opportunities'',
       ac_action := action, ac_entity_type := ''opportunity_archive_operation'',
       ac_entity_id := Some (ar_correlation_id r),
       ac_entity_label := Some (''Archive de '' @ show_nat (ar_archived r) @ '' oportunidade(s)''),
       ac_source := ''API'',
       ac_metadata := Some (sanitize_audit_payload (sha256 s) (outcome_metadata s r q) 16384),
       ac_correlation_id := Some (ar_correlation_id r)\<rparr>) s"

section \<open>Operations\<close>

definition rows_of :: "string list \<Rightarrow> db \<Rightarrow> finding list" where
  "rows_of ids s = sort_key f_id (filter (\<lambda>f. f_id f \<in> set ids) (findings s))"

definition bulk_archive :: "string list \<Rightarrow> user \<Rightarrow> db \<Rightarrow> (archive_outcome \<times> db) result" where
  "bulk_archive opportunity_ids actor s =
     (let ids = sort (remdups opportunity_ids)
      in andThen (guard (length ids \<le> 500) (HTTPException 422 ''Bulk archive supports at most 500 IDs'')) (\<lambda>_.
         let fs = rows_of ids s
         in andThen (guard (\<forall>i \<in> set ids. i \<in> f_id ` set fs)
              (HTTPException 404 ''One or more opportunities were not found'')) (\<lambda>_.
            let (now, s1) = utcnow s; (correlation, s2) = new_uuid s1;
                d = \<lparr>ao_actor = actor, ao_at = now, ao_correlation_id = correlation,
                     ao_operation = ''bulk'', ao_cycle_id = None\<rparr>
            in andThen (archive_locked d fs s2) (\<lambda>(updated, already, s3).
               let r = \<lparr>ar_requested = length ids, ar_matched = length ids, ar_archived = length updated,
                        ar_already_archived = already, ar_failed = 0, ar_correlation_id = correlation,
                        ar_sample_ids = map f_id (take audit_sample_size updated),
                        ar_ids_truncated = (audit_sample_size < length updated), ar_cycle_id = None\<rparr>
               in andThen (audit_bulk actor ''opportunity.bulk_archive'' r None s3) (\<lambda>t. Inr (r, t))))))"

definition batch :: "nat \<Rightarrow> string list \<Rightarrow> string list" where
  "batch page ids = take batch_size (drop ((page - 1) * batch_size) ids)"

definition archive_batch :: "archive_order \<Rightarrow> string list \<Rightarrow> string list \<times> db \<Rightarrow> (string list \<times> db) result" where
  "archive_batch d ids us =
     (case us of (updated_ids, s) \<Rightarrow>
       andThen (archive_locked d (rows_of ids s) s) (\<lambda>(updated, _, t).
       Inr (updated_ids @ map f_id updated, t)))"

definition archive_by_filter :: "opportunity_filters \<Rightarrow> user \<Rightarrow> bool \<Rightarrow> string \<Rightarrow> string option \<Rightarrow>
    string option \<Rightarrow> string \<Rightarrow> db \<Rightarrow> (archive_outcome \<times> db) result" where
  "archive_by_filter q actor archive_all operation correlation_id cycle_id audit_action s =
     andThen (validate_scope q archive_all) (\<lambda>_.
     andThen (matching s (active_filters q)) (\<lambda>active.
     andThen (matching s (archived_filters q)) (\<lambda>archived.
     let ids = sort (map f_id active); already = length archived;
         (now, s1) = utcnow s;
         (correlation, s2) = (if truthy correlation_id then (the correlation_id, s1) else new_uuid s1);
         d = \<lparr>ao_actor = actor, ao_at = now, ao_correlation_id = correlation,
              ao_operation = operation, ao_cycle_id = cycle_id\<rparr>;
         pages = map (\<lambda>p. batch p ids) [1..<Suc (total_pages (length ids) batch_size)]
     in andThen (fold_result (archive_batch d) pages ([], s2)) (\<lambda>(updated_ids, s3).
        let r = \<lparr>ar_requested = length ids, ar_matched = length ids + already,
                 ar_archived = length updated_ids, ar_already_archived = already, ar_failed = 0,
                 ar_correlation_id = correlation, ar_sample_ids = take audit_sample_size updated_ids,
                 ar_ids_truncated = (audit_sample_size < length updated_ids), ar_cycle_id = cycle_id\<rparr>
        in andThen (audit_bulk actor audit_action r (Some q) s3) (\<lambda>t. Inr (r, t))))))"

record period_outcome =
  po_archive :: archive_outcome
  po_cycle_closed :: bool
  po_snapshots_created :: int
  po_collection_runs :: nat
  po_failed_collection_runs :: nat

definition snapshot_count_of :: "history_cycle \<Rightarrow> int" where
  "snapshot_count_of c = (case jget ''snapshot_count'' (hc_metadata c) of JInt n \<Rightarrow> n | _ \<Rightarrow> 0)"

definition close_period_and_archive :: "string \<Rightarrow> opportunity_filters \<Rightarrow> bool \<Rightarrow> user \<Rightarrow> db \<Rightarrow>
    (period_outcome \<times> db) result" where
  "close_period_and_archive cycle_id q archive_all actor s =
     andThen (validate_scope q archive_all) (\<lambda>_.
     andThen (open_period cycle_id s) (\<lambda>c.
     let g = collection_coverage s c
     in andThen (guard (cg_running g = 0) (HTTPException 409
          (''Nao e possivel fechar este periodo enquanto existem '' @ show_nat (cg_running g) @
           '' coletas em andamento.''))) (\<lambda>_.
        let (correlation, s1) = new_uuid s
        in andThen (close_cycle cycle_id (Some actor) ''MANUAL'' s1) (\<lambda>(closed, s2).
           andThen (archive_by_filter q actor archive_all ''period_close'' (Some correlation)
             (Some cycle_id) ''opportunity.period_close'' s2) (\<lambda>(r, t).
           Inr (\<lparr>po_archive = r, po_cycle_closed = True, po_snapshots_created = snapshot_count_of closed,
                 po_collection_runs = cg_total g, po_failed_collection_runs = cg_failed g\<rparr>, t))))))"

section \<open>Archiving a batch\<close>

definition archive_rows :: "archive_order \<Rightarrow> string set \<Rightarrow> finding list \<Rightarrow> finding list" where
  "archive_rows d I = map (\<lambda>f. if f_id f \<in> I then archived_by_order d f else f)"

lemma archived_by_order_simps [simp]:
  "f_id (archived_by_order d f) = f_id f" "f_archived_at (archived_by_order d f) = Some (ao_at d)"
  "f_status (archived_by_order d f) = f_status f" "f_presence_status (archived_by_order d f) = f_presence_status f"
  "order_event d (archived_by_order d f) = order_event d f"
  "archived_by_order d (archived_by_order d f) = archived_by_order d f"
  by (simp_all add: archived_by_order_def order_event_def order_context_def)

lemma archive_rows_ids [simp]: "map f_id (archive_rows d I fs) = map f_id fs"
  by (simp add: archive_rows_def)

lemma archive_rows_twice: "archive_rows d J (archive_rows d I fs) = archive_rows d (I \<union> J) fs"
  by (simp add: archive_rows_def)

lemma archive_rows_outside: "f \<in> set fs \<Longrightarrow> f_id f \<notin> I \<Longrightarrow> f \<in> set (archive_rows d I fs)"
  by (force simp: archive_rows_def)

lemma put_archived:
  assumes "distinct (map f_id fs)" "f \<in> set fs"
  shows "put_row f_id (archived_by_order d f) fs = archive_rows d {f_id f} fs"
proof -
  have "g = f" if "g \<in> set fs" "f_id g = f_id f" for g
    using assms that by (metis distinct_map inj_onD)
  then show ?thesis by (auto simp: put_row_def archive_rows_def)
qed

definition active_rows :: "finding list \<Rightarrow> finding list" where
  "active_rows = filter (\<lambda>f. f_archived_at f = None)"

lemma fold_archive_one:
  assumes "distinct (map f_id fs)" "distinct (map f_id (findings s))" "set fs \<subseteq> set (findings s)"
  shows "fold (archive_one d) fs (u, n, s) =
    (u @ map (archived_by_order d) (active_rows fs), n + (length fs - length (active_rows fs)),
     s\<lparr>findings := archive_rows d (f_id ` set (active_rows fs)) (findings s),
       archive_history := archive_history s @ map (order_event d) (active_rows fs)\<rparr>)"
  using assms
proof (induction fs arbitrary: u n s)
  case Nil
  then show ?case by (simp add: active_rows_def archive_rows_def)
next
  case (Cons f fs)
  have len: "length (active_rows fs) \<le> length fs" by (simp add: active_rows_def)
  show ?case
  proof (cases "f_archived_at f = None")
    case False
    with Cons.IH [of s u "n + 1"] Cons.prems len show ?thesis
      by (simp add: archive_one_def active_rows_def Suc_diff_le)
  next
    case True
    define t where "t = append_history d (archived_by_order d f) (put_finding (archived_by_order d f) s)"
    have rows: "findings t = archive_rows d {f_id f} (findings s)"
      using put_archived [of "findings s" f d] Cons.prems by (simp add: t_def append_history_def put_finding_def)
    have t: "t = s\<lparr>findings := archive_rows d {f_id f} (findings s),
        archive_history := archive_history s @ [order_event d f]\<rparr>"
      using put_archived [of "findings s" f d] Cons.prems by (simp add: t_def append_history_def put_finding_def)
    have sub: "set fs \<subseteq> set (findings t)"
    proof
      fix g assume g: "g \<in> set fs"
      then have "g \<in> set (findings s)" using Cons.prems(3) by auto
      moreover have "f_id f \<notin> f_id ` set fs" using Cons.prems(1) by simp
      with g have "f_id g \<noteq> f_id f" by (metis imageI)
      ultimately have "g \<in> set (findings s)" "f_id g \<noteq> f_id f" by simp_all
      then show "g \<in> set (findings t)" unfolding rows by (intro archive_rows_outside) simp_all
    qed
    have dist: "distinct (map f_id (findings t))" using Cons.prems by (simp add: rows)
    have one: "archive_one d f (u, n, s) = (u @ [archived_by_order d f], n, t)"
      using True by (simp add: archive_one_def t_def Let_def)
    have "fold (archive_one d) (f # fs) (u, n, s) = fold (archive_one d) fs (u @ [archived_by_order d f], n, t)"
      by (simp add: one)
    also have "\<dots> = (u @ map (archived_by_order d) (active_rows (f # fs)), n + (length (f # fs) - length (active_rows (f # fs))),
        s\<lparr>findings := archive_rows d (f_id ` set (active_rows (f # fs))) (findings s),
          archive_history := archive_history s @ map (order_event d) (active_rows (f # fs))\<rparr>)"
      using Cons.IH [OF _ dist sub] Cons.prems True len
      by (simp add: t archive_rows_twice active_rows_def)
    finally show ?thesis .
  qed
qed

text \<open>An operation that archives the rows of a list of identifiers, and nothing else but summaries and clock.\<close>

definition row :: "db \<Rightarrow> string \<Rightarrow> finding" where
  "row s i = the (get_finding i s)"

definition archives :: "archive_order \<Rightarrow> string list \<Rightarrow> db \<Rightarrow> db \<Rightarrow> bool" where
  "archives d ids s t \<longleftrightarrow> same_source (s\<lparr>findings := archive_rows d (set ids) (findings s),
     archive_history := archive_history s @ map (\<lambda>i. order_event d (row s i)) ids\<rparr>) t"

lemma archivesD:
  assumes "archives d ids s t"
  obtains x n where "t = s\<lparr>findings := archive_rows d (set ids) (findings s),
     archive_history := archive_history s @ map (\<lambda>i. order_event d (row s i)) ids, summaries := x, ticks := n\<rparr>"
  using assms unfolding archives_def by (elim same_sourceD) simp

lemma archives_none [simp]: "archives d [] s s"
proof -
  have "s\<lparr>findings := archive_rows d (set []) (findings s), archive_history := archive_history s @ []\<rparr> = s"
    by (simp add: archive_rows_def)
  then show ?thesis by (simp add: archives_def)
qed

lemma find_archive_rows:
  "find_row f_id i (archive_rows d I fs) =
    map_option (\<lambda>f. if f_id f \<in> I then archived_by_order d f else f) (find_row f_id i fs)"
  by (induction fs) (auto simp: archive_rows_def row_simps)

lemma archives_trans:
  assumes "archives d I s t" "archives d J t u" "set I \<inter> set J = {}"
    "\<forall>i \<in> set J. get_finding i s \<noteq> None"
  shows "archives d (I @ J) s u"
proof -
  from archivesD [OF assms(1)] obtain x n where t: "t = s\<lparr>findings := archive_rows d (set I) (findings s),
     archive_history := archive_history s @ map (\<lambda>i. order_event d (row s i)) I, summaries := x, ticks := n\<rparr>" .
  have "row t j = row s j" if j: "j \<in> set J" for j
  proof -
    from j assms(4) obtain f where f: "get_finding j s = Some f" by blast
    then have "f_id f = j" using find_row_Some by (fastforce simp: get_finding_def)
    with f j assms(3) show ?thesis by (auto simp: t row_def get_finding_def find_archive_rows)
  qed
  then have m: "map (\<lambda>i. order_event d (row t i)) J = map (\<lambda>i. order_event d (row s i)) J" by simp
  from archivesD [OF assms(2)] obtain y k where u: "u = t\<lparr>findings := archive_rows d (set J) (findings t),
     archive_history := archive_history t @ map (\<lambda>i. order_event d (row t i)) J, summaries := y, ticks := k\<rparr>" .
  show ?thesis unfolding archives_def same_source_def u m by (simp add: t archive_rows_twice)
qed

lemma rows_of_sorted:
  assumes "sorted ids" "distinct ids" "set ids \<subseteq> f_id ` set (findings s)" "distinct (map f_id (findings s))"
  shows "rows_of ids s = map (row s) ids"
proof -
  have d: "distinct (map f_id (rows_of ids s))"
    unfolding rows_of_def distinct_map_sort by (rule distinct_map_filter) (rule assms(4))
  have s: "sorted (map f_id (rows_of ids s))" by (simp add: rows_of_def)
  have "set (map f_id (rows_of ids s)) = set ids" using assms(3) by (auto simp: rows_of_def)
  then have ids: "map f_id (rows_of ids s) = ids" using s d assms(1,2) by (metis sorted_distinct_set_unique)
  have "row s (f_id f) = f" if "f \<in> set (rows_of ids s)" for f
    using that distinct_find_row [OF assms(4)] by (auto simp: row_def get_finding_def rows_of_def)
  then have "rows_of ids s = map (row s) (map f_id (rows_of ids s))" by (simp add: map_idI)
  then show ?thesis by (simp only: ids)
qed

lemma archive_batch_effect:
  assumes ids: "sorted ids" "distinct ids" "\<forall>i \<in> set ids. \<exists>f. get_finding i s = Some f \<and> f_archived_at f = None"
    and dist: "distinct (map f_id (findings s))"
  shows "\<exists>t. archive_batch d ids (u, s) = Inr (u @ ids, t) \<and> archives d ids s t"
proof -
  have row: "row s i \<in> set (findings s) \<and> f_id (row s i) = i \<and> f_archived_at (row s i) = None" if "i \<in> set ids" for i
    using ids(3) that find_row_Some by (fastforce simp: row_def get_finding_def)
  have "set ids \<subseteq> f_id ` set (findings s)" using row by force
  from rows_of_sorted [OF ids(1,2) this dist] have rows: "rows_of ids s = map (row s) ids" .
  have mids: "map f_id (map (row s) ids) = ids" using row by (simp add: map_idI)
  have act: "active_rows (map (row s) ids) = map (row s) ids"
    using row by (auto simp: active_rows_def filter_id_conv)
  define v where "v = s\<lparr>findings := archive_rows d (set ids) (findings s),
      archive_history := archive_history s @ map (\<lambda>i. order_event d (row s i)) ids\<rparr>"
  have img: "(\<lambda>x. f_id (row s x)) ` set ids = set ids" using row by force
  have sub: "set (map (row s) ids) \<subseteq> set (findings s)" using row by auto
  have "distinct (map f_id (map (row s) ids))" using ids(2) by (simp only: mids)
  note step = fold_archive_one [OF this dist sub, of d "[]" 0, unfolded act]
  have fold: "fold (archive_one d) (rows_of ids s) ([], 0, s) = (map (archived_by_order d) (map (row s) ids), 0, v)"
    unfolding rows step by (simp add: v_def image_image img comp_def)
  show ?thesis
  proof (cases "ids = []")
    case True
    with fold have "archive_batch d ids (u, s) = Inr (u, v)" by (simp add: archive_batch_def archive_locked_def)
    moreover have "v = s" using True by (simp add: v_def archive_rows_def)
    ultimately show ?thesis using True by simp
  next
    case False
    obtain m w where w: "refresh_summaries_for_findings (map (archived_by_order d) (map (row s) ids)) v = Inr (m, w)"
      "same_source v w" using refresh_exists by blast
    have "map f_id (map (archived_by_order d) (map (row s) ids)) = ids" using mids by (simp add: comp_def)
    with False w(1) have "archive_batch d ids (u, s) = Inr (u @ ids, w)"
      by (simp add: archive_batch_def archive_locked_def fold)
    moreover have "archives d ids s w" using w(2) by (simp add: archives_def v_def)
    ultimately show ?thesis by blast
  qed
qed

lemma archive_batches_effect:
  assumes "\<forall>p \<in> set pages. sorted p" "distinct (concat pages)"
    and "\<forall>i \<in> set (concat pages). \<exists>f. get_finding i s = Some f \<and> f_archived_at f = None"
    and "distinct (map f_id (findings s))"
  shows "\<exists>t. fold_result (archive_batch d) pages (u, s) = Inr (u @ concat pages, t) \<and> archives d (concat pages) s t"
  using assms
proof (induction pages arbitrary: u s)
  case Nil
  then show ?case by simp
next
  case (Cons p pages)
  have p: "sorted p" "distinct p" "\<forall>i \<in> set p. \<exists>f. get_finding i s = Some f \<and> f_archived_at f = None"
    using Cons.prems(1-3) by simp_all
  obtain t where t: "archive_batch d p (u, s) = Inr (u @ p, t)" "archives d p s t"
    using archive_batch_effect [OF p Cons.prems(4), of d u] by blast
  have rows: "findings t = archive_rows d (set p) (findings s)" using t(2) by (elim archivesD) simp
  have later: "\<exists>f. get_finding i t = Some f \<and> f_archived_at f = None" if "i \<in> set (concat pages)" for i
  proof -
    from that Cons.prems(2) have "i \<notin> set p" by auto
    moreover from that Cons.prems(3) obtain f where f: "get_finding i s = Some f" "f_archived_at f = None" by auto
    moreover from f(1) have "f_id f = i" using find_row_Some by (fastforce simp: get_finding_def)
    ultimately show ?thesis by (simp add: get_finding_def rows find_archive_rows)
  qed
  have "distinct (map f_id (findings t))" using Cons.prems by (simp add: rows)
  moreover have "\<forall>q \<in> set pages. sorted q" "distinct (concat pages)" using Cons.prems(1,2) by simp_all
  ultimately obtain w where w: "fold_result (archive_batch d) pages (u @ p, t) = Inr ((u @ p) @ concat pages, w)"
    "archives d (concat pages) t w"
    using Cons.IH [of t "u @ p"] later by blast
  have "set p \<inter> set (concat pages) = {}" using Cons.prems(2) by simp
  moreover have "\<forall>i \<in> set (concat pages). get_finding i s \<noteq> None" using Cons.prems(3) by auto
  ultimately have "archives d (p @ concat pages) s w" by (rule archives_trans [OF t(2) w(2)])
  with t(1) w(1) show ?case by simp
qed

section \<open>Filters\<close>

lemma apply_filters_frame:
  assumes "observations t = observations s" "cloud_accounts t = cloud_accounts s"
    "aws_accounts t = aws_accounts s" "collection_runs t = collection_runs s"
  shows "apply_filters t q b = apply_filters s q b"
proof -
  have obs: "observed_in t = observed_in s" by (simp add: observed_in_def fun_eq_iff assms)
  have "discovery_condition t q = discovery_condition s q" unfolding discovery_condition_def obs ..
  moreover have "account_condition t q = account_condition s q" by (simp add: account_condition_def assms)
  moreover have "run_condition t q = run_condition s q" by (simp add: run_condition_def obs)
  moreover have "latest_success_of t = latest_success_of s" by (simp add: latest_success_of_def fun_eq_iff assms)
  then have "current_condition t q = current_condition s q" unfolding current_condition_def obs by simp
  ultimately show ?thesis by (simp add: apply_filters_def)
qed

text \<open>The conditions of the two scopes differ only in the state of the archive.\<close>

definition scope_condition :: "db \<Rightarrow> opportunity_filters \<Rightarrow> condition result" where
  "scope_condition s q = andThen (discovery_condition s q) (\<lambda>discovered.
     Inr (\<lambda>f. account_condition s q f \<and> column_condition q True f \<and>
       time_condition (active_filters q) f \<and> run_condition s q f \<and> discovered f \<and>
       current_condition s q f \<and> search_condition q f))"

lemma scope_filters:
  "apply_filters s (active_filters q) True =
     andThen (scope_condition s q) (\<lambda>p. Inr (\<lambda>f. f_archived_at f = None \<and> p f))"
  "apply_filters s (archived_filters q) True =
     andThen (scope_condition s q) (\<lambda>p. Inr (\<lambda>f. f_archived_at f \<noteq> None \<and> p f))"
proof -
  have sel: "oq_discovery_type (active_filters q) = oq_discovery_type q"
    "oq_discovery_type (archived_filters q) = oq_discovery_type q"
    "oq_collection_run_id (active_filters q) = oq_collection_run_id q"
    "oq_collection_run_id (archived_filters q) = oq_collection_run_id q"
    "oq_comparison_available (active_filters q) = oq_comparison_available q"
    "oq_comparison_available (archived_filters q) = oq_comparison_available q"
    "oq_baseline_collection_run_id (active_filters q) = oq_baseline_collection_run_id q"
    "oq_baseline_collection_run_id (archived_filters q) = oq_baseline_collection_run_id q"
    by (simp_all add: active_filters_def archived_filters_def)
  have d: "discovery_condition s (active_filters q) = discovery_condition s q"
    "discovery_condition s (archived_filters q) = discovery_condition s q"
    unfolding discovery_condition_def sel by (rule refl)+
  have c: "account_condition s (active_filters q) = account_condition s q"
    "account_condition s (archived_filters q) = account_condition s q"
    "column_condition (active_filters q) True = column_condition q True"
    "column_condition (archived_filters q) True = column_condition q True"
    "time_condition (archived_filters q) = time_condition (active_filters q)"
    "run_condition s (active_filters q) = run_condition s q" "run_condition s (archived_filters q) = run_condition s q"
    "current_condition s (active_filters q) = current_condition s q"
    "current_condition s (archived_filters q) = current_condition s q"
    "search_condition (active_filters q) = search_condition q"
    "search_condition (archived_filters q) = search_condition q"
    by (simp_all add: account_condition_def column_condition_def time_condition_def run_condition_def
        current_condition_def search_condition_def active_filters_def archived_filters_def)
  have a: "archive_state_condition (oq_archive_state (active_filters q)) = Inr (\<lambda>f. f_archived_at f = None)"
    "archive_state_condition (oq_archive_state (archived_filters q)) = Inr (\<lambda>f. f_archived_at f \<noteq> None)"
    by (simp_all add: archive_state_condition_def active_filters_def archived_filters_def)
  show "apply_filters s (active_filters q) True =
     andThen (scope_condition s q) (\<lambda>p. Inr (\<lambda>f. f_archived_at f = None \<and> p f))"
    by (simp only: apply_filters_def a c d scope_condition_def andThen_assoc andThen_Inr)
  show "apply_filters s (archived_filters q) True =
     andThen (scope_condition s q) (\<lambda>p. Inr (\<lambda>f. f_archived_at f \<noteq> None \<and> p f))"
    by (simp only: apply_filters_def a c d scope_condition_def andThen_assoc andThen_Inr)
qed

lemma scope_archived:
  assumes "scope_condition s q = Inr p"
  shows "p (archived_by_order d f) = p f"
proof -
  have obs: "observed_in s i (archived_by_order d f) = observed_in s i f" for i
    by (simp add: observed_in_def)
  have lat: "latest_success_of s (archived_by_order d f) = latest_success_of s f"
    by (simp add: latest_success_of_def archived_by_order_def)
  have none: "when_some None P" "if_given None Q" for P :: "datetime \<Rightarrow> bool" and Q
    by (simp_all add: when_some_def if_given_def truthy_def)
  have "account_condition s q (archived_by_order d f) = account_condition s q f"
    "column_condition q True (archived_by_order d f) = column_condition q True f"
    "time_condition (active_filters q) (archived_by_order d f) = time_condition (active_filters q) f"
    "run_condition s q (archived_by_order d f) = run_condition s q f"
    "current_condition s q (archived_by_order d f) = current_condition s q f"
    "search_condition q (archived_by_order d f) = search_condition q f"
    unfolding current_condition_def run_condition_def obs lat
    by (simp_all add: account_condition_def column_condition_def time_condition_def none
        search_condition_def active_filters_def) (simp_all add: archived_by_order_def)
  moreover have "m (archived_by_order d f) = m f" if "discovery_condition s q = Inr m" for m
  proof -
    have seen: "f_first_seen_collection_run_id (archived_by_order d f) = f_first_seen_collection_run_id f"
      by (simp add: archived_by_order_def)
    from that have "m \<in> {\<lambda>f. True, \<lambda>f. False, \<lambda>f. f_first_seen_collection_run_id f = Some (the (oq_collection_run_id q)),
        observed_in s (the (oq_baseline_collection_run_id q)),
        \<lambda>f. \<not> observed_in s (the (oq_baseline_collection_run_id q)) f,
        \<lambda>f. \<not> observed_in s (the (oq_baseline_collection_run_id q)) f \<and> f_first_seen_collection_run_id f \<noteq> None \<and>
          f_first_seen_collection_run_id f \<noteq> Some (the (oq_collection_run_id q))}"
      unfolding discovery_condition_def Let_def by (simp only: split: if_splits) (simp_all del: not_None_eq)
    then show ?thesis by (elim insertE emptyE) (simp_all add: seen obs)
  qed
  ultimately show ?thesis using assms by (auto simp: scope_condition_def andThen_eq_Inr)
qed

section \<open>Archiving by filter\<close>

lemma concat_batches:
  "concat (map (\<lambda>p. batch p ids) [1..<Suc (total_pages (length ids) batch_size)]) = ids"
proof -
  have n: "0 < batch_size" by (simp add: batch_size_def)
  show ?thesis
    unfolding batch_def concat_pages [OF n] using total_pages_cover [OF n, of "length ids"] by simp
qed

lemma bulk_audit_recorded:
  assumes "action \<in> {''opportunity.bulk_archive'', ''opportunity.archive_by_filter'', ''opportunity.period_close''}"
  shows "\<exists>e. audit_bulk actor action r q s = Inr (s\<lparr>audit_events := audit_events s @ [e]\<rparr>)"
proof -
  have "required_text ''opportunities'' 80 = Inr ''opportunities''"
    "required_text ''opportunity_archive_operation'' 120 = Inr ''opportunity_archive_operation''"
    "required_text ''opportunity.bulk_archive'' 120 = Inr ''opportunity.bulk_archive''"
    "required_text ''opportunity.archive_by_filter'' 120 = Inr ''opportunity.archive_by_filter''"
    "required_text ''opportunity.period_close'' 120 = Inr ''opportunity.period_close''"
    by code_simp+
  moreover from this(3-5) assms have "required_text action 120 = Inr action" by blast
  ultimately show ?thesis unfolding audit_bulk_def by (intro record_audit_ok) simp_all
qed

lemma filter_ids:
  assumes "distinct (map f_id fs)" "f \<in> set fs"
  shows "f_id f \<in> f_id ` set (filter p fs) \<longleftrightarrow> p f"
  using assms by (auto simp: image_iff distinct_map dest: inj_onD)

lemma archive_by_filter_effect:
  assumes scope: "validate_scope q archive_all = Inr ()" "scope_condition s q = Inr p"
    and dist: "distinct (map f_id (findings s))"
    and action: "action \<in> {''opportunity.bulk_archive'', ''opportunity.archive_by_filter'', ''opportunity.period_close''}"
  defines "hits \<equiv> filter (\<lambda>f. f_archived_at f = None \<and> p f) (findings s)"
    and "kept \<equiv> filter (\<lambda>f. f_archived_at f \<noteq> None \<and> p f) (findings s)"
  shows "\<exists>r t d e n. archive_by_filter q actor archive_all operation correlation_id cycle_id action s = Inr (r, t) \<and>
    ar_requested r = length hits \<and> ar_archived r = length hits \<and> ar_already_archived r = length kept \<and>
    ar_matched r = length hits + length kept \<and> ao_actor d = actor \<and> ao_operation d = operation \<and>
    ao_cycle_id d = cycle_id \<and> uuids s \<le> n \<and>
    same_source (s\<lparr>findings := archive_rows d (f_id ` set hits) (findings s),
      archive_history := archive_history s @ map (order_event d) (sort_key f_id hits),
      audit_events := audit_events s @ [e], uuids := n\<rparr>) t"
proof -
  define ids where "ids = sort (map f_id hits)"
  obtain now s1 where u: "utcnow s = (now, s1)" by fastforce
  obtain correlation s2 where n: "(if truthy correlation_id then (the correlation_id, s1) else new_uuid s1) = (correlation, s2)"
    by fastforce
  obtain m where s2: "s2 = s\<lparr>ticks := Suc (ticks s), uuids := m\<rparr>" "uuids s \<le> m"
  proof (cases "truthy correlation_id")
    case True
    with u n show thesis by (intro that [of "uuids s"]) (auto simp: env_defs)
  next
    case False
    with u n show thesis by (intro that [of "Suc (uuids s)"]) (auto simp: env_defs)
  qed
  define d where "d = \<lparr>ao_actor = actor, ao_at = now, ao_correlation_id = correlation,
      ao_operation = operation, ao_cycle_id = cycle_id\<rparr>"
  have hits: "set ids = f_id ` set hits" "length ids = length hits" by (simp_all add: ids_def)
  have "distinct (map f_id hits)" unfolding hits_def by (rule distinct_map_filter) (rule dist)
  then have ids: "sorted ids" "distinct ids" by (simp_all add: ids_def)
  have rows2: "findings s2 = findings s" "row s2 = row s" "get_finding i s2 = get_finding i s" for i
    by (simp_all add: s2 row_def get_finding_def fun_eq_iff)
  have stored: "\<exists>f. get_finding i s2 = Some f \<and> f_archived_at f = None" if "i \<in> set ids" for i
    using that distinct_find_row [OF dist] by (auto simp: hits(1) hits_def rows2 get_finding_def)
  let ?pages = "map (\<lambda>p. batch p ids) [1..<Suc (total_pages (length ids) batch_size)]"
  have "\<forall>p \<in> set ?pages. sorted p" using ids(1) by (auto simp: batch_def sorted_wrt_take sorted_wrt_drop)
  from archive_batches_effect [OF this, of s2 d "[]", unfolded concat_batches rows2(1)] obtain t where
    t: "fold_result (archive_batch d) ?pages ([], s2) = Inr (ids, t)" "archives d ids s2 t"
    using ids(2) stored dist unfolding append_Nil by blast
  define r where "r = \<lparr>ar_requested = length ids, ar_matched = length ids + length kept,
      ar_archived = length ids, ar_already_archived = length kept, ar_failed = 0,
      ar_correlation_id = correlation, ar_sample_ids = take audit_sample_size ids,
      ar_ids_truncated = (audit_sample_size < length ids), ar_cycle_id = cycle_id\<rparr>"
  obtain e where e: "audit_bulk actor action r (Some q) t = Inr (t\<lparr>audit_events := audit_events t @ [e]\<rparr>)"
    using bulk_audit_recorded [OF action] by blast
  have active: "matching s (active_filters q) = Inr hits" "matching s (archived_filters q) = Inr kept"
    by (simp_all add: matching_def scope_filters scope(2) hits_def kept_def)
  have res: "archive_by_filter q actor archive_all operation correlation_id cycle_id action s =
      Inr (r, t\<lparr>audit_events := audit_events t @ [e]\<rparr>)"
    unfolding archive_by_filter_def scope(1) active andThen_Inr Let_def u prod.case n ids_def [symmetric] d_def [symmetric]
      t(1) r_def [symmetric] e ..
  have "rows_of ids s = sort_key f_id hits"
  proof -
    have "filter (\<lambda>f. f_id f \<in> set ids) (findings s) = hits"
      unfolding hits(1) hits_def using filter_ids [OF dist] by (intro filter_cong) simp_all
    then show ?thesis by (simp add: rows_of_def)
  qed
  moreover have "set ids \<subseteq> f_id ` set (findings s)" by (auto simp: hits(1) hits_def)
  ultimately have rows: "map (row s) ids = sort_key f_id hits" using rows_of_sorted [OF ids _ dist] by simp
  then have events: "map (\<lambda>i. order_event d (row s2 i)) ids = map (order_event d) (sort_key f_id hits)"
    by (simp add: rows2 map_map [symmetric, unfolded comp_def] del: map_map)
  from archivesD [OF t(2)] obtain x k where t': "t = s2\<lparr>findings := archive_rows d (set ids) (findings s2),
     archive_history := archive_history s2 @ map (\<lambda>i. order_event d (row s2 i)) ids, summaries := x, ticks := k\<rparr>" .
  have "same_source (s\<lparr>findings := archive_rows d (f_id ` set hits) (findings s),
      archive_history := archive_history s @ map (order_event d) (sort_key f_id hits),
      audit_events := audit_events s @ [e], uuids := m\<rparr>) (t\<lparr>audit_events := audit_events t @ [e]\<rparr>)"
    unfolding t' events hits(1) by (simp add: same_source_def s2)
  with res s2(2) show ?thesis
    by (intro exI [of _ r] exI [of _ "t\<lparr>audit_events := audit_events t @ [e]\<rparr>"] exI [of _ d] exI [of _ e] exI [of _ m])
      (simp add: r_def hits(2) d_def)
qed

lemma preview_scope:
  "archive_preview s q archive_all = Inr w \<longleftrightarrow> validate_scope q archive_all = Inr () \<and>
    (\<exists>p. scope_condition s q = Inr p \<and>
      (let hits = filter (\<lambda>f. f_archived_at f = None \<and> p f) (findings s);
           kept = filter (\<lambda>f. f_archived_at f \<noteq> None \<and> p f) (findings s)
       in w = \<lparr>av_matched = length hits + length kept, av_to_archive = length hits,
          av_already_archived = length kept, av_by_status = group_sizes (status_text \<circ> f_status) hits,
          av_by_provider = group_sizes f_provider hits, av_by_account = group_sizes f_account_id hits,
          av_savings = savings_of hits, av_filter_hash = filter_hash s q\<rparr>))"
  by (auto simp: archive_preview_def matching_def scope_filters andThen_eq_Inr Let_def)

lemma scope_condition_frame:
  assumes "observations t = observations s" "cloud_accounts t = cloud_accounts s"
    "aws_accounts t = aws_accounts s" "collection_runs t = collection_runs s" "scope_condition s q = Inr p"
  shows "\<exists>p'. scope_condition t q = Inr p' \<and> (\<forall>f. f_archived_at f = None \<and> p' f \<longleftrightarrow> f_archived_at f = None \<and> p f) \<and>
    (\<forall>f. f_archived_at f \<noteq> None \<and> p' f \<longleftrightarrow> f_archived_at f \<noteq> None \<and> p f)"
proof -
  note frames = apply_filters_frame [OF assms(1-4), of "active_filters q" True]
    apply_filters_frame [OF assms(1-4), of "archived_filters q" True]
  from frames(1) obtain p' where p': "scope_condition t q = Inr p'"
    by (cases "scope_condition t q") (auto simp: scope_filters assms(5))
  with frames show ?thesis by (auto simp: scope_filters assms(5) fun_eq_iff)
qed

text \<open>C13: Archiving by filter does what its preview announces: it succeeds and archives, for the actor and
  at one instant, exactly the matching opportunities that were not archived, with one row of the
  archive history each, in the order of the identifiers, and one audit event; nothing else but
  summaries changes.  Afterwards the same filter matches as many opportunities, none of them active, so
  a second run archives nothing.\<close>

theorem archive_by_filter_exact:
  assumes "archive_preview s q archive_all = Inr w" and "distinct (map f_id (findings s))"
  shows "\<exists>r t hits d e n w'.
    archive_by_filter q actor archive_all ''filter'' None None ''opportunity.archive_by_filter'' s = Inr (r, t) \<and>
    matching s (active_filters q) = Inr hits \<and> ao_actor d = actor \<and>
    ar_archived r = length hits \<and> av_to_archive w = length hits \<and> ar_matched r = av_matched w \<and>
    same_source (s\<lparr>findings := archive_rows d (f_id ` set hits) (findings s),
      archive_history := archive_history s @ map (order_event d) (sort_key f_id hits),
      audit_events := audit_events s @ [e], uuids := n\<rparr>) t \<and>
    archive_preview t q archive_all = Inr w' \<and> av_to_archive w' = 0 \<and> av_matched w' = av_matched w"
proof -
  from assms(1) obtain p where scope: "validate_scope q archive_all = Inr ()" "scope_condition s q = Inr p"
    unfolding preview_scope by blast
  let ?hits = "filter (\<lambda>f. f_archived_at f = None \<and> p f) (findings s)"
  let ?kept = "filter (\<lambda>f. f_archived_at f \<noteq> None \<and> p f) (findings s)"
  have w: "av_to_archive w = length ?hits" "av_matched w = length ?hits + length ?kept"
    using assms(1) scope(2) by (auto simp: preview_scope Let_def)
  obtain r t d e n where t: "archive_by_filter q actor archive_all ''filter'' None None ''opportunity.archive_by_filter'' s = Inr (r, t)"
    "ar_archived r = length ?hits" "ar_matched r = length ?hits + length ?kept" "ao_actor d = actor"
    "same_source (s\<lparr>findings := archive_rows d (f_id ` set ?hits) (findings s),
      archive_history := archive_history s @ map (order_event d) (sort_key f_id ?hits),
      audit_events := audit_events s @ [e], uuids := n\<rparr>) t"
    using archive_by_filter_effect [OF scope assms(2), of "''opportunity.archive_by_filter''" actor "''filter''" None None]
    by auto
  have rows: "findings t = archive_rows d (f_id ` set ?hits) (findings s)" and same:
    "observations t = observations s" "cloud_accounts t = cloud_accounts s"
    "aws_accounts t = aws_accounts s" "collection_runs t = collection_runs s"
    using t(5) by (auto elim!: same_sourceD)
  from scope_condition_frame [OF same scope(2)] obtain p' where p': "scope_condition t q = Inr p'"
    "\<And>f. f_archived_at f = None \<and> p' f \<longleftrightarrow> f_archived_at f = None \<and> p f"
    "\<And>f. f_archived_at f \<noteq> None \<and> p' f \<longleftrightarrow> f_archived_at f \<noteq> None \<and> p f" by blast
  define g where "g f = (if f_id f \<in> f_id ` set ?hits then archived_by_order d f else f)" for f
  have hit: "f_id f \<in> f_id ` set ?hits \<longleftrightarrow> f_archived_at f = None \<and> p f" if "f \<in> set (findings s)" for f
    by (rule filter_ids [OF assms(2) that])
  have g: "\<not> (f_archived_at (g f) = None \<and> p (g f))" "f_archived_at (g f) \<noteq> None \<and> p (g f) \<longleftrightarrow> p f"
    if "f \<in> set (findings s)" for f
    using hit [OF that] scope_archived [OF scope(2), of d f] by (auto simp: g_def)
  have mapped: "findings t = map g (findings s)" by (simp add: rows archive_rows_def g_def)
  have none: "filter (\<lambda>f. f_archived_at f = None \<and> p f) (findings t) = []"
    using g(1) by (auto simp: mapped filter_empty_conv)
  have "length (filter (\<lambda>f. f_archived_at f \<noteq> None \<and> p f) (findings t)) = length (filter p (findings s))"
    using g(2) by (simp add: mapped filter_map comp_def cong: filter_cong)
  moreover have "length (filter p fs) = length (filter (\<lambda>f. f_archived_at f = None \<and> p f) fs) +
      length (filter (\<lambda>f. f_archived_at f \<noteq> None \<and> p f) fs)" for fs :: "finding list"
    by (induction fs) auto
  ultimately have all: "length (filter (\<lambda>f. f_archived_at f \<noteq> None \<and> p f) (findings t)) = length ?hits + length ?kept"
    by simp
  obtain w' where "archive_preview t q archive_all = Inr w'" "av_to_archive w' = 0" "av_matched w' = av_matched w"
    using scope(1) p'(1) none all w(2)
    by (simp add: preview_scope Let_def p'(2,3) del: not_None_eq)
  moreover have "matching s (active_filters q) = Inr ?hits" by (simp add: matching_def scope_filters scope(2))
  ultimately show ?thesis using t w
    by (intro exI [of _ r] exI [of _ t] exI [of _ ?hits] exI [of _ d] exI [of _ e] exI [of _ n] exI [of _ w'] conjI)
      (simp_all del: not_None_eq)
qed

text \<open>The witness archives one of three findings: one is treated, one already archived.\<close>

definition bulk_db :: db where
  "bulk_db = empty_db\<lparr>findings := [finding0 ''f'', (finding0 ''g'')\<lparr>f_status := Treated\<rparr>,
     (finding0 ''e'')\<lparr>f_archived_at := Some (Aware 0 0)\<rparr>]\<rparr>"

definition open_only :: opportunity_filters where
  "open_only = no_opportunity_filters\<lparr>oq_status := Some ''open''\<rparr>"

lemma archive_by_filter_exact_witness:
  "\<exists>r t. archive_by_filter open_only sample_actor False ''filter'' None None ''opportunity.archive_by_filter''
      bulk_db = Inr (r, t) \<and> ar_archived r = 1 \<and> ar_matched r = 2"
proof -
  have p: "\<not> isl (archive_preview bulk_db open_only False)"
    "map_sum id (\<lambda>w. (av_to_archive w, av_matched w)) (archive_preview bulk_db open_only False) = Inr (1, 2)"
    by (code_simp, code_simp)
  then obtain w where w: "archive_preview bulk_db open_only False = Inr w" by (metis isl_def old.sum.exhaust)
  with p(2) have n: "av_to_archive w = 1" "av_matched w = 2" by simp_all
  have "distinct (map f_id (findings bulk_db))" by code_simp
  from archive_by_filter_exact [OF w this, of sample_actor] n show ?thesis by auto
qed

end
