(* ===== verification/Calendar.thy ===== *)
theory Calendar
  imports Cycles
begin

text \<open>
  The calendar arithmetic behind month cycles: the conversion of a day number to a date of the
  proleptic Gregorian calendar and back, and that every day lies between the first day of its month
  and the first day of the next one.
\<close>

section \<open>Years\<close>

text \<open>
  The day of the era on which a year that begins in March starts, and the quotient the code takes
  the year from; the quotient grows with the day, and is right on the first and last day of
  each of the 400 years, so it is right on all days.
\<close>

definition year_start :: "int \<Rightarrow> int" where
  "year_start y = 365 * y + y div 4 - y div 100"

definition leapless :: "int \<Rightarrow> int" where
  "leapless n = n - n div 1460 + n div 36524 - n div 146096"

lemma div_succ: "0 < (k :: int) \<Longrightarrow> (n + 1) div k = n div k + (if k dvd n + 1 then 1 else 0)"
proof -
  assume k: "0 < k"
  have n: "n = k * (n div k) + n mod k" by simp
  have r: "0 \<le> n mod k" "n mod k < k" using k by simp_all
  show ?thesis
  proof (cases "n mod k = k - 1")
    case True
    with n have "n + 1 = k * (n div k + 1)" by (simp add: algebra_simps)
    then show ?thesis using k by simp
  next
    case False
    then have "(n + 1) div k = n div k" "\<not> k dvd n + 1"
    proof -
      have e: "n + 1 = k * (n div k) + (n mod k + 1)" using n by simp
      have lt: "0 < n mod k + 1" "n mod k + 1 < k" using r False by simp_all
      show "(n + 1) div k = n div k" using lt by (intro int_div_pos_eq [OF e]) simp_all
      have "(n + 1) mod k = n mod k + 1" using lt by (intro int_mod_pos_eq [OF e]) simp_all
      with lt show "\<not> k dvd n + 1" by (simp add: dvd_eq_mod_eq_0)
    qed
    then show ?thesis by simp
  qed
qed

lemma leapless_mono:
  assumes "m \<le> n"
  shows "leapless m \<le> leapless n"
  using assms
proof (induction n rule: int_ge_induct)
  case (step n)
  have "(36524 :: int) dvd 146096" by simp
  then have "(146096 :: int) dvd n + 1 \<Longrightarrow> 36524 dvd n + 1" using dvd_trans by blast
  then have "leapless n \<le> leapless (n + 1)" by (auto simp: leapless_def div_succ)
  with step.IH show ?case by simp
qed simp

lemma leapless_at:
  assumes "0 \<le> c" "c \<le> 3" "0 \<le> k" "k < 36524"
  shows "leapless (36524 * c + k) = 36500 * c + k - (24 * c + k) div 1460"
proof -
  have "(36524 * c + k) div 36524 = c" "(36524 * c + k) div 146096 = 0" using assms by simp_all
  moreover have "(36524 * c + k) div 1460 = 25 * c + (24 * c + k) div 1460"
  proof -
    have "36524 * c + k = 24 * c + k + 25 * c * 1460" by simp
    then show ?thesis by (simp only: div_mult_self1 zero_neq_numeral not_False_eq_True)
  qed
  ultimately show ?thesis by (simp add: leapless_def)
qed

lemma leapless_ends:
  assumes "0 \<le> y" "y \<le> 399"
  shows "leapless (year_start y) div 365 = y" "leapless (year_start (y + 1) - 1) div 365 = y"
proof -
  define c q j where "c = y div 100" "q = y mod 100 div 4" "j = y mod 100 mod 4"
  then have y: "y = 100 * c + (4 * q + j)" by simp
  have r: "0 \<le> c" "c \<le> 3" "0 \<le> q" "q \<le> 24" "0 \<le> j" "j \<le> 3"
    using assms by (simp_all add: c_q_j_def)
  have start: "year_start (100 * c + (4 * q + j)) = 36524 * c + (1461 * q + 365 * j)"
    if "0 \<le> q" "q \<le> 24" "0 \<le> j" "j \<le> 3" for c q j :: int
  proof -
    have "(100 * c + (4 * q + j)) div 100 = c" "(100 * c + (4 * q + j)) div 4 = 25 * c + q"
      using that by simp_all
    then show ?thesis by (simp add: year_start_def)
  qed
  have quot: "(24 * c + (1461 * q + m)) div 1460 = q" if "0 \<le> m" "m < 1364" for m
    using that r by simp
  have "leapless (year_start y) = 365 * y"
    unfolding y start [OF r(3-6)] using r
    by (subst leapless_at) (simp_all add: quot)
  then show "leapless (year_start y) div 365 = y" by simp
  have "leapless (year_start (y + 1) - 1) \<in> {365 * y .. 365 * y + 364}"
  proof -
    consider "j < 3" | "j = 3" "q < 24" | "j = 3" "q = 24" using r by linarith
    then show ?thesis
    proof cases
      case 1
      have e: "year_start (y + 1) - 1 = 36524 * c + (1461 * q + (365 * j + 364))"
        using start [of q "j + 1" c] r 1 by (simp add: y algebra_simps)
      show ?thesis unfolding e using r 1 by (subst leapless_at) (simp_all add: quot y)
    next
      case 2
      have e: "year_start (y + 1) - 1 = 36524 * c + (1461 * q + 1460)"
        using start [of "q + 1" 0 c] r 2 by (simp add: y algebra_simps)
      have "(24 * c + (1461 * q + 1460)) div 1460 = q + 1" using r 2 by simp
      then show ?thesis unfolding e using r 2 by (subst leapless_at) (simp_all add: y)
    next
      case 3
      have e: "year_start (y + 1) - 1 = 36524 * c + 36523"
        using start [of 0 0 "c + 1"] 3 by (simp add: y algebra_simps)
      have "(24 * c + 36523) div 1460 = 25" using r 3 by simp
      then show ?thesis unfolding e using r 3 by (subst leapless_at) (simp_all add: y)
    qed
  qed
  then show "leapless (year_start (y + 1) - 1) div 365 = y"
    by (intro int_div_pos_eq [where r = "leapless (year_start (y + 1) - 1) - 365 * y"]) simp_all
qed

lemma year_of_day:
  assumes "0 \<le> n" "n < 146097"
  defines "y \<equiv> leapless n div 365"
  shows "0 \<le> y" "y \<le> 399" "year_start y \<le> n" "n < year_start (y + 1) \<or> y = 399"
proof -
  have "leapless 0 \<le> leapless n" "leapless n \<le> leapless 146096"
    using assms(1,2) by (simp_all add: leapless_mono)
  then have "0 \<le> leapless n" "leapless n \<le> 145999" by (simp_all add: leapless_def)
  then show y: "0 \<le> y" "y \<le> 399" by (simp_all add: y_def)
  show "year_start y \<le> n"
  proof (rule ccontr)
    assume a: "\<not> year_start y \<le> n"
    then have "1 \<le> y" using assms(1) y(1) by (cases "y = 0") (simp_all add: year_start_def)
    then have "leapless (year_start y - 1) div 365 = y - 1"
      using leapless_ends(2) [of "y - 1"] y(2) by simp
    moreover have "leapless n \<le> leapless (year_start y - 1)" using a by (intro leapless_mono) simp
    then have "y \<le> leapless (year_start y - 1) div 365" unfolding y_def by (rule zdiv_mono1) simp
    ultimately show False by simp
  qed
  show "n < year_start (y + 1) \<or> y = 399"
  proof (rule ccontr)
    assume a: "\<not> (n < year_start (y + 1) \<or> y = 399)"
    then have "leapless (year_start (y + 1)) div 365 = y + 1" using leapless_ends(1) [of "y + 1"] y by simp
    moreover have "leapless (year_start (y + 1)) \<le> leapless n" using a by (intro leapless_mono) simp
    then have "leapless (year_start (y + 1)) div 365 \<le> y" unfolding y_def by (rule zdiv_mono1) simp
    ultimately show False by simp
  qed
qed


text \<open>The first day of a month, and of the next one.\<close>

definition month_start :: "int \<Rightarrow> int" where
  "month_start mp = (153 * mp + 2) div 5"

lemma month_of_day:
  assumes "0 \<le> k" "k \<le> 365"
  defines "mp \<equiv> (5 * k + 2) div 153"
  shows "0 \<le> mp" "mp \<le> 11" "month_start mp \<le> k" "k < month_start (mp + 1)"
proof -
  have mp: "153 * mp \<le> 5 * k + 2" "5 * k + 2 < 153 * mp + 153" by (simp_all add: mp_def)
  show "0 \<le> mp" "mp \<le> 11" using mp assms(1,2) by linarith+
  have "month_start mp \<le> (5 * k + 4) div 5" unfolding month_start_def using mp by (intro zdiv_mono1) simp_all
  then show "month_start mp \<le> k" by simp
  have "(5 * (k + 1)) div 5 \<le> month_start (mp + 1)"
    unfolding month_start_def using mp by (intro zdiv_mono1) simp_all
  then show "k < month_start (mp + 1)" by simp
qed

lemma civil_decomposed:
  assumes "civil_from_days n = (y, m, d)"
  obtains era yoe doy mp where
    "n + 719468 = era * 146097 + (year_start yoe + doy)" "0 \<le> yoe" "yoe \<le> 399"
    "0 \<le> mp" "mp \<le> 11" "month_start mp \<le> doy" "doy < month_start (mp + 1)"
    "year_start yoe + doy < year_start (yoe + 1) \<or> yoe = 399" "year_start yoe + doy < 146097"
    "m = (if mp < 10 then mp + 3 else mp - 9)" "y = yoe + era * 400 + (if m \<le> 2 then 1 else 0)"
    "d = doy - month_start mp + 1"
proof -
  define era where "era = (n + 719468) div 146097"
  define doe where "doe = n + 719468 - era * 146097"
  define yoe where "yoe = leapless doe div 365"
  define doy where "doy = doe - year_start yoe"
  define mp where "mp = (5 * doy + 2) div 153"
  have doe: "0 \<le> doe" "doe < 146097" by (simp_all add: doe_def era_def minus_div_mult_eq_mod)
  note yod = year_of_day [OF doe, folded yoe_def]
  have "year_start (yoe + 1) \<le> year_start yoe + 366"
  proof -
    have "(yoe + 1) div 4 \<le> yoe div 4 + 1" "yoe div 100 \<le> (yoe + 1) div 100"
      by (simp_all add: div_succ zdiv_mono1)
    then show ?thesis by (simp add: year_start_def)
  qed
  moreover have "year_start 399 = 365 * 399 + 96" by (simp add: year_start_def)
  ultimately have doy: "0 \<le> doy" "doy \<le> 365" using yod doe by (auto simp: doy_def)
  have mp: "0 \<le> mp" "mp \<le> 11" "month_start mp \<le> doy" "doy < month_start (mp + 1)"
    using month_of_day [OF doy] by (simp_all only: mp_def)
  have m: "civil_from_days n = (yoe + era * 400 + (if (if mp < 10 then mp + 3 else mp - 9) \<le> 2 then 1 else 0),
      (if mp < 10 then mp + 3 else mp - 9), doy - month_start mp + 1)"
    unfolding civil_from_days_def Let_def era_def [symmetric] doe_def [symmetric]
      leapless_def [symmetric] yoe_def [symmetric] year_start_def [symmetric] doy_def [symmetric]
      mp_def [symmetric] month_start_def [symmetric] ..
  show thesis
  proof (rule that [of era yoe doy mp])
    show "n + 719468 = era * 146097 + (year_start yoe + doy)" by (simp add: doe_def doy_def)
    show "year_start yoe + doy < year_start (yoe + 1) \<or> yoe = 399" using yod(4) by (simp add: doy_def)
    show "year_start yoe + doy < 146097" using doe by (simp add: doy_def)
    show "m = (if mp < 10 then mp + 3 else mp - 9)"
      "y = yoe + era * 400 + (if m \<le> 2 then 1 else 0)" "d = doy - month_start mp + 1"
      using m assms by simp_all
  qed (use yod mp in simp_all)
qed

lemma month_first_day:
  assumes "y = yoe + era * 400 + (if m \<le> 2 then 1 else 0)" "0 \<le> yoe" "yoe \<le> 399"
  shows "days_from_civil y m 1 =
    era * 146097 + (year_start yoe + month_start (if m > 2 then m - 3 else m + 9)) - 719468"
proof -
  define y' where "y' = (if m \<le> 2 then y - 1 else y)"
  have y': "y' = yoe + era * 400" using assms(1) by (simp add: y'_def)
  have "y' div 400 = era" unfolding y' using assms(2,3) by simp
  then have e: "y' div 400 = era" "y' - era * 400 = yoe" by (simp_all add: y')
  show ?thesis
    unfolding days_from_civil_def Let_def y'_def [symmetric] e
    by (simp add: year_start_def month_start_def)
qed

text \<open>A day lies in its month: not before the first day, and before the first day of the next month.\<close>

lemma day_in_month:
  assumes "civil_from_days n = (y, m, d)"
  shows "days_from_civil y m 1 \<le> n" "n < (case next_month y m of (y', m') \<Rightarrow> days_from_civil y' m' 1)"
    "1 \<le> m" "m \<le> 12"
proof -
  from assms obtain era yoe doy mp where
    n: "n + 719468 = era * 146097 + (year_start yoe + doy)" "0 \<le> yoe" "yoe \<le> 399"
    and mp: "0 \<le> mp" "mp \<le> 11" "month_start mp \<le> doy" "doy < month_start (mp + 1)"
    and ye: "year_start yoe + doy < year_start (yoe + 1) \<or> yoe = 399" "year_start yoe + doy < 146097"
    and m: "m = (if mp < 10 then mp + 3 else mp - 9)"
    and y: "y = yoe + era * 400 + (if m \<le> 2 then 1 else 0)"
    by (rule civil_decomposed)
  show m12: "1 \<le> m" "m \<le> 12" using m mp by (auto split: if_splits)
  have idx: "(if m > 2 then m - 3 else m + 9) = mp" using m mp by auto
  show "days_from_civil y m 1 \<le> n"
    unfolding month_first_day [OF y n(2,3)] idx using n(1) mp(3) by linarith
  show "n < (case next_month y m of (y', m') \<Rightarrow> days_from_civil y' m' 1)"
  proof (cases "mp = 11")
    case False
    define y' m' where "y' = fst (next_month y m)" "m' = snd (next_month y m)"
    have nm: "next_month y m = (y', m')" by (simp add: y'_m'_def)
    have y': "y' = yoe + era * 400 + (if m' \<le> 2 then 1 else 0)"
      and idx': "(if m' > 2 then m' - 3 else m' + 9) = mp + 1"
      using False m mp y by (auto simp: y'_m'_def next_month_def split: if_splits)
    show ?thesis unfolding nm prod.case month_first_day [OF y' n(2,3)] idx' using n(1) mp(4) by linarith
  next
    case True
    then have m2: "m = 2" "next_month y m = (y, 3)" using m by (simp_all add: next_month_def)
    have zero: "month_start 0 = 0" "year_start 0 = 0" by (simp_all add: month_start_def year_start_def)
    show ?thesis
    proof (cases "yoe = 399")
      case True
      then have y': "y = 0 + (era + 1) * 400 + (if (3 :: int) \<le> 2 then 1 else 0)" using y m2 by simp
      have "n < (era + 1) * 146097 + (year_start 0 + month_start (if 3 > (2 :: int) then 3 - 3 else 3 + 9)) - 719468"
        using n(1) ye(2) zero by simp
      then show ?thesis unfolding m2(2) prod.case using month_first_day [OF y'] by simp
    next
      case False
      then have y': "y = (yoe + 1) + era * 400 + (if (3 :: int) \<le> 2 then 1 else 0)"
        "0 \<le> yoe + 1" "yoe + 1 \<le> 399" using y m2 n(2,3) by simp_all
      show ?thesis unfolding m2(2) prod.case month_first_day [OF y']
        using n(1) ye(1) False zero by simp
    qed
  qed
qed

lemma month_bounds_contain:
  assumes "month_bounds t = Inr (a, b, label)"
  shows "no_later a t" "earlier t b" "a = utc a" "b = utc b"
    "\<exists>y m d. civil_from_days (date_of (utc t)) = (y, m, d) \<and> label = month_label y m \<and>
       instant a = days_from_civil y m 1 * day"
proof -
  obtain y m d where c: "civil_from_days (date_of (utc t)) = (y, m, d)" by (cases "civil_from_days (date_of (utc t))")
  obtain y' m' where nm: "next_month y m = (y', m')" by (cases "next_month y m")
  from assms have ab: "a = Aware (days_from_civil y m 1 * day) 0" "b = Aware (days_from_civil y' m' 1 * day) 0"
    "label = month_label y m"
    by (auto simp: month_bounds_def c nm first_of_month_def andThen_eq_Inr)
  have w: "instant t = wall (utc t)" "date_of (utc t) = wall (utc t) div day"
    by (cases t; simp add: wall_def date_of_def)+
  have lo: "days_from_civil y m 1 \<le> instant t div day" and hi: "instant t div day < days_from_civil y' m' 1"
    using day_in_month(1,2) [OF c] by (simp_all add: w nm)
  show "no_later a t" using lo by (simp add: ab no_later_def)
  show "earlier t b" using hi by (simp add: ab earlier_def)
  show "a = utc a" "b = utc b" by (simp_all add: ab)
  show "\<exists>y m d. civil_from_days (date_of (utc t)) = (y, m, d) \<and> label = month_label y m \<and>
       instant a = days_from_civil y m 1 * day"
    using c ab by auto
qed

end
