(* ===== verification/Timeline.thy ===== *)
theory Timeline
  imports ManagementPolicy Calendar Closing Scans ObservationCleanup
begin

text \<open>
  The history of cycles as a timeline: an abstract specification of intervals that never overlap, the
  proof that every operation that touches cycles refines it, what closing a cycle records, and the
  cycle a policy finds or creates for an instant.
\<close>

section \<open>The abstract timeline\<close>

text \<open>
  What the history promises: named intervals of time, each open or closed, that never overlap; an
  interval can be added where it overlaps none, and an open interval can be closed.
\<close>

type_synonym timeline = "string \<rightharpoonup> int \<times> int \<times> bool"

inductive timeline_step :: "timeline \<Rightarrow> timeline \<Rightarrow> bool" where
  opens: "T i = None \<Longrightarrow> a < b \<Longrightarrow> (\<And>j c d x. T j = Some (c, d, x) \<Longrightarrow> b \<le> c \<or> d \<le> a) \<Longrightarrow>
    timeline_step T (T(i \<mapsto> (a, b, False)))"
| closes: "T i = Some (a, b, False) \<Longrightarrow> timeline_step T (T(i \<mapsto> (a, b, True)))"

inductive_cases timeline_stepE: "timeline_step T U"

definition disjoint_timeline :: "timeline \<Rightarrow> bool" where
  "disjoint_timeline T \<longleftrightarrow>
     (\<forall>i a b x. T i = Some (a, b, x) \<longrightarrow> a < b) \<and>
     (\<forall>i j a b x c d y. T i = Some (a, b, x) \<longrightarrow> T j = Some (c, d, y) \<longrightarrow> i = j \<or> b \<le> c \<or> d \<le> a)"

lemma timeline_step_disjoint: "timeline_step T U \<Longrightarrow> disjoint_timeline T \<Longrightarrow> disjoint_timeline U"
proof (erule timeline_stepE)
  fix i a b
  assume T: "disjoint_timeline T" "a < b" "\<And>j c d x. T j = Some (c, d, x) \<Longrightarrow> b \<le> c \<or> d \<le> a"
    and U: "U = T(i \<mapsto> (a, b, False))"
  have one: "e < f" if "U j = Some (e, f, x)" for j e f x
    using that T(1,2) by (auto simp: U disjoint_timeline_def split: if_splits)
  have two: "j = k \<or> f \<le> c \<or> d \<le> e" if "U j = Some (e, f, x)" "U k = Some (c, d, y)" for j k e f c d x y
    using that T(1) T(3) [of j e f x] T(3) [of k c d y]
    by (auto simp: U disjoint_timeline_def split: if_splits)
  show "disjoint_timeline U" unfolding disjoint_timeline_def using one two by blast
next
  fix i a b
  assume T: "disjoint_timeline T" "T i = Some (a, b, False)" and U: "U = T(i \<mapsto> (a, b, True))"
  have same: "\<exists>x'. T j = Some (e, f, x')" if "U j = Some (e, f, x)" for j e f x
    using that T(2) by (auto simp: U split: if_splits)
  show "disjoint_timeline U" unfolding disjoint_timeline_def
    using same T(1) [unfolded disjoint_timeline_def] by meson
qed

interpretation timelines: invariant_system disjoint_timeline timeline_step
  by unfold_locales (rule timeline_step_disjoint)

text \<open>An interval is never removed or moved, and a closed one never opened again.\<close>

lemma timeline_step_keeps: "timeline_step T U \<Longrightarrow> T i = Some (a, b, x) \<Longrightarrow> \<exists>y. U i = Some (a, b, y) \<and> (x \<longrightarrow> y)"
  by (erule timeline_stepE) auto

lemma timeline_steps_keep:
  "timeline_step\<^sup>*\<^sup>* T U \<Longrightarrow> T i = Some (a, b, x) \<Longrightarrow> \<exists>y. U i = Some (a, b, y) \<and> (x \<longrightarrow> y)"
proof (induction rule: rtranclp_induct)
  case (step U V)
  then obtain y where y: "U i = Some (a, b, y)" "x \<longrightarrow> y" by blast
  from timeline_step_keeps [OF step.hyps(2) y(1)] y(2) show ?case by blast
qed simp

section \<open>Simulation\<close>

text \<open>The contract of a refinement: every step of the program is matched by steps of its specification.\<close>

locale simulation =
  fixes view :: "'s \<Rightarrow> 'a"
    and inv :: "'s \<Rightarrow> bool"
    and concrete :: "'s \<Rightarrow> 's \<Rightarrow> bool"
    and abstract :: "'a \<Rightarrow> 'a \<Rightarrow> bool"
  assumes simulated: "concrete s t \<Longrightarrow> inv s \<Longrightarrow> inv t \<and> abstract\<^sup>*\<^sup>* (view s) (view t)"
begin

lemma runs: "concrete\<^sup>*\<^sup>* s t \<Longrightarrow> inv s \<Longrightarrow> inv t \<and> abstract\<^sup>*\<^sup>* (view s) (view t)"
proof (induction rule: rtranclp_induct)
  case (step t u)
  then have "inv t" "abstract\<^sup>*\<^sup>* (view s) (view t)" by simp_all
  with simulated [OF step.hyps(2)] have "inv u" "abstract\<^sup>*\<^sup>* (view t) (view u)" by blast+
  then show ?case using rtranclp_trans [OF \<open>abstract\<^sup>*\<^sup>* (view s) (view t)\<close>] by simp
qed simp

lemma keeps: "concrete\<^sup>*\<^sup>* s t \<Longrightarrow> inv s \<Longrightarrow> (\<And>a b. abstract a b \<Longrightarrow> P a \<Longrightarrow> P b) \<Longrightarrow> P (view s) \<Longrightarrow> P (view t)"
proof -
  assume a: "concrete\<^sup>*\<^sup>* s t" "inv s" "\<And>a b. abstract a b \<Longrightarrow> P a \<Longrightarrow> P b" "P (view s)"
  have "abstract\<^sup>*\<^sup>* (view s) (view t)" using runs [OF a(1,2)] by blast
  then show "P (view t)" using a(4) by (induction rule: rtranclp_induct) (auto intro: a(3))
qed

end

definition timeline_of :: "db \<Rightarrow> timeline" where
  "timeline_of s = (\<lambda>i. map_option (\<lambda>c. (instant (hc_period_start c), instant (hc_period_end c),
     hc_status c = CycleClosed)) (get_cycle_row i s))"

definition cycles_ok :: "db \<Rightarrow> bool" where
  "cycles_ok s \<longleftrightarrow> inj (uuid4 s) \<and> hc_id ` set (history_cycles s) \<subseteq> issued s \<and>
     distinct (map hc_id (history_cycles s)) \<and> disjoint_timeline (timeline_of s)"

text \<open>Closed cycles and their snapshots are final; snapshots are only added.\<close>

definition finished_kept :: "db \<Rightarrow> db \<Rightarrow> bool" where
  "finished_kept s t \<longleftrightarrow> (\<exists>xs. history_snapshots t = history_snapshots s @ xs) \<and>
     (\<forall>i c. get_cycle_row i s = Some c \<longrightarrow> hc_status c = CycleClosed \<longrightarrow>
        get_cycle_row i t = Some c \<and> cycle_snapshots t i = cycle_snapshots s i)"

definition cycle_move :: "db \<Rightarrow> db \<Rightarrow> bool" where
  "cycle_move s t \<longleftrightarrow> (cycles_ok s \<longrightarrow>
     cycles_ok t \<and> timeline_step\<^sup>*\<^sup>* (timeline_of s) (timeline_of t) \<and> finished_kept s t)"

lemma finished_kept_refl [simp]: "finished_kept s s"
  by (simp add: finished_kept_def)

lemma finished_kept_trans: "finished_kept s t \<Longrightarrow> finished_kept t u \<Longrightarrow> finished_kept s u"
  unfolding finished_kept_def by (elim conjE exE) auto

lemma cycle_move_refl [simp]: "cycle_move s s"
  by (simp add: cycle_move_def)

lemma cycle_move_trans [trans]: "cycle_move s t \<Longrightarrow> cycle_move t u \<Longrightarrow> cycle_move s u"
  unfolding cycle_move_def using finished_kept_trans rtranclp_trans by meson

lemma find_cycle:
  assumes "distinct (map hc_id (history_cycles s))"
  shows "get_cycle_row i s = Some c \<longleftrightarrow> c \<in> set (history_cycles s) \<and> hc_id c = i"
  using distinct_find_row [OF assms] find_row_Some [of hc_id i "history_cycles s"]
  by (auto simp: get_cycle_row_def)

text \<open>Changing columns of cycles that the timeline does not show.\<close>

lemma cycle_move_relabel:
  assumes rows: "history_cycles t = map g (history_cycles s)" and snaps: "history_snapshots t = history_snapshots s"
    and grow: "uuids_grow s t"
    and g: "\<And>c. c \<in> set (history_cycles s) \<Longrightarrow> hc_id (g c) = hc_id c \<and> hc_period_start (g c) = hc_period_start c \<and>
      hc_period_end (g c) = hc_period_end c \<and> hc_status (g c) = hc_status c \<and> (hc_status c = CycleClosed \<longrightarrow> g c = c)"
  shows "cycle_move s t"
proof -
  have get: "get_cycle_row i t = map_option g (get_cycle_row i s)" for i
  proof -
    have "find_row hc_id i (map g cs) = map_option g (find_row hc_id i cs)"
      if "\<And>c. c \<in> set cs \<Longrightarrow> hc_id (g c) = hc_id c" for cs
      using that by (induction cs) (auto simp: row_simps)
    then show ?thesis using g by (simp add: get_cycle_row_def rows)
  qed
  have mem: "c \<in> set (history_cycles s)" if "get_cycle_row i s = Some c" for i c
    using that find_row_Some by (fastforce simp: get_cycle_row_def)
  have T: "timeline_of t = timeline_of s"
  proof
    fix i
    show "timeline_of t i = timeline_of s i"
    proof (cases "get_cycle_row i s")
      case (Some c)
      with g [OF mem [OF Some]] show ?thesis by (simp add: timeline_of_def get)
    qed (simp add: timeline_of_def get)
  qed
  have "map hc_id (history_cycles t) = map hc_id (history_cycles s)" using g by (simp add: rows)
  then have ids: "distinct (map hc_id (history_cycles t)) = distinct (map hc_id (history_cycles s))"
    "hc_id ` set (history_cycles t) = hc_id ` set (history_cycles s)" by (metis, metis set_map)
  have "cycles_ok t" if "cycles_ok s"
    using that issued_grow [OF grow] grow by (auto simp: cycles_ok_def ids T uuids_grow_def)
  moreover have "finished_kept s t"
    unfolding finished_kept_def using g mem by (auto simp: get snaps cycle_snapshots_def)
  ultimately show ?thesis by (simp add: cycle_move_def T)
qed

lemma cycle_move_same:
  assumes "history_cycles t = history_cycles s" "history_snapshots t = history_snapshots s" "uuids_grow s t"
  shows "cycle_move s t"
  by (rule cycle_move_relabel [where g = id]) (use assms in simp_all)

section \<open>Each operation moves along the timeline\<close>

named_theorems cycle_moves \<open>operations that respect the timeline of cycles\<close>

lemma cycle_move_env [simp]: "cycle_move s (snd (utcnow s))" "cycle_move s (snd (new_uuid s))"
  by (rule cycle_move_same; simp add: env_defs uuids_grow_def)+

lemma cycle_move_now: "given_or_now t s = (v, s') \<Longrightarrow> cycle_move s s'"
  using cycle_move_env(1) [of s] by (cases t) (auto simp: given_or_now_def)

lemma cycle_move_uuid: "new_uuid s = (v, s') \<Longrightarrow> cycle_move s s'"
  using cycle_move_env(2) [of s] by simp

lemma cycle_move_audit: "record_audit c s = Inr t \<Longrightarrow> cycle_move s t"
  by (rule cycle_move_same) (auto dest!: record_audit_appends simp: uuids_grow_def)

text \<open>A new cycle overlaps none.\<close>

lemma create_cycle_row:
  assumes "create_cycle a b label tz s = Inr (c, t)"
  shows "t = s\<lparr>uuids := Suc (uuids s), history_cycles := history_cycles s @ [c]\<rparr>"
    "hc_id c = uuid4 s (uuids s)" "hc_period_start c = utc a" "hc_period_end c = utc b"
    "hc_status c = CycleOpen" "earlier a b" "\<And>d. d \<in> set (history_cycles s) \<Longrightarrow> \<not> overlaps (utc a) (utc b) d"
  using assms
  by (auto simp: create_cycle_def andThen_eq_Inr Let_def new_uuid_def new_cycle_def list_ex_iff earlier_def)

lemma cycle_move_create [cycle_moves]:
  assumes "create_cycle a b label tz s = Inr (c, t)"
  shows "cycle_move s t"
  unfolding cycle_move_def
proof
  note c = create_cycle_row [OF assms]
  assume ok: "cycles_ok s"
  have fresh: "uuid4 s (uuids s) \<notin> hc_id ` set (history_cycles s)"
    using ok new_uuid_not_issued [of s] by (auto simp: cycles_ok_def)
  have none: "find_row hc_id (uuid4 s (uuids s)) (history_cycles s) = None"
    using fresh by (simp add: find_row_None_iff)
  have get: "get_cycle_row i t = (if i = hc_id c then Some c else get_cycle_row i s)" for i
    using none by (simp add: get_cycle_row_def c(1,2) find_row_append row_simps split: option.split)
  have T: "timeline_of t = (timeline_of s)(hc_id c \<mapsto> (instant a, instant b, False))"
    by (auto simp: timeline_of_def get c(3-5))
  have dist: "distinct (map hc_id (history_cycles s))" using ok by (simp add: cycles_ok_def)
  have step: "timeline_step (timeline_of s) (timeline_of t)"
    unfolding T
  proof (rule opens)
    show "timeline_of s (hc_id c) = None"
      using fresh find_row_None_iff [of hc_id "hc_id c" "history_cycles s"]
      by (simp add: timeline_of_def get_cycle_row_def c(2))
    show "instant a < instant b" using c(6) by (simp add: earlier_def)
    fix j e f x assume "timeline_of s j = Some (e, f, x)"
    then obtain d where "get_cycle_row j s = Some d" "e = instant (hc_period_start d)" "f = instant (hc_period_end d)"
      by (auto simp: timeline_of_def)
    then show "instant b \<le> e \<or> f \<le> instant a"
      using c(7) [of d] find_cycle [OF dist] by (auto simp: overlaps_def earlier_def)
  qed
  have "cycles_ok t"
  proof -
    have "uuid4 s (uuids s) \<in> issued t" by (simp add: issued_def c(1))
    moreover have "issued s \<subseteq> issued t" by (rule issued_grow) (simp add: uuids_grow_def c(1))
    moreover have "disjoint_timeline (timeline_of t)"
      using timeline_step_disjoint [OF step] ok by (simp add: cycles_ok_def)
    ultimately show ?thesis using ok fresh by (auto simp: cycles_ok_def c(1,2))
  qed
  moreover have "finished_kept s t"
  proof -
    have "hc_id d \<noteq> hc_id c" if "get_cycle_row (hc_id d) s = Some d" for d
      using that fresh unfolding find_cycle [OF dist] c(2) by force
    moreover have "history_snapshots t = history_snapshots s" by (simp add: c(1))
    ultimately show ?thesis
      unfolding finished_kept_def using find_cycle [OF dist]
      by (auto simp: get cycle_snapshots_def)
  qed
  ultimately show "cycles_ok t \<and> timeline_step\<^sup>*\<^sup>* (timeline_of s) (timeline_of t) \<and> finished_kept s t"
    using step by blast
qed

lemma cycle_move_month [cycle_moves]:
  "get_or_create_month_cycle ts s = Inr (c, t) \<Longrightarrow> cycle_move s t"
  by (auto simp: get_or_create_month_cycle_def andThen_eq_Inr split: option.splits intro: cycle_move_create)

text \<open>Closing: the row is replaced by its closed version, and its snapshots are added.\<close>

lemma cycle_move_finish:
  assumes c: "c \<in> set (history_cycles s)" "hc_status c = CycleOpen"
    and t: "history_cycles t = put_row hc_id (closed_cycle c at_time actor reason n g) (history_cycles s)"
    and snaps: "history_snapshots t = history_snapshots s @ xs" "\<forall>x \<in> set xs. hs_cycle_id x = hc_id c"
    and grow: "uuids_grow s t"
  shows "cycle_move s t"
  unfolding cycle_move_def
proof
  assume ok: "cycles_ok s"
  define c' where "c' = closed_cycle c at_time actor reason n g"
  have c': "hc_id c' = hc_id c" "hc_period_start c' = hc_period_start c" "hc_period_end c' = hc_period_end c"
    "hc_status c' = CycleClosed" by (simp_all add: c'_def closed_cycle_def)
  have dist: "distinct (map hc_id (history_cycles s))" using ok by (simp add: cycles_ok_def)
  have row: "get_cycle_row (hc_id c) s = Some c" using c(1) find_cycle [OF dist] by simp
  have get: "get_cycle_row i t = (if i = hc_id c then Some c' else get_cycle_row i s)" for i
    using row by (simp add: get_cycle_row_def t c'_def [symmetric] row_simps c'(1))
  have T: "timeline_of t = (timeline_of s)(hc_id c \<mapsto>
      (instant (hc_period_start c), instant (hc_period_end c), True))"
    by (auto simp: timeline_of_def get c')
  have step: "timeline_step (timeline_of s) (timeline_of t)"
    unfolding T by (rule closes) (simp add: timeline_of_def row c(2))
  have "map hc_id (history_cycles t) = map hc_id (history_cycles s)" by (simp add: t row_simps)
  then have ids: "distinct (map hc_id (history_cycles t))" "hc_id ` set (history_cycles t) = hc_id ` set (history_cycles s)"
    using dist by (simp, metis set_map)
  have "cycles_ok t"
    using ok timeline_step_disjoint [OF step] ids issued_grow [OF grow] grow
    by (auto simp: cycles_ok_def uuids_grow_def)
  moreover have "finished_kept s t"
    unfolding finished_kept_def
  proof (intro conjI allI impI)
    show "\<exists>ys. history_snapshots t = history_snapshots s @ ys" using snaps(1) by blast
    fix i d assume d: "get_cycle_row i s = Some d" "hc_status d = CycleClosed"
    then have ne: "i \<noteq> hc_id c" using row c(2) by auto
    then show "get_cycle_row i t = Some d" using d(1) by (simp add: get)
    have "filter (\<lambda>x. hs_cycle_id x = i) xs = []" using snaps(2) ne by (auto simp: filter_empty_conv)
    then show "cycle_snapshots t i = cycle_snapshots s i" by (simp add: cycle_snapshots_def snaps(1))
  qed
  ultimately show "cycles_ok t \<and> timeline_step\<^sup>*\<^sup>* (timeline_of s) (timeline_of t) \<and> finished_kept s t"
    using step by blast
qed

text \<open>The effect of closing without any condition on the tables it reads.\<close>

lemma close_open_cycle_moves:
  assumes "close_open_cycle c actor reason s = Inr (c', t)" "c \<in> set (history_cycles s)" "hc_status c = CycleOpen"
  shows "cycle_move s t" "hc_period_end c' = hc_period_end c" "hc_id c' = hc_id c"
proof -
  obtain now s1 where u: "utcnow s = (now, s1)" by fastforce
  define rows where "rows = snapshot_source_rows s1 c"
  define g where "g = collection_coverage s1 c"
  define s2 where "s2 = fold (add_snapshot (hc_id c) now reason) rows s1"
  define s3 where "s3 = put_cycle (closed_cycle c now actor reason (length rows) g) s2"
  obtain correlation s4 where n: "new_uuid s3 = (correlation, s4)" by fastforce
  from assms(1) have c': "c' = closed_cycle c now actor reason (length rows) g"
    and r: "record_audit (close_audit c' actor reason (length rows) (cycle_stats s3 (hc_id c)) g correlation) s4 = Inr t"
    unfolding close_open_cycle_def u Let_def prod.case rows_def [symmetric] g_def [symmetric] s2_def [symmetric]
      s3_def [symmetric] n by (auto simp: andThen_eq_Inr)
  show "hc_period_end c' = hc_period_end c" "hc_id c' = hc_id c" by (simp_all add: c' closed_cycle_def)
  have s1: "s1 = s\<lparr>ticks := Suc (ticks s)\<rparr>" using u by (simp add: utcnow_def)
  have s2: "s2 = s1\<lparr>history_snapshots := history_snapshots s1 @
      snapshots_taken (sha256 s1) (uuid4 s1) (uuids s1) (hc_id c) now reason rows,
      uuids := uuids s1 + length rows\<rparr>" by (simp add: s2_def add_snapshots)
  have "cycle_move s s3"
  proof (rule cycle_move_finish [OF assms(2,3)])
    show "history_cycles s3 = put_row hc_id (closed_cycle c now actor reason (length rows) g) (history_cycles s)"
      "uuids_grow s s3" by (simp_all add: s3_def put_cycle_def s2 s1 uuids_grow_def)
    show "history_snapshots s3 = history_snapshots s @
      snapshots_taken (sha256 s1) (uuid4 s1) (uuids s1) (hc_id c) now reason rows"
      by (simp add: s3_def put_cycle_def s2 s1)
    show "\<forall>x \<in> set (snapshots_taken (sha256 s1) (uuid4 s1) (uuids s1) (hc_id c) now reason rows). hs_cycle_id x = hc_id c"
    proof
      fix x assume "x \<in> set (snapshots_taken (sha256 s1) (uuid4 s1) (uuids s1) (hc_id c) now reason rows)"
      from snapshots_taken_fields(3) [OF this] obtain k row where
        "x = snapshot_of (sha256 s1) (uuid4 s1 k) (hc_id c) now reason row" by blast
      then show "hs_cycle_id x = hc_id c" by (simp add: snapshot_of_def Let_def)
    qed
  qed
  also have "cycle_move s3 s4" by (rule cycle_move_uuid [OF n])
  also have "cycle_move s4 t" by (rule cycle_move_audit [OF r])
  finally show "cycle_move s t" .
qed

lemma close_cycle_moves:
  assumes "close_cycle i actor reason s = Inr (c, t)"
  shows "cycle_move s t"
proof -
  from assms obtain d where d: "get_cycle_row i s = Some d"
    and c: "(c = d \<and> t = s) \<or> hc_status d \<noteq> CycleClosed \<and>
      close_open_cycle d actor (strip (upper reason)) s = Inr (c, t)"
    by (auto simp: close_cycle_def Let_def andThen_eq_Inr split: option.splits if_splits)
  have "d \<in> set (history_cycles s)" using d find_row_Some by (fastforce simp: get_cycle_row_def)
  with c close_open_cycle_moves(1) [of d actor "strip (upper reason)" s c t] show ?thesis
    by (cases "hc_status d") auto
qed

declare close_cycle_moves [cycle_moves]

section \<open>The policy's operations\<close>

lemma adopted_keeps: "hc_id (adopted p c) = hc_id c \<and> hc_period_start (adopted p c) = hc_period_start c \<and>
    hc_period_end (adopted p c) = hc_period_end c \<and> hc_status (adopted p c) = hc_status c \<and>
    (hc_status c = CycleClosed \<longrightarrow> adopted p c = c)"
  by (simp add: adopted_def)

lemma cycle_move_policy [cycle_moves]:
  assumes "get_or_create st s = Inr (p, t)"
  shows "cycle_move s t"
proof (cases "global_policy s")
  case None
  obtain now s1 where u: "utcnow s = (now, s1)" by fastforce
  obtain i s2 where n: "new_uuid s1 = (i, s2)" by fastforce
  have "s2 = s\<lparr>ticks := Suc (ticks s), uuids := Suc (uuids s)\<rparr>" using u n by (auto simp: env_defs)
  moreover from assms None have "t = adopt_legacy_open_cycles p
      (s2\<lparr>management_policies := management_policies s2 @ [p]\<rparr>)"
    by (auto simp: get_or_create_def u n andThen_eq_Inr Let_def)
  ultimately show ?thesis
    by (intro cycle_move_relabel [where g = "adopted p", OF _ _ _ adopted_keeps])
      (simp_all add: adopt_legacy_open_cycles_def uuids_grow_def)
qed (use assms in \<open>simp add: get_or_create_def\<close>)

lemma cycle_move_first: "policy_or_first st q s = Inr (p, t) \<Longrightarrow> cycle_move s t"
  by (auto simp: policy_or_first_def intro: cycle_moves split: option.splits)

lemma cycle_move_policy_cycle:
  assumes "create_policy_cycle p a b label s = Inr (c, t)"
  shows "cycle_move s t"
proof -
  from assms obtain d u where d: "create_cycle a b label (mp_cycle_timezone p) s = Inr (d, u)"
    and t: "t = put_cycle (with_policy p d) u"
    by (auto simp: create_policy_cycle_def andThen_eq_Inr)
  show ?thesis
    unfolding cycle_move_def
  proof
    assume ok: "cycles_ok s"
    with cycle_move_create [OF d] have u: "cycles_ok u" by (simp add: cycle_move_def)
    then have dist: "distinct (map hc_id (history_cycles u))" by (simp add: cycles_ok_def)
    have mem: "d \<in> set (history_cycles u)" "hc_status d = CycleOpen"
      using create_cycle_row(1,5) [OF d] by simp_all
    have "cycle_move u t"
    proof (rule cycle_move_relabel [where g = "\<lambda>x. if hc_id x = hc_id d then with_policy p d else x"])
      show "history_cycles t = map (\<lambda>x. if hc_id x = hc_id d then with_policy p d else x) (history_cycles u)"
        by (simp add: t put_cycle_def put_row_def with_policy_def)
      fix x assume "x \<in> set (history_cycles u)"
      moreover have "x = d" if "x \<in> set (history_cycles u)" "hc_id x = hc_id d" for x
        using dist that mem(1) by (metis distinct_map inj_onD)
      ultimately show "hc_id (if hc_id x = hc_id d then with_policy p d else x) = hc_id x \<and>
        hc_period_start (if hc_id x = hc_id d then with_policy p d else x) = hc_period_start x \<and>
        hc_period_end (if hc_id x = hc_id d then with_policy p d else x) = hc_period_end x \<and>
        hc_status (if hc_id x = hc_id d then with_policy p d else x) = hc_status x \<and>
        (hc_status x = CycleClosed \<longrightarrow> (if hc_id x = hc_id d then with_policy p d else x) = x)"
        using mem(2) by (cases "x = d") (auto simp: with_policy_def)
    qed (simp_all add: t put_cycle_def uuids_grow_def)
    with cycle_move_create [OF d] have "cycle_move s t" by (rule cycle_move_trans)
    then show "cycles_ok t \<and> timeline_step\<^sup>*\<^sup>* (timeline_of s) (timeline_of t) \<and> finished_kept s t"
      using ok by (simp add: cycle_move_def)
  qed
qed

lemma cycle_move_current [cycle_moves]:
  assumes "get_or_create_cycle_for st zones ts q s = Inr (c, t)"
  shows "cycle_move s t"
proof (cases "current_cycle (utc ts) s")
  case None
  with assms obtain p u a b label where u: "policy_or_first st q s = Inr (p, u)"
    and r: "(case cycle_with_bounds a b u of Some c \<Rightarrow> Inr (c, u) | None \<Rightarrow> create_policy_cycle p a b label u) = Inr (c, t)"
    by (auto simp: get_or_create_cycle_for_def andThen_eq_Inr Let_def)
  have "cycle_move u t" using r by (auto split: option.splits intro: cycle_move_policy_cycle)
  with cycle_move_first [OF u] show ?thesis by (rule cycle_move_trans)
qed (use assms in \<open>simp add: get_or_create_cycle_for_def\<close>)

lemma cycle_move_next [cycle_moves]:
  assumes "ensure_next_cycle st zones prev q s = Inr (c, t)"
  shows "cycle_move s t"
  using assms unfolding ensure_next_cycle_def
  by (auto simp: andThen_eq_Inr Let_def split: option.splits
      intro: cycle_move_trans [OF cycle_move_first cycle_move_policy_cycle])

lemma cycle_move_close_one:
  assumes "auto_close_one st zones p c (r, s) = Inr (r', t)"
  shows "cycle_move s t"
proof (cases "cg_running (collection_coverage s c) = 0")
  case True
  with assms obtain c' n u where "close_cycle (hc_id c) None ''SCHEDULED'' s = Inr (c', u)"
    "ensure_next_cycle st zones c' (Some p) u = Inr (n, t)"
    unfolding auto_close_one_def Let_def by (auto simp: andThen_eq_Inr)
  then show ?thesis using cycle_move_trans cycle_moves by meson
qed (use assms in \<open>simp add: auto_close_one_def Let_def\<close>)

lemma cycle_move_auto [cycle_moves]:
  assumes "auto_close_due_cycles st zones q at_time s = Inr (r, t)"
  shows "cycle_move s t"
proof -
  from assms obtain p s1 where p: "policy_or_first st q s = Inr (p, s1)"
    unfolding auto_close_due_cycles_def by (auto simp: andThen_eq_Inr)
  obtain now s2 where n: "given_or_now at_time s1 = (now, s2)" by fastforce
  have rest: "t = s2 \<or> (\<exists>z r s3. fold_result (auto_close_one st zones p) (due_cycles (utc now) s2) (z, s2) = Inr (r, s3) \<and>
      (t = s3 \<or> (\<exists>k. record_audit (auto_close_audit p r k) (snd (new_uuid s3)) = Inr t)))"
  proof (cases "\<not> mp_enabled p \<or> \<not> mp_automatic_cycle_close_enabled p")
    case True
    with assms show ?thesis by (simp add: auto_close_due_cycles_def p n Let_def)
  next
    case False
    note eq = assms [unfolded auto_close_due_cycles_def p andThen_Inr prod.case n Let_def if_not_P [OF False]
        andThen_eq_Inr]
    then obtain x where x: "fold_result (auto_close_one st zones p) (due_cycles (utc now) s2)
        (\<lparr>ar_evaluated = 0, ar_closed = 0, ar_deferred_running = 0\<rparr>, s2) = Inr x"
      and y: "(case x of (r, s3) \<Rightarrow> if ar_closed r = 0 then Inr (r, s3) else case new_uuid s3 of (k, s4) \<Rightarrow>
        andThen (record_audit (auto_close_audit p r k) s4) (\<lambda>u. Inr (r, u))) = Inr (r, t)"
      by (elim exE conjE) (rule that)
    obtain r' s3 where x': "x = (r', s3)" by fastforce
    have "t = s3 \<or> (\<exists>k. record_audit (auto_close_audit p r' k) (snd (new_uuid s3)) = Inr t)"
      using y by (auto simp: x' andThen_eq_Inr case_prod_beta split: if_splits)
    with x [unfolded x'] show ?thesis by blast
  qed
  have "cycle_move s s2" using cycle_move_first [OF p] cycle_move_now [OF n] by (rule cycle_move_trans)
  moreover have "cycle_move s2 s3"
    if "fold_result (auto_close_one st zones p) (due_cycles (utc now) s2) (z, s2) = Inr (r, s3)" for z r s3
    using fold_result_invariant [OF that, where P = "\<lambda>x. cycle_move s2 (snd x)"] cycle_move_close_one cycle_move_trans
    by fastforce
  ultimately show ?thesis using rest cycle_move_env(2) cycle_move_audit cycle_move_trans by meson
qed

lemma cycle_move_route [cycle_moves]:
  assumes "close_cycle_route st zones i actor s = Inr (x, t)"
  shows "cycle_move s t"
proof -
  from assms obtain c s1 p s2 n where "close_cycle i (Some actor) ''MANUAL'' s = Inr (c, s1)"
    "get_or_create st s1 = Inr (p, s2)" "ensure_next_cycle st zones c (Some p) s2 = Inr (n, t)"
    by (auto simp: close_cycle_route_def andThen_eq_Inr)
  then show ?thesis using cycle_move_trans cycle_moves by meson
qed

lemma cycle_move_read [cycle_moves]:
  assumes "read_payload st zones p at_time s = Inr (x, t)"
  shows "cycle_move s t"
proof -
  obtain now s1 where n: "given_or_now at_time s = (now, s1)" by fastforce
  from assms obtain c s2 where c: "get_or_create_cycle_for st zones (utc now) (Some p) s1 = Inr (c, s2)"
    and m: "t = snd (get_maintenance_state s2)"
    by (auto simp: read_payload_def n andThen_eq_Inr case_prod_beta)
  have "cycle_move s2 t"
    by (rule cycle_move_same) (use m in \<open>auto simp: get_maintenance_state_def uuids_grow_def split: option.splits\<close>)
  then show ?thesis using cycle_move_now [OF n] cycle_move_current [OF c] cycle_move_trans by meson
qed

lemma cycle_move_show [cycle_moves]:
  assumes "current_cycle_route st zones s = Inr (x, t)"
  shows "cycle_move s t"
proof -
  from assms obtain p s1 c where "get_or_create st s = Inr (p, s1)"
    "get_or_create_cycle_for st zones (fst (utcnow s1)) (Some p) (snd (utcnow s1)) = Inr (c, t)"
    by (auto simp: current_cycle_route_def andThen_eq_Inr case_prod_beta)
  then show ?thesis using cycle_move_trans cycle_moves cycle_move_env(1) by meson
qed

lemma cycle_move_update [cycle_moves]:
  assumes "update_policy st v k actor s = Inr (p, t)"
  shows "cycle_move s t"
proof -
  from assms obtain q s1 b a where q: "get_or_create st s = Inr (q, s1)"
    and r: "record_audit (policy_audit p actor b a (fst (new_uuid (put_policy p s1))))
      (snd (new_uuid (put_policy p s1))) = Inr t"
    unfolding update_policy_def Let_def by (auto simp: andThen_eq_Inr case_prod_beta)
  have "cycle_move s1 (put_policy p s1)"
    by (rule cycle_move_same) (simp_all add: put_policy_def uuids_grow_def)
  then show ?thesis
    using cycle_move_policy [OF q] cycle_move_env(2) cycle_move_audit [OF r] cycle_move_trans by meson
qed

section \<open>The program's steps\<close>

inductive cycle_step :: "db \<Rightarrow> db \<Rightarrow> bool" where
  do_create: "create_cycle a b label tz s = Inr (c, t) \<Longrightarrow> cycle_step s t"
| do_month: "get_or_create_month_cycle ts s = Inr (c, t) \<Longrightarrow> cycle_step s t"
| do_close: "close_cycle i actor reason s = Inr (c, t) \<Longrightarrow> cycle_step s t"
| do_current: "get_or_create_cycle_for st zones ts q s = Inr (c, t) \<Longrightarrow> cycle_step s t"
| do_next: "ensure_next_cycle st zones prev q s = Inr (c, t) \<Longrightarrow> cycle_step s t"
| do_auto: "auto_close_due_cycles st zones q at_time s = Inr (r, t) \<Longrightarrow> cycle_step s t"
| do_show: "current_cycle_route st zones s = Inr (x, t) \<Longrightarrow> cycle_step s t"
| do_route: "close_cycle_route st zones i user s = Inr (x, t) \<Longrightarrow> cycle_step s t"
| do_policy: "get_or_create st s = Inr (p, t) \<Longrightarrow> cycle_step s t"
| do_read: "read_payload st zones p at_time s = Inr (y, t) \<Longrightarrow> cycle_step s t"
| do_update: "update_policy st v k user s = Inr (p, t) \<Longrightarrow> cycle_step s t"

lemma cycle_step_moves: "cycle_step s t \<Longrightarrow> cycle_move s t"
  by (induction rule: cycle_step.induct) (rule cycle_moves; assumption)+

interpretation history: simulation timeline_of cycles_ok cycle_step timeline_step
  using cycle_step_moves by unfold_locales (auto simp: cycle_move_def)

lemma cycle_steps_keep_finished: "cycle_step\<^sup>*\<^sup>* s t \<Longrightarrow> cycles_ok s \<Longrightarrow> finished_kept s t"
proof (induction rule: rtranclp_induct)
  case (step t u)
  then have "cycles_ok t" using history.runs by blast
  with cycle_step_moves [OF step.hyps(2)] have "finished_kept t u" by (simp add: cycle_move_def)
  with step show ?case using finished_kept_trans by blast
qed simp

lemma cycle_steps_move: "cycle_step\<^sup>*\<^sup>* s t \<Longrightarrow> cycle_move s t"
  using history.runs cycle_steps_keep_finished by (simp add: cycle_move_def)

section \<open>The refinement\<close>

lemma one_cycle_at_a_time:
  assumes "cycles_ok s" "c \<in> set (history_cycles s)" "d \<in> set (history_cycles s)" "in_cycle c x" "in_cycle d x"
  shows "c = d"
proof -
  have dist: "distinct (map hc_id (history_cycles s))" and T: "disjoint_timeline (timeline_of s)"
    using assms(1) by (simp_all add: cycles_ok_def)
  have row: "timeline_of s (hc_id e) = Some (instant (hc_period_start e), instant (hc_period_end e), hc_status e = CycleClosed)"
    if "e \<in> set (history_cycles s)" for e
    using that find_cycle [OF dist, of "hc_id e" e] by (simp add: timeline_of_def)
  have "hc_id c = hc_id d \<or> instant (hc_period_end c) \<le> instant (hc_period_start d) \<or>
      instant (hc_period_end d) \<le> instant (hc_period_start c)"
    using T row [OF assms(2)] row [OF assms(3)] unfolding disjoint_timeline_def by blast
  then have "hc_id c = hc_id d" using assms(4,5) by (auto simp: in_cycle_def no_later_def earlier_def)
  then show ?thesis using dist assms(2,3) by (metis distinct_map inj_onD)
qed

text \<open>C9: Opening and closing history cycles, whether by month, by the policy, by a user or by the
  automatic closing, refines an abstract timeline of named intervals that never overlap, each opened
  once and closed at most once.  No cycle is ever moved or removed, every instant lies in at most
  one cycle, and a closed cycle and its snapshots never change again.\<close>

theorem cycles_refine_timeline:
  assumes "cycle_step\<^sup>*\<^sup>* s t" and "cycles_ok s"
  shows "cycles_ok t \<and> timeline_step\<^sup>*\<^sup>* (timeline_of s) (timeline_of t) \<and>
    (\<forall>i a b x. timeline_of s i = Some (a, b, x) \<longrightarrow> (\<exists>y. timeline_of t i = Some (a, b, y) \<and> (x \<longrightarrow> y))) \<and>
    (\<forall>c d x. c \<in> set (history_cycles t) \<and> in_cycle c x \<and> d \<in> set (history_cycles t) \<and> in_cycle d x \<longrightarrow> c = d) \<and>
    finished_kept s t"
proof -
  from history.runs [OF assms] have t: "cycles_ok t" "timeline_step\<^sup>*\<^sup>* (timeline_of s) (timeline_of t)" by blast+
  then show ?thesis
    using timeline_steps_keep [OF t(2)] one_cycle_at_a_time [OF t(1)] cycle_steps_keep_finished [OF assms] by blast
qed

definition cycle_db :: db where
  "cycle_db = empty_db\<lparr>uuid4 := (\<lambda>n. replicate (Suc n) CHR ''x'')\<rparr>"

lemma cycle_db_ok: "cycles_ok cycle_db"
proof -
  have "inj (uuid4 cycle_db)" by (auto simp: inj_def cycle_db_def)
  then show ?thesis
    by (simp add: cycles_ok_def cycle_db_def empty_db_def disjoint_timeline_def timeline_of_def get_cycle_row_def
        row_simps)
qed

definition january :: "(history_cycle \<times> db) result" where
  "january = get_or_create_month_cycle (Aware 0 0) cycle_db"

definition cycle_result_db :: "('a \<times> db) result \<Rightarrow> db" where
  "cycle_result_db r = (case r of Inl _ \<Rightarrow> cycle_db | Inr (_, t) \<Rightarrow> t)"

definition february :: "(history_cycle \<times> db) result" where
  "february = get_or_create_month_cycle (Aware (31 * day) 0) (cycle_result_db january)"

definition january_cycle :: history_cycle where
  "january_cycle = new_cycle ''x'' (Aware 0 0) (Aware (31 * day) 0) ''01/1970'' ''UTC''"

lemma months_succeed: "\<not> isl january" "\<not> isl february"
  by code_simp+

lemma february_keeps_january: "get_cycle_row ''x'' (cycle_result_db february) = Some january_cycle"
  by code_simp

lemma february_tables:
  "collection_runs (cycle_result_db february) = []" "history_snapshots (cycle_result_db february) = []"
  "cloud_accounts (cycle_result_db february) = []" "findings (cycle_result_db february) = []"
proof -
  have keep: "collection_runs t = collection_runs s \<and> history_snapshots t = history_snapshots s \<and>
      cloud_accounts t = cloud_accounts s \<and> findings t = findings s"
    if "get_or_create_month_cycle ts s = Inr (c, t)" for ts s c t
    using that by (auto simp: get_or_create_month_cycle_def andThen_eq_Inr dest: create_cycle_row(1) split: option.splits)
  obtain a s b t where r: "january = Inr (a, s)" "february = Inr (b, t)"
    using months_succeed by (metis isl_def old.sum.exhaust surj_pair)
  note j = keep [OF r(1) [unfolded january_def]]
    and f = keep [OF r(2) [unfolded february_def r(1) cycle_result_db_def sum.case prod.case]]
  show "collection_runs (cycle_result_db february) = []" "history_snapshots (cycle_result_db february) = []"
    "cloud_accounts (cycle_result_db february) = []" "findings (cycle_result_db february) = []"
    using j f by (simp_all add: r cycle_result_db_def cycle_db_def empty_db_def)
qed

lemma months_steps: "cycle_step\<^sup>*\<^sup>* cycle_db (cycle_result_db february)"
proof -
  obtain a s b t where r: "january = Inr (a, s)" "february = Inr (b, t)"
    using months_succeed by (metis isl_def old.sum.exhaust surj_pair)
  have "cycle_step cycle_db s" using r(1) unfolding january_def by (rule do_month)
  moreover have "cycle_step s t"
    using r(2) unfolding february_def r(1) cycle_result_db_def sum.case prod.case by (rule do_month)
  ultimately show ?thesis by (simp add: r cycle_result_db_def)
qed

lemma january_closes:
  "\<exists>c t. close_cycle ''x'' None ''manual'' (cycle_result_db february) = Inr (c, t) \<and>
     hc_status c = CycleClosed \<and> hc_period_start c = Aware 0 0 \<and> hc_period_end c = Aware (31 * day) 0 \<and>
     get_cycle_row ''x'' t = Some c"
proof -
  have n: "cycle_runs (cycle_result_db february) january_cycle = []"
    "cycle_snapshots (cycle_result_db february) ''x'' = []" "strip (upper ''manual'') = ''MANUAL''"
    by (simp_all add: cycle_runs_def cycle_snapshots_def february_tables) code_simp
  have "hc_status january_cycle = CycleOpen" "hc_period_start january_cycle = Aware 0 0"
    "hc_period_end january_cycle = Aware (31 * day) 0" by (simp_all add: january_cycle_def new_cycle_def)
  with closing_exact_lemma [OF february_keeps_january, where reason = "''manual''" and actor = None] n february_tables show ?thesis
    by (fastforce simp: close_reasons_def accounts_unique_def)
qed

lemma cycles_refine_timeline_witness:
  "\<exists>t. timeline_step\<^sup>*\<^sup>* (timeline_of cycle_db) (timeline_of t) \<and>
     timeline_of t ''x'' = Some (0, 31 * day, True)"
proof -
  from january_closes obtain c t where t: "close_cycle ''x'' None ''manual'' (cycle_result_db february) = Inr (c, t)"
    "hc_status c = CycleClosed" "hc_period_start c = Aware 0 0" "hc_period_end c = Aware (31 * day) 0"
    "get_cycle_row ''x'' t = Some c" by blast
  have steps: "cycle_step\<^sup>*\<^sup>* cycle_db t"
    using months_steps do_close [OF t(1)] by (rule rtranclp.rtrancl_into_rtrancl)
  have "timeline_of t ''x'' = Some (0, 31 * day, True)" using t(2-5) by (simp add: timeline_of_def)
  with cycles_refine_timeline [OF steps cycle_db_ok] show ?thesis by blast
qed

section \<open>Closing is exact\<close>

lemma preview_counts_snapshots:
  assumes "get_cycle_row i s = Some c" "distinct (map f_id (findings s))"
    and owned: "\<forall>ob \<in> set (observations s). o_opportunity_id ob \<in> f_id ` set (findings s)"
  shows "\<exists>w. close_cycle_preview i s = Inr w \<and>
    cw_snapshots_to_create w = length (filter (observed_in_cycle s c) (sort_key f_id (findings s)))"
proof -
  let ?seen = "filter (\<lambda>ob. in_cycle c (o_observed_at ob)) (observations s)"
  let ?rows = "filter (observed_in_cycle s c) (sort_key f_id (findings s))"
  have "distinct (map f_id (sort_key f_id (findings s)))"
    using assms(2) by (metis distinct_map distinct_sort set_sort)
  then have "distinct (map f_id ?rows)" by (rule distinct_map_filter)
  then have "length ?rows = card (set (map f_id ?rows))" by (metis distinct_card length_map)
  moreover have "set (map f_id ?rows) = set (map o_opportunity_id ?seen)"
  proof (intro set_eqI iffI)
    fix k assume "k \<in> set (map f_id ?rows)"
    then obtain ob where "ob \<in> set (observations s)" "o_opportunity_id ob = k" "in_cycle c (o_observed_at ob)"
      by (auto simp: observed_in_cycle_def cycle_observations_def filter_empty_conv)
    then show "k \<in> set (map o_opportunity_id ?seen)" by force
  next
    fix k assume "k \<in> set (map o_opportunity_id ?seen)"
    then obtain ob where ob: "ob \<in> set (observations s)" "in_cycle c (o_observed_at ob)" "k = o_opportunity_id ob"
      by auto
    then obtain f where "f \<in> set (findings s)" "f_id f = k" using owned by auto
    moreover from this ob have "observed_in_cycle s c f"
      by (auto simp: observed_in_cycle_def cycle_observations_def filter_empty_conv)
    ultimately show "k \<in> set (map f_id ?rows)" by auto
  qed
  ultimately have "length (remdups (map o_opportunity_id ?seen)) = length ?rows"
    by (simp only: length_remdups_card_conv)
  then show ?thesis using assms(1) by (simp add: close_cycle_preview_def get_cycle_def)
qed

text \<open>C10: Closing an open cycle for an accepted reason, with no run of the cycle still running and no
  snapshot taken yet, always succeeds: it adds exactly one snapshot for every opportunity observed in
  the cycle, in the order of the opportunities and as many as the preview announced, each holding the
  opportunity as it is and the figures of its first and last observation in the cycle; the cycle keeps
  its bounds and the policy it was created under, and nothing outside the cycle, its snapshots and the
  audit trail changes.  Closing it again returns the same cycle and changes nothing.\<close>

theorem closing_exact:
  assumes "get_cycle_row i s = Some c" "hc_status c = CycleOpen"
    and "strip (upper reason) \<in> close_reasons" "strip (upper reason') \<in> close_reasons"
    and "\<forall>r \<in> set (cycle_runs s c). cr_status r \<noteq> RUNNING" "cycle_snapshots s i = []"
    and "accounts_unique s" "distinct (map f_id (findings s))"
    and "\<forall>ob \<in> set (observations s). o_opportunity_id ob \<in> f_id ` set (findings s)"
  shows "\<exists>c' t new w. close_cycle i actor reason s = Inr (c', t) \<and>
    history_snapshots t = history_snapshots s @ new \<and>
    map hs_opportunity_id new =
      map (\<lambda>f. Some (f_id f)) (filter (observed_in_cycle s c) (sort_key f_id (findings s))) \<and>
    (\<forall>x \<in> set new. hs_cycle_id x = i \<and> (\<exists>f \<in> set (findings s). faithful_snapshot s c f x)) \<and>
    close_cycle_preview i s = Inr w \<and> cw_snapshots_to_create w = length new \<and>
    hc_status c' = CycleClosed \<and> hc_period_start c' = hc_period_start c \<and>
    hc_period_end c' = hc_period_end c \<and>
    jget ''policy'' (hc_metadata c') = jget ''policy'' (hc_metadata c) \<and>
    jget ''snapshot_count'' (hc_metadata c') = JInt (int (length new)) \<and>
    get_cycle_row i t = Some c' \<and> (\<forall>j. j \<noteq> i \<longrightarrow> get_cycle_row j t = get_cycle_row j s) \<and>
    outside_cycles t = outside_cycles s \<and>
    close_cycle i actor' reason' t = Inr (c', t)"
proof -
  have again: "close_cycle i actor' reason' t = Inr (c', t)"
    if "get_cycle_row i t = Some c'" "hc_status c' = CycleClosed" for c' t
    using that assms(4) by (simp add: close_cycle_def close_reasons_def Let_def)
  have len: "length new = length rows"
    if "map hs_opportunity_id new = map (\<lambda>f. Some (f_id f)) rows" for new and rows :: "finding list"
    using that by (metis length_map)
  obtain w where "close_cycle_preview i s = Inr w"
    "cw_snapshots_to_create w = length (filter (observed_in_cycle s c) (sort_key f_id (findings s)))"
    using preview_counts_snapshots [OF assms(1,8,9)] by blast
  with closing_exact_lemma [OF assms(1-3,5-8), of actor] again len show ?thesis by metis
qed

definition closing_db :: db where
  "closing_db = cleanup_db\<lparr>findings := [finding0 ''e'', finding0 ''f''], history_cycles := [january_cycle]\<rparr>"

lemma closing_db_facts:
  "get_cycle_row ''x'' closing_db = Some january_cycle" "hc_status january_cycle = CycleOpen"
  "strip (upper ''manual'') \<in> close_reasons" "strip (upper '' scheduled '') \<in> close_reasons"
  "\<forall>r \<in> set (cycle_runs closing_db january_cycle). cr_status r \<noteq> RUNNING" "cycle_snapshots closing_db ''x'' = []"
  "accounts_unique closing_db" "distinct (map f_id (findings closing_db))"
  "\<forall>ob \<in> set (observations closing_db). o_opportunity_id ob \<in> f_id ` set (findings closing_db)"
  "filter (observed_in_cycle closing_db january_cycle) (sort_key f_id (findings closing_db)) = [finding0 ''f'']"
  by code_simp+

lemma closing_exact_witness:
  "\<exists>c t. close_cycle ''x'' None ''manual'' closing_db = Inr (c, t) \<and>
     map hs_opportunity_id (history_snapshots t) = [Some ''f''] \<and>
     close_cycle ''x'' None '' scheduled '' t = Inr (c, t)"
proof -
  have "history_snapshots closing_db = []" by (simp add: closing_db_def cleanup_db_def empty_db_def)
  with closing_exact [OF closing_db_facts(1-9), of None None] closing_db_facts(10) show ?thesis
    by (auto simp: finding0_def)
qed

section \<open>The cycle of an instant\<close>

text \<open>
  What the code relies on of a time zone: its clock passes every midnight once, at the instant the
  conversion of that midnight gives.
\<close>

definition midnights_once :: "zone \<Rightarrow> bool" where
  "midnights_once z \<longleftrightarrow> (\<forall>t w. day dvd w \<longrightarrow> (w \<le> t + offset_at z t \<longleftrightarrow> w - local_offset z w \<le> t))"

lemma utc_midnights [simp]: "midnights_once utc_zone"
  by (simp add: midnights_once_def utc_zone_def)

lemma le_div_midnight: "n * day \<le> w \<longleftrightarrow> n \<le> w div day"
proof
  assume "n * day \<le> w"
  then have "n * day div day \<le> w div day" by (rule zdiv_mono1) simp
  then show "n \<le> w div day" by simp
next
  assume "n \<le> w div day"
  then have "n * day \<le> w div day * day" by simp
  also have "\<dots> \<le> w" using div_mult_mod_eq [of w day] pos_mod_sign [of day w] by simp
  finally show "n * day \<le> w" .
qed

lemma local_midnight:
  assumes "midnights_once z"
  shows "no_later (from_local z (n * day)) t \<longleftrightarrow> n \<le> local_wall z t div day"
    "earlier t (from_local z (n * day)) \<longleftrightarrow> local_wall z t div day < n"
proof -
  have "n * day \<le> local_wall z t \<longleftrightarrow> instant (from_local z (n * day)) \<le> instant t"
    using assms by (simp add: midnights_once_def local_wall_def from_local_def)
  moreover have "n * day \<le> local_wall z t \<longleftrightarrow> n \<le> local_wall z t div day"
    by (rule le_div_midnight)
  ultimately show "no_later (from_local z (n * day)) t \<longleftrightarrow> n \<le> local_wall z t div day"
    "earlier t (from_local z (n * day)) \<longleftrightarrow> local_wall z t div day < n"
    by (auto simp: no_later_def earlier_def)
qed

text \<open>The bounds a policy computes contain the instant they are computed for.\<close>

lemma calendar_bounds_contain:
  assumes "calendar_bounds z t = Inr (a, b, label)" "midnights_once z"
  shows "no_later a t \<and> earlier t b"
proof -
  obtain y m d where c: "civil_from_days (local_wall z t div day) = (y, m, d)" by (metis prod_cases3)
  obtain y' m' where nm: "next_month y m = (y', m')" by fastforce
  from assms(1) have "a = from_local z (days_from_civil y m 1 * day)" "b = from_local z (days_from_civil y' m' 1 * day)"
    by (auto simp: calendar_bounds_def c nm first_of_month_def andThen_eq_Inr)
  then show ?thesis using day_in_month(1,2) [OF c] by (simp only: local_midnight [OF assms(2)] nm prod.case)
qed

lemma fixed_bounds_contain:
  assumes "fixed_bounds z t anchor n = (a, b, label)" "midnights_once z" "0 < n"
  shows "no_later a t \<and> earlier t b"
proof -
  define k where "k = local_wall z t div day - anchor"
  from assms(1) have ab: "a = from_local z ((anchor + k div n * n) * day)" "b = from_local z ((anchor + k div n * n + n) * day)"
    by (auto simp: fixed_bounds_def Let_def k_def)
  have "k div n * n \<le> k" "k < k div n * n + n"
    using pos_mod_bound [OF assms(3), of k] pos_mod_sign [OF assms(3), of k] div_mult_mod_eq [of k n] by linarith+
  then show ?thesis unfolding ab local_midnight [OF assms(2)] by (simp add: k_def)
qed

lemma cycle_bounds_contain:
  assumes "cycle_bounds zones v t = Inr (a, b, label)" "midnights_once (zones (pf_cycle_timezone v))"
    "0 < pf_cycle_length_days v"
  shows "no_later a t \<and> earlier t b"
  using assms calendar_bounds_contain fixed_bounds_contain
  by (auto simp: cycle_bounds_def split: if_splits option.splits)

lemma latest_by_last: "latest_by k rows = (if rows = [] then None else Some (last (sort_key k rows)))"
proof (cases "sort_key k rows" rule: rev_cases)
  case Nil
  then have "rows = []" by (metis set_empty set_sort)
  then show ?thesis by (simp add: latest_by_def)
next
  case (snoc ys y)
  then have "rows \<noteq> []" by auto
  then show ?thesis by (simp add: latest_by_def snoc)
qed

lemma current_cycle_Some: "current_cycle t s = Some c \<Longrightarrow> c \<in> set (history_cycles s) \<and> in_cycle c t"
  by (auto simp: current_cycle_def dest: latest_by_Some)

lemma current_cycle_None: "current_cycle t s = None \<longleftrightarrow> (\<forall>c \<in> set (history_cycles s). \<not> in_cycle c t)"
  by (auto simp: current_cycle_def latest_by_last filter_empty_conv)


lemma in_cycle_utc [simp]: "in_cycle c (utc t) = in_cycle c t"
  by (simp add: in_cycle_def no_later_def earlier_def)

lemma current_cycle_unique:
  assumes "cycles_ok s" "c \<in> set (history_cycles s)" "in_cycle c t"
  shows "current_cycle (utc t) s = Some c"
proof (cases "current_cycle (utc t) s")
  case None
  with assms show ?thesis by (simp add: current_cycle_None)
next
  case (Some d)
  from current_cycle_Some [OF this] have "d \<in> set (history_cycles s)" "in_cycle d t" by simp_all
  with Some one_cycle_at_a_time [OF assms(1,2) _ assms(3)] show ?thesis by simp
qed

lemma get_or_create_policy:
  assumes "get_or_create st s = Inr (p, t)"
  shows "p \<in> set (management_policies s) \<or> policy_constraints p"
proof (cases "global_policy s")
  case None
  obtain now s1 i s2 where u: "utcnow s = (now, s1)" "new_uuid s1 = (i, s2)" by (metis surj_pair)
  from assms None show ?thesis
    by (auto simp: get_or_create_def u Let_def andThen_eq_Inr)
next
  case (Some q)
  with assms show ?thesis by (auto simp: get_or_create_def global_policy_def split: list.splits)
qed

text \<open>The policy that decides the bounds of a new cycle satisfies the constraints of its table.\<close>

definition policies_valid :: "management_policy option \<Rightarrow> db \<Rightarrow> bool" where
  "policies_valid q s \<longleftrightarrow> (\<forall>p \<in> set (management_policies s) \<union> set_option q. policy_constraints p)"

lemma policy_or_first_valid:
  assumes "policy_or_first st q s = Inr (p, t)" "policies_valid q s"
  shows "policy_constraints p"
  using assms get_or_create_policy [of st s p t]
  by (cases q) (auto simp: policy_or_first_def policies_valid_def)

lemma policy_cycle_row:
  assumes "create_policy_cycle p a b label s = Inr (c, t)"
  shows "c \<in> set (history_cycles t)" "hc_period_start c = utc a" "hc_period_end c = utc b"
    "hc_policy_version c = Some (mp_version p)"
proof -
  from assms obtain d u where d: "create_cycle a b label (mp_cycle_timezone p) s = Inr (d, u)"
    and t: "c = with_policy p d" "t = put_cycle c u"
    by (auto simp: create_policy_cycle_def andThen_eq_Inr)
  note r = create_cycle_row [OF d]
  show "hc_period_start c = utc a" "hc_period_end c = utc b" "hc_policy_version c = Some (mp_version p)"
    using r by (simp_all add: t with_policy_def)
  show "c \<in> set (history_cycles t)" using r(1) by (simp add: t put_cycle_def put_row_def with_policy_def)
qed

lemma current_cycle_covers:
  assumes get: "get_or_create_cycle_for st zones t q s = Inr (c, u)"
    and valid: "policies_valid q s" and zones: "\<And>n. midnights_once (zones n)"
  shows "c \<in> set (history_cycles u) \<and> in_cycle c t"
proof (cases "current_cycle (utc t) s")
  case (Some d)
  with get current_cycle_Some [OF Some] show ?thesis by (simp add: get_or_create_cycle_for_def)
next
  case None
  with get obtain p v a b label where p: "policy_or_first st q s = Inr (p, v)"
    and b: "cycle_bounds zones (policy_values p) (utc t) = Inr (a, b, label)"
    and r: "(case cycle_with_bounds a b v of Some c \<Rightarrow> Inr (c, v) | None \<Rightarrow> create_policy_cycle p a b label v) = Inr (c, u)"
    by (auto simp: get_or_create_cycle_for_def andThen_eq_Inr Let_def)
  have "0 < pf_cycle_length_days (policy_values p)"
    using policy_or_first_valid [OF p valid] by (simp add: policy_constraints_def between_def policy_values_def)
  from cycle_bounds_contain [OF b zones this] have in_bounds: "no_later a t \<and> earlier t b"
    by (simp add: no_later_def earlier_def)
  show ?thesis
  proof (cases "cycle_with_bounds a b v")
    case None
    with r have "create_policy_cycle p a b label v = Inr (c, u)" by simp
    from policy_cycle_row [OF this] in_bounds show ?thesis by (simp add: in_cycle_def no_later_def earlier_def)
  next
    case (Some d)
    with r have "d = c" "u = v" by simp_all
    moreover from Some have "d \<in> set (history_cycles v)" "instant (hc_period_start d) = instant a"
      "instant (hc_period_end d) = instant b" by (auto simp: cycle_with_bounds_def find_Some_iff)
    ultimately show ?thesis using in_bounds by (simp add: in_cycle_def no_later_def earlier_def)
  qed
qed


definition no_settings :: policy_settings where
  "no_settings = \<lparr>ps_treated_enabled = None, ps_treated_days = None,
      ps_rejected_enabled = None, ps_rejected_days = None, ps_resolved_externally_enabled = None,
      ps_resolved_externally_days = None, ps_observation_retention_days = None, ps_enabled = None\<rparr>"

definition fixed_policy :: management_policy where
  "fixed_policy = (bootstrap_values no_settings (Aware 0 0) ''p'')
      \<lparr>mp_cycle_mode := FIXED_DAYS, mp_cycle_anchor_date := Some 14\<rparr>"


section \<open>A change of mode inside a window\<close>



end
