(* ===== verification/PeriodClose.thy ===== *)
theory PeriodClose
  imports BulkArchiving Timeline
begin

text \<open>
  Closing a period and archiving its backlog in one transaction
  (\<open>close_period_and_archive\<close> of backend/app/services/opportunity_bulk_archiving.py): what the preview
  announces is what happens, and it happens once.
\<close>

lemma outside_cycles_tables:
  assumes "outside_cycles t = outside_cycles s"
  shows "findings t = findings s" "observations t = observations s" "cloud_accounts t = cloud_accounts s"
    "aws_accounts t = aws_accounts s" "collection_runs t = collection_runs s"
    "archive_history t = archive_history s"
  using arg_cong [OF assms, of findings] arg_cong [OF assms, of observations] arg_cong [OF assms, of cloud_accounts]
    arg_cong [OF assms, of aws_accounts] arg_cong [OF assms, of collection_runs]
    arg_cong [OF assms, of archive_history]
  by (simp_all add: outside_cycles_def)

lemma cycle_reads_uuid:
  "get_cycle_row i (s\<lparr>uuids := n\<rparr>) = get_cycle_row i s" "cycle_runs (s\<lparr>uuids := n\<rparr>) c = cycle_runs s c"
  "cycle_snapshots (s\<lparr>uuids := n\<rparr>) i = cycle_snapshots s i" "accounts_unique (s\<lparr>uuids := n\<rparr>) = accounts_unique s"
  "observed_in_cycle (s\<lparr>uuids := n\<rparr>) c f = observed_in_cycle s c f"
  by (simp_all add: get_cycle_row_def cycle_runs_def cycle_snapshots_def accounts_unique_def
      observed_in_cycle_def cycle_observations_def)

text \<open>The preview of a period gives its open cycle and the scope of the archive.\<close>

lemma period_preview_facts:
  assumes "period_close_preview s i q archive_all = Inr w"
  obtains c a where "get_cycle_row i s = Some c" "hc_status c = CycleOpen" "hc_id c = i"
    "archive_preview s q archive_all = Inr a" "ew_archive w = a"
    "ew_running_collection_runs w = cg_running (collection_coverage s c)"
    "close_cycle_preview i s = Inr \<lparr>cw_cycle_id = hc_id c, cw_label = hc_label c,
       cw_snapshots_to_create = ew_snapshots_to_create w, cw_coverage = collection_coverage s c\<rparr>"
proof -
  from assms obtain c a where c: "get_cycle_row i s = Some c" "hc_status c = CycleOpen"
    and rest: "archive_preview s q archive_all = Inr a" "ew_archive w = a"
    "ew_running_collection_runs w = cg_running (collection_coverage s c)"
    "ew_snapshots_to_create w = length (remdups (map o_opportunity_id
       (filter (\<lambda>ob. in_cycle c (o_observed_at ob)) (observations s))))"
    by (auto simp: period_close_preview_def open_period_def get_cycle_def andThen_eq_Inr Let_def split: option.splits)
  moreover have "hc_id c = i" using c(1) find_row_Some by (fastforce simp: get_cycle_row_def)
  ultimately show thesis by (intro that) (auto simp: close_cycle_preview_def get_cycle_def)
qed

text \<open>C14: Closing a period whose preview reports no running collection, in a consistent state, always
  succeeds and does what the preview announces: as many snapshots, as many archived opportunities.  The
  snapshots show the opportunities as they were before the archive.  The cycle is closed, and the
  same request afterwards is refused with a conflict.\<close>

theorem period_close_exact:
  assumes "period_close_preview s i q archive_all = Inr w" "ew_running_collection_runs w = 0"
    and "cycle_snapshots s i = []" "accounts_unique s" "distinct (map f_id (findings s))"
    and "\<forall>ob \<in> set (observations s). o_opportunity_id ob \<in> f_id ` set (findings s)"
  shows "\<exists>r t new c. close_period_and_archive i q archive_all actor s = Inr (r, t) \<and>
    po_snapshots_created r = int (ew_snapshots_to_create w) \<and>
    ar_archived (po_archive r) = av_to_archive (ew_archive w) \<and>
    ar_matched (po_archive r) = av_matched (ew_archive w) \<and>
    history_snapshots t = history_snapshots s @ new \<and> length new = ew_snapshots_to_create w \<and>
    (\<forall>x \<in> set new. \<exists>f \<in> set (findings s). faithful_snapshot s c f x) \<and>
    length (archive_history t) = length (archive_history s) + av_to_archive (ew_archive w) \<and>
    close_period_and_archive i q archive_all actor t = Inl (HTTPException 409 ''Este periodo ja esta fechado.'')"
proof -
  from period_preview_facts [OF assms(1)] obtain c a where c: "get_cycle_row i s = Some c" "hc_status c = CycleOpen"
    "archive_preview s q archive_all = Inr a" "ew_archive w = a"
    "cg_running (collection_coverage s c) = 0"
    "close_cycle_preview i s = Inr \<lparr>cw_cycle_id = hc_id c, cw_label = hc_label c,
       cw_snapshots_to_create = ew_snapshots_to_create w, cw_coverage = collection_coverage s c\<rparr>"
    using assms(2) by metis
  from c(3) obtain p where scope: "validate_scope q archive_all = Inr ()" "scope_condition s q = Inr p"
    unfolding preview_scope by blast
  let ?hits = "filter (\<lambda>f. f_archived_at f = None \<and> p f) (findings s)"
  let ?kept = "filter (\<lambda>f. f_archived_at f \<noteq> None \<and> p f) (findings s)"
  have a: "av_to_archive a = length ?hits" "av_matched a = length ?hits + length ?kept"
    using c(3) scope(2) by (auto simp: preview_scope Let_def)
  define s1 where "s1 = s\<lparr>uuids := Suc (uuids s)\<rparr>"
  have u: "new_uuid s = (uuid4 s (uuids s), s1)" by (simp add: new_uuid_def s1_def)
  have idle: "\<forall>r \<in> set (cycle_runs s c). cr_status r \<noteq> RUNNING"
    using c(5) by (auto simp: collection_coverage_def count_where_def filter_empty_conv Let_def)
  have reason: "strip (upper ''MANUAL'') \<in> close_reasons" by code_simp
  have tables1: "findings s1 = findings s" "observations s1 = observations s" "history_snapshots s1 = history_snapshots s"
    "cloud_accounts s1 = cloud_accounts s" "aws_accounts s1 = aws_accounts s" "collection_runs s1 = collection_runs s"
    "archive_history s1 = archive_history s" by (simp_all add: s1_def)
  from closing_exact_lemma [of i s1 c "''MANUAL''" "Some actor"]
  obtain c' s2 new where close: "close_cycle i (Some actor) ''MANUAL'' s1 = Inr (c', s2)"
    "history_snapshots s2 = history_snapshots s @ new"
    "map hs_opportunity_id new = map (\<lambda>f. Some (f_id f)) (filter (observed_in_cycle s c) (sort_key f_id (findings s)))"
    "\<forall>x \<in> set new. \<exists>f \<in> set (findings s). faithful_snapshot s1 c f x" "hc_status c' = CycleClosed"
    "jget ''snapshot_count'' (hc_metadata c') = JInt (int (length new))" "get_cycle_row i s2 = Some c'"
    "outside_cycles s2 = outside_cycles s1"
    using c(1,2) reason idle assms(3-5) unfolding s1_def cycle_reads_uuid by auto
  have count: "length new = ew_snapshots_to_create w"
  proof -
    have "length new = length (filter (observed_in_cycle s c) (sort_key f_id (findings s)))"
      using close(3) by (metis length_map)
    with preview_counts_snapshots [OF c(1) assms(5,6)] c(6) show ?thesis by auto
  qed
  have faithful: "faithful_snapshot s1 c f x = faithful_snapshot s c f x" for f x
    by (simp add: faithful_snapshot_def cycle_observations_def s1_def)
  note tables2 = outside_cycles_tables [OF close(8)]
  from scope_condition_frame [OF _ _ _ _ scope(2), of s2] tables1 tables2 obtain p2 where
    p2: "scope_condition s2 q = Inr p2"
    "\<And>f. f_archived_at f = None \<and> p2 f \<longleftrightarrow> f_archived_at f = None \<and> p f"
    "\<And>f. f_archived_at f \<noteq> None \<and> p2 f \<longleftrightarrow> f_archived_at f \<noteq> None \<and> p f" by auto
  have dist: "distinct (map f_id (findings s2))" using assms(5) tables1 tables2 by simp
  from archive_by_filter_effect [OF scope(1) p2(1) dist, of "''opportunity.period_close''" actor "''period_close''"
      "Some (uuid4 s (uuids s))" "Some i", unfolded p2(2,3)]
  obtain r t d e n where t: "archive_by_filter q actor archive_all ''period_close'' (Some (uuid4 s (uuids s)))
      (Some i) ''opportunity.period_close'' s2 = Inr (r, t)"
    "ar_archived r = length ?hits" "ar_matched r = length ?hits + length ?kept"
    "same_source (s2\<lparr>findings := archive_rows d (f_id ` set ?hits) (findings s),
      archive_history := archive_history s @ map (order_event d) (sort_key f_id ?hits),
      audit_events := audit_events s2 @ [e], uuids := n\<rparr>) t"
    using tables1 tables2 by auto
  have after: "history_snapshots t = history_snapshots s2" "get_cycle_row i t = get_cycle_row i s2"
    "length (archive_history t) = length (archive_history s) + length ?hits"
    using t(4) by (auto simp: get_cycle_row_def elim!: same_sourceD)
  have done_once: "close_period_and_archive i q archive_all actor t = Inl (HTTPException 409 ''Este periodo ja esta fechado.'')"
    using scope(1) after(2) close(5,7) by (simp add: close_period_and_archive_def open_period_def get_cycle_def)
  have "open_period i s = Inr c" using c(1,2) by (simp add: open_period_def get_cycle_def)
  then have res: "close_period_and_archive i q archive_all actor s = Inr (\<lparr>po_archive = r, po_cycle_closed = True,
      po_snapshots_created = int (length new), po_collection_runs = cg_total (collection_coverage s c),
      po_failed_collection_runs = cg_failed (collection_coverage s c)\<rparr>, t)"
    using close(6) by (simp add: close_period_and_archive_def scope(1) c(5) u close(1) t(1) snapshot_count_of_def Let_def)
  show ?thesis
    using res done_once after count close(2,4) faithful t(2,3) a c(4)
    by (intro exI [of _ "\<lparr>po_archive = r, po_cycle_closed = True,
      po_snapshots_created = int (length new), po_collection_runs = cg_total (collection_coverage s c),
      po_failed_collection_runs = cg_failed (collection_coverage s c)\<rparr>"] exI [of _ t] exI [of _ new] exI [of _ c])
      simp
qed

lemma period_close_exact_witness:
  "\<exists>r t. close_period_and_archive ''x'' no_opportunity_filters True sample_actor closing_db = Inr (r, t) \<and>
     po_snapshots_created r = 1 \<and> ar_archived (po_archive r) = 2"
proof -
  let ?w = "period_close_preview closing_db ''x'' no_opportunity_filters True"
  have p: "map_sum id (\<lambda>w. (ew_running_collection_runs w, ew_snapshots_to_create w, av_to_archive (ew_archive w))) ?w =
      Inr (0, 1, 2)" by code_simp
  then obtain w where w: "?w = Inr w" by (cases ?w) simp_all
  with p have n: "ew_running_collection_runs w = 0" "ew_snapshots_to_create w = 1" "av_to_archive (ew_archive w) = 2"
    by simp_all
  from period_close_exact [OF w n(1) closing_db_facts(6-9), of sample_actor] n show ?thesis by auto
qed

end
