(* ===== verification/RdsStore.thy ===== *)
theory RdsStore
  imports Store
begin

text \<open>
  The inventory tables of the RDS reservations (backend/app/models/rds_inventory.py), DB instances
  and reserved DB instances, and the constants in which the rules speak of coverage
  (services/rds_reservation_rules.py).
\<close>

section \<open>Inventory\<close>

record rds_instance =
  ri_id :: int
  ri_cloud_account_id :: int
  ri_account_id :: string
  ri_region :: string
  ri_db_instance_identifier :: string
  ri_db_instance_arn :: string
  ri_db_instance_class :: string
  ri_class_prefix :: "string option"
  ri_instance_family :: "string option"
  ri_instance_size :: "string option"
  ri_engine :: string
  ri_engine_normalized :: string
  ri_engine_version :: "string option"
  ri_license_model :: "string option"
  ri_status :: string
  ri_coverage_eligible :: bool
  ri_multi_az :: bool
  ri_deployment_topology :: "string option"
  ri_cluster_storage_type :: "string option"
  ri_availability_zone :: "string option"
  ri_secondary_availability_zone :: "string option"
  ri_storage_type :: "string option"
  ri_allocated_storage :: "int option"
  ri_iops :: "int option"
  ri_storage_throughput :: "int option"
  ri_publicly_accessible :: "bool option"
  ri_cluster_identifier :: "string option"
  ri_vpc_id :: "string option"
  ri_tags :: json
  ri_processor_features :: json
  ri_option_group_memberships :: json
  ri_parameter_groups :: json
  ri_aws_created_at :: "datetime option"
  ri_collected_at :: datetime
  ri_last_seen_at :: datetime
  ri_is_active :: bool

record reserved_instance =
  rr_id :: int
  rr_cloud_account_id :: int
  rr_account_id :: string
  rr_region :: string
  rr_reserved_db_instance_id :: string
  rr_offering_id :: "string option"
  rr_db_instance_class :: string
  rr_class_prefix :: "string option"
  rr_instance_family :: "string option"
  rr_instance_size :: "string option"
  rr_product_description :: string
  rr_engine_normalized :: string
  rr_instance_count :: int
  rr_multi_az :: bool
  rr_offering_type :: "string option"
  rr_offering_class :: "string option"
  rr_currency_code :: "string option"
  rr_fixed_price :: "string option"
  rr_usage_price :: "string option"
  rr_recurring_charges :: json
  rr_state :: string
  rr_lease_id :: "string option"
  rr_start_time :: datetime
  rr_duration_seconds :: int
  rr_expiration_at :: datetime
  rr_collected_at :: datetime
  rr_last_seen_at :: datetime
  rr_is_active :: bool

section \<open>Coverage\<close>

datatype coverage_status = COVERAGE_FULL | COVERAGE_PARTIAL | COVERAGE_UNCOVERED | COVERAGE_UNKNOWN

datatype sharing_scope =
  SAME_ACCOUNT | CROSS_ACCOUNT_VERIFIED | CROSS_ACCOUNT_POTENTIAL | NOT_SHAREABLE | UNKNOWN_SCOPE

fun scope_text :: "sharing_scope \<Rightarrow> string" where
  "scope_text SAME_ACCOUNT = ''SAME_ACCOUNT''"
| "scope_text CROSS_ACCOUNT_VERIFIED = ''CROSS_ACCOUNT_VERIFIED''"
| "scope_text CROSS_ACCOUNT_POTENTIAL = ''CROSS_ACCOUNT_POTENTIAL''"
| "scope_text NOT_SHAREABLE = ''NOT_SHAREABLE''"
| "scope_text UNKNOWN_SCOPE = ''UNKNOWN''"

datatype match_type = Incompatible | ExactMatch | SizeFlexible

section \<open>Identifiers\<close>

text \<open>The identifier an autoincrement column gives the next row.\<close>

definition next_id :: "('r \<Rightarrow> int) \<Rightarrow> 'r list \<Rightarrow> int" where
  "next_id key rows = 1 + foldr (\<lambda>r m. max (key r) m) rows 0"

lemma next_id_fresh: "r \<in> set rows \<Longrightarrow> key r < next_id key rows"
  unfolding next_id_def by (induction rows) auto

lemma next_id_notin: "next_id key rows \<notin> key ` set rows"
  by (metis imageE less_irrefl next_id_fresh)

lemma next_id_distinct:
  "distinct (map key rows) \<Longrightarrow> key r = next_id key rows \<Longrightarrow> distinct (map key (rows @ [r]))"
  using next_id_notin [of key rows] by auto

lemma foldr_max: "0 \<le> m \<Longrightarrow> foldr (\<lambda>r. max (f r)) xs m = max m (foldr (\<lambda>r. max (f r)) xs (0 :: int))"
  by (induction xs) auto

lemma next_id_append1: "f x = next_id f xs \<Longrightarrow> next_id f (xs @ [x]) = next_id f xs + 1"
proof -
  assume x: "f x = next_id f xs"
  have "0 \<le> foldr (\<lambda>r. max (f r)) xs 0" by (induction xs) auto
  with x foldr_max [of "f x" f xs] show ?thesis by (simp add: next_id_def)
qed

lemma next_id_cong: "map f xs = map f ys \<Longrightarrow> next_id f xs = next_id f ys"
proof (induction xs arbitrary: ys)
  case Nil
  then show ?case by (simp add: next_id_def)
next
  case (Cons x xs)
  then obtain y ys' where "ys = y # ys'" "f x = f y" "map f xs = map f ys'" by (cases ys) auto
  with Cons.IH [of ys'] show ?case by (simp add: next_id_def)
qed

end
