(* ===== verification/RdsInventory.thy ===== *)
theory RdsInventory
  imports RdsStore
begin

text \<open>
  The RDS inventory (backend/app/services/rds_inventory.py): the normalisation of engines and
  instance classes, and the reconciliation of a region's rows with what AWS
  describes: a described resource is created or updated, one that is no longer described is
  marked inactive and none is deleted.  The pages of the AWS API arrive as lists of items whose
  fields may be missing.
\<close>

section \<open>Normalisation\<close>

definition RDS_COVERAGE_ELIGIBLE_STATUSES :: "string list" where
  "RDS_COVERAGE_ELIGIBLE_STATUSES = [''available'', ''backing-up'',
     ''configuring-enhanced-monitoring'', ''configuring-iam-database-auth'',
     ''configuring-log-exports'', ''converting-to-vpc'', ''maintenance'', ''modifying'',
     ''moving-to-vpc'', ''rebooting'', ''renaming'', ''resetting-master-credentials'',
     ''starting'', ''stopped'', ''stopping'', ''storage-full'', ''storage-optimization'',
     ''upgrading'']"

definition ENGINE_ALIASES :: "(string \<times> string) list" where
  "ENGINE_ALIASES = [(''aurora'', ''aurora-mysql''), (''aurora mysql'', ''aurora-mysql''),
     (''aurora-mysql'', ''aurora-mysql''), (''aurora postgresql'', ''aurora-postgresql''),
     (''aurora-postgresql'', ''aurora-postgresql''), (''db2-ae'', ''db2-ae''),
     (''db2-se'', ''db2-se''), (''mariadb'', ''mariadb''), (''mysql'', ''mysql''),
     (''oracle-ee'', ''oracle-ee''), (''oracle-ee-cdb'', ''oracle-ee-cdb''),
     (''oracle-se'', ''oracle-se''), (''oracle-se1'', ''oracle-se1''),
     (''oracle-se2'', ''oracle-se2''), (''oracle-se2-cdb'', ''oracle-se2-cdb''),
     (''postgres'', ''postgres''), (''postgresql'', ''postgres''),
     (''sqlserver-ee'', ''sqlserver-ee''), (''sqlserver-ex'', ''sqlserver-ex''),
     (''sqlserver-se'', ''sqlserver-se''), (''sqlserver-web'', ''sqlserver-web'')]"

definition LICENSE_SUFFIXES :: "string list" where
  "LICENSE_SUFFIXES = [''bring your own license'', ''bring-your-own-license'', ''byol'', ''li'',
     ''license included'', ''license-included'']"

record class_parts =
  cp_prefix :: "string option"
  cp_family :: "string option"
  cp_size :: "string option"
  cp_full_class :: string

definition nonempty :: "string \<Rightarrow> string option" where
  "nonempty s = (if s = [] then None else Some s)"

text \<open>\<open>full_class.split(".", 2)\<close> has three parts exactly if the text has two dots or more.\<close>

definition parse_db_instance_class :: "string option \<Rightarrow> class_parts" where
  "parse_db_instance_class v =
     (let full_class = strip (or_text v [])
      in case partition_at (CHR ''.'') full_class of
           None \<Rightarrow> \<lparr>cp_prefix = None, cp_family = None, cp_size = None, cp_full_class = full_class\<rparr>
         | Some (p, rest) \<Rightarrow>
             (case partition_at (CHR ''.'') rest of
                None \<Rightarrow>
                  \<lparr>cp_prefix = None, cp_family = None, cp_size = None, cp_full_class = full_class\<rparr>
              | Some (f, sz) \<Rightarrow>
                  \<lparr>cp_prefix = nonempty p, cp_family = nonempty f, cp_size = nonempty sz,
                   cp_full_class = full_class\<rparr>))"

text \<open>
  The alias of an engine name; \<open>"Oracle-SE2 (BYOL)"\<close> and the like lose a known license suffix
  in parentheses first.
\<close>

definition strip_license_suffix :: "string \<Rightarrow> string" where
  "strip_license_suffix raw =
     (if endswith '')'' raw then
        (case rpartition_at (CHR ''('') raw of
           None \<Rightarrow> raw
         | Some (base, suffix) \<Rightarrow>
             if strip (butlast suffix) \<in> set LICENSE_SUFFIXES then strip base else raw)
      else raw)"

definition engine_alias :: "string \<Rightarrow> string" where
  "engine_alias raw = (case map_of ENGINE_ALIASES raw of Some e \<Rightarrow> e | None \<Rightarrow> raw)"

definition normalize_rds_engine :: "string option \<Rightarrow> string" where
  "normalize_rds_engine v =
     (let raw = squeeze (lower (strip (or_text v [])))
      in if raw = [] then [] else engine_alias (strip_license_suffix raw))"

definition is_rds_coverage_eligible :: "string option \<Rightarrow> bool" where
  "is_rds_coverage_eligible status \<longleftrightarrow>
     lower (strip (or_text status [])) \<in> set RDS_COVERAGE_ELIGIBLE_STATUSES"

definition reservation_expiration :: "datetime \<Rightarrow> int \<Rightarrow> datetime" where
  "reservation_expiration start_time duration_seconds = plus_delta start_time (duration_seconds * second)"

section \<open>What AWS describes\<close>

text \<open>
  An item of \<open>DescribeDBInstances\<close> and of \<open>DescribeReservedDBInstances\<close>: \<open>item.get(key)\<close> is
  the field, \<open>None\<close> when the key is missing.  The list-valued fields are carried as JSON.
\<close>

record db_instance_item =
  di_DBInstanceIdentifier :: "string option"
  di_DBInstanceArn :: "string option"
  di_DBInstanceClass :: "string option"
  di_Engine :: "string option"
  di_EngineVersion :: "string option"
  di_LicenseModel :: "string option"
  di_DBInstanceStatus :: "string option"
  di_MultiAZ :: "bool option"
  di_AvailabilityZone :: "string option"
  di_SecondaryAvailabilityZone :: "string option"
  di_StorageType :: "string option"
  di_AllocatedStorage :: "int option"
  di_Iops :: "int option"
  di_StorageThroughput :: "int option"
  di_PubliclyAccessible :: "bool option"
  di_DBClusterIdentifier :: "string option"
  di_VpcId :: "string option"
  di_DeepOpsTags :: "json option"
  di_ProcessorFeatures :: "json option"
  di_OptionGroupMemberships :: "json option"
  di_DBParameterGroups :: "json option"
  di_InstanceCreateTime :: "datetime option"

record reserved_item =
  dr_ReservedDBInstanceId :: "string option"
  dr_OfferingId :: "string option"
  dr_DBInstanceClass :: "string option"
  dr_ProductDescription :: "string option"
  dr_DBInstanceCount :: "int option"
  dr_MultiAZ :: "bool option"
  dr_OfferingType :: "string option"
  dr_OfferingClass :: "string option"
  dr_CurrencyCode :: "string option"
  dr_FixedPrice :: "string option"
  dr_UsagePrice :: "string option"
  dr_RecurringCharges :: "json option"
  dr_State :: "string option"
  dr_LeaseId :: "string option"
  dr_StartTime :: "datetime option"
  dr_Duration :: "int option"

definition or_json :: "json option \<Rightarrow> json \<Rightarrow> json" where
  "or_json v d = (case v of None \<Rightarrow> d | Some JNull \<Rightarrow> d | Some (JObj []) \<Rightarrow> d | Some (JList []) \<Rightarrow> d
     | Some j \<Rightarrow> j)"

definition or_zero :: "int option \<Rightarrow> int" where
  "or_zero v = (case v of None \<Rightarrow> 0 | Some n \<Rightarrow> n)"

text \<open>
  The values of a row.  The identifier of a new row is the next of its table; the columns that
  AWS does not describe (\<open>deployment_topology\<close>, \<open>cluster_storage_type\<close>) are kept as they are.
\<close>

definition instance_values ::
  "int \<Rightarrow> string \<Rightarrow> string \<Rightarrow> db_instance_item \<Rightarrow> datetime \<Rightarrow> rds_instance \<Rightarrow> rds_instance" where
  "instance_values cloud_account_id account_id region item observed_at row =
     (let instance_class = or_text (di_DBInstanceClass item) [];
          parts = parse_db_instance_class (Some instance_class);
          eng = or_text (di_Engine item) [];
          status = or_text (di_DBInstanceStatus item) []
      in row\<lparr>ri_cloud_account_id := cloud_account_id, ri_account_id := account_id,
             ri_region := region,
             ri_db_instance_identifier := or_text (di_DBInstanceIdentifier item) [],
             ri_db_instance_arn := or_text (di_DBInstanceArn item) [],
             ri_db_instance_class := instance_class, ri_class_prefix := cp_prefix parts,
             ri_instance_family := cp_family parts, ri_instance_size := cp_size parts,
             ri_engine := eng, ri_engine_normalized := normalize_rds_engine (Some eng),
             ri_engine_version := di_EngineVersion item,
             ri_license_model := di_LicenseModel item, ri_status := status,
             ri_coverage_eligible := is_rds_coverage_eligible (Some status),
             ri_multi_az := (di_MultiAZ item = Some True),
             ri_availability_zone := di_AvailabilityZone item,
             ri_secondary_availability_zone := di_SecondaryAvailabilityZone item,
             ri_storage_type := di_StorageType item,
             ri_allocated_storage := di_AllocatedStorage item, ri_iops := di_Iops item,
             ri_storage_throughput := di_StorageThroughput item,
             ri_publicly_accessible := di_PubliclyAccessible item,
             ri_cluster_identifier := di_DBClusterIdentifier item, ri_vpc_id := di_VpcId item,
             ri_tags := or_json (di_DeepOpsTags item) (JObj []),
             ri_processor_features := or_json (di_ProcessorFeatures item) (JList []),
             ri_option_group_memberships := or_json (di_OptionGroupMemberships item) (JList []),
             ri_parameter_groups := or_json (di_DBParameterGroups item) (JList []),
             ri_aws_created_at := di_InstanceCreateTime item,
             ri_collected_at := observed_at, ri_last_seen_at := observed_at,
             ri_is_active := True\<rparr>)"

definition reservation_values ::
  "int \<Rightarrow> string \<Rightarrow> string \<Rightarrow> reserved_item \<Rightarrow> datetime \<Rightarrow> (reserved_instance \<Rightarrow> reserved_instance) result" where
  "reservation_values cloud_account_id account_id region item observed_at =
     (let instance_class = or_text (dr_DBInstanceClass item) [];
          parts = parse_db_instance_class (Some instance_class);
          product_description = or_text (dr_ProductDescription item) [];
          duration_seconds = or_zero (dr_Duration item)
      in case dr_StartTime item of
           None \<Rightarrow> Inl (ValueError ''Reserved DB Instance is missing StartTime'')
         | Some start_time \<Rightarrow> Inr (\<lambda>row. row\<lparr>
             rr_cloud_account_id := cloud_account_id, rr_account_id := account_id,
             rr_region := region,
             rr_reserved_db_instance_id := or_text (dr_ReservedDBInstanceId item) [],
             rr_offering_id := dr_OfferingId item, rr_db_instance_class := instance_class,
             rr_class_prefix := cp_prefix parts, rr_instance_family := cp_family parts,
             rr_instance_size := cp_size parts, rr_product_description := product_description,
             rr_engine_normalized := normalize_rds_engine (Some product_description),
             rr_instance_count := or_zero (dr_DBInstanceCount item),
             rr_multi_az := (dr_MultiAZ item = Some True),
             rr_offering_type := dr_OfferingType item,
             rr_offering_class := dr_OfferingClass item,
             rr_currency_code := dr_CurrencyCode item, rr_fixed_price := dr_FixedPrice item,
             rr_usage_price := dr_UsagePrice item,
             rr_recurring_charges := or_json (dr_RecurringCharges item) (JList []),
             rr_state := or_text (dr_State item) [], rr_lease_id := dr_LeaseId item,
             rr_start_time := start_time, rr_duration_seconds := duration_seconds,
             rr_expiration_at := reservation_expiration start_time duration_seconds,
             rr_collected_at := observed_at, rr_last_seen_at := observed_at,
             rr_is_active := True\<rparr>))"

section \<open>Reconciliation\<close>

text \<open>The row a new identifier starts from; every column AWS describes is overwritten.\<close>

definition blank_instance :: "int \<Rightarrow> rds_instance" where
  "blank_instance i = \<lparr>ri_id = i, ri_cloud_account_id = 0, ri_account_id = [], ri_region = [],
     ri_db_instance_identifier = [], ri_db_instance_arn = [], ri_db_instance_class = [],
     ri_class_prefix = None, ri_instance_family = None, ri_instance_size = None, ri_engine = [],
     ri_engine_normalized = [], ri_engine_version = None, ri_license_model = None, ri_status = [],
     ri_coverage_eligible = False, ri_multi_az = False, ri_deployment_topology = None,
     ri_cluster_storage_type = None, ri_availability_zone = None,
     ri_secondary_availability_zone = None, ri_storage_type = None, ri_allocated_storage = None,
     ri_iops = None, ri_storage_throughput = None, ri_publicly_accessible = None,
     ri_cluster_identifier = None, ri_vpc_id = None, ri_tags = JObj [], ri_processor_features = JList [],
     ri_option_group_memberships = JList [], ri_parameter_groups = JList [], ri_aws_created_at = None,
     ri_collected_at = Aware 0 0, ri_last_seen_at = Aware 0 0, ri_is_active = True\<rparr>"

definition blank_reservation :: "int \<Rightarrow> reserved_instance" where
  "blank_reservation i = \<lparr>rr_id = i, rr_cloud_account_id = 0, rr_account_id = [], rr_region = [],
     rr_reserved_db_instance_id = [], rr_offering_id = None, rr_db_instance_class = [],
     rr_class_prefix = None, rr_instance_family = None, rr_instance_size = None,
     rr_product_description = [], rr_engine_normalized = [], rr_instance_count = 0,
     rr_multi_az = False, rr_offering_type = None, rr_offering_class = None,
     rr_currency_code = None, rr_fixed_price = None, rr_usage_price = None,
     rr_recurring_charges = JList [], rr_state = [], rr_lease_id = None, rr_start_time = Aware 0 0,
     rr_duration_seconds = 0, rr_expiration_at = Aware 0 0, rr_collected_at = Aware 0 0,
     rr_last_seen_at = Aware 0 0, rr_is_active = True\<rparr>"

record reconcile_counts =
  rn_found :: nat
  rn_created :: nat
  rn_updated :: nat
  rn_marked_inactive :: nat
  rn_skipped :: nat

text \<open>
  The two reconciliations walk the same way over what AWS describes: a description is a key and
  the assignment of its values, or the error of a description that cannot be read.  The loop
  carries the rows, the keys seen so far and the counters; \<open>existing\<close> is the dictionary of the
  rows of the scope at the start, from key to row, in which the last row with a key wins.
\<close>

type_synonym 'r described = "string \<times> ('r \<Rightarrow> 'r) result"

record 'r inventory_loop =
  il_rows :: "'r list"
  il_seen :: "string list"
  il_created :: nat
  il_updated :: nat
  il_skipped :: nat

definition dict_of :: "('r \<Rightarrow> string) \<Rightarrow> ('r \<Rightarrow> int) \<Rightarrow> 'r list \<Rightarrow> string \<Rightarrow> int option" where
  "dict_of key ident rows = map_of (rev (map (\<lambda>r. (key r, ident r)) rows))"

definition assign_row :: "('r \<Rightarrow> int) \<Rightarrow> int \<Rightarrow> ('r \<Rightarrow> 'r) \<Rightarrow> 'r list \<Rightarrow> 'r list" where
  "assign_row ident i f rows = map (\<lambda>r. if ident r = i then f r else r) rows"

definition described_step ::
  "('r \<Rightarrow> int) \<Rightarrow> (int \<Rightarrow> 'r) \<Rightarrow> ('r \<Rightarrow> 'r) \<Rightarrow> (string \<Rightarrow> int option) \<Rightarrow> 'r described \<Rightarrow>
   'r inventory_loop \<Rightarrow> 'r inventory_loop" where
  "described_step ident blank touch existing d l =
     (let (key, values) = d in
      if key = [] then l\<lparr>il_skipped := Suc (il_skipped l)\<rparr>
      else
        (let l0 = l\<lparr>il_seen := il_seen l @ [key]\<rparr> in
         case values of
           Inl _ \<Rightarrow>
             l0\<lparr>il_skipped := Suc (il_skipped l),
                il_rows := (case existing key of None \<Rightarrow> il_rows l
                  | Some i \<Rightarrow> assign_row ident i touch (il_rows l))\<rparr>
         | Inr assign \<Rightarrow>
             (case existing key of
                None \<Rightarrow> l0\<lparr>il_rows := il_rows l @ [assign (blank (next_id ident (il_rows l)))],
                          il_created := Suc (il_created l)\<rparr>
              | Some i \<Rightarrow> l0\<lparr>il_rows := assign_row ident i assign (il_rows l),
                            il_updated := Suc (il_updated l)\<rparr>)))"

definition reconcile_rows ::
  "('r \<Rightarrow> int) \<Rightarrow> ('r \<Rightarrow> string) \<Rightarrow> ('r \<Rightarrow> bool) \<Rightarrow> ('r \<Rightarrow> bool) \<Rightarrow> (int \<Rightarrow> 'r) \<Rightarrow> ('r \<Rightarrow> 'r) \<Rightarrow> ('r \<Rightarrow> 'r) \<Rightarrow>
   'r described list \<Rightarrow> 'r list \<Rightarrow> reconcile_counts \<times> 'r list" where
  "reconcile_rows ident key in_scope active blank touch retire ds rows =
     (let existing_rows = filter in_scope rows;
          l = fold (described_step ident blank touch (dict_of key ident existing_rows)) ds
                \<lparr>il_rows = rows, il_seen = [], il_created = 0, il_updated = 0, il_skipped = 0\<rparr>;
          gone = (\<lambda>r. ident r \<in> set (map ident existing_rows) \<and> key r \<notin> set (il_seen l) \<and> active r)
      in (\<lparr>rn_found = length (dedup (il_seen l)), rn_created = il_created l, rn_updated = il_updated l,
           rn_marked_inactive = count_where gone (il_rows l), rn_skipped = il_skipped l\<rparr>,
          map (\<lambda>r. if gone r then retire r else r) (il_rows l)))"

definition instance_scope :: "int \<Rightarrow> string \<Rightarrow> rds_instance \<Rightarrow> bool" where
  "instance_scope cloud_account_id region r \<longleftrightarrow>
     ri_cloud_account_id r = cloud_account_id \<and> ri_region r = region"

definition retire_instance :: "datetime \<Rightarrow> rds_instance \<Rightarrow> rds_instance" where
  "retire_instance observed_at r = r\<lparr>ri_is_active := False, ri_collected_at := observed_at\<rparr>"

definition instance_described ::
  "int \<Rightarrow> string \<Rightarrow> string \<Rightarrow> datetime \<Rightarrow> db_instance_item \<Rightarrow> rds_instance described" where
  "instance_described cloud_account_id account_id region observed_at item =
     (or_text (di_DBInstanceArn item) [],
      Inr (instance_values cloud_account_id account_id region item observed_at))"

text \<open>The counters of the DB instances have no \<open>skipped\<close>; their values can always be read.\<close>

definition reconcile_db_instances ::
  "int \<Rightarrow> string \<Rightarrow> string \<Rightarrow> db_instance_item list \<Rightarrow> datetime \<Rightarrow> rds_instance list \<Rightarrow>
   reconcile_counts \<times> rds_instance list" where
  "reconcile_db_instances cloud_account_id account_id region items observed_at rows =
     (let (counts, rows') = reconcile_rows ri_id ri_db_instance_arn (instance_scope cloud_account_id region)
            ri_is_active blank_instance (\<lambda>r. r) (retire_instance observed_at)
            (map (instance_described cloud_account_id account_id region observed_at) items) rows
      in (counts\<lparr>rn_skipped := 0\<rparr>, rows'))"

text \<open>
  A reservation whose description lacks its start cannot be read; a row that is already there
  is kept active and counts as seen.
\<close>

definition reservation_scope :: "int \<Rightarrow> string \<Rightarrow> reserved_instance \<Rightarrow> bool" where
  "reservation_scope cloud_account_id region r \<longleftrightarrow>
     rr_cloud_account_id r = cloud_account_id \<and> rr_region r = region"

definition retire_reservation :: "datetime \<Rightarrow> reserved_instance \<Rightarrow> reserved_instance" where
  "retire_reservation observed_at r = r\<lparr>rr_is_active := False, rr_collected_at := observed_at\<rparr>"

definition touch_reservation :: "datetime \<Rightarrow> reserved_instance \<Rightarrow> reserved_instance" where
  "touch_reservation observed_at r =
     r\<lparr>rr_last_seen_at := observed_at, rr_collected_at := observed_at, rr_is_active := True\<rparr>"

definition reservation_described ::
  "int \<Rightarrow> string \<Rightarrow> string \<Rightarrow> datetime \<Rightarrow> reserved_item \<Rightarrow> reserved_instance described" where
  "reservation_described cloud_account_id account_id region observed_at item =
     (or_text (dr_ReservedDBInstanceId item) [],
      reservation_values cloud_account_id account_id region item observed_at)"

definition reconcile_reserved_db_instances ::
  "int \<Rightarrow> string \<Rightarrow> string \<Rightarrow> reserved_item list \<Rightarrow> datetime \<Rightarrow> reserved_instance list \<Rightarrow>
   reconcile_counts \<times> reserved_instance list" where
  "reconcile_reserved_db_instances cloud_account_id account_id region items observed_at rows =
     reconcile_rows rr_id rr_reserved_db_instance_id (reservation_scope cloud_account_id region)
       rr_is_active blank_reservation (touch_reservation observed_at) (retire_reservation observed_at)
       (map (reservation_described cloud_account_id account_id region observed_at) items) rows"

section \<open>What a reconciliation does\<close>

text \<open>
  The rows afterwards, without the loop: a row of the scope that is described takes the described
  values, one that is not is retired, and every description of an unknown key becomes a row.
\<close>

locale described_table =
  fixes ident :: "'r \<Rightarrow> int"
    and key :: "'r \<Rightarrow> string"
    and in_scope :: "'r \<Rightarrow> bool"
    and active :: "'r \<Rightarrow> bool"
    and blank :: "int \<Rightarrow> 'r"
    and touch :: "'r \<Rightarrow> 'r"
    and retire :: "'r \<Rightarrow> 'r"
  assumes blank: "ident (blank i) = i"
    and touch: "ident (touch r) = ident r" "key (touch r) = key r" "in_scope (touch r) = in_scope r"
    and retire: "ident (retire r) = ident r" "key (retire r) = key r" "in_scope (retire r) = in_scope r"
      "\<not> active (retire r)"
begin

text \<open>Descriptions that name their key in the values they assign.\<close>

definition fitting :: "'r described list \<Rightarrow> bool" where
  "fitting ds \<longleftrightarrow> (\<forall>k f r. (k, Inr f) \<in> set ds \<longrightarrow>
     ident (f r) = ident r \<and> key (f r) = k \<and> in_scope (f r) \<and> active (f r))"

definition known_key :: "'r list \<Rightarrow> string \<Rightarrow> bool" where
  "known_key rows k \<longleftrightarrow> k \<in> key ` set (filter in_scope rows)"

definition unique :: "'r list \<Rightarrow> bool" where
  "unique rows \<longleftrightarrow> distinct (map ident rows) \<and> distinct (map key (filter in_scope rows)) \<and>
     \<not> known_key rows []"

definition settled :: "'r described list \<Rightarrow> 'r \<Rightarrow> 'r" where
  "settled ds r = (if in_scope r then (case map_of ds (key r) of
     None \<Rightarrow> r | Some (Inl _) \<Rightarrow> touch r | Some (Inr f) \<Rightarrow> f r) else r)"

fun arrivals :: "(string \<Rightarrow> bool) \<Rightarrow> 'r described list \<Rightarrow> int \<Rightarrow> 'r list" where
  "arrivals known [] i = []"
| "arrivals known ((k, v) # ds) i =
     (if k = [] \<or> known k then arrivals known ds i
      else case v of Inl _ \<Rightarrow> arrivals known ds i | Inr f \<Rightarrow> f (blank i) # arrivals known ds (i + 1))"

lemma dict_of_None: "dict_of key ident (filter in_scope rows) k = None \<longleftrightarrow> \<not> known_key rows k"
  unfolding dict_of_def known_key_def by (auto simp: map_of_eq_None_iff image_image)

lemma dict_of_Some:
  assumes "dict_of key ident (filter in_scope rows) k = Some i"
  shows "\<exists>r. r \<in> set rows \<and> in_scope r \<and> key r = k \<and> ident r = i"
  using map_of_SomeD [OF assms [unfolded dict_of_def]] by auto

lemma ident_settled: "fitting ds \<Longrightarrow> ident (settled ds r) = ident r"
proof -
  assume fit: "fitting ds"
  show "ident (settled ds r) = ident r"
  proof (cases "map_of ds (key r)")
    case None
    then show ?thesis by (simp add: settled_def)
  next
    case (Some v)
    with map_of_SomeD [OF Some] fit show ?thesis
      by (cases v) (auto simp: settled_def touch fitting_def)
  qed
qed

lemma fitting_ConsD: "fitting (d # ds) \<Longrightarrow> fitting ds"
  by (auto simp: fitting_def)

text \<open>The state of the loop when the descriptions \<open>ds\<close> are done.\<close>

definition loop_rows :: "'r list \<Rightarrow> 'r described list \<Rightarrow> 'r list" where
  "loop_rows rows ds = map (settled ds) rows @ arrivals (known_key rows) ds (next_id ident rows)"

lemma arrivals_append: "arrivals known (ds @ es) i =
    arrivals known ds i @ arrivals known es (i + int (length (arrivals known ds i)))"
  by (induction known ds i rule: arrivals.induct) (auto split: sum.splits simp: add.assoc)

lemma next_id_arrivals: "fitting ds \<Longrightarrow>
    next_id ident (rows @ arrivals known ds (next_id ident rows)) =
    next_id ident rows + int (length (arrivals known ds (next_id ident rows)))"
proof (induction ds arbitrary: rows)
  case (Cons d ds)
  obtain k v where d: "d = (k, v)" by (cases d)
  note rest = Cons.IH [OF fitting_ConsD [OF Cons.prems]]
  show ?case
  proof (cases "k = [] \<or> known k \<or> (\<exists>e. v = Inl e)")
    case True
    then have "arrivals known (d # ds) i = arrivals known ds i" for i by (cases v) (auto simp: d)
    then show ?thesis by (simp add: rest)
  next
    case False
    then obtain f where v: "v = Inr f" by (cases v) auto
    let ?x = "f (blank (next_id ident rows))"
    have "ident ?x = next_id ident rows" using Cons.prems d v by (simp add: fitting_def blank)
    then have "next_id ident (rows @ [?x]) = next_id ident rows + 1" by (rule next_id_append1)
    with rest [of "rows @ [?x]"] False d v show ?thesis by simp
  qed
qed simp

lemma next_id_loop: "fitting ds \<Longrightarrow> next_id ident (loop_rows rows ds) =
    next_id ident rows + int (length (arrivals (known_key rows) ds (next_id ident rows)))"
proof -
  assume fit: "fitting ds"
  have "map ident (loop_rows rows ds) =
      map ident (rows @ arrivals (known_key rows) ds (next_id ident rows))"
    by (simp add: loop_rows_def ident_settled [OF fit] comp_def)
  from next_id_cong [OF this] next_id_arrivals [OF fit] show ?thesis by simp
qed

lemma arrivals_ident: "fitting ds \<Longrightarrow> r \<in> set (arrivals known ds i) \<Longrightarrow> i \<le> ident r"
proof (induction ds arbitrary: i)
  case (Cons d ds)
  obtain k v where d: "d = (k, v)" by (cases d)
  note rest = Cons.IH [OF fitting_ConsD [OF Cons.prems(1)]]
  show ?case
  proof (cases "k = [] \<or> known k \<or> (\<exists>e. v = Inl e)")
    case True
    then have "arrivals known (d # ds) i = arrivals known ds i" by (cases v) (auto simp: d)
    with Cons.prems rest show ?thesis by simp
  next
    case False
    then obtain f where v: "v = Inr f" by (cases v) auto
    have "ident (f (blank i)) = i" using Cons.prems(1) d v by (simp add: fitting_def blank)
    moreover have "r = f (blank i) \<or> r \<in> set (arrivals known ds (i + 1))"
      using Cons.prems(2) False d v by auto
    ultimately show ?thesis using rest [of "i + 1"] by auto
  qed
qed simp

text \<open>One more description, whose key is new.\<close>

lemma settled_snoc:
  assumes "\<not> in_scope r \<or> key r \<noteq> k"
  shows "settled (ds @ [(k, v)]) r = settled ds r"
  using assms by (auto simp: settled_def map_of_append map_add_def split: option.split)

lemma loop_rows_unknown:
  assumes "\<not> known_key rows k"
  shows "loop_rows rows (ds @ [(k, v)]) = loop_rows rows ds @
    (if k = [] then [] else case v of Inl _ \<Rightarrow> []
     | Inr f \<Rightarrow> [f (blank (next_id ident rows +
         int (length (arrivals (known_key rows) ds (next_id ident rows)))))])"
proof -
  have other: "\<not> in_scope r \<or> key r \<noteq> k" if "r \<in> set rows" for r
    using assms that unfolding known_key_def by force
  have "map (settled (ds @ [(k, v)])) rows = map (settled ds) rows"
    by (simp add: settled_snoc [OF other])
  with assms show ?thesis by (auto simp: loop_rows_def arrivals_append split: sum.split)
qed

lemma loop_rows_known:
  assumes "unique rows" "fitting ds" "k \<noteq> []" "k \<notin> fst ` set ds"
    and "r0 \<in> set rows" "in_scope r0" "key r0 = k"
    and g: "g = (case v of Inl _ \<Rightarrow> touch | Inr f \<Rightarrow> f)"
  shows "assign_row ident (ident r0) g (loop_rows rows ds) = loop_rows rows (ds @ [(k, v)])"
proof -
  have known: "known_key rows k" using assms by (auto simp: known_key_def)
  have late: "ident r \<noteq> ident r0" if "r \<in> set (arrivals (known_key rows) ds (next_id ident rows))" for r
    using arrivals_ident [OF assms(2) that] next_id_fresh [OF assms(5), of ident] by simp
  have one: "(if ident (settled ds r) = ident r0 then g (settled ds r) else settled ds r) =
      settled (ds @ [(k, v)]) r" if r: "r \<in> set rows" for r
  proof (cases "r = r0")
    case True
    have "map_of ds k = None" using assms(4) by (simp add: map_of_eq_None_iff)
    with True assms(6,7) g show ?thesis
      by (cases v) (simp_all add: ident_settled [OF assms(2)] settled_def map_of_append map_add_def)
  next
    case False
    with assms(1,5) r have "ident r \<noteq> ident r0" by (auto simp: unique_def distinct_map dest: inj_onD)
    moreover have "\<not> in_scope r \<or> key r \<noteq> k"
      using assms(1,5-7) r False by (auto simp: unique_def distinct_map dest: inj_onD)
    ultimately show ?thesis using settled_snoc [of r k ds v] by (simp add: ident_settled [OF assms(2)])
  qed
  have "map (\<lambda>r. if ident r = ident r0 then g r else r) (map (settled ds) rows) =
      map (settled (ds @ [(k, v)])) rows"
    using one by simp
  moreover have "map (\<lambda>r. if ident r = ident r0 then g r else r)
      (arrivals (known_key rows) ds (next_id ident rows)) = arrivals (known_key rows) ds (next_id ident rows)"
    using late by (simp add: map_idI)
  moreover have "arrivals (known_key rows) (ds @ [(k, v)]) i = arrivals (known_key rows) ds i" for i
    using known by (simp add: arrivals_append)
  ultimately show ?thesis by (simp add: assign_row_def loop_rows_def)
qed

text \<open>The loop, and the counters it returns.\<close>

definition readable :: "'r described \<Rightarrow> bool" where
  "readable d \<longleftrightarrow> (\<exists>f. snd d = Inr f)"

lemma readable_simps [simp]: "readable (k, Inr f)" "\<not> readable (k, Inl e)"
  by (simp_all add: readable_def)

abbreviation named :: "'r described list \<Rightarrow> 'r described list" where
  "named ds \<equiv> filter (\<lambda>d. fst d \<noteq> []) ds"

abbreviation start :: "'r list \<Rightarrow> 'r inventory_loop" where
  "start rows \<equiv> \<lparr>il_rows = rows, il_seen = [], il_created = 0, il_updated = 0, il_skipped = 0\<rparr>"

lemma length_arrivals: "length (arrivals known ds i) =
    length (filter (\<lambda>d. fst d \<noteq> [] \<and> \<not> known (fst d) \<and> readable d) ds)"
  by (induction known ds i rule: arrivals.induct) (auto split: sum.splits)

lemma loop_closed:
  assumes "unique rows" "fitting ds" "distinct (map fst (named ds))"
  shows "fold (described_step ident blank touch (dict_of key ident (filter in_scope rows))) ds (start rows) =
    \<lparr>il_rows = loop_rows rows ds, il_seen = map fst (named ds),
     il_created = count_where (\<lambda>d. readable d \<and> \<not> known_key rows (fst d)) (named ds),
     il_updated = count_where (\<lambda>d. readable d \<and> known_key rows (fst d)) (named ds),
     il_skipped = count_where (\<lambda>d. fst d = [] \<or> \<not> readable d) ds\<rparr>"
  using assms(2,3)
proof (induction ds rule: rev_induct)
  case Nil
  have "settled [] = id" by (auto simp: settled_def)
  then show ?case by (simp add: loop_rows_def count_where_def)
next
  case (snoc d ds)
  obtain k v where d: "d = (k, v)" by (cases d)
  have fit: "fitting ds" using snoc.prems(1) by (auto simp: fitting_def)
  note IH = snoc.IH [OF fit]
  show ?case
  proof (cases "k = []")
    case True
    have none: "\<not> known_key rows []" using assms(1) by (simp add: unique_def)
    have "loop_rows rows (ds @ [d]) = loop_rows rows ds"
      using loop_rows_unknown [OF none, of ds v] by (simp add: d True)
    with IH snoc.prems(2) d True show ?thesis by (simp add: described_step_def count_where_def)
  next
    case False
    then have new: "k \<notin> fst ` set ds" using snoc.prems(2) d by (auto simp: rev_image_eqI)
    show ?thesis
    proof (cases "known_key rows k")
      case True
      then obtain i where i: "dict_of key ident (filter in_scope rows) k = Some i"
        using dict_of_None [of rows k] by (cases "dict_of key ident (filter in_scope rows) k") auto
      from dict_of_Some [OF i] obtain r0 where r0: "r0 \<in> set rows" "in_scope r0" "key r0 = k" "ident r0 = i"
        by blast
      note known = loop_rows_known [OF assms(1) fit False new r0(1-3), unfolded r0(4), OF refl]
      from IH snoc.prems(2) d False i True known [of v] show ?thesis
        by (cases v) (simp_all add: described_step_def count_where_def)
    next
      case unknown: False
      then have i: "dict_of key ident (filter in_scope rows) k = None" by (simp add: dict_of_None)
      from IH snoc.prems(2) d False i unknown loop_rows_unknown [OF unknown, of ds v]
        next_id_loop [OF fit, of rows] show ?thesis
        by (cases v) (simp_all add: described_step_def count_where_def)
    qed
  qed
qed

definition outcome :: "'r described list \<Rightarrow> 'r \<Rightarrow> 'r" where
  "outcome ds r = (if in_scope r \<and> key r \<notin> set (map fst ds) \<and> active r then retire r else settled ds r)"

definition final_rows :: "'r described list \<Rightarrow> 'r list \<Rightarrow> 'r list" where
  "final_rows ds rows =
     map (outcome ds) rows @ arrivals (known_key rows) ds (next_id ident rows)"

lemma scope_settled: "fitting ds \<Longrightarrow> in_scope (settled ds r) = in_scope r"
  unfolding settled_def fitting_def using touch(3)
  by (auto split: option.split sum.split dest: map_of_SomeD)

lemma key_settled: "fitting ds \<Longrightarrow> key (settled ds r) = key r"
  unfolding settled_def fitting_def using touch(2)
  by (auto split: option.split sum.split dest: map_of_SomeD)

lemma settled_absent: "key r \<notin> fst ` set ds \<Longrightarrow> settled ds r = r"
proof -
  assume "key r \<notin> fst ` set ds"
  then have "map_of ds (key r) = None" by (simp add: map_of_eq_None_iff)
  then show ?thesis by (simp add: settled_def)
qed

theorem reconcile_closed:
  assumes "unique rows" "fitting ds" "distinct (map fst (named ds))"
  shows "reconcile_rows ident key in_scope active blank touch retire ds rows =
    (\<lparr>rn_found = length (named ds),
      rn_created = count_where (\<lambda>d. readable d \<and> \<not> known_key rows (fst d)) (named ds),
      rn_updated = count_where (\<lambda>d. readable d \<and> known_key rows (fst d)) (named ds),
      rn_marked_inactive = count_where (\<lambda>r. in_scope r \<and> active r \<and> key r \<notin> set (map fst ds)) rows,
      rn_skipped = count_where (\<lambda>d. fst d = [] \<or> \<not> readable d) ds\<rparr>, final_rows ds rows)"
proof -
  let ?ids = "set (map ident (filter in_scope rows))" and ?seen = "set (map fst (named ds))"
  let ?new = "arrivals (known_key rows) ds (next_id ident rows)"
  let ?gone = "\<lambda>r. ident r \<in> ?ids \<and> key r \<notin> ?seen \<and> active r"
  have old: "?gone (settled ds r) \<longleftrightarrow> in_scope r \<and> active r \<and> key r \<notin> set (map fst ds)"
    if r: "r \<in> set rows" for r
  proof -
    have "ident r \<in> ?ids \<longleftrightarrow> in_scope r"
      using assms(1) r by (auto simp: unique_def distinct_map dest: inj_onD)
    moreover have "key r \<in> ?seen \<longleftrightarrow> key r \<in> set (map fst ds)" if "in_scope r"
    proof -
      have "key r \<noteq> []" using assms(1) r that by (force simp: unique_def known_key_def)
      then show ?thesis by force
    qed
    moreover have "active (settled ds r) = active r" if "key r \<notin> set (map fst ds)"
      using settled_absent [of r ds] that by simp
    ultimately show ?thesis by (auto simp: ident_settled [OF assms(2)] key_settled [OF assms(2)])
  qed
  have new: "\<not> ?gone r" if "r \<in> set ?new" for r
    using arrivals_ident [OF assms(2) that] next_id_fresh [of _ rows ident] by force
  have "map (\<lambda>r. if ?gone r then retire r else r) (map (settled ds) rows) =
      map (outcome ds) rows"
    using old settled_absent by (auto simp: outcome_def)
  moreover have "map (\<lambda>r. if ?gone r then retire r else r) ?new = ?new"
    by (rule map_idI) (simp only: new if_False)
  ultimately have rows: "map (\<lambda>r. if ?gone r then retire r else r) (loop_rows rows ds) = final_rows ds rows"
    by (simp add: loop_rows_def final_rows_def)
  have "filter ?gone (map (settled ds) rows) = map (settled ds)
      (filter (\<lambda>r. in_scope r \<and> active r \<and> key r \<notin> set (map fst ds)) rows)"
    using old by (simp add: filter_map comp_def cong: filter_cong)
  moreover have "filter ?gone ?new = []" using new by (intro filter_False ballI)
  ultimately have count: "count_where ?gone (loop_rows rows ds) =
      count_where (\<lambda>r. in_scope r \<and> active r \<and> key r \<notin> set (map fst ds)) rows"
    by (simp add: count_where_def loop_rows_def)
  from rows count show ?thesis unfolding reconcile_rows_def Let_def loop_closed [OF assms]
    by (simp add: assms(3))
qed

text \<open>What follows for the table.\<close>

lemma arrivals_new: "fitting ds \<Longrightarrow> r \<in> set (arrivals known ds i) \<Longrightarrow>
    in_scope r \<and> active r \<and> (\<exists>f. (key r, Inr f) \<in> set (named ds)) \<and> \<not> known (key r)"
proof (induction ds arbitrary: i)
  case (Cons d ds)
  obtain k v where d: "d = (k, v)" by (cases d)
  show ?case
  proof (cases "r \<in> set (arrivals known ds i) \<or> r \<in> set (arrivals known ds (i + 1))")
    case True
    with Cons.IH [OF fitting_ConsD [OF Cons.prems(1)]] show ?thesis by auto
  next
    case False
    with Cons.prems(2) d obtain f where f: "v = Inr f" "k \<noteq> []" "\<not> known k" "r = f (blank i)"
      by (cases v) (auto split: if_splits)
    with Cons.prems(1) d show ?thesis by (auto simp: fitting_def)
  qed
qed simp

lemma arrivals_all: "fitting ds \<Longrightarrow> (k, Inr f) \<in> set (named ds) \<Longrightarrow> \<not> known k \<Longrightarrow>
    k \<in> key ` set (arrivals known ds i)"
proof (induction ds arbitrary: i)
  case (Cons d ds)
  obtain l v where d: "d = (l, v)" by (cases d)
  note fit = fitting_ConsD [OF Cons.prems(1)]
  show ?case
  proof (cases "(k, Inr f) \<in> set (named ds)")
    case True
    from Cons.IH [OF fit this Cons.prems(3)] show ?thesis by (cases v) (auto simp: d)
  next
    case False
    with Cons.prems(2) d have "l = k" "v = Inr f" "k \<noteq> []" by (auto split: if_splits)
    moreover from this Cons.prems(1) d have "key (f (blank i)) = k" by (simp add: fitting_def)
    ultimately show ?thesis using Cons.prems(3) d by force
  qed
qed simp

lemma arrivals_distinct:
  assumes "fitting ds" "distinct (map fst (named ds))"
  shows "distinct (map ident (arrivals known ds i)) \<and> distinct (map key (arrivals known ds i))"
  using assms
proof (induction ds arbitrary: i)
  case (Cons d ds)
  obtain k v where d: "d = (k, v)" by (cases d)
  note fit = fitting_ConsD [OF Cons.prems(1)]
  have rest: "distinct (map ident (arrivals known ds j)) \<and> distinct (map key (arrivals known ds j))" for j
    using Cons.IH [OF fit] Cons.prems(2) by (auto split: if_splits)
  show ?case
  proof (cases "k = [] \<or> known k \<or> (\<exists>e. v = Inl e)")
    case True
    then have "arrivals known (d # ds) i = arrivals known ds i" by (cases v) (auto simp: d)
    with rest show ?thesis by simp
  next
    case False
    then obtain f where v: "v = Inr f" by (cases v) auto
    have x: "ident (f (blank i)) = i" "key (f (blank i)) = k"
      using Cons.prems(1) d v by (auto simp: fitting_def blank)
    have fresh: "ident r \<noteq> i \<and> key r \<noteq> k" if "r \<in> set (arrivals known ds (i + 1))" for r
    proof -
      from arrivals_new [OF fit that] obtain g where "(key r, Inr g) \<in> set (named ds)" by blast
      then have "key r \<in> set (map fst (named ds))" by force
      with Cons.prems(2) False d have "key r \<noteq> k" by auto
      with arrivals_ident [OF fit that] show ?thesis by simp
    qed
    have "i \<notin> ident ` set (arrivals known ds (i + 1))" "k \<notin> key ` set (arrivals known ds (i + 1))"
      using fresh by blast+
    with rest [of "i + 1"] False d v x show ?thesis by simp
  qed
qed simp

lemma filter_arrivals: "fitting ds \<Longrightarrow>
    filter in_scope (arrivals known ds i) = arrivals known ds i"
  using arrivals_new by (simp add: filter_id_conv)

lemma final_unique:
  assumes "unique rows" "fitting ds" "distinct (map fst (named ds))"
  shows "distinct (map ident (final_rows ds rows))"
    and "distinct (map key (filter in_scope (final_rows ds rows)))"
    and "map ident (take (length rows) (final_rows ds rows)) = map ident rows"
    and "filter (\<lambda>r. \<not> in_scope r) (final_rows ds rows) = filter (\<lambda>r. \<not> in_scope r) rows"
proof -
  let ?f = "outcome ds"
  let ?new = "arrivals (known_key rows) ds (next_id ident rows)"
  have f: "ident (?f r) = ident r" "key (?f r) = key r" "in_scope (?f r) = in_scope r" for r
    by (simp_all add: outcome_def retire ident_settled [OF assms(2)] key_settled [OF assms(2)]
      scope_settled [OF assms(2)])
  have ids: "map ident (map ?f rows) = map ident rows" by (simp add: f comp_def)
  then show "map ident (take (length rows) (final_rows ds rows)) = map ident rows"
    by (simp add: final_rows_def)
  note new = arrivals_distinct [OF assms(2,3), of "known_key rows" "next_id ident rows"]
  have "ident ` set rows \<inter> ident ` set ?new = {}"
    using arrivals_ident [OF assms(2)] next_id_fresh [of _ rows ident] by fastforce
  then show "distinct (map ident (final_rows ds rows))"
    unfolding final_rows_def map_append ids distinct_append using new assms(1)
    by (simp add: unique_def)
  have scoped: "filter in_scope (map ?f rows) = map ?f (filter in_scope rows)"
    by (simp only: filter_map comp_def f)
  then have keys: "map key (filter in_scope (map ?f rows)) = map key (filter in_scope rows)"
    by (simp only: map_map comp_def f)
  have "key ` set (filter in_scope rows) \<inter> key ` set ?new = {}"
  proof -
    have "key r \<notin> key ` set (filter in_scope rows)" if "r \<in> set ?new" for r
    proof -
      from arrivals_new [OF assms(2) that] have "\<not> known_key rows (key r)" by simp
      then show ?thesis by (simp only: known_key_def not_False_eq_True)
    qed
    then show ?thesis by (simp only: disjoint_iff image_iff) metis
  qed
  then have "set (map key (filter in_scope (map ?f rows))) \<inter> set (map key ?new) = {}"
    unfolding keys by simp
  with new assms(1) keys show "distinct (map key (filter in_scope (final_rows ds rows)))"
    unfolding final_rows_def filter_append map_append distinct_append filter_arrivals [OF assms(2)]
    by (simp only: unique_def)
  have "filter (\<lambda>r. \<not> in_scope r) (map ?f rows) = map ?f (filter (\<lambda>r. \<not> in_scope r) rows)"
    by (simp only: filter_map comp_def f)
  moreover have "map ?f (filter (\<lambda>r. \<not> in_scope r) rows) = filter (\<lambda>r. \<not> in_scope r) rows"
    by (rule map_idI) (simp add: settled_def outcome_def)
  moreover have "filter (\<lambda>r. \<not> in_scope r) ?new = []"
    using arrivals_new [OF assms(2)] by (simp add: filter_empty_conv)
  ultimately show "filter (\<lambda>r. \<not> in_scope r) (final_rows ds rows) = filter (\<lambda>r. \<not> in_scope r) rows"
    by (simp only: final_rows_def filter_append append_Nil2)
qed

text \<open>The keys that are active: those of a readable description, and known keys that were described.\<close>

lemma final_active:
  assumes "unique rows" "fitting ds" "distinct (map fst (named ds))"
    and touched: "\<And>r. active (touch r)"
  shows "key ` set (filter (\<lambda>r. in_scope r \<and> active r) (final_rows ds rows)) =
    fst ` set (filter (\<lambda>d. readable d \<or> known_key rows (fst d)) (named ds))"
proof (intro equalityI subsetI)
  let ?f = "outcome ds"
  let ?new = "arrivals (known_key rows) ds (next_id ident rows)"
  fix k
  assume "k \<in> key ` set (filter (\<lambda>r. in_scope r \<and> active r) (final_rows ds rows))"
  then obtain r where r: "r \<in> set (final_rows ds rows)" "in_scope r" "active r" "key r = k" by auto
  then consider r0 where "r0 \<in> set rows" "r = ?f r0" | "r \<in> set ?new" by (auto simp: final_rows_def image_iff)
  then show "k \<in> fst ` set (filter (\<lambda>d. readable d \<or> known_key rows (fst d)) (named ds))"
  proof cases
    case 1
    have "r = settled ds r0"
      using 1(2) r(3) retire(4) by (auto simp: outcome_def split: if_splits)
    moreover from this r have "in_scope r0" "key r0 = k"
      using key_settled [OF assms(2)] scope_settled [OF assms(2)] by auto
    moreover have "key r0 \<in> fst ` set ds"
    proof (rule ccontr)
      assume none: "key r0 \<notin> fst ` set ds"
      then have "active r0" using r(3) calculation(1) settled_absent [OF none] by simp
      then show False using none calculation(2) 1(2) r(3) retire(4) by (simp add: outcome_def)
    qed
    moreover have known: "known_key rows k"
      using 1(1) calculation(2,3) by (auto simp: known_key_def)
    moreover have "k \<noteq> []" using assms(1) known by (auto simp: unique_def)
    ultimately show ?thesis by force
  next
    case 2
    from arrivals_new [OF assms(2) this] r(4) show ?thesis by force
  qed
next
  let ?f = "outcome ds"
  fix k
  assume "k \<in> fst ` set (filter (\<lambda>d. readable d \<or> known_key rows (fst d)) (named ds))"
  then obtain v where v: "(k, v) \<in> set (named ds)" "readable (k, v) \<or> known_key rows k" by auto
  show "k \<in> key ` set (filter (\<lambda>r. in_scope r \<and> active r) (final_rows ds rows))"
  proof (cases "known_key rows k")
    case True
    then obtain r where r: "r \<in> set rows" "in_scope r" "key r = k" by (auto simp: known_key_def)
    obtain w where w: "map_of ds k = Some w" using v(1) weak_map_of_SomeI [of k v ds] by auto
    have "active (settled ds r)" using w r assms(2) map_of_SomeD [OF w] touched
      by (cases w) (auto simp: settled_def fitting_def)
    moreover have "?f r = settled ds r" using v(1) r(3) by (force simp: outcome_def)
    moreover have "?f r \<in> set (final_rows ds rows)" using r(1) by (simp add: final_rows_def)
    ultimately show ?thesis using r key_settled [OF assms(2), of r] scope_settled [OF assms(2), of r]
      by (intro image_eqI [of _ _ "settled ds r"]) auto
  next
    case False
    with v obtain f where "(k, Inr f) \<in> set (named ds)" by (auto simp: readable_def)
    then have "k \<in> key ` set (arrivals (known_key rows) ds (next_id ident rows))" using False by (rule arrivals_all [OF assms(2)])
    then show ?thesis
      using arrivals_new [OF assms(2)] by (force simp: final_rows_def)
  qed
qed

end

text \<open>
  What a table owes the scope it describes: its active rows in the scope are those of the keys
  \<open>described\<close>, rows of other scopes are as they were, no row is lost and keys stay unique.
\<close>

definition follows_description ::
  "('r \<Rightarrow> int) \<Rightarrow> ('r \<Rightarrow> string) \<Rightarrow> ('r \<Rightarrow> bool) \<Rightarrow> ('r \<Rightarrow> bool) \<Rightarrow> string set \<Rightarrow> 'r list \<Rightarrow> 'r list \<Rightarrow> bool" where
  "follows_description ident key in_scope active described rows rows' \<longleftrightarrow>
     key ` set (filter (\<lambda>r. in_scope r \<and> active r) rows') = described \<and>
     filter (\<lambda>r. \<not> in_scope r) rows' = filter (\<lambda>r. \<not> in_scope r) rows \<and>
     map ident (take (length rows) rows') = map ident rows \<and>
     distinct (map ident rows') \<and> distinct (map key (filter in_scope rows'))"

definition keyed_table :: "('r \<Rightarrow> int) \<Rightarrow> ('r \<Rightarrow> string) \<Rightarrow> ('r \<Rightarrow> bool) \<Rightarrow> 'r list \<Rightarrow> bool" where
  "keyed_table ident key in_scope rows \<longleftrightarrow> distinct (map ident rows) \<and>
     distinct (map key (filter in_scope rows)) \<and> [] \<notin> key ` set (filter in_scope rows)"

interpretation instances: described_table ri_id ri_db_instance_arn "instance_scope account region"
    ri_is_active blank_instance "\<lambda>r. r" "retire_instance observed_at" for account region observed_at
  by unfold_locales (simp_all add: blank_instance_def instance_scope_def retire_instance_def)

interpretation reservations: described_table rr_id rr_reserved_db_instance_id
    "reservation_scope account region" rr_is_active blank_reservation "touch_reservation observed_at"
    "retire_reservation observed_at" for account region observed_at
  by unfold_locales (simp_all add: blank_reservation_def reservation_scope_def retire_reservation_def
    touch_reservation_def)

lemma reservation_fitting:
  "reservations.fitting account region (map (reservation_described account account_id region now) items)"
  by (auto simp: reservations.fitting_def reservation_described_def reservation_values_def Let_def
    reservation_scope_def split: option.splits)

lemma reservation_unique: "reservations.unique account region rows \<longleftrightarrow>
    keyed_table rr_id rr_reserved_db_instance_id (reservation_scope account region) rows"
  by (simp add: reservations.unique_def keyed_table_def reservations.known_key_def)

text \<open>The identifiers AWS names, and those of the readable descriptions.\<close>

definition named_reservations :: "reserved_item list \<Rightarrow> string list" where
  "named_reservations items =
     filter (\<lambda>k. k \<noteq> []) (map (\<lambda>item. or_text (dr_ReservedDBInstanceId item) []) items)"

definition kept_reservations :: "int \<Rightarrow> string \<Rightarrow> reserved_item list \<Rightarrow> reserved_instance list \<Rightarrow> string set" where
  "kept_reservations account region items rows =
     {k. k \<noteq> [] \<and> (\<exists>item \<in> set items. or_text (dr_ReservedDBInstanceId item) [] = k \<and>
        (dr_StartTime item \<noteq> None \<or>
         k \<in> rr_reserved_db_instance_id ` set (filter (reservation_scope account region) rows)))}"

lemma reservation_named: "map fst (filter (\<lambda>d. fst d \<noteq> [])
    (map (reservation_described account account_id region now) items)) = named_reservations items"
  by (induction items) (auto simp: named_reservations_def reservation_described_def)

lemma reservation_read: "reservations.readable (reservation_described account account_id region now item) \<longleftrightarrow>
    dr_StartTime item \<noteq> None"
  by (cases "dr_StartTime item")
    (simp_all add: reservations.readable_def reservation_described_def reservation_values_def Let_def)

lemma reservation_kept: "fst ` set (filter (\<lambda>d. reservations.readable d \<or>
      reservations.known_key account region rows (fst d)) (filter (\<lambda>d. fst d \<noteq> [])
      (map (reservation_described account account_id region now) items))) =
    kept_reservations account region items rows"
proof -
  have key: "fst (reservation_described account account_id region now item) =
      or_text (dr_ReservedDBInstanceId item) []" for item
    by (simp add: reservation_described_def)
  have image: "fst ` set (filter P (filter Q (map g items))) = {k. \<exists>item \<in> set items. fst (g item) = k \<and>
      P (g item) \<and> Q (g item)}" for P Q and g :: "reserved_item \<Rightarrow> reserved_instance described"
    by auto
  show ?thesis unfolding image reservation_read key kept_reservations_def reservations.known_key_def by blast
qed

text \<open>
  C17: Reconciling a region's reservations with what AWS describes is exact.  On a table whose keys
  are unique, and for descriptions that name no reservation twice: afterwards the active rows of
  the account and region are those of the readable descriptions and of the rows that were there
  and are still named (an unreadable description neither adds nor drops a reservation); rows of
  other accounts and regions are untouched, no row is deleted, and keys stay unique.  The counters
  say what happened: found and skipped by the descriptions, created and updated by the readable
  ones with a new and a known key, and marked inactive the active rows that are not named.
\<close>

theorem inventory_exact:
  assumes table: "keyed_table rr_id rr_reserved_db_instance_id (reservation_scope account region) rows"
    and once: "distinct (named_reservations items)"
    and result: "reconcile_reserved_db_instances account account_id region items now rows = (counts, rows')"
  shows "follows_description rr_id rr_reserved_db_instance_id (reservation_scope account region)
      rr_is_active (kept_reservations account region items rows) rows rows' \<and>
    rn_found counts = length (named_reservations items) \<and>
    rn_created counts + rn_updated counts = count_where (\<lambda>item.
      or_text (dr_ReservedDBInstanceId item) [] \<noteq> [] \<and> dr_StartTime item \<noteq> None) items \<and>
    length rows' = length rows + rn_created counts \<and>
    rn_skipped counts = count_where (\<lambda>item.
      or_text (dr_ReservedDBInstanceId item) [] = [] \<or> dr_StartTime item = None) items \<and>
    rn_marked_inactive counts = count_where (\<lambda>r. reservation_scope account region r \<and> rr_is_active r \<and>
      rr_reserved_db_instance_id r \<notin> set (map (\<lambda>item. or_text (dr_ReservedDBInstanceId item) []) items)) rows"
proof -
  let ?ds = "map (reservation_described account account_id region now) items"
  have unique: "reservations.unique account region rows" using table by (simp add: reservation_unique)
  have once': "distinct (map fst (filter (\<lambda>d. fst d \<noteq> []) ?ds))" using once by (simp add: reservation_named)
  note facts = unique reservation_fitting once'
  from result have counts: "counts = fst (reconcile_reserved_db_instances account account_id region items now rows)"
    and rows': "rows' = snd (reconcile_reserved_db_instances account account_id region items now rows)"
    by simp_all
  have key: "fst (reservation_described account account_id region now item) =
      or_text (dr_ReservedDBInstanceId item) []" for item
    by (simp add: reservation_described_def)
  note closed = trans [OF reconcile_reserved_db_instances_def reservations.reconcile_closed [OF facts]]
  have touched: "rr_is_active (touch_reservation now r)" for r by (simp add: touch_reservation_def)
  have "follows_description rr_id rr_reserved_db_instance_id (reservation_scope account region)
      rr_is_active (kept_reservations account region items rows) rows rows'"
    unfolding rows' closed follows_description_def snd_conv
      reservations.final_active [OF facts touched] reservation_kept
    using reservations.final_unique [OF facts] by simp
  moreover have "rn_found counts = length (named_reservations items)"
    unfolding counts closed reservation_named [symmetric, of _ account account_id region now] by simp
  moreover have "rn_created counts + rn_updated counts = count_where (\<lambda>item.
      or_text (dr_ReservedDBInstanceId item) [] \<noteq> [] \<and> dr_StartTime item \<noteq> None) items"
  proof -
    let ?known = "\<lambda>d. reservations.known_key account region rows (fst d)"
    have "rn_created counts + rn_updated counts =
        count_where reservations.readable (filter (\<lambda>d. fst d \<noteq> []) ?ds)"
      unfolding counts closed
      using count_where_split [of reservations.readable "filter (\<lambda>d. fst d \<noteq> []) ?ds" ?known] by simp
    then show ?thesis by (simp add: count_where_def filter_map comp_def key reservation_read conj_commute)
  qed
  moreover have "length rows' = length rows + rn_created counts"
    unfolding counts rows' closed
    by (simp add: reservations.final_rows_def reservations.length_arrivals count_where_def conj_ac)
  moreover have "rn_skipped counts = count_where (\<lambda>item.
      or_text (dr_ReservedDBInstanceId item) [] = [] \<or> dr_StartTime item = None) items"
    unfolding counts closed by (simp add: count_where_def filter_map comp_def key reservation_read)
  moreover have "rn_marked_inactive counts = count_where (\<lambda>r. reservation_scope account region r \<and> rr_is_active r \<and>
      rr_reserved_db_instance_id r \<notin> set (map (\<lambda>item. or_text (dr_ReservedDBInstanceId item) []) items)) rows"
    unfolding counts closed by (simp add: comp_def key)
  ultimately show ?thesis by blast
qed


definition sample_reserved_item :: "string \<Rightarrow> datetime option \<Rightarrow> reserved_item" where
  "sample_reserved_item i start_time = \<lparr>dr_ReservedDBInstanceId = Some i, dr_OfferingId = None,
     dr_DBInstanceClass = Some ''db.r6g.large'', dr_ProductDescription = Some ''mysql'',
     dr_DBInstanceCount = Some 1, dr_MultiAZ = None, dr_OfferingType = None, dr_OfferingClass = None,
     dr_CurrencyCode = None, dr_FixedPrice = None, dr_UsagePrice = None, dr_RecurringCharges = None,
     dr_State = Some ''active'', dr_LeaseId = None, dr_StartTime = start_time, dr_Duration = Some 31536000\<rparr>"

definition sample_reserved_rows :: "reserved_instance list" where
  "sample_reserved_rows = map (\<lambda>(i, k). (blank_reservation i)\<lparr>rr_cloud_account_id := 1,
     rr_region := ''us-east-1'', rr_reserved_db_instance_id := k\<rparr>) [(1, ''ri-1''), (2, ''ri-2'')]"

definition sample_reserved_items :: "reserved_item list" where
  "sample_reserved_items = [sample_reserved_item ''ri-1'' None, sample_reserved_item ''ri-3'' (Some (Aware 0 0))]"

lemma inventory_exact_witness:
  "rn_marked_inactive (fst (reconcile_reserved_db_instances 1 ''1'' ''us-east-1'' sample_reserved_items
     (Aware 5 0) sample_reserved_rows)) = 1 \<and>
   follows_description rr_id rr_reserved_db_instance_id (reservation_scope 1 ''us-east-1'')
     rr_is_active {''ri-1'', ''ri-3''} sample_reserved_rows
     (snd (reconcile_reserved_db_instances 1 ''1'' ''us-east-1'' sample_reserved_items (Aware 5 0)
        sample_reserved_rows))"
proof -
  have kept: "kept_reservations 1 ''us-east-1'' sample_reserved_items sample_reserved_rows = {''ri-1'', ''ri-3''}"
    by (auto simp: kept_reservations_def sample_reserved_items_def sample_reserved_item_def
      sample_reserved_rows_def reservation_scope_def)
  have table: "keyed_table rr_id rr_reserved_db_instance_id (reservation_scope 1 ''us-east-1'') sample_reserved_rows"
    and once: "distinct (named_reservations sample_reserved_items)"
    and one: "count_where (\<lambda>r. reservation_scope 1 ''us-east-1'' r \<and> rr_is_active r \<and>
      rr_reserved_db_instance_id r \<notin> set (map (\<lambda>item. or_text (dr_ReservedDBInstanceId item) [])
        sample_reserved_items)) sample_reserved_rows = 1"
    by code_simp+
  show ?thesis
    using inventory_exact [where account_id = "''1''" and now = "Aware 5 0",
      OF table once prod.collapse [symmetric]]
    unfolding kept one by blast
qed

end
