(* ===== verification/RdsRules.thy ===== *)
theory RdsRules
  imports RdsInventory
begin

text \<open>
  The rules of RDS reservation coverage (backend/app/services/rds_reservation_rules.py): the
  normalized units of a DB instance and of a reservation, which of them are active and eligible,
  the billing scope, and the matcher that decides whether a reservation may cover an instance.
  Sums and differences of units are exact: a unit is a multiple of 1/20 and counts are 32-bit
  columns, so they have far fewer than 28 digits.  A caller always passes the time \<open>at\<close>.
\<close>

section \<open>Data\<close>

definition NORMALIZED_UNITS :: "(string \<times> decimal) list" where
  "NORMALIZED_UNITS = [(''micro'', 1 / 2), (''small'', 1), (''medium'', 2), (''large'', 4),
     (''xlarge'', 8), (''2xlarge'', 16), (''4xlarge'', 32), (''6xlarge'', 48), (''8xlarge'', 64),
     (''10xlarge'', 80), (''12xlarge'', 96), (''16xlarge'', 128), (''24xlarge'', 192),
     (''32xlarge'', 256)]"

definition AURORA_IO_OPTIMIZED_MULTIPLIER :: decimal where
  "AURORA_IO_OPTIMIZED_MULTIPLIER = 13 / 10"

definition SIZE_FLEXIBLE_ENGINES :: "string list" where
  "SIZE_FLEXIBLE_ENGINES = [''mysql'', ''mariadb'', ''postgres'', ''db2-ae'', ''db2-se'',
     ''aurora-mysql'', ''aurora-postgresql'']"

definition ORACLE_ENGINES :: "string list" where
  "ORACLE_ENGINES = [''oracle-ee'', ''oracle-ee-cdb'', ''oracle-se'', ''oracle-se1'',
     ''oracle-se2'', ''oracle-se2-cdb'']"

definition ACTIVE_RESERVATION_STATES :: "string list" where
  "ACTIVE_RESERVATION_STATES = [''active'']"

record match_decision =
  md_compatible :: bool
  md_match_type :: match_type
  md_reason :: string
  md_allocation_scope :: sharing_scope

definition decision :: "bool \<Rightarrow> match_type \<Rightarrow> string \<Rightarrow> sharing_scope \<Rightarrow> match_decision" where
  "decision compatible match_type reason scope = \<lparr>md_compatible = compatible,
     md_match_type = match_type, md_reason = reason, md_allocation_scope = scope\<rparr>"

record allocation =
  a_reservation :: reserved_instance
  a_instance :: rds_instance
  a_units :: decimal
  a_match_type :: match_type
  a_allocation_scope :: sharing_scope
  a_reason :: string

record instance_demand =
  dm_row :: rds_instance
  dm_required_units :: decimal
  dm_remaining_units :: decimal
  dm_calculation_method :: string
  dm_unknown_reason :: "string option"
  dm_allocations :: "allocation list"

record reservation_capacity =
  cy_row :: reserved_instance
  cy_total_units :: decimal
  cy_remaining_units :: decimal
  cy_calculation_method :: string
  cy_unknown_reason :: "string option"

record instance_coverage_result =
  ic_instance :: rds_instance
  ic_required_units :: decimal
  ic_covered_units :: decimal
  ic_uncovered_units :: decimal
  ic_coverage_percentage :: decimal
  ic_coverage_status :: coverage_status
  ic_coverage_scope :: sharing_scope
  ic_calculation_method :: string
  ic_allocations :: "allocation list"
  ic_explanation :: json

record utilization_result =
  ut_reservation :: reserved_instance
  ut_total_units :: decimal
  ut_allocated_units :: decimal
  ut_unused_units :: decimal
  ut_utilization_percentage :: decimal

record coverage_analysis =
  an_instances :: "instance_coverage_result list"
  an_reservations :: "utilization_result list"
  an_allocations :: "allocation list"

section \<open>Billing scope\<close>

record billing_scope =
  bs_scope_by_account :: "(string \<times> string) list"
  bs_sharing_enabled_by_account :: "(string \<times> bool option) list"

definition empty_billing_scope :: billing_scope where
  "empty_billing_scope = \<lparr>bs_scope_by_account = [], bs_sharing_enabled_by_account = []\<rparr>"

text \<open>\<open>d.get(account)\<close> on the sharing flags: a missing account and a \<open>None\<close> read the same.\<close>

definition sharing_enabled :: "billing_scope \<Rightarrow> string \<Rightarrow> bool option" where
  "sharing_enabled ctx account =
     (case map_of (bs_sharing_enabled_by_account ctx) account of None \<Rightarrow> None | Some b \<Rightarrow> b)"

definition relationship :: "billing_scope \<Rightarrow> string \<Rightarrow> string \<Rightarrow> sharing_scope" where
  "relationship ctx reservation_account instance_account =
     (if reservation_account = instance_account then SAME_ACCOUNT
      else
        (let reservation_scope = map_of (bs_scope_by_account ctx) reservation_account;
             instance_scope = map_of (bs_scope_by_account ctx) instance_account;
             reservation_sharing = sharing_enabled ctx reservation_account;
             instance_sharing = sharing_enabled ctx instance_account
         in if \<not> truthy reservation_scope \<or> \<not> truthy instance_scope then UNKNOWN_SCOPE
            else if reservation_scope \<noteq> instance_scope then NOT_SHAREABLE
            else if reservation_sharing = Some True \<and> instance_sharing = Some True
              then CROSS_ACCOUNT_VERIFIED
            else if reservation_sharing = Some False \<or> instance_sharing = Some False
              then NOT_SHAREABLE
            else CROSS_ACCOUNT_POTENTIAL))"

section \<open>Units\<close>

definition safe_percentage :: "decimal \<Rightarrow> decimal \<Rightarrow> decimal" where
  "safe_percentage numerator denominator =
     (if denominator \<le> 0 then 0
      else min 100 (max 0 (dec_mul (dec_div numerator denominator) 100)))"

definition LICENSE_ALIASES :: "(string \<times> string) list" where
  "LICENSE_ALIASES = [(''li'', ''license-included''), (''license included'', ''license-included''),
     (''license-included'', ''license-included''), (''byol'', ''bring-your-own-license''),
     (''bring your own license'', ''bring-your-own-license''),
     (''bring-your-own-license'', ''bring-your-own-license''),
     (''general public license'', ''general-public-license''),
     (''general-public-license'', ''general-public-license''),
     (''postgresql license'', ''postgresql-license''),
     (''postgresql-license'', ''postgresql-license''),
     (''marketplace license'', ''marketplace-license''),
     (''marketplace-license'', ''marketplace-license'')]"

definition normalize_license_model :: "string option \<Rightarrow> string option \<Rightarrow> string" where
  "normalize_license_model v eng =
     (let raw = squeeze (replace_char (CHR ''_'') (CHR ''-'') (lower (strip (or_text v []))));
          normalized = (case map_of LICENSE_ALIASES raw of Some l \<Rightarrow> l | None \<Rightarrow> raw);
          product = normalize_rds_engine eng
      in if normalized \<noteq> [] then normalized
         else if product \<in> set [''mysql'', ''mariadb'', ''aurora-mysql''] then ''general-public-license''
         else if product \<in> set [''postgres'', ''aurora-postgresql''] then ''postgresql-license''
         else [])"

definition LICENSE_TOKENS :: "string list" where
  "LICENSE_TOKENS = [''bring-your-own-license'', ''bring your own license'', ''license-included'',
     ''license included'', ''general-public-license'', ''postgresql-license'',
     ''marketplace-license'', ''byol'']"

definition reservation_license_model :: "reserved_instance \<Rightarrow> string" where
  "reservation_license_model r =
     (let text' = lower (strip (rr_product_description r))
      in if contains ''(li)'' text' \<or> endswith '' li'' text' then ''license-included''
         else (case find (\<lambda>token. contains token text') LICENSE_TOKENS of
                 Some token \<Rightarrow> normalize_license_model (Some token) (Some (rr_engine_normalized r))
               | None \<Rightarrow> normalize_license_model None (Some (rr_engine_normalized r))))"

definition supports_size_flexibility :: "string \<Rightarrow> string \<Rightarrow> bool" where
  "supports_size_flexibility eng license_model \<longleftrightarrow>
     (let product = normalize_rds_engine (Some eng)
      in product \<in> set SIZE_FLEXIBLE_ENGINES \<or>
         product \<in> set ORACLE_ENGINES \<and> license_model = ''bring-your-own-license'')"

definition normalized_units_for_size :: "string option \<Rightarrow> decimal result" where
  "normalized_units_for_size sz =
     (case map_of NORMALIZED_UNITS (lower (strip (or_text sz []))) of
        Some u \<Rightarrow> Inr u
      | None \<Rightarrow> Inl (UnknownRdsConfiguration
          (''unsupported DB instance size: '' @ or_text sz ''<empty>'')))"

definition is_aurora :: "string \<Rightarrow> bool" where
  "is_aurora eng \<longleftrightarrow> normalize_rds_engine (Some eng) \<in> set [''aurora-mysql'', ''aurora-postgresql'']"

definition instance_topology :: "rds_instance \<Rightarrow> string" where
  "instance_topology i =
     (if truthy (ri_deployment_topology i) then the (ri_deployment_topology i)
      else if is_aurora (ri_engine_normalized i) then ''aurora_cluster''
      else if truthy (ri_cluster_identifier i) then ''unknown_cluster''
      else if ri_multi_az i then ''multi_az_instance'' else ''single_az'')"

definition instance_storage_configuration :: "rds_instance \<Rightarrow> string option" where
  "instance_storage_configuration i =
     (if truthy (ri_cluster_storage_type i)
      then Some (lower (strip (the (ri_cluster_storage_type i)))) else None)"

definition TOPOLOGY_MULTIPLIERS :: "(string \<times> decimal) list" where
  "TOPOLOGY_MULTIPLIERS = [(''single_az'', 1), (''multi_az_instance'', 2), (''multi_az_cluster'', 3),
     (''multi_az_cluster_member'', 1)]"

definition instance_required_units :: "rds_instance \<Rightarrow> (decimal \<times> string) result" where
  "instance_required_units i =
     andThen (normalized_units_for_size (ri_instance_size i)) (\<lambda>unit_base.
       let eng = normalize_rds_engine (Some (ri_engine_normalized i));
           topology = instance_topology i;
           storage = instance_storage_configuration i
       in if is_aurora eng then
            (if storage \<in> set (map Some [''aurora-iopt1'', ''io-optimized'', ''i/o-optimized'', ''aurora-io-optimized''])
             then Inr (unit_base * AURORA_IO_OPTIMIZED_MULTIPLIER, ''NORMALIZED_UNITS_AURORA_IO_OPTIMIZED'')
             else if storage \<in> set (map Some [''aurora'', ''standard'', ''aurora-standard''])
             then Inr (unit_base, ''NORMALIZED_UNITS_AURORA_STANDARD'')
             else Inl (UnknownRdsConfiguration ''Aurora storage configuration is unknown''))
          else (case map_of TOPOLOGY_MULTIPLIERS topology of
                  None \<Rightarrow> Inl (UnknownRdsConfiguration (''unsupported deployment topology: '' @ topology))
                | Some m \<Rightarrow> Inr (unit_base * m, ''NORMALIZED_UNITS'')))"

definition reservation_total_units :: "reserved_instance \<Rightarrow> (decimal \<times> string) result" where
  "reservation_total_units r =
     andThen (guard (rr_instance_count r > 0)
       (UnknownRdsConfiguration ''reservation DBInstanceCount is zero'')) (\<lambda>_.
     andThen (normalized_units_for_size (rr_instance_size r)) (\<lambda>unit_base.
       let eng = normalize_rds_engine (Some (rr_engine_normalized r));
           license_model = reservation_license_model r
       in if supports_size_flexibility eng license_model then
            Inr (unit_base * of_int (rr_instance_count r) *
                   (if rr_multi_az r \<and> \<not> is_aurora eng then 2 else 1), ''NORMALIZED_UNITS'')
          else Inr (unit_base * of_int (rr_instance_count r) * (if rr_multi_az r then 2 else 1),
                    ''EXACT_MATCH_CAPACITY'')))"

section \<open>Activity and eligibility\<close>

definition is_active_reservation :: "datetime \<Rightarrow> reserved_instance \<Rightarrow> bool" where
  "is_active_reservation at' r \<longleftrightarrow>
     rr_is_active r \<and> lower (strip (rr_state r)) \<in> set ACTIVE_RESERVATION_STATES \<and>
     no_later (aware (rr_start_time r)) at' \<and> earlier at' (aware (rr_expiration_at r))"

definition NON_BILLABLE_INSTANCE_STATES :: "string list" where
  "NON_BILLABLE_INSTANCE_STATES = [''stopped'', ''stopping'', ''deleting'', ''failed'']"

definition is_reservation_coverage_eligible_instance :: "rds_instance \<Rightarrow> bool" where
  "is_reservation_coverage_eligible_instance i \<longleftrightarrow>
     (let status = lower (strip (ri_status i))
      in ri_is_active i \<and> status \<notin> set NON_BILLABLE_INSTANCE_STATES \<and>
         is_rds_coverage_eligible (Some status))"

section \<open>The matcher\<close>

text \<open>The end of \<open>match\<close>, once the two agree on everything but the size and the deployment.\<close>

definition size_match :: "bool \<Rightarrow> reserved_instance \<Rightarrow> rds_instance \<Rightarrow> sharing_scope \<Rightarrow> match_decision" where
  "size_match allow_flexible r i scope =
     (let instance_engine = normalize_rds_engine (Some (ri_engine_normalized i));
          instance_license = normalize_license_model (ri_license_model i) (Some instance_engine);
          topology = instance_topology i;
          expected_multi_az = (topology = ''multi_az_instance'')
      in if supports_size_flexibility instance_engine instance_license \<and> allow_flexible then
           (case (normalized_units_for_size (rr_instance_size r), normalized_units_for_size (ri_instance_size i)) of
              (Inr _, Inr _) \<Rightarrow>
                (if rr_db_instance_class r = ri_db_instance_class i then
                   (if \<not> is_aurora instance_engine \<and> topology \<noteq> ''multi_az_cluster_member'' \<and>
                       rr_multi_az r \<noteq> expected_multi_az
                    then decision True SizeFlexible ''DEPLOYMENT_SIZE_FLEXIBILITY'' scope
                    else decision True ExactMatch ''EXACT_CLASS_MATCH'' scope)
                 else decision True SizeFlexible ''SIZE_FLEXIBILITY'' scope)
            | _ \<Rightarrow> decision False Incompatible ''UNKNOWN_CONFIGURATION'' scope)
         else if rr_db_instance_class r \<noteq> ri_db_instance_class i
           then decision False Incompatible ''SIZE_MISMATCH'' scope
         else if topology \<in> set [''multi_az_cluster'', ''multi_az_cluster_member'']
           then decision False Incompatible ''DEPLOYMENT_MISMATCH'' scope
         else if rr_multi_az r \<noteq> expected_multi_az
           then decision False Incompatible ''DEPLOYMENT_MISMATCH'' scope
         else decision True ExactMatch ''EXACT_MATCH'' scope)"

definition reservation_match ::
  "billing_scope \<Rightarrow> datetime \<Rightarrow> bool \<Rightarrow> reserved_instance \<Rightarrow> rds_instance \<Rightarrow> match_decision" where
  "reservation_match ctx at' allow_flexible r i =
     (let reservation_engine = normalize_rds_engine (Some (rr_engine_normalized r));
          instance_engine = normalize_rds_engine (Some (ri_engine_normalized i));
          scope = relationship ctx (rr_account_id r) (ri_account_id i);
          instance_license = normalize_license_model (ri_license_model i) (Some instance_engine);
          reservation_license = reservation_license_model r
      in if \<not> is_active_reservation at' r
           then decision False Incompatible ''RESERVATION_INACTIVE'' SAME_ACCOUNT
         else if rr_region r \<noteq> ri_region i
           then decision False Incompatible ''REGION_MISMATCH'' SAME_ACCOUNT
         else if reservation_engine \<noteq> instance_engine
           then decision False Incompatible ''ENGINE_MISMATCH'' SAME_ACCOUNT
         else if scope \<notin> {SAME_ACCOUNT, CROSS_ACCOUNT_VERIFIED}
           then decision False Incompatible (scope_text scope) SAME_ACCOUNT
         else if reservation_license \<noteq> [] \<and> instance_license \<noteq> [] \<and> reservation_license \<noteq> instance_license
           then decision False Incompatible ''LICENSE_MISMATCH'' scope
         else if rr_instance_family r \<noteq> ri_instance_family i
           then decision False Incompatible ''FAMILY_MISMATCH'' scope
         else if \<not> truthy (rr_instance_family r) \<or> \<not> truthy (ri_instance_family i)
           then decision False Incompatible ''UNKNOWN_CONFIGURATION'' scope
         else size_match allow_flexible r i scope)"

section \<open>What a match means\<close>

text \<open>
  What has to hold for a reservation to cover an instance, whatever the kind of the match: it is
  active, in the same region, for the same engine and family, shared with the account, and no
  license stands against it.
\<close>

definition same_kind :: "reserved_instance \<Rightarrow> rds_instance \<Rightarrow> bool" where
  "same_kind r i \<longleftrightarrow> rr_region r = ri_region i \<and>
     normalize_rds_engine (Some (rr_engine_normalized r)) =
       normalize_rds_engine (Some (ri_engine_normalized i)) \<and>
     rr_instance_family r = ri_instance_family i"

definition licenses_agree :: "reserved_instance \<Rightarrow> rds_instance \<Rightarrow> bool" where
  "licenses_agree r i \<longleftrightarrow>
     (let license = normalize_license_model (ri_license_model i)
        (Some (normalize_rds_engine (Some (ri_engine_normalized i))))
      in reservation_license_model r = [] \<or> license = [] \<or> reservation_license_model r = license)"

definition may_cover :: "billing_scope \<Rightarrow> datetime \<Rightarrow> reserved_instance \<Rightarrow> rds_instance \<Rightarrow> bool" where
  "may_cover ctx at' r i \<longleftrightarrow> is_active_reservation at' r \<and> same_kind r i \<and> licenses_agree r i \<and>
     relationship ctx (rr_account_id r) (ri_account_id i) \<in> {SAME_ACCOUNT, CROSS_ACCOUNT_VERIFIED}"

lemma decision_simps [simp]:
  "md_compatible (decision b k m c) = b" "md_match_type (decision b k m c) = k"
  "md_reason (decision b k m c) = m" "md_allocation_scope (decision b k m c) = c"
  by (simp_all add: decision_def)

lemma compatible_if:
  "md_compatible (if b then decision False k m c else x) \<longleftrightarrow> \<not> b \<and> md_compatible x"
  by simp

lemma match_compatible: "md_compatible (reservation_match ctx at' flexible r i) \<longleftrightarrow>
    may_cover ctx at' r i \<and> truthy (rr_instance_family r) \<and> truthy (ri_instance_family i) \<and>
    md_compatible (size_match flexible r i (relationship ctx (rr_account_id r) (ri_account_id i)))"
  unfolding reservation_match_def Let_def compatible_if may_cover_def same_kind_def licenses_agree_def
  by argo

lemma compatible_else:
  "md_compatible x \<longrightarrow> x = y \<Longrightarrow>
   md_compatible (if b then decision False k m c else x) \<longrightarrow> (if b then decision False k m c else x) = y"
  by simp

lemma match_eq: "md_compatible (reservation_match ctx at' flexible r i) \<longrightarrow>
    reservation_match ctx at' flexible r i =
    size_match flexible r i (relationship ctx (rr_account_id r) (ri_account_id i))"
  unfolding reservation_match_def Let_def by (intro compatible_else impI refl)

lemma size_match_cases:
  "md_compatible (size_match flexible r i scope) \<Longrightarrow>
   md_match_type (size_match flexible r i scope) = ExactMatch \<and> rr_db_instance_class r = ri_db_instance_class i \<or>
   md_match_type (size_match flexible r i scope) = SizeFlexible \<and> flexible"
  unfolding size_match_def Let_def
  by (simp split: if_splits sum.splits)

lemma match_cases:
  assumes "md_compatible (reservation_match ctx at' flexible r i)"
  shows "may_cover ctx at' r i"
    and "md_match_type (reservation_match ctx at' flexible r i) = ExactMatch \<and>
        rr_db_instance_class r = ri_db_instance_class i \<or>
      md_match_type (reservation_match ctx at' flexible r i) = SizeFlexible \<and> flexible"
proof -
  show "may_cover ctx at' r i" using assms unfolding match_compatible by blast
  note eq = match_eq [THEN mp, OF assms]
  show "md_match_type (reservation_match ctx at' flexible r i) = ExactMatch \<and>
        rr_db_instance_class r = ri_db_instance_class i \<or>
      md_match_type (reservation_match ctx at' flexible r i) = SizeFlexible \<and> flexible"
    using assms unfolding eq by (rule size_match_cases)
qed

end
