(* ===== verification/RdsEngine.thy ===== *)
theory RdsEngine
  imports RdsRules
begin

text \<open>
  The coverage engine (backend/app/services/rds_reservation_engine.py).  Each eligible instance
  is a demand and each active reservation a capacity, both in a fixed order; a demand is served
  from the capacities of its pool (region, engine, family), first by exact matches, then by size
  flexibility.  The objects the loops mutate are the demands and the capacities: a phase takes
  and returns both lists.
\<close>

section \<open>Demands and capacities\<close>

text \<open>\<open>str(exc)\<close> of the one exception the constructors catch.\<close>

fun unknown_text :: "error \<Rightarrow> string" where
  "unknown_text (UnknownRdsConfiguration m) = m"
| "unknown_text _ = []"

definition make_demand :: "rds_instance \<Rightarrow> instance_demand" where
  "make_demand row = (case instance_required_units row of
     Inr (required, calculation_method) \<Rightarrow> \<lparr>dm_row = row, dm_required_units = required,
       dm_remaining_units = required, dm_calculation_method = calculation_method,
       dm_unknown_reason = None, dm_allocations = []\<rparr>
   | Inl e \<Rightarrow> \<lparr>dm_row = row, dm_required_units = 0, dm_remaining_units = 0,
       dm_calculation_method = ''UNKNOWN'', dm_unknown_reason = Some (unknown_text e),
       dm_allocations = []\<rparr>)"

definition make_capacity :: "reserved_instance \<Rightarrow> reservation_capacity" where
  "make_capacity row = (case reservation_total_units row of
     Inr (units, calculation_method) \<Rightarrow> \<lparr>cy_row = row, cy_total_units = units,
       cy_remaining_units = units, cy_calculation_method = calculation_method,
       cy_unknown_reason = None\<rparr>
   | Inl e \<Rightarrow> \<lparr>cy_row = row, cy_total_units = 0, cy_remaining_units = 0,
       cy_calculation_method = ''UNKNOWN'', cy_unknown_reason = Some (unknown_text e)\<rparr>)"

definition instance_pool_key :: "rds_instance \<Rightarrow> string \<times> string \<times> string option" where
  "instance_pool_key i =
     (ri_region i, normalize_rds_engine (Some (ri_engine_normalized i)), ri_instance_family i)"

definition reservation_pool_key :: "reserved_instance \<Rightarrow> string \<times> string \<times> string option" where
  "reservation_pool_key r =
     (rr_region r, normalize_rds_engine (Some (rr_engine_normalized r)), rr_instance_family r)"

definition demand_sort_key :: "instance_demand \<Rightarrow> string \<times> string \<times> string \<times> string \<times> string" where
  "demand_sort_key d = (let row = dm_row d in (ri_account_id row, ri_region row,
     ri_engine_normalized row, ri_db_instance_class row, ri_db_instance_identifier row))"

definition capacity_sort_key :: "reservation_capacity \<Rightarrow> string \<times> string \<times> string \<times> string \<times> string" where
  "capacity_sort_key c = (let row = cy_row c in (rr_account_id row, rr_region row,
     rr_engine_normalized row, rr_db_instance_class row, rr_reserved_db_instance_id row))"

section \<open>Allocation\<close>

definition allocate ::
  "reservation_capacity \<Rightarrow> instance_demand \<Rightarrow> match_decision \<Rightarrow>
   reservation_capacity \<times> instance_demand \<times> allocation" where
  "allocate c d m =
     (let units = min (cy_remaining_units c) (dm_remaining_units d);
          a = \<lparr>a_reservation = cy_row c, a_instance = dm_row d, a_units = units,
               a_match_type = md_match_type m, a_allocation_scope = md_allocation_scope m,
               a_reason = md_reason m\<rparr>
      in (c\<lparr>cy_remaining_units := cy_remaining_units c - units\<rparr>,
          d\<lparr>dm_remaining_units := dm_remaining_units d - units,
            dm_allocations := dm_allocations d @ [a]\<rparr>, a))"

text \<open>
  The bodies of the two loops over a pool up to the call of \<open>_allocate\<close>: \<open>None\<close> is
  \<open>continue\<close>.
\<close>

type_synonym acceptance = "reserved_instance \<Rightarrow> rds_instance \<Rightarrow> match_decision option"
type_synonym attempt = "reservation_capacity \<Rightarrow> instance_demand \<Rightarrow> match_decision option"

definition exact_decision :: "billing_scope \<Rightarrow> datetime \<Rightarrow> acceptance" where
  "exact_decision ctx at' r i =
     (if rr_db_instance_class r \<noteq> ri_db_instance_class i then None
      else
        (let strict = reservation_match ctx at' False r i;
             flexible = reservation_match ctx at' True r i
         in if md_compatible strict then Some strict
            else if \<not> md_compatible flexible \<or> md_match_type flexible \<noteq> ExactMatch then None
            else Some flexible))"

definition flexible_decision :: "billing_scope \<Rightarrow> datetime \<Rightarrow> acceptance" where
  "flexible_decision ctx at' r i =
     (let flexible = reservation_match ctx at' True r i
      in if \<not> md_compatible flexible \<or> md_match_type flexible \<noteq> SizeFlexible then None
         else Some flexible)"

definition attempt_with :: "acceptance \<Rightarrow> attempt" where
  "attempt_with decide c d =
     (if truthy (cy_unknown_reason c) \<or> cy_remaining_units c \<le> 0 then None
      else decide (cy_row c) (dm_row d))"

definition exact_attempt :: "billing_scope \<Rightarrow> datetime \<Rightarrow> attempt" where
  "exact_attempt ctx at' = attempt_with (exact_decision ctx at')"

definition flexible_attempt :: "billing_scope \<Rightarrow> datetime \<Rightarrow> attempt" where
  "flexible_attempt ctx at' = attempt_with (flexible_decision ctx at')"

text \<open>\<open>for capacity in capacity_pools.get(pool_key(demand), [])\<close>, with its \<open>break\<close>.\<close>

fun serve_demand ::
  "attempt \<Rightarrow> instance_demand \<Rightarrow> reservation_capacity list \<Rightarrow>
   instance_demand \<times> reservation_capacity list \<times> allocation list" where
  "serve_demand try_match d [] = (d, [], [])"
| "serve_demand try_match d (c # cs) =
     (if reservation_pool_key (cy_row c) \<noteq> instance_pool_key (dm_row d) then
        (let (d', cs', allocs) = serve_demand try_match d cs in (d', c # cs', allocs))
      else
        (case try_match c d of
           None \<Rightarrow> (let (d', cs', allocs) = serve_demand try_match d cs in (d', c # cs', allocs))
         | Some m \<Rightarrow>
             (let (c1, d1, a) = allocate c d m
              in if dm_remaining_units d1 \<le> 0 then (d1, c1 # cs, [a])
                 else (let (d', cs', allocs) = serve_demand try_match d1 cs
                       in (d', c1 # cs', a # allocs)))))"

text \<open>\<open>for demand in demands\<close>.\<close>

fun allocation_phase ::
  "attempt \<Rightarrow> instance_demand list \<Rightarrow> reservation_capacity list \<Rightarrow>
   instance_demand list \<times> reservation_capacity list \<times> allocation list" where
  "allocation_phase try_match [] cs = ([], cs, [])"
| "allocation_phase try_match (d # ds) cs =
     (if truthy (dm_unknown_reason d) \<or> dm_remaining_units d \<le> 0 then
        (let (ds', cs', allocs) = allocation_phase try_match ds cs in (d # ds', cs', allocs))
      else
        (let (d', cs1, allocs1) = serve_demand try_match d cs;
             (ds', cs2, allocs2) = allocation_phase try_match ds cs1
         in (d' # ds', cs2, allocs1 @ allocs2)))"

section \<open>Results\<close>

definition coverage_result :: "instance_demand \<Rightarrow> instance_coverage_result" where
  "coverage_result d =
     (if truthy (dm_unknown_reason d) then
        \<lparr>ic_instance = dm_row d, ic_required_units = 0, ic_covered_units = 0,
         ic_uncovered_units = 0, ic_coverage_percentage = 0, ic_coverage_status = COVERAGE_UNKNOWN,
         ic_coverage_scope = UNKNOWN_SCOPE, ic_calculation_method = ''UNKNOWN'', ic_allocations = [],
         ic_explanation = JObj [(''reason'', JStr ''UNKNOWN_CONFIGURATION''),
           (''detail'', jopt (dm_unknown_reason d))]\<rparr>
      else
        (let covered = dm_required_units d - dm_remaining_units d;
             uncovered = max 0 (dm_remaining_units d);
             scopes = map a_allocation_scope (dm_allocations d)
         in \<lparr>ic_instance = dm_row d, ic_required_units = dm_required_units d,
             ic_covered_units = covered, ic_uncovered_units = uncovered,
             ic_coverage_percentage = safe_percentage covered (dm_required_units d),
             ic_coverage_status = (if covered \<le> 0 then COVERAGE_UNCOVERED
               else if uncovered \<le> 0 then COVERAGE_FULL else COVERAGE_PARTIAL),
             ic_coverage_scope = (if scopes = [] then SAME_ACCOUNT
               else if CROSS_ACCOUNT_VERIFIED \<in> set scopes then CROSS_ACCOUNT_VERIFIED
               else SAME_ACCOUNT),
             ic_calculation_method = dm_calculation_method d, ic_allocations = dm_allocations d,
             ic_explanation = JObj [(''topology'', JStr (instance_topology (dm_row d))),
               (''engine'', JStr (ri_engine_normalized (dm_row d))),
               (''family'', jopt (ri_instance_family (dm_row d))),
               (''size'', jopt (ri_instance_size (dm_row d))),
               (''allocation_count'', JInt (int (length (dm_allocations d))))]\<rparr>))"

definition allocated_by_reservation :: "allocation list \<Rightarrow> int \<Rightarrow> decimal" where
  "allocated_by_reservation allocs i =
     sum_list (map a_units (filter (\<lambda>a. rr_id (a_reservation a) = i) allocs))"

definition utilization_result_of :: "reservation_capacity \<Rightarrow> decimal \<Rightarrow> utilization_result" where
  "utilization_result_of c allocated =
     (if truthy (cy_unknown_reason c) then
        \<lparr>ut_reservation = cy_row c, ut_total_units = 0, ut_allocated_units = 0, ut_unused_units = 0,
         ut_utilization_percentage = 0\<rparr>
      else
        \<lparr>ut_reservation = cy_row c, ut_total_units = cy_total_units c,
         ut_allocated_units = allocated, ut_unused_units = max 0 (cy_total_units c - allocated),
         ut_utilization_percentage = safe_percentage allocated (cy_total_units c)\<rparr>)"

definition assert_instance :: "instance_coverage_result \<Rightarrow> unit result" where
  "assert_instance r =
     andThen (guard (ic_covered_units r \<le> ic_required_units r)
       (AssertionError ''covered_units cannot exceed required_units'')) (\<lambda>_.
     andThen (guard (0 \<le> ic_uncovered_units r)
       (AssertionError ''uncovered_units cannot be negative'')) (\<lambda>_.
     guard (0 \<le> ic_coverage_percentage r \<and> ic_coverage_percentage r \<le> 100)
       (AssertionError ''coverage_percentage is outside [0, 100]'')))"

definition assert_reservation :: "allocation list \<Rightarrow> utilization_result \<Rightarrow> unit result" where
  "assert_reservation allocs r =
     andThen (guard (ut_allocated_units r \<le> ut_total_units r)
       (AssertionError ''allocated_units cannot exceed reserved_units'')) (\<lambda>_.
     andThen (guard (0 \<le> ut_unused_units r)
       (AssertionError ''unused_units cannot be negative'')) (\<lambda>_.
     andThen (guard (0 \<le> ut_utilization_percentage r \<and> ut_utilization_percentage r \<le> 100)
       (AssertionError ''utilization_percentage is outside [0, 100]'')) (\<lambda>_.
     guard (allocated_by_reservation allocs (rr_id (ut_reservation r)) \<le> ut_total_units r)
       (AssertionError ''sum(allocations) cannot exceed reservation capacity''))))"

definition assert_invariants ::
  "instance_coverage_result list \<Rightarrow> utilization_result list \<Rightarrow> allocation list \<Rightarrow> unit result" where
  "assert_invariants instances reservations allocs =
     andThen (fold_result (\<lambda>r _. assert_instance r) instances ()) (\<lambda>_.
     fold_result (\<lambda>r _. assert_reservation allocs r) reservations ())"

definition analyze ::
  "billing_scope \<Rightarrow> rds_instance list \<Rightarrow> reserved_instance list \<Rightarrow> datetime \<Rightarrow> coverage_analysis result" where
  "analyze ctx instances reservations at' =
     (let demands = sort_key demand_sort_key (map make_demand (filter (\<lambda>row. ri_is_active row \<and>
            is_reservation_coverage_eligible_instance row) instances));
          capacities = sort_key capacity_sort_key (map make_capacity (filter (is_active_reservation at')
            reservations));
          (demands1, capacities1, exact_allocs) =
            allocation_phase (exact_attempt ctx at') demands capacities;
          (demands2, capacities2, flexible_allocs) =
            allocation_phase (flexible_attempt ctx at') demands1 capacities1;
          allocs = exact_allocs @ flexible_allocs;
          instance_results = map coverage_result demands2;
          reservation_results = map (\<lambda>c. utilization_result_of c
            (allocated_by_reservation allocs (rr_id (cy_row c)))) capacities2
      in andThen (assert_invariants instance_results reservation_results allocs) (\<lambda>_.
         Inr \<lparr>an_instances = instance_results, an_reservations = reservation_results,
              an_allocations = allocs\<rparr>))"

section \<open>What a phase allocates\<close>

text \<open>The demands and capacities after a list of allocations.\<close>

definition spend :: "allocation list \<Rightarrow> reservation_capacity \<Rightarrow> reservation_capacity" where
  "spend allocs c = c\<lparr>cy_remaining_units :=
     cy_remaining_units c - allocated_by_reservation allocs (rr_id (cy_row c))\<rparr>"

definition received :: "allocation list \<Rightarrow> int \<Rightarrow> allocation list" where
  "received allocs i = filter (\<lambda>a. ri_id (a_instance a) = i) allocs"

definition units_of :: "allocation list \<Rightarrow> decimal" where
  "units_of allocs = sum_list (map a_units allocs)"

definition grant :: "allocation list \<Rightarrow> instance_demand \<Rightarrow> instance_demand" where
  "grant allocs d =
     (let mine = received allocs (ri_id (dm_row d))
      in d\<lparr>dm_remaining_units := dm_remaining_units d - units_of mine,
           dm_allocations := dm_allocations d @ mine\<rparr>)"

text \<open>The reservations and the instances whose units are known.\<close>

definition open_rows :: "reservation_capacity list \<Rightarrow> reserved_instance set" where
  "open_rows cs = set (map cy_row (filter (\<lambda>c. \<not> truthy (cy_unknown_reason c)) cs))"

definition known_rows :: "instance_demand list \<Rightarrow> rds_instance set" where
  "known_rows ds = set (map dm_row (filter (\<lambda>d. \<not> truthy (dm_unknown_reason d)) ds))"

lemma open_rows_Cons: "open_rows cs \<subseteq> open_rows (c # cs)"
  by (auto simp: open_rows_def)

definition valid_allocation :: "acceptance \<Rightarrow> rds_instance set \<Rightarrow> reserved_instance set \<Rightarrow> allocation \<Rightarrow> bool" where
  "valid_allocation decide instances reservations a \<longleftrightarrow>
     a_instance a \<in> instances \<and> a_reservation a \<in> reservations \<and> 0 < a_units a \<and>
     reservation_pool_key (a_reservation a) = instance_pool_key (a_instance a) \<and>
     (\<exists>m. decide (a_reservation a) (a_instance a) = Some m \<and> a_match_type a = md_match_type m \<and>
        a_allocation_scope a = md_allocation_scope m \<and> a_reason a = md_reason m)"

lemma units_of_simps [simp]:
  "units_of [] = 0" "units_of (a # xs) = a_units a + units_of xs"
  "units_of (xs @ ys) = units_of xs + units_of ys"
  by (simp_all add: units_of_def)

lemma units_of_nonneg: "(\<And>a. a \<in> set allocs \<Longrightarrow> 0 \<le> a_units a) \<Longrightarrow> 0 \<le> units_of allocs"
  unfolding units_of_def by (rule sum_list_nonneg) auto

lemma allocated_by_simps [simp]:
  "allocated_by_reservation [] i = 0"
  "allocated_by_reservation (a # xs) i =
     (if rr_id (a_reservation a) = i then a_units a else 0) + allocated_by_reservation xs i"
  "allocated_by_reservation (xs @ ys) i = allocated_by_reservation xs i + allocated_by_reservation ys i"
  by (simp_all add: allocated_by_reservation_def)

lemma allocated_by_none:
  "(\<And>a. a \<in> set allocs \<Longrightarrow> rr_id (a_reservation a) \<noteq> i) \<Longrightarrow> allocated_by_reservation allocs i = 0"
  by (induction allocs) auto

lemma allocated_by_nonneg:
  "(\<And>a. a \<in> set allocs \<Longrightarrow> 0 \<le> a_units a) \<Longrightarrow> 0 \<le> allocated_by_reservation allocs i"
  by (induction allocs) auto

lemma spend_simps [simp]:
  "cy_row (spend allocs c) = cy_row c" "cy_total_units (spend allocs c) = cy_total_units c"
  "cy_unknown_reason (spend allocs c) = cy_unknown_reason c"
  "cy_calculation_method (spend allocs c) = cy_calculation_method c"
  "cy_remaining_units (spend allocs c) =
     cy_remaining_units c - allocated_by_reservation allocs (rr_id (cy_row c))"
  by (simp_all add: spend_def)

lemma open_rows_spend [simp]: "open_rows (map (spend allocs) cs) = open_rows cs"
  by (simp add: open_rows_def filter_map comp_def)

lemma spend_append: "spend ys (spend xs c) = spend (xs @ ys) c"
  by (simp add: spend_def)

lemma spend_Nil [simp]: "spend [] c = c"
  by (simp add: spend_def)

lemma spend_none: "(\<And>a. a \<in> set allocs \<Longrightarrow> rr_id (a_reservation a) \<noteq> rr_id (cy_row c)) \<Longrightarrow> spend allocs c = c"
  by (simp add: spend_def allocated_by_none)

lemma grant_simps [simp]:
  "dm_row (grant allocs d) = dm_row d" "dm_required_units (grant allocs d) = dm_required_units d"
  "dm_unknown_reason (grant allocs d) = dm_unknown_reason d"
  "dm_calculation_method (grant allocs d) = dm_calculation_method d"
  "dm_remaining_units (grant allocs d) =
     dm_remaining_units d - units_of (received allocs (ri_id (dm_row d)))"
  "dm_allocations (grant allocs d) = dm_allocations d @ received allocs (ri_id (dm_row d))"
  by (simp_all add: grant_def Let_def)

lemma known_rows_grant [simp]: "known_rows (map (grant allocs) ds) = known_rows ds"
  by (simp add: known_rows_def filter_map comp_def)

lemma grant_append: "grant ys (grant xs d) = grant (xs @ ys) d"
  by (simp add: grant_def received_def Let_def)

lemma received_none: "(\<And>a. a \<in> set allocs \<Longrightarrow> ri_id (a_instance a) \<noteq> i) \<Longrightarrow> received allocs i = []"
  by (simp add: received_def filter_empty_conv)

lemma received_all: "(\<And>a. a \<in> set allocs \<Longrightarrow> ri_id (a_instance a) = i) \<Longrightarrow> received allocs i = allocs"
  by (simp add: received_def)

lemma grant_none: "(\<And>a. a \<in> set allocs \<Longrightarrow> ri_id (a_instance a) \<noteq> ri_id (dm_row d)) \<Longrightarrow> grant allocs d = d"
  by (simp add: grant_def received_none Let_def)

text \<open>
  What the loops rely on: a decision never crosses a pool.
\<close>

locale pooled =
  fixes decide :: acceptance
  assumes same_pool: "decide r i = Some m \<Longrightarrow> reservation_pool_key r = instance_pool_key i"
begin

abbreviation "serve \<equiv> serve_demand (attempt_with decide)"
abbreviation "phase \<equiv> allocation_phase (attempt_with decide)"

text \<open>A capacity the demand can still take from.\<close>

definition pending :: "instance_demand \<Rightarrow> reservation_capacity \<Rightarrow> bool" where
  "pending d c \<longleftrightarrow> \<not> truthy (dm_unknown_reason d) \<and> \<not> truthy (cy_unknown_reason c) \<and>
     0 < dm_remaining_units d \<and> 0 < cy_remaining_units c \<and> decide (cy_row c) (dm_row d) \<noteq> None"

definition served :: "instance_demand \<Rightarrow> reservation_capacity list \<Rightarrow>
    instance_demand \<times> reservation_capacity list \<times> allocation list \<Rightarrow> bool" where
  "served d cs r \<longleftrightarrow> (case r of (d', cs', allocs) \<Rightarrow>
     d' = d\<lparr>dm_remaining_units := dm_remaining_units d - units_of allocs,
            dm_allocations := dm_allocations d @ allocs\<rparr> \<and>
     cs' = map (spend allocs) cs \<and> 0 \<le> dm_remaining_units d' \<and>
     (\<forall>c \<in> set cs'. 0 \<le> cy_remaining_units c) \<and>
     (\<forall>a \<in> set allocs. valid_allocation decide {dm_row d} (open_rows cs) a) \<and>
     (\<forall>c \<in> set cs'. \<not> pending d' c))"

lemma servedD:
  assumes "served d cs (d', cs', allocs)"
  shows "d' = d\<lparr>dm_remaining_units := dm_remaining_units d - units_of allocs,
      dm_allocations := dm_allocations d @ allocs\<rparr>"
    and "cs' = map (spend allocs) cs" "0 \<le> dm_remaining_units d'"
    and "c \<in> set cs' \<Longrightarrow> 0 \<le> cy_remaining_units c" "c \<in> set cs' \<Longrightarrow> \<not> pending d' c"
    and "\<forall>a \<in> set allocs. valid_allocation decide {dm_row d} (open_rows cs) a"
  using assms unfolding served_def prod.case by blast+

lemma servedI:
  assumes "d' = d\<lparr>dm_remaining_units := dm_remaining_units d - units_of allocs,
      dm_allocations := dm_allocations d @ allocs\<rparr>"
    and "cs' = map (spend allocs) cs" "0 \<le> dm_remaining_units d'"
    and "\<And>c. c \<in> set cs' \<Longrightarrow> 0 \<le> cy_remaining_units c" "\<And>c. c \<in> set cs' \<Longrightarrow> \<not> pending d' c"
    and "\<forall>a \<in> set allocs. valid_allocation decide {dm_row d} (open_rows cs) a"
  shows "served d cs (d', cs', allocs)"
  unfolding served_def prod.case using assms by blast

lemma valid_mono: "valid_allocation decide X Y a \<Longrightarrow> X \<subseteq> X' \<Longrightarrow> Y \<subseteq> Y' \<Longrightarrow> valid_allocation decide X' Y' a"
  by (auto simp: valid_allocation_def)

lemma valid_units: "valid_allocation decide X Y a \<Longrightarrow> 0 < a_units a"
  by (simp add: valid_allocation_def)

lemma spend_later:
  assumes "rr_id (cy_row c) \<notin> rr_id ` cy_row ` set cs"
    and "\<forall>a \<in> set allocs. valid_allocation decide X (open_rows cs) a"
  shows "spend allocs c = c"
proof (rule spend_none)
  fix a assume "a \<in> set allocs"
  with assms(2) have "a_reservation a \<in> open_rows cs" by (simp add: valid_allocation_def)
  then have "a_reservation a \<in> cy_row ` set cs" by (auto simp: open_rows_def)
  with assms(1) show "rr_id (a_reservation a) \<noteq> rr_id (cy_row c)" by (metis imageI)
qed

lemma valid_Cons:
  "\<forall>a \<in> set allocs. valid_allocation decide X (open_rows cs) a \<Longrightarrow>
   \<forall>a \<in> set allocs. valid_allocation decide X (open_rows (c # cs)) a"
  using valid_mono [of X "open_rows cs" _ X, OF _ subset_refl open_rows_Cons] by blast

lemma served_skip:
  assumes "served d cs (d', cs', allocs)" "rr_id (cy_row c) \<notin> rr_id ` cy_row ` set cs"
    and "0 \<le> cy_remaining_units c" "\<not> pending d' c"
  shows "served d (c # cs) (d', c # cs', allocs)"
proof -
  from assms(1) have v: "\<forall>a \<in> set allocs. valid_allocation decide {dm_row d} (open_rows cs) a"
    by (simp add: served_def)
  from valid_Cons [OF v, of c] have "\<forall>a \<in> set allocs. valid_allocation decide {dm_row d} (open_rows (c # cs)) a" .
  with spend_later [OF assms(2) v] assms(1,3,4) show ?thesis
    unfolding served_def prod.case by (elim conjE) (intro conjI; simp)
qed

text \<open>A pair that is done stays done: remaining units only shrink.\<close>

lemma pending_mono:
  assumes "pending d' c'" "dm_row d' = dm_row d" "cy_row c' = cy_row c"
    and "dm_unknown_reason d' = dm_unknown_reason d" "cy_unknown_reason c' = cy_unknown_reason c"
    and "dm_remaining_units d' \<le> dm_remaining_units d" "cy_remaining_units c' \<le> cy_remaining_units c"
  shows "pending d c"
  using assms by (simp add: pending_def)

lemma served_demand:
  assumes "served d cs (d', cs', allocs)"
  shows "dm_row d' = dm_row d" "dm_unknown_reason d' = dm_unknown_reason d"
    "dm_remaining_units d' \<le> dm_remaining_units d"
proof -
  have d': "d' = d\<lparr>dm_remaining_units := dm_remaining_units d - units_of allocs,
      dm_allocations := dm_allocations d @ allocs\<rparr>" and
    v: "\<forall>a \<in> set allocs. valid_allocation decide {dm_row d} (open_rows cs) a"
    using assms by (simp_all add: served_def)
  have "0 \<le> units_of allocs" using v valid_units by (intro units_of_nonneg) (metis less_imp_le)
  then show "dm_row d' = dm_row d" "dm_unknown_reason d' = dm_unknown_reason d"
    "dm_remaining_units d' \<le> dm_remaining_units d"
    unfolding d' by simp_all
qed

lemma serve_idle:
  assumes "serve d (c # cs) = (let (d', cs', allocs) = serve d cs in (d', c # cs', allocs))"
    and "\<not> pending d c" "served d cs (serve d cs)"
    and "rr_id (cy_row c) \<notin> rr_id ` cy_row ` set cs" "0 \<le> cy_remaining_units c"
  shows "served d (c # cs) (serve d (c # cs))"
proof -
  obtain d' cs' allocs where r: "serve d cs = (d', cs', allocs)" by (cases "serve d cs")
  from assms(3) have sv: "served d cs (d', cs', allocs)" by (simp only: r)
  have "\<not> pending d' c" using pending_mono [of d' c d c] served_demand [OF sv] assms(2) by auto
  from served_skip [OF sv assms(4,5) this] show ?thesis unfolding assms(1) r by simp
qed

lemma allocate_facts:
  assumes "allocate c d m = (c1, d1, a)" "0 < dm_remaining_units d" "0 < cy_remaining_units c"
    and "decide (cy_row c) (dm_row d) = Some m" "\<not> truthy (cy_unknown_reason c)"
  shows "d1 = d\<lparr>dm_remaining_units := dm_remaining_units d - a_units a,
      dm_allocations := dm_allocations d @ [a]\<rparr>"
    and "c1 = spend [a] c" "0 \<le> dm_remaining_units d1" "0 \<le> cy_remaining_units c1"
    and "valid_allocation decide {dm_row d} (open_rows (c # cs)) a" "a_reservation a = cy_row c"
    and "dm_remaining_units d1 \<le> 0 \<or> cy_remaining_units c1 \<le> 0"
  using assms same_pool [OF assms(4)]
  by (auto simp: allocate_def Let_def spend_def valid_allocation_def min_def open_rows_def)

lemma serve_served:
  assumes "distinct (map (\<lambda>c. rr_id (cy_row c)) cs)" "\<forall>c \<in> set cs. 0 \<le> cy_remaining_units c"
    and "\<not> truthy (dm_unknown_reason d)" "0 < dm_remaining_units d"
  shows "served d cs (serve d cs)"
  using assms
proof (induction cs arbitrary: d)
  case Nil
  then show ?case by (simp add: served_def)
next
  case (Cons c cs)
  from Cons.prems have rest: "distinct (map (\<lambda>c. rr_id (cy_row c)) cs)" "\<forall>c \<in> set cs. 0 \<le> cy_remaining_units c"
    and c: "0 \<le> cy_remaining_units c" and new: "rr_id (cy_row c) \<notin> rr_id ` cy_row ` set cs"
    by (auto simp: image_image)
  note IH = Cons.IH [OF rest]
  show ?case
  proof (cases "reservation_pool_key (cy_row c) = instance_pool_key (dm_row d) \<and> attempt_with decide c d \<noteq> None")
    case False
    then have "serve d (c # cs) = (let (d', cs', allocs) = serve d cs in (d', c # cs', allocs))" by auto
    moreover have "\<not> pending d c"
      using False same_pool by (auto simp: pending_def attempt_with_def split: if_splits)
    ultimately show ?thesis using IH [OF Cons.prems(3,4)] new c by (rule serve_idle)
  next
    case True
    then obtain m where m: "attempt_with decide c d = Some m" by auto
    then have go: "0 < cy_remaining_units c" "decide (cy_row c) (dm_row d) = Some m"
      "\<not> truthy (cy_unknown_reason c)"
      by (auto simp: attempt_with_def split: if_splits)
    obtain c1 d1 a where al: "allocate c d m = (c1, d1, a)" by (cases "allocate c d m")
    note f = allocate_facts [OF al Cons.prems(4) go]
    have keep: "spend [a] x = x" if "x \<in> set cs" for x
      using new that f(6) by (intro spend_none) force
    show ?thesis
    proof (cases "dm_remaining_units d1 \<le> 0")
      case full: True
      then have "serve d (c # cs) = (d1, c1 # cs, [a])" using True m al by simp
      moreover have "map (spend [a]) (c # cs) = c1 # cs" using keep f(2) by (simp add: map_idI)
      moreover have "valid_allocation decide {dm_row d} (open_rows (c # cs)) a"
        by (rule f(5))
      moreover have "\<not> pending d1 x" for x using full by (simp add: pending_def)
      ultimately show ?thesis using f(1-4) rest(2) unfolding served_def by simp
    next
      case more: False
      obtain d' cs' allocs where r: "serve d1 cs = (d', cs', allocs)" by (cases "serve d1 cs")
      have step: "serve d (c # cs) = (d', c1 # cs', a # allocs)" using True m al more r by simp
      have "served d1 cs (d', cs', allocs)"
        using IH [of d1] Cons.prems(3) f(1) more r by simp
      then have sv: "served d1 cs (d', cs', allocs)" .
      then have v: "\<forall>a \<in> set allocs. valid_allocation decide {dm_row d} (open_rows cs) a"
        using f(1) by (simp add: served_def)
      have "spend (a # allocs) c = c1"
      proof -
        have "rr_id (cy_row c1) \<notin> rr_id ` cy_row ` set cs" using new f(2) by simp
        from spend_later [OF this v] spend_append [of allocs "[a]" c] f(2) show ?thesis by simp
      qed
      moreover have "map (spend (a # allocs)) cs = map (spend allocs) cs"
        using keep spend_append [of allocs "[a]"] by (metis append_Cons append_Nil map_eq_conv)
      moreover have "valid_allocation decide {dm_row d} (open_rows (c # cs)) a"
        by (rule f(5))
      moreover have "\<not> pending d' c1"
        using f(7) more served_demand [OF sv] by (auto simp: pending_def)
      ultimately show ?thesis unfolding step using valid_Cons [OF v, of c] servedD [OF sv] f(1,4)
        by (intro servedI) (auto simp: algebra_simps)
    qed
  qed
qed

text \<open>A whole phase.\<close>

definition phased :: "instance_demand list \<Rightarrow> reservation_capacity list \<Rightarrow>
    instance_demand list \<times> reservation_capacity list \<times> allocation list \<Rightarrow> bool" where
  "phased ds cs r \<longleftrightarrow> (case r of (ds', cs', allocs) \<Rightarrow>
     ds' = map (grant allocs) ds \<and> cs' = map (spend allocs) cs \<and>
     (\<forall>d \<in> set ds'. 0 \<le> dm_remaining_units d) \<and> (\<forall>c \<in> set cs'. 0 \<le> cy_remaining_units c) \<and>
     (\<forall>a \<in> set allocs. valid_allocation decide (known_rows ds) (open_rows cs) a) \<and>
     (\<forall>d \<in> set ds'. \<forall>c \<in> set cs'. \<not> pending d c))"

lemma phasedD:
  assumes "phased ds cs (ds', cs', allocs)"
  shows "ds' = map (grant allocs) ds" "cs' = map (spend allocs) cs"
    and "d \<in> set ds' \<Longrightarrow> 0 \<le> dm_remaining_units d" "c \<in> set cs' \<Longrightarrow> 0 \<le> cy_remaining_units c"
    and "a \<in> set allocs \<Longrightarrow> valid_allocation decide (known_rows ds) (open_rows cs) a"
    and "d \<in> set ds' \<Longrightarrow> c \<in> set cs' \<Longrightarrow> \<not> pending d c"
  using assms unfolding phased_def prod.case by blast+

lemma phasedI:
  assumes "ds' = map (grant allocs) ds" "cs' = map (spend allocs) cs"
    and "\<And>d. d \<in> set ds' \<Longrightarrow> 0 \<le> dm_remaining_units d" "\<And>c. c \<in> set cs' \<Longrightarrow> 0 \<le> cy_remaining_units c"
    and "\<And>a. a \<in> set allocs \<Longrightarrow> valid_allocation decide (known_rows ds) (open_rows cs) a"
    and "\<And>d c. d \<in> set ds' \<Longrightarrow> c \<in> set cs' \<Longrightarrow> \<not> pending d c"
  shows "phased ds cs (ds', cs', allocs)"
  unfolding phased_def prod.case using assms by blast

lemma known_rows_Cons: "known_rows ds \<subseteq> known_rows (d # ds)"
  by (auto simp: known_rows_def)

lemma grant_later:
  assumes "ri_id (dm_row d) \<notin> ri_id ` dm_row ` set ds"
    and "\<And>a. a \<in> set allocs \<Longrightarrow> valid_allocation decide (known_rows ds) Y a"
  shows "grant allocs d = d"
proof (rule grant_none)
  fix a assume "a \<in> set allocs"
  from assms(2) [OF this] have "a_instance a \<in> known_rows ds" by (simp add: valid_allocation_def)
  then have "a_instance a \<in> dm_row ` set ds" by (auto simp: known_rows_def)
  with assms(1) show "ri_id (a_instance a) \<noteq> ri_id (dm_row d)" by (metis imageI)
qed

lemma spend_less:
  "(\<And>a. a \<in> set allocs \<Longrightarrow> valid_allocation decide X Y a) \<Longrightarrow>
   cy_remaining_units (spend allocs c) \<le> cy_remaining_units c"
proof -
  assume v: "\<And>a. a \<in> set allocs \<Longrightarrow> valid_allocation decide X Y a"
  have "0 \<le> allocated_by_reservation allocs (rr_id (cy_row c))"
    by (rule allocated_by_nonneg) (rule less_imp_le [OF valid_units [OF v]])
  then show ?thesis by simp
qed

lemma phase_phased:
  assumes "distinct (map (\<lambda>d. ri_id (dm_row d)) ds)" "distinct (map (\<lambda>c. rr_id (cy_row c)) cs)"
    and "\<And>d. d \<in> set ds \<Longrightarrow> 0 \<le> dm_remaining_units d" "\<And>c. c \<in> set cs \<Longrightarrow> 0 \<le> cy_remaining_units c"
  shows "phased ds cs (phase ds cs)"
  using assms
proof (induction ds arbitrary: cs)
  case Nil
  then show ?case by (simp add: phased_def map_idI)
next
  case (Cons d ds)
  from Cons.prems(1) have ids: "distinct (map (\<lambda>d. ri_id (dm_row d)) ds)"
    and new: "ri_id (dm_row d) \<notin> ri_id ` dm_row ` set ds" by (auto simp: image_image)
  have nonneg: "x \<in> set ds \<Longrightarrow> 0 \<le> dm_remaining_units x" for x using Cons.prems(3) by simp
  note IH = Cons.IH [OF ids _ nonneg]
  show ?case
  proof (cases "truthy (dm_unknown_reason d) \<or> dm_remaining_units d \<le> 0")
    case True
    obtain ds' cs' allocs where r: "phase ds cs = (ds', cs', allocs)" by (cases "phase ds cs")
    have "phased ds cs (phase ds cs)" by (rule IH) (use Cons.prems(2,4) in simp_all)
    then have ph: "phased ds cs (ds', cs', allocs)" by (simp only: r)
    have "grant allocs d = d" by (rule grant_later [OF new phasedD(5) [OF ph]])
    moreover have "\<not> pending d c" for c using True by (auto simp: pending_def)
    moreover have "valid_allocation decide (known_rows (d # ds)) (open_rows cs) a" if "a \<in> set allocs" for a
      by (rule valid_mono [OF phasedD(5) [OF ph that] known_rows_Cons subset_refl])
    ultimately have "phased (d # ds) cs (d # ds', cs', allocs)"
      using phasedD [OF ph] Cons.prems(3) by (intro phasedI) auto
    with True r show ?thesis by simp
  next
    case False
    obtain d' cs1 xs where s: "serve d cs = (d', cs1, xs)" by (cases "serve d cs")
    have sv: "served d cs (d', cs1, xs)"
      using serve_served [OF Cons.prems(2)] Cons.prems(4) False s by (metis not_le)
    note sv' = servedD [OF sv]
    obtain ds' cs2 ys where r: "phase ds cs1 = (ds', cs2, ys)" by (cases "phase ds cs1")
    have "phased ds cs1 (phase ds cs1)"
      by (rule IH) (use Cons.prems(2) sv'(2,4) in \<open>simp_all add: comp_def\<close>)
    then have ph: "phased ds cs1 (ds', cs2, ys)" by (simp only: r)
    have known: "dm_row d \<in> known_rows (d # ds)" using False by (simp add: known_rows_def)
    have xs: "valid_allocation decide (known_rows (d # ds)) (open_rows cs) a" "a_instance a = dm_row d"
      if "a \<in> set xs" for a
      using valid_mono [of "{dm_row d}" "open_rows cs" a "known_rows (d # ds)"] sv'(6) that known
      by (auto simp: valid_allocation_def)
    have ys: "valid_allocation decide (known_rows (d # ds)) (open_rows cs) a" if "a \<in> set ys" for a
      using valid_mono [OF phasedD(5) [OF ph that] known_rows_Cons subset_refl] sv'(2) by simp
    have one: "grant (xs @ ys) d = d'"
    proof -
      have "grant xs d = d'" using sv'(1) xs(2) by (simp add: grant_def received_all Let_def)
      moreover have "grant ys d' = d'"
        by (rule grant_later [OF _ phasedD(5) [OF ph]]) (use new served_demand(1) [OF sv] in simp)
      ultimately show ?thesis by (metis grant_append)
    qed
    have others: "map (grant (xs @ ys)) ds = ds'"
    proof -
      have "grant xs x = x" if "x \<in> set ds" for x
        using new that xs(2) by (intro grant_none) (metis imageI)
      then have "grant (xs @ ys) x = grant ys x" if "x \<in> set ds" for x
        using grant_append [of ys xs x] that by simp
      then show ?thesis using phasedD(1) [OF ph] by simp
    qed
    have caps: "map (spend (xs @ ys)) cs = cs2"
      using phasedD(2) [OF ph] sv'(2) spend_append [of ys xs] by simp
    have idle: "\<not> pending d' c" if "c \<in> set cs2" for c
    proof -
      from that phasedD(2) [OF ph] obtain c0 where c0: "c0 \<in> set cs1" "c = spend ys c0" by auto
      with sv'(5) have "\<not> pending d' c0" by blast
      then show ?thesis
        using pending_mono [of d' c d' c0] c0(2) spend_less [where c = c0, OF phasedD(5) [OF ph]] by auto
    qed
    have "phased (d # ds) cs (d' # ds', cs2, xs @ ys)"
    proof (rule phasedI)
      show "d' # ds' = map (grant (xs @ ys)) (d # ds)" by (simp only: list.map one others)
      show "cs2 = map (spend (xs @ ys)) cs" by (simp only: caps)
      show "0 \<le> dm_remaining_units x" if "x \<in> set (d' # ds')" for x
        using that sv'(3) phasedD(3) [OF ph] by auto
      show "0 \<le> cy_remaining_units c" if "c \<in> set cs2" for c by (rule phasedD(4) [OF ph that])
      show "valid_allocation decide (known_rows (d # ds)) (open_rows cs) a" if "a \<in> set (xs @ ys)" for a
        using that xs(1) ys by auto
      show "\<not> pending x c" if "x \<in> set (d' # ds')" "c \<in> set cs2" for x c
        using that idle phasedD(6) [OF ph] by auto
    qed
    with False s r show ?thesis by simp
  qed
qed

end

section \<open>The two decisions\<close>

lemma same_kind_pool: "same_kind r i \<Longrightarrow> reservation_pool_key r = instance_pool_key i"
  by (simp add: same_kind_def reservation_pool_key_def instance_pool_key_def)

lemma exact_decision_Some:
  assumes "exact_decision ctx at' r i = Some m"
  shows "may_cover ctx at' r i \<and> md_match_type m = ExactMatch"
proof -
  let ?strict = "reservation_match ctx at' False r i" and ?flexible = "reservation_match ctx at' True r i"
  from assms consider "md_compatible ?strict" "m = ?strict"
    | "md_compatible ?flexible" "md_match_type ?flexible = ExactMatch" "m = ?flexible"
    unfolding exact_decision_def Let_def by (metis option.distinct(1) option.inject)
  then show ?thesis
  proof cases
    case 1
    with match_cases [OF 1(1)] show ?thesis by blast
  next
    case 2
    with match_cases(1) [OF 2(1)] show ?thesis by simp
  qed
qed

lemma flexible_decision_Some:
  assumes "flexible_decision ctx at' r i = Some m"
  shows "may_cover ctx at' r i \<and> md_match_type m = SizeFlexible"
proof -
  from assms have "md_compatible (reservation_match ctx at' True r i)" "md_match_type m = SizeFlexible"
    unfolding flexible_decision_def Let_def by (metis option.distinct(1) option.inject)+
  then show ?thesis using match_cases(1) by blast
qed

lemma decisions_complete:
  assumes "md_compatible (reservation_match ctx at' flexible r i)"
  shows "exact_decision ctx at' r i \<noteq> None \<or> flexible_decision ctx at' r i \<noteq> None"
proof (cases flexible)
  case True
  with assms match_cases(2) [OF assms] show ?thesis
    unfolding exact_decision_def flexible_decision_def Let_def by fastforce
next
  case False
  with assms match_cases(2) [OF assms] show ?thesis
    unfolding exact_decision_def Let_def by simp
qed

interpretation exact: pooled "exact_decision ctx at'" for ctx at'
  by unfold_locales (use exact_decision_Some same_kind_pool in \<open>unfold may_cover_def, blast\<close>)

interpretation flexible: pooled "flexible_decision ctx at'" for ctx at'
  by unfold_locales (use flexible_decision_Some same_kind_pool in \<open>unfold may_cover_def, blast\<close>)

section \<open>Units\<close>

lemma size_units_pos: "normalized_units_for_size sz = Inr u \<Longrightarrow> 0 < u"
  by (auto simp: normalized_units_for_size_def NORMALIZED_UNITS_def split: option.splits if_splits)

lemma size_units_error: "normalized_units_for_size sz = Inl e \<Longrightarrow>
    \<exists>m. m \<noteq> [] \<and> e = UnknownRdsConfiguration m"
  by (auto simp: normalized_units_for_size_def split: option.splits)

lemma required_units_pos: "instance_required_units i = Inr (u, k) \<Longrightarrow> 0 < u"
  unfolding instance_required_units_def Let_def andThen_eq_Inr
  using size_units_pos [of "ri_instance_size i"]
  by (auto simp: TOPOLOGY_MULTIPLIERS_def AURORA_IO_OPTIMIZED_MULTIPLIER_def split: if_splits option.splits)

lemma required_units_error: "instance_required_units i = Inl e \<Longrightarrow>
    \<exists>m. m \<noteq> [] \<and> e = UnknownRdsConfiguration m"
  unfolding instance_required_units_def Let_def andThen_eq_Inl
  using size_units_error [of "ri_instance_size i"]
  by (auto split: if_splits option.splits)

lemma total_units_pos: "reservation_total_units r = Inr (u, k) \<Longrightarrow> 0 < u"
  unfolding reservation_total_units_def Let_def andThen_eq_Inr
  using size_units_pos [of "rr_instance_size r"]
  by (auto split: if_splits)

lemma total_units_error: "reservation_total_units r = Inl e \<Longrightarrow>
    \<exists>m. m \<noteq> [] \<and> e = UnknownRdsConfiguration m"
  unfolding reservation_total_units_def Let_def andThen_eq_Inl
  using size_units_error [of "rr_instance_size r"]
  by (auto split: if_splits)

lemma make_demand_simps [simp]:
  "dm_row (make_demand i) = i" "dm_remaining_units (make_demand i) = dm_required_units (make_demand i)"
  "dm_allocations (make_demand i) = []"
  by (simp_all add: make_demand_def split: sum.split)

lemma make_capacity_simps [simp]:
  "cy_row (make_capacity r) = r" "cy_remaining_units (make_capacity r) = cy_total_units (make_capacity r)"
  by (simp_all add: make_capacity_def split: sum.split)

text \<open>An unknown configuration demands and offers nothing, and says so.\<close>

definition required_of :: "rds_instance \<Rightarrow> decimal" where
  "required_of i = (case instance_required_units i of Inr (u, _) \<Rightarrow> u | Inl _ \<Rightarrow> 0)"

definition total_of :: "reserved_instance \<Rightarrow> decimal" where
  "total_of r = (case reservation_total_units r of Inr (u, _) \<Rightarrow> u | Inl _ \<Rightarrow> 0)"

lemma make_demand_units: "dm_required_units (make_demand i) = required_of i"
  by (simp add: make_demand_def required_of_def split: sum.split)

lemma make_demand_unknown: "truthy (dm_unknown_reason (make_demand i)) \<longleftrightarrow> required_of i = 0"
  using required_units_error [of i] required_units_pos [of i]
  by (auto simp: make_demand_def required_of_def split: sum.split)

lemma make_capacity_units: "cy_total_units (make_capacity r) = total_of r"
  by (simp add: make_capacity_def total_of_def split: sum.split)

lemma make_capacity_unknown: "truthy (cy_unknown_reason (make_capacity r)) \<longleftrightarrow> total_of r = 0"
  using total_units_error [of r] total_units_pos [of r]
  by (auto simp: make_capacity_def total_of_def split: sum.split)

lemma required_of_nonneg: "0 \<le> required_of i"
  using required_units_pos [of i] by (auto simp: required_of_def less_imp_le split: sum.split)

lemma total_of_nonneg: "0 \<le> total_of r"
  using total_units_pos [of r] by (auto simp: total_of_def less_imp_le split: sum.split)

section \<open>The analysis\<close>

text \<open>What the two phases leave behind, for demands and capacities in any order.\<close>

definition matched :: "billing_scope \<Rightarrow> datetime \<Rightarrow> allocation \<Rightarrow> bool" where
  "matched ctx at' a \<longleftrightarrow> 0 < a_units a \<and> may_cover ctx at' (a_reservation a) (a_instance a)"

lemma valid_matched:
  "valid_allocation (exact_decision ctx at') X Y a \<Longrightarrow> matched ctx at' a \<and> a_match_type a = ExactMatch"
  "valid_allocation (flexible_decision ctx at') X Y a \<Longrightarrow> matched ctx at' a \<and> a_match_type a = SizeFlexible"
  unfolding valid_allocation_def matched_def
  by (elim conjE exE, drule exact_decision_Some, simp)
    (elim conjE exE, drule flexible_decision_Some, simp)

text \<open>The state the loops end in: the demands and capacities after all allocations.\<close>

definition settled_state ::
  "billing_scope \<Rightarrow> datetime \<Rightarrow> instance_demand list \<Rightarrow> reservation_capacity list \<Rightarrow> allocation list \<Rightarrow>
   allocation list \<Rightarrow> bool" where
  "settled_state ctx at' ds cs xs ys \<longleftrightarrow>
     (\<forall>d \<in> set ds. 0 \<le> dm_remaining_units (grant (xs @ ys) d)) \<and>
     (\<forall>c \<in> set cs. 0 \<le> cy_remaining_units (spend (xs @ ys) c)) \<and>
     (\<forall>a \<in> set (xs @ ys). matched ctx at' a \<and> a_instance a \<in> known_rows ds \<and>
        a_reservation a \<in> open_rows cs) \<and>
     (\<forall>a \<in> set xs. a_match_type a = ExactMatch) \<and> (\<forall>a \<in> set ys. a_match_type a = SizeFlexible) \<and>
     (\<forall>d \<in> set ds. \<forall>c \<in> set cs. 0 < dm_remaining_units (grant (xs @ ys) d) \<longrightarrow>
        0 < cy_remaining_units (spend (xs @ ys) c) \<longrightarrow> \<not> truthy (dm_unknown_reason d) \<longrightarrow>
        \<not> truthy (cy_unknown_reason c) \<longrightarrow>
        (\<forall>flexible. \<not> md_compatible (reservation_match ctx at' flexible (cy_row c) (dm_row d))))"

lemma settledD:
  assumes "settled_state ctx at' ds cs xs ys"
  shows "d \<in> set ds \<Longrightarrow> 0 \<le> dm_remaining_units (grant (xs @ ys) d)"
    and "c \<in> set cs \<Longrightarrow> 0 \<le> cy_remaining_units (spend (xs @ ys) c)"
    and "a \<in> set (xs @ ys) \<Longrightarrow> matched ctx at' a" "a \<in> set (xs @ ys) \<Longrightarrow> a_instance a \<in> known_rows ds"
    and "a \<in> set (xs @ ys) \<Longrightarrow> a_reservation a \<in> open_rows cs"
    and "a \<in> set xs \<Longrightarrow> a_match_type a = ExactMatch" "a \<in> set ys \<Longrightarrow> a_match_type a = SizeFlexible"
    and "d \<in> set ds \<Longrightarrow> c \<in> set cs \<Longrightarrow> 0 < dm_remaining_units (grant (xs @ ys) d) \<Longrightarrow>
      0 < cy_remaining_units (spend (xs @ ys) c) \<Longrightarrow> \<not> truthy (dm_unknown_reason d) \<Longrightarrow>
      \<not> truthy (cy_unknown_reason c) \<Longrightarrow>
      \<not> md_compatible (reservation_match ctx at' flexible (cy_row c) (dm_row d))"
proof -
  note parts = assms [unfolded settled_state_def]
  note p = parts [THEN conjunct1] parts [THEN conjunct2, THEN conjunct1]
    parts [THEN conjunct2, THEN conjunct2, THEN conjunct1]
    parts [THEN conjunct2, THEN conjunct2, THEN conjunct2, THEN conjunct1]
    parts [THEN conjunct2, THEN conjunct2, THEN conjunct2, THEN conjunct2, THEN conjunct1]
    parts [THEN conjunct2, THEN conjunct2, THEN conjunct2, THEN conjunct2, THEN conjunct2]
  show "d \<in> set ds \<Longrightarrow> 0 \<le> dm_remaining_units (grant (xs @ ys) d)" by (rule p(1) [rule_format])
  show "c \<in> set cs \<Longrightarrow> 0 \<le> cy_remaining_units (spend (xs @ ys) c)" by (rule p(2) [rule_format])
  show "a \<in> set (xs @ ys) \<Longrightarrow> matched ctx at' a" by (rule p(3) [THEN bspec, THEN conjunct1])
  show "a \<in> set (xs @ ys) \<Longrightarrow> a_instance a \<in> known_rows ds"
    by (rule p(3) [THEN bspec, THEN conjunct2, THEN conjunct1])
  show "a \<in> set (xs @ ys) \<Longrightarrow> a_reservation a \<in> open_rows cs"
    by (rule p(3) [THEN bspec, THEN conjunct2, THEN conjunct2])
  show "a \<in> set xs \<Longrightarrow> a_match_type a = ExactMatch" by (rule p(4) [THEN bspec])
  show "a \<in> set ys \<Longrightarrow> a_match_type a = SizeFlexible" by (rule p(5) [THEN bspec])
  show "d \<in> set ds \<Longrightarrow> c \<in> set cs \<Longrightarrow> 0 < dm_remaining_units (grant (xs @ ys) d) \<Longrightarrow>
      0 < cy_remaining_units (spend (xs @ ys) c) \<Longrightarrow> \<not> truthy (dm_unknown_reason d) \<Longrightarrow>
      \<not> truthy (cy_unknown_reason c) \<Longrightarrow>
      \<not> md_compatible (reservation_match ctx at' flexible (cy_row c) (dm_row d))"
    by (rule p(6) [THEN bspec, THEN bspec, THEN mp, THEN mp, THEN mp, THEN mp, THEN spec [where x = flexible]])
qed

lemma two_phases:
  assumes ids: "distinct (map (\<lambda>d. ri_id (dm_row d)) ds)" "distinct (map (\<lambda>c. rr_id (cy_row c)) cs)"
    and nonneg: "\<And>d. d \<in> set ds \<Longrightarrow> 0 \<le> dm_remaining_units d" "\<And>c. c \<in> set cs \<Longrightarrow> 0 \<le> cy_remaining_units c"
    and first: "allocation_phase (exact_attempt ctx at') ds cs = (ds1, cs1, xs)"
    and second: "allocation_phase (flexible_attempt ctx at') ds1 cs1 = (ds2, cs2, ys)"
  shows "ds2 = map (grant (xs @ ys)) ds" "cs2 = map (spend (xs @ ys)) cs" "settled_state ctx at' ds cs xs ys"
proof -
  have p1: "exact.phased ctx at' ds cs (ds1, cs1, xs)"
    using exact.phase_phased [OF ids nonneg, of ctx at'] first by (simp add: exact_attempt_def)
  have "flexible.phased ctx at' ds1 cs1 (allocation_phase (attempt_with (flexible_decision ctx at')) ds1 cs1)"
    by (rule flexible.phase_phased)
      (use exact.phasedD [OF p1] ids in \<open>simp_all add: comp_def\<close>)
  then have p2: "flexible.phased ctx at' ds1 cs1 (ds2, cs2, ys)"
    using second by (simp add: flexible_attempt_def)
  note f1 = exact.phasedD [OF p1] and f2 = flexible.phasedD [OF p2]
  show ds2: "ds2 = map (grant (xs @ ys)) ds" and cs2: "cs2 = map (spend (xs @ ys)) cs"
    using f1(1,2) f2(1,2) by (simp_all add: grant_append spend_append)
  have known: "known_rows ds1 = known_rows ds" "open_rows cs1 = open_rows cs" using f1(1,2) by simp_all
  have ys: "a \<in> set ys \<Longrightarrow> valid_allocation (flexible_decision ctx at') (known_rows ds) (open_rows cs) a" for a
    using f2(5) known by simp
  have done1: "\<not> md_compatible (reservation_match ctx at' flexible (cy_row c) (dm_row d))"
    if d: "d \<in> set ds" and c: "c \<in> set cs"
      and left: "0 < dm_remaining_units (grant (xs @ ys) d)" "0 < cy_remaining_units (spend (xs @ ys) c)"
      and kn: "\<not> truthy (dm_unknown_reason d)" "\<not> truthy (cy_unknown_reason c)" for d c flexible
  proof -
    let ?d = "grant xs d" and ?c = "spend xs c"
    have 1: "\<not> exact.pending ctx at' ?d ?c" using f1(1,2,6) d c by simp
    have 2: "\<not> flexible.pending ctx at' (grant (xs @ ys) d) (spend (xs @ ys) c)"
      using f2(6) ds2 cs2 d c by simp
    have "0 \<le> units_of (received ys (ri_id (dm_row d)))"
      by (rule units_of_nonneg) (use ys in \<open>auto simp: received_def valid_allocation_def less_imp_le\<close>)
    moreover have "0 \<le> allocated_by_reservation ys (rr_id (cy_row c))"
      by (rule allocated_by_nonneg) (use ys in \<open>auto simp: valid_allocation_def less_imp_le\<close>)
    ultimately have "0 < dm_remaining_units ?d" "0 < cy_remaining_units ?c"
      using left by (simp_all add: received_def)
    with 1 kn have "exact_decision ctx at' (cy_row c) (dm_row d) = None" by (simp add: exact.pending_def)
    moreover from 2 left kn have "flexible_decision ctx at' (cy_row c) (dm_row d) = None"
      by (simp add: flexible.pending_def)
    ultimately show ?thesis using decisions_complete by blast
  qed
  show "settled_state ctx at' ds cs xs ys" unfolding settled_state_def
  proof (intro conjI ballI impI allI)
    fix d assume "d \<in> set ds"
    then show "0 \<le> dm_remaining_units (grant (xs @ ys) d)" by (intro f2(3)) (simp add: ds2)
  next
    fix c assume "c \<in> set cs"
    then show "0 \<le> cy_remaining_units (spend (xs @ ys) c)" by (intro f2(4)) (simp add: cs2)
  next
    fix a assume "a \<in> set (xs @ ys)"
    then have v: "valid_allocation (exact_decision ctx at') (known_rows ds) (open_rows cs) a \<or>
        valid_allocation (flexible_decision ctx at') (known_rows ds) (open_rows cs) a"
      using f1(5) ys by auto
    then show "matched ctx at' a" by (elim disjE) (drule valid_matched, elim conjE, assumption)+
    from v show "a_instance a \<in> known_rows ds" unfolding valid_allocation_def by (elim disjE conjE)
    from v show "a_reservation a \<in> open_rows cs" unfolding valid_allocation_def by (elim disjE conjE)
  next
    fix a assume "a \<in> set xs"
    from valid_matched(1) [OF f1(5) [OF this]] show "a_match_type a = ExactMatch" by blast
  next
    fix a assume "a \<in> set ys"
    from valid_matched(2) [OF ys [OF this]] show "a_match_type a = SizeFlexible" by blast
  qed (rule done1)
qed

text \<open>
  The accounts of an instance and of a reservation in an analysis: what was allocated is what is
  covered and used, within the bounds.
\<close>

definition instance_accounted :: "allocation list \<Rightarrow> instance_coverage_result \<Rightarrow> bool" where
  "instance_accounted allocs r \<longleftrightarrow>
     (let i = ic_instance r; mine = received allocs (ri_id i)
      in ic_required_units r = required_of i \<and> ic_covered_units r = units_of mine \<and>
         ic_allocations r = mine \<and> ic_uncovered_units r = ic_required_units r - ic_covered_units r \<and>
         0 \<le> ic_covered_units r \<and> ic_covered_units r \<le> ic_required_units r \<and>
         0 \<le> ic_coverage_percentage r \<and> ic_coverage_percentage r \<le> 100 \<and>
         (ic_coverage_status r = COVERAGE_UNKNOWN \<longleftrightarrow> ic_required_units r = 0) \<and>
         (ic_coverage_status r = COVERAGE_UNCOVERED \<longleftrightarrow> 0 < ic_required_units r \<and> ic_covered_units r = 0) \<and>
         (ic_coverage_status r = COVERAGE_FULL \<longleftrightarrow>
            0 < ic_required_units r \<and> ic_covered_units r = ic_required_units r))"

definition reservation_accounted :: "allocation list \<Rightarrow> utilization_result \<Rightarrow> bool" where
  "reservation_accounted allocs u \<longleftrightarrow>
     ut_total_units u = total_of (ut_reservation u) \<and>
     ut_allocated_units u = allocated_by_reservation allocs (rr_id (ut_reservation u)) \<and>
     ut_unused_units u = ut_total_units u - ut_allocated_units u \<and>
     0 \<le> ut_allocated_units u \<and> ut_allocated_units u \<le> ut_total_units u \<and>
     0 \<le> ut_utilization_percentage u \<and> ut_utilization_percentage u \<le> 100"

lemma safe_percentage_bounds: "0 \<le> safe_percentage a b \<and> safe_percentage a b \<le> 100"
  by (simp add: safe_percentage_def)

lemma received_unknown:
  assumes "distinct (map (\<lambda>d. ri_id (dm_row d)) ds)" "d \<in> set ds" "truthy (dm_unknown_reason d)"
    and "\<And>a. a \<in> set allocs \<Longrightarrow> a_instance a \<in> known_rows ds"
  shows "received allocs (ri_id (dm_row d)) = []"
proof (rule received_none)
  fix a assume "a \<in> set allocs"
  from assms(4) [OF this] obtain e where e: "e \<in> set ds" "\<not> truthy (dm_unknown_reason e)" "a_instance a = dm_row e"
    by (auto simp: known_rows_def)
  with assms(3) have "e \<noteq> d" by auto
  with assms(1,2) e show "ri_id (a_instance a) \<noteq> ri_id (dm_row d)" by (auto simp: distinct_map dest: inj_onD)
qed

lemma allocated_unknown:
  assumes "distinct (map (\<lambda>c. rr_id (cy_row c)) cs)" "c \<in> set cs" "truthy (cy_unknown_reason c)"
    and "\<And>a. a \<in> set allocs \<Longrightarrow> a_reservation a \<in> open_rows cs"
  shows "allocated_by_reservation allocs (rr_id (cy_row c)) = 0"
proof (rule allocated_by_none)
  fix a assume "a \<in> set allocs"
  from assms(4) [OF this] obtain e where e: "e \<in> set cs" "\<not> truthy (cy_unknown_reason e)" "a_reservation a = cy_row e"
    by (auto simp: open_rows_def)
  with assms(3) have "e \<noteq> c" by auto
  with assms(1,2) e show "rr_id (a_reservation a) \<noteq> rr_id (cy_row c)" by (auto simp: distinct_map dest: inj_onD)
qed

lemma settled_instance:
  assumes "settled_state ctx at' ds cs xs ys" "distinct (map (\<lambda>d. ri_id (dm_row d)) ds)"
    and "d \<in> set ds" "d = make_demand i"
  shows "instance_accounted (xs @ ys) (coverage_result (grant (xs @ ys) d))"
proof -
  let ?mine = "received (xs @ ys) (ri_id i)"
  have units: "0 < a_units a" if "a \<in> set (xs @ ys)" for a
    using settledD(3) [OF assms(1) that] by (simp add: matched_def)
  have mine: "0 \<le> units_of ?mine"
    by (rule units_of_nonneg) (use units in \<open>auto simp: received_def less_imp_le\<close>)
  have left: "units_of ?mine \<le> required_of i"
    using settledD(1) [OF assms(1,3)] by (simp add: assms(4) make_demand_units)
  show ?thesis
  proof (cases "truthy (dm_unknown_reason d)")
    case True
    have "?mine = []"
      using received_unknown [where allocs = "xs @ ys", OF assms(2,3) True settledD(4) [OF assms(1)]]
      by (simp add: assms(4))
    moreover have "required_of i = 0" using True by (simp add: assms(4) make_demand_unknown)
    ultimately show ?thesis using True
      by (simp add: instance_accounted_def coverage_result_def assms(4) Let_def)
  next
    case False
    then have "0 < required_of i"
      using required_of_nonneg [of i] by (simp add: assms(4) make_demand_unknown)
    with False mine left show ?thesis
      by (auto simp: instance_accounted_def coverage_result_def assms(4) Let_def make_demand_units
        safe_percentage_bounds max_def)
  qed
qed

lemma settled_reservation:
  assumes "settled_state ctx at' ds cs xs ys" "distinct (map (\<lambda>c. rr_id (cy_row c)) cs)"
    and "c \<in> set cs" "c = make_capacity r"
  shows "reservation_accounted (xs @ ys) (utilization_result_of (spend (xs @ ys) c)
    (allocated_by_reservation (xs @ ys) (rr_id r)))"
proof -
  let ?used = "allocated_by_reservation (xs @ ys) (rr_id r)"
  have used: "0 \<le> ?used"
    by (rule allocated_by_nonneg) (use settledD(3) [OF assms(1)] in \<open>auto simp: matched_def less_imp_le\<close>)
  have left: "?used \<le> total_of r"
    using settledD(2) [OF assms(1,3)] by (simp add: assms(4) make_capacity_units)
  show ?thesis
  proof (cases "truthy (cy_unknown_reason c)")
    case True
    have "?used = 0"
      using allocated_unknown [where allocs = "xs @ ys", OF assms(2,3) True settledD(5) [OF assms(1)]]
      by (simp add: assms(4))
    moreover have "total_of r = 0" using True by (simp add: assms(4) make_capacity_unknown)
    ultimately show ?thesis using True
      by (simp add: reservation_accounted_def utilization_result_of_def assms(4))
  next
    case False
    with used left show ?thesis
      by (simp add: reservation_accounted_def utilization_result_of_def assms(4) make_capacity_units
        safe_percentage_bounds)
  qed
qed

text \<open>The rows an analysis is about.\<close>

definition eligible_rows :: "rds_instance list \<Rightarrow> rds_instance list" where
  "eligible_rows instances =
     filter (\<lambda>row. ri_is_active row \<and> is_reservation_coverage_eligible_instance row) instances"

definition demands_of :: "rds_instance list \<Rightarrow> instance_demand list" where
  "demands_of instances = sort_key demand_sort_key (map make_demand (eligible_rows instances))"

definition capacities_of :: "datetime \<Rightarrow> reserved_instance list \<Rightarrow> reservation_capacity list" where
  "capacities_of at' reservations =
     sort_key capacity_sort_key (map make_capacity (filter (is_active_reservation at') reservations))"

lemma demands_distinct:
  "distinct (map ri_id instances) \<Longrightarrow> distinct (map (\<lambda>d. ri_id (dm_row d)) (demands_of instances))"
proof -
  assume "distinct (map ri_id instances)"
  then have "distinct (map (\<lambda>d. ri_id (dm_row d)) (map make_demand (eligible_rows instances)))"
    by (simp add: comp_def eligible_rows_def distinct_map_filter)
  then show ?thesis unfolding demands_of_def distinct_map_sort .
qed

lemma capacities_distinct:
  "distinct (map rr_id reservations) \<Longrightarrow> distinct (map (\<lambda>c. rr_id (cy_row c)) (capacities_of at' reservations))"
proof -
  assume "distinct (map rr_id reservations)"
  then have "distinct (map (\<lambda>c. rr_id (cy_row c)) (map make_capacity
      (filter (is_active_reservation at') reservations)))"
    by (simp add: comp_def distinct_map_filter)
  then show ?thesis unfolding capacities_of_def distinct_map_sort .
qed

text \<open>The analysis, without its loops: the assertions hold, so it always returns.\<close>

lemma fold_result_ok: "(\<And>x. x \<in> set xs \<Longrightarrow> f x = Inr ()) \<Longrightarrow> fold_result (\<lambda>x _. f x) xs () = Inr ()"
  by (induction xs) simp_all

lemma assertions_hold:
  assumes "\<And>r. r \<in> set results \<Longrightarrow> instance_accounted allocs r"
    and "\<And>u. u \<in> set uses \<Longrightarrow> reservation_accounted allocs u"
  shows "assert_invariants results uses allocs = Inr ()"
proof -
  have 1: "assert_instance r = Inr ()" if "r \<in> set results" for r
    using assms(1) [OF that] unfolding instance_accounted_def assert_instance_def Let_def
    by (elim conjE) (simp add: guard_def)
  have 2: "assert_reservation allocs u = Inr ()" if "u \<in> set uses" for u
    using assms(2) [OF that] unfolding reservation_accounted_def assert_reservation_def
    by (elim conjE) (simp add: guard_def)
  have "fold_result (\<lambda>r _. assert_instance r) results () = Inr ()"
    by (rule fold_result_ok) (rule 1)
  moreover have "fold_result (\<lambda>u _. assert_reservation allocs u) uses () = Inr ()"
    by (rule fold_result_ok) (rule 2)
  ultimately show ?thesis by (simp add: assert_invariants_def)
qed

lemma analyze_settled:
  assumes "distinct (map ri_id instances)" "distinct (map rr_id reservations)"
  obtains xs ys where
    "settled_state ctx at' (demands_of instances) (capacities_of at' reservations) xs ys"
    "analyze ctx instances reservations at' = Inr \<lparr>
       an_instances = map (\<lambda>d. coverage_result (grant (xs @ ys) d)) (demands_of instances),
       an_reservations = map (\<lambda>c. utilization_result_of (spend (xs @ ys) c)
         (allocated_by_reservation (xs @ ys) (rr_id (cy_row c)))) (capacities_of at' reservations),
       an_allocations = xs @ ys\<rparr>"
proof -
  let ?ds = "demands_of instances" and ?cs = "capacities_of at' reservations"
  obtain ds1 cs1 xs where first: "allocation_phase (exact_attempt ctx at') ?ds ?cs = (ds1, cs1, xs)"
    by (cases "allocation_phase (exact_attempt ctx at') ?ds ?cs")
  obtain ds2 cs2 ys where second: "allocation_phase (flexible_attempt ctx at') ds1 cs1 = (ds2, cs2, ys)"
    by (cases "allocation_phase (flexible_attempt ctx at') ds1 cs1")
  have ds: "\<exists>i. d = make_demand i" if "d \<in> set ?ds" for d using that by (auto simp: demands_of_def)
  have cs: "\<exists>r. c = make_capacity r" if "c \<in> set ?cs" for c using that by (auto simp: capacities_of_def)
  have nonneg: "0 \<le> dm_remaining_units d" if "d \<in> set ?ds" for d
    using ds [OF that] by (auto simp: make_demand_units required_of_nonneg)
  have nonneg': "0 \<le> cy_remaining_units c" if "c \<in> set ?cs" for c
    using cs [OF that] by (auto simp: make_capacity_units total_of_nonneg)
  note ids = demands_distinct [OF assms(1)] capacities_distinct [OF assms(2), of at']
  note two = two_phases [OF ids nonneg nonneg' first second]
  let ?results = "map (\<lambda>d. coverage_result (grant (xs @ ys) d)) ?ds"
  let ?uses = "map (\<lambda>c. utilization_result_of (spend (xs @ ys) c)
      (allocated_by_reservation (xs @ ys) (rr_id (cy_row c)))) ?cs"
  have "assert_invariants ?results ?uses (xs @ ys) = Inr ()"
  proof (rule assertions_hold)
    fix r assume "r \<in> set ?results"
    then obtain d where d: "d \<in> set ?ds" "r = coverage_result (grant (xs @ ys) d)" by auto
    from ds [OF d(1)] settled_instance [OF two(3) ids(1) d(1)] d(2)
    show "instance_accounted (xs @ ys) r" by auto
  next
    fix u assume "u \<in> set ?uses"
    then obtain c where c: "c \<in> set ?cs"
      "u = utilization_result_of (spend (xs @ ys) c) (allocated_by_reservation (xs @ ys) (rr_id (cy_row c)))"
      by auto
    from cs [OF c(1)] obtain r where r: "c = make_capacity r" by blast
    from settled_reservation [OF two(3) ids(2) c(1) r] c(2) r
    show "reservation_accounted (xs @ ys) u" by simp
  qed
  then have "analyze ctx instances reservations at' = Inr \<lparr>an_instances = ?results,
      an_reservations = ?uses, an_allocations = xs @ ys\<rparr>"
    unfolding analyze_def Let_def demands_of_def [unfolded eligible_rows_def, symmetric]
      capacities_of_def [symmetric] first second prod.case
    by (simp add: two(1,2) comp_def)
  with two(3) that show thesis by blast
qed

section \<open>Totals\<close>

lemma sum_list_single:
  "distinct is \<Longrightarrow> k \<in> set is \<Longrightarrow> sum_list (map (\<lambda>i. (if k = i then u else 0) + f i) is) =
   u + sum_list (map f is)" for u :: rat
proof (induction "is")
  case (Cons i "is")
  show ?case
  proof (cases "k = i")
    case True
    with Cons.prems have rest: "map (\<lambda>i. (if k = i then u else 0) + f i) is = map f is" by auto
    show ?thesis unfolding list.map rest using True by simp
  next
    case False
    with Cons show ?thesis by simp
  qed
qed simp

lemma received_total:
  assumes "distinct is" "\<And>a. a \<in> set allocs \<Longrightarrow> ri_id (a_instance a) \<in> set is"
  shows "sum_list (map (\<lambda>i. units_of (received allocs i)) is) = units_of allocs"
  using assms(2)
proof (induction allocs)
  case Nil
  then show ?case by (simp add: received_def)
next
  case (Cons a allocs)
  have "units_of (received (a # allocs) i) =
      (if ri_id (a_instance a) = i then a_units a else 0) + units_of (received allocs i)" for i
    by (simp add: received_def)
  with Cons sum_list_single [OF assms(1), of "ri_id (a_instance a)" "a_units a"] show ?case by simp
qed

lemma allocated_total:
  assumes "distinct is" "\<And>a. a \<in> set allocs \<Longrightarrow> rr_id (a_reservation a) \<in> set is"
  shows "sum_list (map (allocated_by_reservation allocs) is) = units_of allocs"
  using assms(2)
proof (induction allocs)
  case Nil
  then show ?case by simp
next
  case (Cons a allocs)
  with sum_list_single [OF assms(1), of "rr_id (a_reservation a)" "a_units a"] show ?case by simp
qed

text \<open>The rows an analysis reports on, each once.\<close>

definition reports_on :: "rds_instance list \<Rightarrow> reserved_instance list \<Rightarrow> datetime \<Rightarrow> coverage_analysis \<Rightarrow> bool" where
  "reports_on instances reservations at' a \<longleftrightarrow>
     set (map ic_instance (an_instances a)) = set (eligible_rows instances) \<and>
     distinct (map (\<lambda>r. ri_id (ic_instance r)) (an_instances a)) \<and>
     set (map ut_reservation (an_reservations a)) = set (filter (is_active_reservation at') reservations) \<and>
     distinct (map (\<lambda>u. rr_id (ut_reservation u)) (an_reservations a))"

lemma result_rows [simp]:
  "ic_instance (coverage_result d) = dm_row d" "ut_reservation (utilization_result_of c u) = cy_row c"
  by (simp_all add: coverage_result_def utilization_result_of_def Let_def)

lemma demand_rows: "set (map dm_row (demands_of instances)) = set (eligible_rows instances)"
  by (simp add: demands_of_def image_image)

lemma capacity_rows: "set (map cy_row (capacities_of at' reservations)) =
    set (filter (is_active_reservation at') reservations)"
  by (simp add: capacities_of_def image_image)


section \<open>Nothing is left on the table\<close>

lemma uncovered_open:
  "0 < ic_uncovered_units (coverage_result d) \<Longrightarrow> \<not> truthy (dm_unknown_reason d) \<and> 0 < dm_remaining_units d"
  by (auto simp: coverage_result_def Let_def split: if_splits)

lemma unused_open:
  "0 < ut_unused_units (utilization_result_of c u) \<Longrightarrow> \<not> truthy (cy_unknown_reason c) \<and> u < cy_total_units c"
  by (auto simp: utilization_result_of_def split: if_splits)

definition exact_first :: "allocation list \<Rightarrow> bool" where
  "exact_first allocs \<longleftrightarrow> list_all (\<lambda>a. a_match_type a = SizeFlexible)
     (dropWhile (\<lambda>a. a_match_type a = ExactMatch) allocs)"

lemma exact_first_append:
  assumes "\<And>a. a \<in> set xs \<Longrightarrow> a_match_type a = ExactMatch" "\<And>a. a \<in> set ys \<Longrightarrow> a_match_type a = SizeFlexible"
  shows "exact_first (xs @ ys)"
proof -
  have "dropWhile (\<lambda>a. a_match_type a = ExactMatch) (xs @ ys) = ys"
    using assms by (cases ys) (simp_all add: dropWhile_append)
  with assms(2) show ?thesis by (simp add: exact_first_def list_all_iff)
qed

text \<open>
  C16: The engine leaves nothing on the table.  In the analysis of instances and reservations with
  distinct keys, all exact matches are allocated before any size-flexible one; and where an
  instance keeps uncovered units and a reservation unused ones, the matcher rejects that pair with
  and without size flexibility, so no allocation could be added.
\<close>

theorem coverage_maximal:
  assumes "distinct (map ri_id instances)" "distinct (map rr_id reservations)"
  shows "\<exists>a. analyze ctx instances reservations at' = Inr a \<and> exact_first (an_allocations a) \<and>
    list_all (\<lambda>r. list_all (\<lambda>u. 0 < ic_uncovered_units r \<and> 0 < ut_unused_units u \<longrightarrow>
      \<not> md_compatible (reservation_match ctx at' True (ut_reservation u) (ic_instance r)) \<and>
      \<not> md_compatible (reservation_match ctx at' False (ut_reservation u) (ic_instance r)))
      (an_reservations a)) (an_instances a)"
proof -
  let ?ds = "demands_of instances" and ?cs = "capacities_of at' reservations"
  from analyze_settled [OF assms, of ctx at'] obtain xs ys where
    st: "settled_state ctx at' ?ds ?cs xs ys" and run: "analyze ctx instances reservations at' = Inr \<lparr>
       an_instances = map (\<lambda>d. coverage_result (grant (xs @ ys) d)) ?ds,
       an_reservations = map (\<lambda>c. utilization_result_of (spend (xs @ ys) c)
         (allocated_by_reservation (xs @ ys) (rr_id (cy_row c)))) ?cs,
       an_allocations = xs @ ys\<rparr>" (is "_ = Inr ?a") by metis
  have left: "\<not> md_compatible (reservation_match ctx at' flexible (cy_row c) (dm_row d))"
    if d: "d \<in> set ?ds" and c: "c \<in> set ?cs" and r: "0 < ic_uncovered_units (coverage_result (grant (xs @ ys) d))"
      and u: "0 < ut_unused_units (utilization_result_of (spend (xs @ ys) c)
        (allocated_by_reservation (xs @ ys) (rr_id (cy_row c))))" for d c flexible
  proof -
    from c obtain r where "c = make_capacity r" by (auto simp: capacities_of_def)
    with unused_open [OF u] have "0 < cy_remaining_units (spend (xs @ ys) c)" "\<not> truthy (cy_unknown_reason c)"
      by simp_all
    moreover from uncovered_open [OF r]
    have "0 < dm_remaining_units (grant (xs @ ys) d)" "\<not> truthy (dm_unknown_reason d)" by simp_all
    ultimately show ?thesis using settledD(8) [OF st d c] by blast
  qed
  have "exact_first (xs @ ys)" by (rule exact_first_append) (rule settledD(6,7) [OF st], assumption)+
  with left run show ?thesis by (auto simp: list_all_iff)
qed

text \<open>Two MySQL instances and a reservation of their family, half used by the exact match.\<close>

definition sample_instance :: "int \<Rightarrow> string \<Rightarrow> string \<Rightarrow> rds_instance" where
  "sample_instance i c sz = (blank_instance i)\<lparr>ri_cloud_account_id := 1, ri_account_id := ''1'',
     ri_region := ''us-east-1'', ri_db_instance_identifier := c, ri_db_instance_class := c,
     ri_instance_family := Some ''r6g'', ri_instance_size := Some sz, ri_engine := ''mysql'',
     ri_engine_normalized := ''mysql'', ri_status := ''available''\<rparr>"

definition sample_reservation :: "int \<Rightarrow> reserved_instance" where
  "sample_reservation n = (blank_reservation 7)\<lparr>rr_cloud_account_id := 1, rr_account_id := ''1'',
     rr_region := ''us-east-1'', rr_db_instance_class := ''db.r6g.large'',
     rr_instance_family := Some ''r6g'', rr_instance_size := Some ''large'',
     rr_product_description := ''mysql'', rr_engine_normalized := ''mysql'', rr_instance_count := n,
     rr_state := ''active'', rr_expiration_at := Aware 1000 0\<rparr>"

abbreviation sample_instances :: "rds_instance list" where
  "sample_instances \<equiv> [sample_instance 1 ''db.r6g.large'' ''large'', sample_instance 2 ''db.r6g.xlarge'' ''xlarge'']"

lemma sample_keys: "distinct (map ri_id sample_instances)" "distinct (map rr_id [sample_reservation 2])"
  by (simp_all add: sample_instance_def blank_instance_def)


lemma coverage_maximal_witness:
  "\<exists>a. analyze empty_billing_scope sample_instances [sample_reservation 2] (Aware 10 0) = Inr a \<and>
     exact_first (an_allocations a)"
  using coverage_maximal [OF sample_keys, of empty_billing_scope "Aware 10 0"] by blast

end
