(* ===== verification/Spec2Isabelle.thy ===== *)
theory Spec2Isabelle
  imports Operations PeriodClose RdsEngine
begin

text \<open>
  Verification library of the Aven FinOps backend (Python, backend/app).

  Aven collects cost-saving opportunities (rows of the table findings) from cloud accounts,
  lets people decide on them (treat, reject, reopen, archive), keeps histories, a ledger of
  recognized savings and dashboard summaries, and retires old opportunities by policy.

  \<^bold>\<open>State.\<close>  \<open>Store.db\<close> is the database as the services see it: one list of records per table, in
  insertion order, and the environment (the clock, the stream of fresh identifiers, SHA-256).
  An operation takes the state and returns \<open>error + result \<times> state\<close>: an exception rolls the
  transaction back, so an error carries no state.  Only the columns a modelled service reads or
  writes are kept.  A query is a filter and a sort of the table's list.  Timestamps are
  \<open>PyTime.datetime\<close> (naive or aware, microseconds), amounts are rationals (Decimal), texts are
  lists of ASCII characters, JSON is the datatype \<open>PyText.json\<close>.

  \<^bold>\<open>Theories and what they model\<close> (under backend/app/, services/ unless another directory is named):
  \<^item> \<open>Prelude\<close>, \<open>PyText\<close>, \<open>PyTime\<close>: results, folds with errors, rows keyed by an attribute (locale
    \<open>row_store\<close>), Python's text and time operations.
  \<^item> \<open>Store\<close>: models/*.py, the tables; \<open>EventLog\<close>: locale of the append-only logs, interpreted on
    status history, archive history, presence history and audit trail.
  \<^item> \<open>AuditTrail\<close>: audit.py.  \<open>CollectionErrors\<close>: collection_errors.py.
  \<^item> \<open>Fingerprint\<close>: opportunity_fingerprint.py; the canonical text is decoded again to show that
    equal fingerprints mean equal opportunities.
  \<^item> \<open>Baselines\<close>, \<open>RunComparison\<close>: collection_comparison.py, opportunity_run_comparison.py.
  \<^item> \<open>Dashboard\<close>: dashboard_aggregation.py.  \<open>Ledger\<close>: finops_ledger.py.
    \<open>Saving\<close>: opportunity_saving_recognition.py.
  \<^item> \<open>Archiving\<close>, \<open>Lifecycle\<close>, \<open>Histories\<close>: opportunity_archiving.py, opportunity_lifecycle.py and
    what they append to the histories.
  \<^item> \<open>Presence\<close>: opportunity_reconciliation.py, opportunity_presence_history.py.
  \<^item> \<open>Retention\<close>: opportunity_retention.py.  \<open>ObservationCleanup\<close>: retention.py.
  \<^item> \<open>Cycles\<close>: opportunity_history.py (cycles, snapshots, listings); \<open>Calendar\<close>: the calendar
    arithmetic behind month cycles; \<open>Closing\<close>: what closing a cycle records.
  \<^item> \<open>Queries\<close>: opportunity_query.py (filters, listing, counts).  \<open>BulkArchiving\<close>, \<open>PeriodClose\<close>:
    opportunity_bulk_archiving.py.
  \<^item> \<open>ManagementPolicy\<close>: opportunity_policy.py, its schema and routes.  \<open>Timeline\<close>: the abstract
    timeline of cycles, which every operation on cycles refines (locale \<open>simulation\<close>).
  \<^item> \<open>Providers\<close>: provider_capabilities.py, core/cloud.py.
  \<^item> \<open>Scans\<close>: scan_queue.py, the queue part of worker.py, the executors' preparation and registry.
  \<^item> \<open>Collection\<close>: the persistence part of worker.py (findings, observations, scope executions).
    \<open>Worker\<close>: the execution of a claimed scan and the worker's round \<open>process_once\<close>; an executor's
    I/O is a parameter under \<open>io_contract\<close>.
  \<^item> \<open>Operations\<close>: all requests as one step relation and the invariant of the whole state.

  \<^item> \<open>RdsStore\<close>, \<open>RdsInventory\<close>: models/rds_inventory.py and rds_inventory.py, the inventory of RDS
    instances and reservations (locale \<open>described_table\<close>, interpreted on both tables).
  \<^item> \<open>RdsRules\<close>, \<open>RdsEngine\<close>: rds_reservation_rules.py and rds_reservation_engine.py, the matcher
    and the engine that covers instances by reservations (locale \<open>pooled\<close>, interpreted on the
    decisions of both phases): no unit is used twice and none that matches is left.

  \<^bold>\<open>How they interact.\<close>  The worker (\<open>process_once\<close>) schedules and claims a scan, runs an executor
  (a parameter), persists its items as findings and observations, which reactivates opportunities
  (\<open>Presence\<close>), reconciles the absent ones and rebuilds the account's summary (\<open>Dashboard\<close>).  A
  decision (\<open>Lifecycle\<close>) changes the finding, appends to its history and the audit trail, recognizes
  savings (\<open>Saving\<close>, \<open>Ledger\<close>) and refreshes the summaries; \<open>Retention\<close> archives in batches.  The
  management policy gives retention its terms, asks \<open>Cycles\<close> for the cycle of an instant and closes
  overdue cycles, whose snapshots freeze the opportunities observed in them; \<open>ObservationCleanup\<close>
  deletes old observations that neither a summary nor a comparison of runs still needs.

  \<^bold>\<open>Parameters.\<close>  Cloud I/O of the executors, SHA-256, zlib, base64, HMAC and the JSON parser are
  arguments of the definitions that use them, as are the time zone database (\<open>zones\<close>, under
  \<open>midnights_once\<close>) and the settings a process was started with; what is relied on is a named hypothesis of the
  property (for example \<open>no_collision\<close>, or that a decoder inverts its encoder).

  \<^bold>\<open>Bounds and fuel.\<close>  Two loops of the source have no syntactic bound.  The batch loop of
  \<open>Retention.archive_policy\<close> has one more than the number of findings as fuel, and \<open>retention_exact\<close>
  shows that a run always ends with a result.  The batch loop of \<open>ObservationCleanup.cleanup_loop\<close> is
  a function whose termination is proved: every batch that is not the last deletes an observation.

  \<^bold>\<open>RDS.\<close>  These theories stand beside the opportunities: the reconciled inventory is what the
  engine analyses.

  \<^bold>\<open>Not modelled.\<close>  Request parsing and authentication of the FastAPI routes (a route is modelled
  where it carries logic, as those of the policy and the listings do), provider SDK calls and the
  collectors built on them, the stages around the RDS engine (storing an analysis, billing
  validation, the findings made of it, whose texts render floating-point numbers), the cadences
  and advisory locks of worker_runtime.py, the evidence and dashboard pages, TLS and mail,
  logging, row locks and concurrent sessions (a run of the model is sequential), the TypeScript
  frontend.
\<close>

end
